(* ===== verification/Etl_Error.thy ===== *)
theory Etl_Error
  imports Etl_Prelude
begin

text \<open>
  The error type of the pipeline, \<open>crates/etl/src/error.rs\<close>, and the shared
  handling policy of \<open>crates/etl/src/workers/policy.rs\<close>.

  An \<open>EtlError\<close> is a single payload or an aggregation. The payload keeps the
  kind, the static description and the optional detail; the captured backtrace
  and the dynamically typed source error are diagnostics that no branch of the
  program reads, and the kinds compiled in by the \<open>failpoints\<close> feature are left
  out. Details built by \<open>format!\<close> are not modelled: callers in the other
  theories use \<open>etl_err\<close>, which has no detail.
\<close>

section \<open>Error kinds and errors\<close>

datatype error_kind =
    SourceConnectionFailed | DestinationConnectionFailed
  | SourceQueryFailed | DestinationQueryFailed | DestinationAtomicBatchRetryable
  | SourceLockTimeout | DestinationTimeout | SourceOperationCanceled
  | SourceSchemaError | MissingTableSchema | CorruptedTableSchema
  | DestinationTableNameInvalid | DestinationNamespaceAlreadyExists
  | DestinationTableAlreadyExists | DestinationNamespaceMissing | DestinationTableMissing
  | ConversionError | InvalidData | ValidationError
  | NullValuesNotSupportedInArrayInDestination | UnsupportedValueInDestination
  | ConfigError | SourceConfigurationLimitExceeded
  | IoError | SourceIoError | DestinationIoError | SerializationError | DeserializationError
  | EncryptionError | SourceAuthenticationError | DestinationAuthenticationError
  | PermissionDenied
  | InvalidState | ApplyWorkerPanic | ApplyWorkerCancelled
  | TableSyncWorkerPanic | TableSyncWorkerCancelled | StateRollbackError
  | ReplicationSlotNotFound | ReplicationSlotAlreadyExists | ReplicationSlotNotCreated
  | ReplicationSlotInvalidated | ReplicationSlotDeletionTimeout
  | SourceSnapshotTooOld | SourceDatabaseInRecovery | SourceDatabaseShutdown
  | SourceError | DestinationError
  | Unknown

datatype etl_error =
    Single (err_kind: error_kind) (err_description: string) (err_detail: "string option")
  | Many (err_list: "etl_error list")

type_synonym 'a etl_result = "(etl_error, 'a) result"

definition etl_err :: "error_kind \<Rightarrow> string \<Rightarrow> etl_error" where
  "etl_err k d = Single k d None"

fun kind :: "etl_error \<Rightarrow> error_kind" where
  "kind (Single k _ _) = k"
| "kind (Many []) = Unknown"
| "kind (Many (e # _)) = kind e"

fun kinds :: "etl_error \<Rightarrow> error_kind list" where
  "kinds (Single k _ _) = [k]"
| "kinds (Many es) = concat (map kinds es)"

fun description :: "etl_error \<Rightarrow> string option" where
  "description (Single _ d _) = Some d"
| "description (Many _) = None"

fun errors :: "etl_error \<Rightarrow> etl_error list option" where
  "errors (Single _ _ _) = None"
| "errors (Many es) = Some es"

fun find_map :: "('a \<Rightarrow> 'b option) \<Rightarrow> 'a list \<Rightarrow> 'b option" where
  "find_map f [] = None"
| "find_map f (x # xs) = (case f x of Some y \<Rightarrow> Some y | None \<Rightarrow> find_map f xs)"

lemma find_map_cong [fundef_cong]:
  "xs = ys \<Longrightarrow> (\<And>x. x \<in> set ys \<Longrightarrow> f x = g x) \<Longrightarrow> find_map f xs = find_map g ys"
  by (induction ys arbitrary: xs) (auto split: option.splits)

fun detail :: "etl_error \<Rightarrow> string option" where
  "detail (Single _ _ d) = d"
| "detail (Many es) = find_map detail es"

function error_eq :: "etl_error \<Rightarrow> etl_error \<Rightarrow> bool" where
  "error_eq (Single a _ _) (Single b _ _) = (a = b)"
| "error_eq (Many as) (Many bs) =
     (length as = length bs \<and> (\<forall>(a, b) \<in> set (zip as bs). error_eq a b))"
| "error_eq (Single _ _ _) (Many _) = False"
| "error_eq (Many _) (Single _ _ _) = False"
  by pat_completeness auto

termination
proof (relation "measure (size \<circ> fst)")
  fix as bs :: "etl_error list" and z a b
  assume "z \<in> set (zip as bs)" and "(a, b) = z"
  then have "a \<in> set as" by (auto dest: set_zip_leftD)
  then show "((a, b), (Many as, Many bs)) \<in> measure (size \<circ> fst)"
    by (simp add: less_Suc_eq_le size_list_estimation')
qed simp

definition from_errors :: "etl_error list \<Rightarrow> etl_error" where
  "from_errors es = (case es of [e] \<Rightarrow> e | _ \<Rightarrow> Many es)"

fun hash_input :: "etl_error \<Rightarrow> (nat + error_kind + string) list" where
  "hash_input (Single k d _) = [Inl 0, Inr (Inl k), Inr (Inr d)]"
| "hash_input (Many es) = Inl 1 # Inl (length es) # concat (map hash_input es)"

section \<open>Classification of database errors\<close>

text \<open>
  The \<open>SqlState\<close> constants are identified by their names; an error without an
  SQLSTATE is \<open>None\<close>.
\<close>

definition sqlstate_table_core :: "(string list \<times> error_kind \<times> string) list" where
  "sqlstate_table_core =
    [([''CONNECTION_EXCEPTION'', ''CONNECTION_DOES_NOT_EXIST'', ''CONNECTION_FAILURE'',
       ''SQLCLIENT_UNABLE_TO_ESTABLISH_SQLCONNECTION'',
       ''SQLSERVER_REJECTED_ESTABLISHMENT_OF_SQLCONNECTION''],
      SourceConnectionFailed, ''PostgreSQL connection failed''),
     ([''INVALID_AUTHORIZATION_SPECIFICATION'', ''INVALID_PASSWORD''],
      SourceAuthenticationError, ''PostgreSQL authentication failed''),
     ([''INTEGRITY_CONSTRAINT_VIOLATION'', ''NOT_NULL_VIOLATION'',
       ''FOREIGN_KEY_VIOLATION'', ''UNIQUE_VIOLATION'', ''CHECK_VIOLATION''],
      ValidationError, ''PostgreSQL constraint violation''),
     ([''DATA_EXCEPTION'', ''INVALID_TEXT_REPRESENTATION'', ''INVALID_DATETIME_FORMAT'',
       ''NUMERIC_VALUE_OUT_OF_RANGE'', ''DIVISION_BY_ZERO''],
      ConversionError, ''PostgreSQL data conversion failed''),
     ([''UNDEFINED_TABLE'', ''UNDEFINED_COLUMN'', ''UNDEFINED_FUNCTION'',
       ''UNDEFINED_SCHEMA''],
      SourceSchemaError, ''PostgreSQL schema object not found''),
     ([''SYNTAX_ERROR'', ''SYNTAX_ERROR_OR_ACCESS_RULE_VIOLATION'',
       ''INSUFFICIENT_PRIVILEGE''],
      SourceQueryFailed, ''PostgreSQL syntax or access error''),
     ([''INSUFFICIENT_RESOURCES'', ''OUT_OF_MEMORY'', ''TOO_MANY_CONNECTIONS''],
      SourceConnectionFailed, ''PostgreSQL resource limitation''),
     ([''TRANSACTION_ROLLBACK'', ''T_R_SERIALIZATION_FAILURE'', ''T_R_DEADLOCK_DETECTED'',
       ''INVALID_TRANSACTION_STATE''],
      InvalidState, ''PostgreSQL transaction failed''),
     ([''SYSTEM_ERROR'', ''INTERNAL_ERROR''],
      SourceQueryFailed, ''PostgreSQL system error''),
     ([''IO_ERROR''],
      SourceIoError, ''PostgreSQL I/O error''),
     ([''OPERATOR_INTERVENTION''],
      SourceOperationCanceled, ''PostgreSQL operation canceled''),
     ([''QUERY_CANCELED''],
      SourceOperationCanceled, ''PostgreSQL query canceled''),
     ([''ADMIN_SHUTDOWN''],
      SourceDatabaseShutdown, ''PostgreSQL administrative shutdown''),
     ([''CRASH_SHUTDOWN''],
      SourceDatabaseShutdown, ''PostgreSQL crash shutdown''),
     ([''CANNOT_CONNECT_NOW''],
      SourceDatabaseInRecovery, ''PostgreSQL database in recovery''),
     ([''DATABASE_DROPPED''],
      SourceSchemaError, ''PostgreSQL database dropped''),
     ([''IDLE_SESSION_TIMEOUT''],
      SourceConnectionFailed, ''PostgreSQL idle session timeout''),
     ([''OBJECT_NOT_IN_PREREQUISITE_STATE''],
      InvalidState, ''PostgreSQL object not in prerequisite state''),
     ([''OBJECT_IN_USE''],
      InvalidState, ''PostgreSQL object in use''),
     ([''LOCK_NOT_AVAILABLE''],
      SourceLockTimeout, ''PostgreSQL lock not available''),
     ([''PROGRAM_LIMIT_EXCEEDED'', ''STATEMENT_TOO_COMPLEX'', ''TOO_MANY_COLUMNS'',
       ''TOO_MANY_ARGUMENTS''],
      SourceQueryFailed, ''PostgreSQL program limit exceeded''),
     ([''DISK_FULL''],
      SourceIoError, ''PostgreSQL disk full''),
     ([''CONFIGURATION_LIMIT_EXCEEDED''],
      SourceConfigurationLimitExceeded, ''PostgreSQL configuration limit exceeded''),
     ([''ACTIVE_SQL_TRANSACTION'', ''NO_ACTIVE_SQL_TRANSACTION'',
       ''IN_FAILED_SQL_TRANSACTION'', ''IDLE_IN_TRANSACTION_SESSION_TIMEOUT''],
      InvalidState, ''PostgreSQL transaction state error''),
     ([''INVALID_CURSOR_STATE'', ''INVALID_CURSOR_NAME''],
      InvalidState, ''PostgreSQL cursor error''),
     ([''DATA_CORRUPTED'', ''INDEX_CORRUPTED''],
      SourceIoError, ''PostgreSQL data corruption''),
     ([''CONFIG_FILE_ERROR'', ''LOCK_FILE_EXISTS''],
      ConfigError, ''PostgreSQL configuration error''),
     ([''FEATURE_NOT_SUPPORTED''],
      SourceSchemaError, ''PostgreSQL feature not supported''),
     ([''INVALID_TRANSACTION_INITIATION''],
      InvalidState, ''PostgreSQL invalid transaction initiation''),
     ([''DEPENDENT_PRIVILEGE_DESCRIPTORS_STILL_EXIST'', ''DEPENDENT_OBJECTS_STILL_EXIST''],
      InvalidState, ''PostgreSQL dependent objects exist'')]"

definition sqlstate_table_extended :: "(string list \<times> error_kind \<times> string) list" where
  "sqlstate_table_extended =
    [([''SQL_ROUTINE_EXCEPTION'', ''S_R_E_FUNCTION_EXECUTED_NO_RETURN_STATEMENT'',
       ''S_R_E_MODIFYING_SQL_DATA_NOT_PERMITTED'',
       ''S_R_E_PROHIBITED_SQL_STATEMENT_ATTEMPTED'',
       ''S_R_E_READING_SQL_DATA_NOT_PERMITTED''],
      SourceQueryFailed, ''PostgreSQL routine exception''),
     ([''EXTERNAL_ROUTINE_EXCEPTION'', ''E_R_E_CONTAINING_SQL_NOT_PERMITTED'',
       ''E_R_E_MODIFYING_SQL_DATA_NOT_PERMITTED'',
       ''E_R_E_PROHIBITED_SQL_STATEMENT_ATTEMPTED'',
       ''E_R_E_READING_SQL_DATA_NOT_PERMITTED'', ''EXTERNAL_ROUTINE_INVOCATION_EXCEPTION'',
       ''E_R_I_E_INVALID_SQLSTATE_RETURNED'', ''E_R_I_E_NULL_VALUE_NOT_ALLOWED'',
       ''E_R_I_E_TRIGGER_PROTOCOL_VIOLATED'', ''E_R_I_E_SRF_PROTOCOL_VIOLATED'',
       ''E_R_I_E_EVENT_TRIGGER_PROTOCOL_VIOLATED''],
      SourceQueryFailed, ''PostgreSQL external routine error''),
     ([''PLPGSQL_ERROR'', ''RAISE_EXCEPTION'', ''NO_DATA_FOUND'', ''TOO_MANY_ROWS'',
       ''ASSERT_FAILURE''],
      SourceQueryFailed, ''PostgreSQL PL/pgSQL error''),
     ([''FDW_ERROR'', ''FDW_UNABLE_TO_ESTABLISH_CONNECTION''],
      SourceConnectionFailed, ''PostgreSQL FDW connection failed''),
     ([''FDW_SCHEMA_NOT_FOUND'', ''FDW_TABLE_NOT_FOUND'', ''FDW_COLUMN_NAME_NOT_FOUND'',
       ''FDW_INVALID_COLUMN_NAME'', ''FDW_NO_SCHEMAS''],
      SourceSchemaError, ''PostgreSQL FDW schema error''),
     ([''FDW_INVALID_DATA_TYPE'', ''FDW_INVALID_DATA_TYPE_DESCRIPTORS'',
       ''FDW_INVALID_STRING_FORMAT''],
      ConversionError, ''PostgreSQL FDW data type error''),
     ([''FDW_OUT_OF_MEMORY''],
      SourceConnectionFailed, ''PostgreSQL FDW out of memory''),
     ([''FDW_DYNAMIC_PARAMETER_VALUE_NEEDED'', ''FDW_FUNCTION_SEQUENCE_ERROR'',
       ''FDW_INCONSISTENT_DESCRIPTOR_INFORMATION'', ''FDW_INVALID_ATTRIBUTE_VALUE'',
       ''FDW_INVALID_COLUMN_NUMBER'', ''FDW_INVALID_DESCRIPTOR_FIELD_IDENTIFIER'',
       ''FDW_INVALID_HANDLE'', ''FDW_INVALID_OPTION_INDEX'', ''FDW_INVALID_OPTION_NAME'',
       ''FDW_INVALID_STRING_LENGTH_OR_BUFFER_LENGTH'', ''FDW_INVALID_USE_OF_NULL_POINTER'',
       ''FDW_TOO_MANY_HANDLES'', ''FDW_OPTION_NAME_NOT_FOUND'', ''FDW_REPLY_HANDLE'',
       ''FDW_UNABLE_TO_CREATE_EXECUTION'', ''FDW_UNABLE_TO_CREATE_REPLY''],
      SourceQueryFailed, ''PostgreSQL FDW operation error''),
     ([''SNAPSHOT_TOO_OLD''],
      SourceSnapshotTooOld, ''PostgreSQL snapshot too old''),
     ([''ARRAY_ELEMENT_ERROR''],
      ConversionError, ''PostgreSQL array error''),
     ([''NOT_AN_XML_DOCUMENT'', ''INVALID_XML_DOCUMENT'', ''INVALID_XML_CONTENT'',
       ''INVALID_XML_COMMENT'', ''INVALID_XML_PROCESSING_INSTRUCTION'',
       ''DUPLICATE_JSON_OBJECT_KEY_VALUE'',
       ''INVALID_ARGUMENT_FOR_SQL_JSON_DATETIME_FUNCTION'', ''INVALID_JSON_TEXT'',
       ''INVALID_SQL_JSON_SUBSCRIPT'', ''MORE_THAN_ONE_SQL_JSON_ITEM'',
       ''NO_SQL_JSON_ITEM'', ''NON_NUMERIC_SQL_JSON_ITEM'',
       ''NON_UNIQUE_KEYS_IN_A_JSON_OBJECT'', ''SINGLETON_SQL_JSON_ITEM_REQUIRED'',
       ''SQL_JSON_ARRAY_NOT_FOUND'', ''SQL_JSON_MEMBER_NOT_FOUND'',
       ''SQL_JSON_NUMBER_NOT_FOUND'', ''SQL_JSON_OBJECT_NOT_FOUND'',
       ''TOO_MANY_JSON_ARRAY_ELEMENTS'', ''TOO_MANY_JSON_OBJECT_MEMBERS'',
       ''SQL_JSON_SCALAR_REQUIRED'', ''SQL_JSON_ITEM_CANNOT_BE_CAST_TO_TARGET_TYPE''],
      ConversionError, ''PostgreSQL XML/JSON error'')]"

definition lookup_sqlstate ::
    "(string list \<times> error_kind \<times> string) list \<Rightarrow> string \<Rightarrow> (error_kind \<times> string) option" where
  "lookup_sqlstate tab s = find_map (\<lambda>(names, r). if s \<in> set names then Some r else None) tab"

definition classify_postgres_error :: "string option \<Rightarrow> error_kind \<times> string" where
  "classify_postgres_error code = (case code of
       None \<Rightarrow> (SourceConnectionFailed, ''PostgreSQL connection failed'')
     | Some s \<Rightarrow> (case lookup_sqlstate (sqlstate_table_core @ sqlstate_table_extended) s of
           Some r \<Rightarrow> r
         | None \<Rightarrow> (SourceError, ''PostgreSQL error'')))"

definition from_postgres_error :: "string option \<Rightarrow> string \<Rightarrow> etl_error" where
  "from_postgres_error code text =
     (let (k, d) = classify_postgres_error code in Single k d (Some text))"

datatype sqlx_error = SqlxDatabase | SqlxIo | SqlxPoolClosed | SqlxPoolTimedOut | SqlxOther

definition from_sqlx_error :: "sqlx_error \<Rightarrow> string \<Rightarrow> etl_error" where
  "from_sqlx_error err text =
     (let k = (case err of
          SqlxDatabase \<Rightarrow> SourceQueryFailed
        | SqlxIo \<Rightarrow> IoError
        | SqlxPoolClosed \<Rightarrow> SourceConnectionFailed
        | SqlxPoolTimedOut \<Rightarrow> SourceConnectionFailed
        | SqlxOther \<Rightarrow> SourceQueryFailed)
      in Single k ''Database operation failed'' (Some text))"

section \<open>The shared error handling policy\<close>

datatype retry_directive = Timed | Manual | NoRetryDirective

record error_handling_policy =
  policy_directive :: retry_directive
  policy_solution :: "string option"

definition should_retry :: "error_handling_policy \<Rightarrow> bool" where
  "should_retry p = (policy_directive p = Timed)"

definition build_error_handling_policy :: "etl_error \<Rightarrow> error_handling_policy" where
  "build_error_handling_policy e = (case kind e of
      SourceConnectionFailed \<Rightarrow> \<lparr> policy_directive = Timed, policy_solution = None \<rparr>
    | DestinationConnectionFailed \<Rightarrow> \<lparr> policy_directive = Timed, policy_solution = None \<rparr>
    | DestinationAtomicBatchRetryable \<Rightarrow> \<lparr> policy_directive = Timed, policy_solution = None \<rparr>
    | DestinationTimeout \<Rightarrow> \<lparr> policy_directive = Timed, policy_solution = None \<rparr>
    | SourceDatabaseShutdown \<Rightarrow> \<lparr> policy_directive = Timed, policy_solution = None \<rparr>
    | SourceDatabaseInRecovery \<Rightarrow> \<lparr> policy_directive = Timed, policy_solution = None \<rparr>
    | SourceAuthenticationError \<Rightarrow> \<lparr> policy_directive = Manual, policy_solution =
        Some ''Verify source database credentials and authentication token validity.'' \<rparr>
    | DestinationAuthenticationError \<Rightarrow> \<lparr> policy_directive = Manual, policy_solution =
        Some ''Verify destination credentials and authentication token validity.'' \<rparr>
    | SourceSchemaError \<Rightarrow> \<lparr> policy_directive = Manual, policy_solution =
        Some ''Update the Postgres database schema to resolve compatibility issues.'' \<rparr>
    | NullValuesNotSupportedInArrayInDestination \<Rightarrow> \<lparr> policy_directive = Manual, policy_solution =
        Some ''Remove NULL values from array columns in the Postgres tables.'' \<rparr>
    | UnsupportedValueInDestination \<Rightarrow> \<lparr> policy_directive = Manual, policy_solution =
        Some (''Update the value in the Postgres table to make sure it'' @ [CHR 0x27] @
              ''s compatible.'') \<rparr>
    | SourceConfigurationLimitExceeded \<Rightarrow> \<lparr> policy_directive = Manual, policy_solution =
        Some (''Verify the configured limits for Postgres, for example, the maximum number of '' @
              ''replication slots.'') \<rparr>
    | ReplicationSlotNotCreated \<Rightarrow> \<lparr> policy_directive = Manual, policy_solution =
        Some ''Verify the Postgres database allows creation of new replication slots.'' \<rparr>
    | SourceSnapshotTooOld \<Rightarrow> \<lparr> policy_directive = Manual, policy_solution =
        Some ''Check replication slot status and database configuration.'' \<rparr>
    | TableSyncWorkerPanic \<Rightarrow> \<lparr> policy_directive = Manual, policy_solution =
        Some ''Inspect the table sync worker panic logs and manually retry the table.'' \<rparr>
    | _ \<Rightarrow> \<lparr> policy_directive = Manual, policy_solution =
        Some (''There is no single prescribed solution for this error. The issue may still be '' @
              ''recoverable with manual intervention based on the specific context. If it '' @
              ''persists after rollback and targeted fixes, please contact support.'') \<rparr>)"

section \<open>Lemmas\<close>

lemma kind_etl_err [simp]: "kind (etl_err k d) = k"
  by (simp add: etl_err_def)

lemma kinds_etl_err [simp]: "kinds (etl_err k d) = [k]"
  by (simp add: etl_err_def)

lemma kinds_from_errors: "kinds (from_errors es) = concat (map kinds es)"
  by (cases es rule: remdups_adj.cases) (simp_all add: from_errors_def)

lemma kind_from_errors_Cons: "kind (from_errors (e # es)) = kind e"
  by (cases es) (simp_all add: from_errors_def)

end
