(* ===== verification/Numeric.thy ===== *)
theory Numeric
  imports Etl_Error Complex_Main
begin

text \<open>
  Postgres \<open>numeric\<close> values, \<open>etl/src/conversions/numeric.rs\<close>: the binary wire
  format, the text parser and the conversion of decimal digits to base 10000.
  A text is a sequence of bytes; the white space it may be wrapped in is the
  ASCII one. The intermediate \<open>i32\<close> weights are integers here: they stay within
  32 bits for every text shorter than a gigabyte, because the exponent is
  checked against half of that range.
\<close>

datatype sign = Positive | Negative

datatype pg_numeric =
    NaN
  | PositiveInfinity
  | NegativeInfinity
  | NumValue sign int nat "int list"

datatype parse_numeric_error = InvalidSyntax | ValueOutOfRange

section \<open>Binary format\<close>

definition u16_bytes :: "nat \<Rightarrow> 8 word list" where
  "u16_bytes n = [of_nat (n div 256), of_nat (n mod 256)]"

definition i16_bytes :: "int \<Rightarrow> 8 word list" where
  "i16_bytes i = u16_bytes (nat (i mod 65536))"

fun read_u16 :: "8 word list \<Rightarrow> (nat \<times> 8 word list) option" where
  "read_u16 (a # b # rest) = Some (unat a * 256 + unat b, rest)"
| "read_u16 _ = None"

definition read_i16 :: "8 word list \<Rightarrow> (int \<times> 8 word list) option" where
  "read_i16 bs = map_option (\<lambda>(n, rest). (if n < 32768 then int n else int n - 65536, rest)) (read_u16 bs)"

fun read_i16s :: "nat \<Rightarrow> 8 word list \<Rightarrow> int list option" where
  "read_i16s 0 bs = Some []"
| "read_i16s (Suc n) bs = Option.bind (read_i16 bs) (\<lambda>(d, rest).
     map_option ((#) d) (read_i16s n rest))"

fun sign_code :: "sign \<Rightarrow> nat" where
  "sign_code Positive = 0x0000"
| "sign_code Negative = 0x4000"

definition sign_of_code :: "nat \<Rightarrow> sign option" where
  "sign_of_code v = (if v = 0x0000 then Some Positive else if v = 0x4000 then Some Negative else None)"

definition to_sql :: "pg_numeric \<Rightarrow> 8 word list option" where
  "to_sql n =
     (let (sg, weight, scale, digits) = (case n of
            NaN \<Rightarrow> (0xC000, 0, 0, [])
          | PositiveInfinity \<Rightarrow> (0xD000, 0, 0, [])
          | NegativeInfinity \<Rightarrow> (0xF000, 0, 0, [])
          | NumValue s w sc ds \<Rightarrow> (sign_code s, w, sc, ds))
      in if length digits < 65536
         then Some (u16_bytes (length digits) @ i16_bytes weight @ u16_bytes sg @ u16_bytes scale
                    @ concat (map i16_bytes digits))
         else None)"

definition from_sql :: "8 word list \<Rightarrow> pg_numeric option" where
  "from_sql raw =
     Option.bind (read_u16 raw) (\<lambda>(num_digits, bs).
     Option.bind (read_i16 bs) (\<lambda>(weight, bs).
     Option.bind (read_u16 bs) (\<lambda>(sg, bs).
     case sign_of_code sg of
       None \<Rightarrow> if sg = 0xC000 then Some NaN
               else if sg = 0xD000 then Some PositiveInfinity
               else if sg = 0xF000 then Some NegativeInfinity
               else None
     | Some s \<Rightarrow>
         Option.bind (read_u16 bs) (\<lambda>(scale, bs).
         map_option (NumValue s weight scale) (read_i16s num_digits bs)))))"

section \<open>Text format\<close>

definition is_digit :: "char \<Rightarrow> bool" where
  "is_digit c \<longleftrightarrow> 48 \<le> (of_char c :: nat) \<and> (of_char c :: nat) \<le> 57"

definition digit_value :: "char \<Rightarrow> nat" where
  "digit_value c = of_char c - 48"

definition is_whitespace :: "char \<Rightarrow> bool" where
  "is_whitespace c \<longleftrightarrow> (of_char c :: nat) \<in> {9, 10, 11, 12, 13, 32}"

definition to_lower :: "char \<Rightarrow> char" where
  "to_lower c = (if 65 \<le> (of_char c :: nat) \<and> (of_char c :: nat) \<le> 90 then char_of ((of_char c :: nat) + 32) else c)"

definition skip_whitespace :: "string \<Rightarrow> string" where
  "skip_whitespace cs = dropWhile is_whitespace cs"

definition trim_end :: "string \<Rightarrow> string" where
  "trim_end cs = rev (dropWhile is_whitespace (rev cs))"

fun starts_with_digit :: "string \<Rightarrow> bool" where
  "starts_with_digit (c # _) = is_digit c"
| "starts_with_digit [] = False"

definition parse_special_value :: "string \<Rightarrow> sign \<Rightarrow> bool \<Rightarrow> (parse_numeric_error, pg_numeric) result" where
  "parse_special_value cs sg explicit =
     (let low = map to_lower (trim_end cs) in
      if low = ''nan'' then (if explicit then Inl InvalidSyntax else Inr NaN)
      else if low = ''infinity'' \<or> low = ''inf''
      then Inr (case sg of Positive \<Rightarrow> PositiveInfinity | Negative \<Rightarrow> NegativeInfinity)
      else Inl InvalidSyntax)"

text \<open>The digit loop: digits so far, whether the point was seen, decimal weight and scale.\<close>

fun parse_digits :: "string \<Rightarrow> bool \<Rightarrow> nat list \<Rightarrow> int \<Rightarrow> nat
    \<Rightarrow> (parse_numeric_error, nat list \<times> int \<times> nat \<times> string) result" where
  "parse_digits [] point ds dweight dscale = Inr (ds, dweight, dscale, [])"
| "parse_digits (c # cs) point ds dweight dscale =
     (if is_digit c then
        if \<not> point then parse_digits cs point (ds @ [digit_value c]) (dweight + 1) dscale
        else parse_digits cs point (ds @ [digit_value c]) dweight (dscale + 1)
      else if c = CHR ''.'' then
        if point then Inl InvalidSyntax
        else if (case cs of [] \<Rightarrow> False | c' # _ \<Rightarrow> c' = CHR ''_'') then Inl InvalidSyntax
        else parse_digits cs True ds dweight dscale
      else if c = CHR ''_'' then
        if starts_with_digit cs then parse_digits cs point ds dweight dscale else Inl InvalidSyntax
      else Inr (ds, dweight, dscale, c # cs))"

fun parse_exponent :: "string \<Rightarrow> int \<Rightarrow> (parse_numeric_error, int \<times> string) result" where
  "parse_exponent [] e = Inr (e, [])"
| "parse_exponent (c # cs) e =
     (if is_digit c then
        let e' = e * 10 + int (digit_value c) in
        if e' > 2147483647 div 2 then Inl ValueOutOfRange else parse_exponent cs e'
      else if c = CHR ''_'' then
        if starts_with_digit cs then parse_exponent cs e else Inl InvalidSyntax
      else Inr (e, c # cs))"

fun strip_leading_zeros :: "int list \<Rightarrow> int list" where
  "strip_leading_zeros (d # ds) = (if d = 0 \<and> ds \<noteq> [] then strip_leading_zeros ds else d # ds)"
| "strip_leading_zeros [] = []"

definition strip_trailing_zeros :: "int list \<Rightarrow> int list" where
  "strip_trailing_zeros ds = rev (strip_leading_zeros (rev ds))"

fun base_10000_chunks :: "nat list \<Rightarrow> int list" where
  "base_10000_chunks [] = []"
| "base_10000_chunks ds =
     foldl (\<lambda>acc d. acc * 10 + int d) 0 (take 4 ds) # base_10000_chunks (drop 4 ds)"

definition convert_to_base_10000 ::
    "nat list \<Rightarrow> int \<Rightarrow> nat \<Rightarrow> sign \<Rightarrow> (parse_numeric_error, pg_numeric) result" where
  "convert_to_base_10000 ds dweight dscale sg =
     (if dscale \<ge> 65536 then Inl ValueOutOfRange
      else if ds = [] then Inr (NumValue Positive 0 dscale [])
      else let
        weight = (if dweight \<ge> 0 then (dweight + 4) div 4 - 1 else - ((- dweight - 1) div 4 + 1));
        offset = (weight + 1) * 4 - (dweight + 1);
        ndigits = (int (length ds) + offset + 3) div 4;
        padded = replicate (nat offset) 0 @ ds @ replicate (nat (ndigits * 4) - nat offset - length ds) 0;
        base = base_10000_chunks padded
      in if list_all (\<lambda>d. d = 0) base then Inr (NumValue Positive 0 dscale [])
         else let
           leading = int (length (takeWhile (\<lambda>d. d = 0) base));
           digits = strip_trailing_zeros (strip_leading_zeros base);
           final_weight = weight - leading
         in if - 32768 \<le> final_weight \<and> final_weight \<le> 32767
            then Inr (NumValue sg final_weight dscale digits)
            else Inl ValueOutOfRange)"

definition parse_numeric_value :: "string \<Rightarrow> sign \<Rightarrow> (parse_numeric_error, pg_numeric) result" where
  "parse_numeric_value cs sg =
     (let point = (case cs of [] \<Rightarrow> False | c # _ \<Rightarrow> c = CHR ''.'');
          cs1 = (if point then tl cs else cs)
      in if \<not> starts_with_digit cs1 then Inl InvalidSyntax
      else res_bind (parse_digits cs1 point [] (- 1) 0) (\<lambda>(ds, dweight, dscale, cs2).
        res_bind
          (if (case cs2 of [] \<Rightarrow> False | c # _ \<Rightarrow> c = CHR ''e'' \<or> c = CHR ''E'') then
             let cs3 = tl cs2;
                 negative = (case cs3 of [] \<Rightarrow> False | c # _ \<Rightarrow> c = CHR ''-'');
                 cs4 = (case cs3 of [] \<Rightarrow> [] | c # r \<Rightarrow> if c = CHR ''+'' \<or> c = CHR ''-'' then r else cs3)
             in if \<not> starts_with_digit cs4 then Inl InvalidSyntax
                else res_bind (parse_exponent cs4 0) (\<lambda>(e, cs5).
                  let e' = (if negative then - e else e)
                  in Inr (dweight + e', if int dscale - e' < 0 then 0 else nat (int dscale - e'), cs5))
           else Inr (dweight, dscale, cs2))
          (\<lambda>(dweight', dscale', rest).
             if skip_whitespace rest \<noteq> [] then Inl InvalidSyntax
             else if dscale' > 16383 then Inl ValueOutOfRange
             else convert_to_base_10000 ds dweight' dscale' sg)))"

definition parse_numeric :: "string \<Rightarrow> (parse_numeric_error, pg_numeric) result" where
  "parse_numeric input =
     (case skip_whitespace input of
        [] \<Rightarrow> Inl InvalidSyntax
      | c # cs \<Rightarrow>
          let sg = (if c = CHR ''-'' then Negative else Positive);
              explicit = (c = CHR ''+'' \<or> c = CHR ''-'');
              rest = (if explicit then cs else c # cs)
          in if starts_with_digit rest \<or> (case rest of [] \<Rightarrow> False | c' # _ \<Rightarrow> c' = CHR ''.'')
             then parse_numeric_value rest sg
             else parse_special_value rest sg explicit)"

section \<open>Lemmas: binary format\<close>

definition i16_ok :: "int \<Rightarrow> bool" where
  "i16_ok i \<longleftrightarrow> - 32768 \<le> i \<and> i < 32768"

fun numeric_ok :: "pg_numeric \<Rightarrow> bool" where
  "numeric_ok (NumValue s w sc ds) \<longleftrightarrow> i16_ok w \<and> sc < 65536 \<and> length ds < 65536 \<and> (\<forall>d \<in> set ds. i16_ok d)"
| "numeric_ok _ \<longleftrightarrow> True"

lemma read_u16_bytes: "n < 65536 \<Longrightarrow> read_u16 (u16_bytes n @ rest) = Some (n, rest)"
  by (simp add: u16_bytes_def take_bit_eq_mod unsigned_of_nat)

lemma read_i16_bytes: "i16_ok i \<Longrightarrow> read_i16 (i16_bytes i @ rest) = Some (i, rest)"
proof -
  assume ok: "i16_ok i"
  then have "nat (i mod 65536) < 65536" by (simp add: nat_less_iff)
  moreover have "int (nat (i mod 65536)) = (if i < 0 then i + 65536 else i)"
    using ok by (auto simp: i16_ok_def mod_pos_pos_trivial) (smt (verit) mod_add_self2 mod_pos_pos_trivial)
  ultimately show ?thesis
    using ok by (auto simp: read_i16_def i16_bytes_def read_u16_bytes i16_ok_def)
qed

lemma read_i16s_bytes:
  "\<forall>d \<in> set ds. i16_ok d \<Longrightarrow> read_i16s (length ds) (concat (map i16_bytes ds)) = Some ds"
  by (induction ds) (auto simp: read_i16_bytes)

lemma from_sql_to_sql:
  assumes "numeric_ok n"
  shows "\<exists>bs. to_sql n = Some bs \<and> from_sql bs = Some n"
proof (cases n)
  case (NumValue s w sc ds)
  then have ok: "i16_ok w" "sc < 65536" "length ds < 65536" "\<forall>d \<in> set ds. i16_ok d" using assms by simp_all
  have "sign_code s < 65536" "sign_of_code (sign_code s) = Some s"
    by (cases s; simp add: sign_of_code_def)+
  with ok NumValue show ?thesis
    by (simp add: to_sql_def from_sql_def read_u16_bytes read_i16_bytes read_i16s_bytes)
qed (simp_all add: to_sql_def from_sql_def read_u16_bytes read_i16_bytes i16_ok_def sign_of_code_def)

section \<open>Lemmas: the value of a numeric\<close>

definition horner :: "int \<Rightarrow> int list \<Rightarrow> int" where
  "horner b ds = foldl (\<lambda>acc d. acc * b + d) 0 ds"

text \<open>The number a decimal digit sequence with the given weight of its first digit stands for.\<close>

definition decimal_value :: "nat list \<Rightarrow> int \<Rightarrow> real" where
  "decimal_value ds dweight = of_int (horner 10 (map int ds)) * 10 powi (dweight + 1 - int (length ds))"

fun numeric_value :: "pg_numeric \<Rightarrow> real" where
  "numeric_value (NumValue s w sc ds) =
     (case s of Positive \<Rightarrow> 1 | Negative \<Rightarrow> - 1) * of_int (horner 10000 ds) * 10000 powi (w + 1 - int (length ds))"
| "numeric_value _ = 0"

lemma foldl_horner: "foldl (\<lambda>acc d. acc * b + d) a ds = a * b ^ length ds + horner b ds" for a b :: int
proof (induction ds arbitrary: a)
  case (Cons d ds)
  show ?case using Cons.IH [of "a * b + d"] Cons.IH [of d] by (simp add: horner_def algebra_simps)
qed (simp add: horner_def)

lemma horner_simps [simp]:
  "horner b [] = 0"
  "horner b (d # ds) = d * b ^ length ds + horner b ds"
  "horner b (xs @ ys) = horner b xs * b ^ length ys + horner b ys"
proof -
  show "horner b (d # ds) = d * b ^ length ds + horner b ds"
    using foldl_horner [of b d ds] by (simp add: horner_def)
  show "horner b (xs @ ys) = horner b xs * b ^ length ys + horner b ys"
    using foldl_horner [of b "horner b xs" ys] by (simp add: horner_def)
qed (simp add: horner_def)

lemma horner_zeros [simp]: "horner b (replicate n 0) = 0"
  by (induction n) auto

lemma horner_all_zero: "\<forall>d \<in> set ds. d = 0 \<Longrightarrow> horner b ds = 0"
  by (induction ds) auto

lemma horner_nonneg: "\<forall>d \<in> set ds. 0 \<le> d \<Longrightarrow> 0 \<le> b \<Longrightarrow> 0 \<le> horner b ds"
  by (induction ds) auto

lemma length_chunks: "length ds = 4 * n \<Longrightarrow> length (base_10000_chunks ds) = n"
proof (induction ds arbitrary: n rule: base_10000_chunks.induct)
  case (2 d ds)
  then obtain m where "n = Suc m" by (cases n) auto
  with 2 show ?case by simp
qed simp

lemma horner_chunks: "length ds = 4 * n \<Longrightarrow> horner 10000 (base_10000_chunks ds) = horner 10 (map int ds)"
proof (induction ds arbitrary: n rule: base_10000_chunks.induct)
  case (2 d ds)
  then obtain m where n: "n = Suc m" by (cases n) auto
  let ?x = "d # ds"
  have len: "length (drop 4 ?x) = 4 * m" using 2(2) n by simp
  have "foldl (\<lambda>acc d. acc * 10 + int d) 0 (take 4 ?x) = horner 10 (map int (take 4 ?x))"
    by (simp add: horner_def foldl_map)
  moreover have "horner 10 (map int ?x) = horner 10 (map int (take 4 ?x) @ map int (drop 4 ?x))"
    by (simp only: map_append [symmetric] append_take_drop_id)
  moreover have "(10000 :: int) ^ m = 10 ^ (4 * m)" by (simp add: power_mult)
  ultimately show ?case
    using 2(1) [OF len] len length_chunks [OF len] by (simp add: algebra_simps power_add)
qed simp

lemma horner_digits_bound:
  "\<forall>d \<in> set ds. d < 10 \<Longrightarrow> 0 \<le> horner 10 (map int ds) \<and> horner 10 (map int ds) < 10 ^ length ds"
proof (induction ds)
  case (Cons d ds)
  then have "int d * 10 ^ length ds \<le> 9 * 10 ^ length ds" by (intro mult_right_mono) auto
  moreover have "0 \<le> horner 10 (map int ds)" "horner 10 (map int ds) < 10 ^ length ds" using Cons by simp_all
  ultimately have "int d * 10 ^ length ds + horner 10 (map int ds) < 10 * 10 ^ length ds" by linarith
  with \<open>0 \<le> horner 10 (map int ds)\<close> show ?case by simp
qed simp

lemma chunks_bound:
  "\<forall>d \<in> set ds. d < 10 \<Longrightarrow> c \<in> set (base_10000_chunks ds) \<Longrightarrow> 0 \<le> c \<and> c < 10000"
proof (induction ds rule: base_10000_chunks.induct)
  case (2 d ds)
  let ?x = "d # ds"
  have "\<forall>d \<in> set (take 4 ?x). d < 10" using 2(2) by (meson in_set_takeD)
  from horner_digits_bound [OF this]
  have "0 \<le> horner 10 (map int (take 4 ?x))" "horner 10 (map int (take 4 ?x)) < 10 ^ length (take 4 ?x)" by blast+
  moreover have "(10 :: int) ^ length (take 4 ?x) \<le> 10 ^ 4" by (rule power_increasing) simp_all
  ultimately have "0 \<le> horner 10 (map int (take 4 ?x)) \<and> horner 10 (map int (take 4 ?x)) < 10000" by simp
  moreover have "foldl (\<lambda>acc d. acc * 10 + int d) 0 (take 4 ?x) = horner 10 (map int (take 4 ?x))"
    by (simp add: horner_def foldl_map)
  moreover have "\<forall>d \<in> set (drop 4 ?x). d < 10" using 2(2) by (meson in_set_dropD)
  ultimately show ?case using 2(1,3) by (auto simp del: take_Suc_Cons drop_Suc_Cons)
qed simp

lemma strip_leading_eq:
  "\<exists>d \<in> set ds. d \<noteq> 0 \<Longrightarrow> strip_leading_zeros ds = dropWhile (\<lambda>d. d = 0) ds"
  by (induction ds) auto

lemma horner_strip_leading:
  "horner b (dropWhile (\<lambda>d. d = 0) ds) = horner b ds"
  by (induction ds) auto

lemma rstrip:
  assumes "\<exists>d \<in> set ds. d \<noteq> 0"
  obtains k where "ds = strip_trailing_zeros ds @ replicate k 0" "strip_trailing_zeros ds \<noteq> []"
    "last (strip_trailing_zeros ds) \<noteq> 0"
proof -
  let ?z = "takeWhile (\<lambda>d. d = 0) (rev ds)" and ?r = "dropWhile (\<lambda>d. d = 0) (rev ds)"
  have r: "strip_trailing_zeros ds = rev ?r" using assms by (simp add: strip_trailing_zeros_def strip_leading_eq)
  have "replicate (length (rev ?z)) 0 = rev ?z" by (intro replicate_length_same) (auto dest: set_takeWhileD)
  then have z: "rev ?z = replicate (length ?z) 0" by (simp only: length_rev)
  have "ds = rev (?z @ ?r)" by simp
  also have "\<dots> = rev ?r @ replicate (length ?z) 0" unfolding rev_append z ..
  finally have "ds = rev ?r @ replicate (length ?z) 0" .
  moreover have ne: "?r \<noteq> []" using assms by (simp add: dropWhile_eq_Nil_conv)
  moreover have "hd ?r \<noteq> 0" using hd_dropWhile [OF ne] .
  ultimately show ?thesis using that [of "length ?z"] r by (simp add: last_rev)
qed

lemma powi_10000: "(10000 :: real) powi k = 10 powi (4 * k)"
  using power_int_mult [of "10 :: real" 4 k] by simp

text \<open>The groups of four digits, before leading and trailing zeros are stripped.\<close>

lemma base_10000_value:
  fixes dweight :: int and ds :: "nat list"
  defines "weight \<equiv> (if dweight \<ge> 0 then (dweight + 4) div 4 - 1 else - ((- dweight - 1) div 4 + 1))"
  defines "offset \<equiv> (weight + 1) * 4 - (dweight + 1)"
  defines "ndigits \<equiv> (int (length ds) + offset + 3) div 4"
  defines "pad \<equiv> nat (ndigits * 4) - nat offset - length ds"
  defines "base \<equiv> base_10000_chunks (replicate (nat offset) 0 @ ds @ replicate pad 0)"
  shows "of_int (horner 10000 base) * 10000 powi (weight + 1 - int (length base)) = decimal_value ds dweight"
proof -
  have off: "0 \<le> offset" "offset \<le> 3" unfolding offset_def weight_def by auto
  have pad: "int pad = ndigits * 4 - offset - int (length ds)" unfolding pad_def ndigits_def using off by linarith
  have nd: "0 \<le> ndigits" unfolding ndigits_def using off by simp
  have len: "length (replicate (nat offset) 0 @ ds @ replicate pad 0) = 4 * nat ndigits"
    using pad off nd by simp
  have lenb: "int (length base) = ndigits" unfolding base_def using length_chunks [OF len] nd by simp
  have "horner 10000 base = horner 10 (map int ds) * 10 ^ pad"
    unfolding base_def horner_chunks [OF len] by (simp add: map_replicate)
  then have "of_int (horner 10000 base) * 10000 powi (weight + 1 - int (length base)) =
      of_int (horner 10 (map int ds)) * (10 ^ pad * (10 :: real) powi (4 * (weight + 1 - ndigits)))"
    by (simp add: lenb powi_10000)
  also have "4 * (weight + 1 - ndigits) = (dweight + 1 - int (length ds)) - int pad"
    using pad unfolding offset_def by (simp add: algebra_simps)
  also have "10 ^ pad * (10 :: real) powi ((dweight + 1 - int (length ds)) - int pad) =
      10 powi (dweight + 1 - int (length ds))"
    by (simp add: power_int_diff)
  finally show ?thesis by (simp add: decimal_value_def)
qed

lemma strip_zeros_value:
  fixes base :: "int list"
  assumes "\<exists>d \<in> set base. d \<noteq> 0"
  defines "out \<equiv> strip_trailing_zeros (strip_leading_zeros base)"
  defines "leading \<equiv> int (length (takeWhile (\<lambda>d. d = 0) base))"
  shows "of_int (horner 10000 out) * (10000 :: real) powi (weight - leading + 1 - int (length out)) =
      of_int (horner 10000 base) * 10000 powi (weight + 1 - int (length base))"
    and "set out \<subseteq> set base" "out \<noteq> []" "hd out \<noteq> 0" "last out \<noteq> 0"
proof -
  let ?mid = "dropWhile (\<lambda>d. d = 0) base"
  have mid: "strip_leading_zeros base = ?mid" using assms(1) by (rule strip_leading_eq)
  have ne: "?mid \<noteq> []" using assms(1) by (simp add: dropWhile_eq_Nil_conv)
  have hd0: "hd ?mid \<noteq> 0" using hd_dropWhile [OF ne] .
  with ne have "\<exists>d \<in> set ?mid. d \<noteq> 0" using hd_in_set by blast
  then obtain k where k: "?mid = out @ replicate k 0" "out \<noteq> []" "last out \<noteq> 0"
    unfolding out_def mid by (rule rstrip)
  then show "out \<noteq> []" "last out \<noteq> 0" by simp_all
  show "hd out \<noteq> 0" using hd0 k(1,2) by simp
  show "set out \<subseteq> set base" using k(1) by (metis Un_upper1 set_append set_dropWhileD subset_iff)
  have "horner 10000 base = horner 10000 out * 10000 ^ k"
    using horner_strip_leading [of 10000 base] k(1) by simp
  moreover have "length base = length (takeWhile (\<lambda>d. d = 0) base) + length ?mid"
    by (metis length_append takeWhile_dropWhile_id)
  then have len: "int (length base) = leading + int (length out) + int k" using k(1) by (simp add: leading_def)
  moreover have "(10000 :: real) powi (weight - leading + 1 - int (length out)) =
      10000 ^ k * 10000 powi (weight + 1 - int (length base))"
  proof -
    have "weight - leading + 1 - int (length out) = int k + (weight + 1 - int (length base))" using len by simp
    moreover have "(10000 :: real) powi (int k + (weight + 1 - int (length base))) =
        10000 powi int k * 10000 powi (weight + 1 - int (length base))" by (rule power_int_add) simp
    ultimately show ?thesis by (simp only:) simp
  qed
  ultimately show "of_int (horner 10000 out) * (10000 :: real) powi (weight - leading + 1 - int (length out)) =
      of_int (horner 10000 base) * 10000 powi (weight + 1 - int (length base))" by simp
qed

text \<open>
  The conversion keeps the value: the base 10000 digits with their weight stand for
  the same number as the decimal digits, the first and the last digit are not
  zero, and every digit is below 10000.
\<close>

lemma convert_to_base_10000_value:
  assumes conv: "convert_to_base_10000 ds dweight dscale sg = Inr n" and digits: "\<forall>d \<in> set ds. d < 10"
  shows "numeric_value n = (case sg of Positive \<Rightarrow> 1 | Negative \<Rightarrow> - 1) * decimal_value ds dweight \<and>
    (\<exists>s w out. n = NumValue s w dscale out \<and> i16_ok w \<and> dscale < 65536 \<and>
      (\<forall>d \<in> set out. 0 \<le> d \<and> d < 10000) \<and> (out = [] \<or> hd out \<noteq> 0 \<and> last out \<noteq> 0))"
proof (cases "ds = []")
  case True
  with conv show ?thesis by (auto simp: convert_to_base_10000_def decimal_value_def i16_ok_def split: if_splits)
next
  case ne: False
  have scale: "dscale < 65536" using conv by (auto simp: convert_to_base_10000_def split: if_splits)
  define weight where "weight = (if dweight \<ge> 0 then (dweight + 4) div 4 - 1 else - ((- dweight - 1) div 4 + 1))"
  define offset where "offset = (weight + 1) * 4 - (dweight + 1)"
  define ndigits where "ndigits = (int (length ds) + offset + 3) div 4"
  define pad where "pad = nat (ndigits * 4) - nat offset - length ds"
  define base where "base = base_10000_chunks (replicate (nat offset) 0 @ ds @ replicate pad 0)"
  note defs = weight_def offset_def ndigits_def pad_def base_def
  have val: "of_int (horner 10000 base) * 10000 powi (weight + 1 - int (length base)) = decimal_value ds dweight"
    unfolding defs by (rule base_10000_value)
  have "\<forall>d \<in> set (replicate (nat offset) 0 @ ds @ replicate pad 0). d < 10" using digits by auto
  then have bound: "\<forall>d \<in> set base. 0 \<le> d \<and> d < 10000" unfolding base_def using chunks_bound by blast
  have eq: "convert_to_base_10000 ds dweight dscale sg =
      (if list_all (\<lambda>d. d = 0) base then Inr (NumValue Positive 0 dscale [])
       else let leading = int (length (takeWhile (\<lambda>d. d = 0) base)) in
         if - 32768 \<le> weight - leading \<and> weight - leading \<le> 32767
         then Inr (NumValue sg (weight - leading) dscale (strip_trailing_zeros (strip_leading_zeros base)))
         else Inl ValueOutOfRange)"
    using ne scale
    unfolding convert_to_base_10000_def Let_def weight_def [symmetric] offset_def [symmetric]
      ndigits_def [symmetric] pad_def [symmetric] base_def [symmetric] by simp
  show ?thesis
  proof (cases "list_all (\<lambda>d. d = 0) base")
    case True
    with conv eq have n: "n = NumValue Positive 0 dscale []" by simp
    have "horner 10000 base = 0" using True by (intro horner_all_zero) (simp add: list_all_iff)
    with val have "decimal_value ds dweight = 0" by simp
    with n scale show ?thesis by (simp add: i16_ok_def)
  next
    case False
    let ?lead = "int (length (takeWhile (\<lambda>d. d = 0) base))"
    let ?out = "strip_trailing_zeros (strip_leading_zeros base)"
    have some: "\<exists>d \<in> set base. d \<noteq> 0" using False by (auto simp: list_all_iff)
    note strip = strip_zeros_value [OF some]
    from conv eq False have n: "n = NumValue sg (weight - ?lead) dscale ?out"
      "- 32768 \<le> weight - ?lead" "weight - ?lead \<le> 32767" by (auto simp: Let_def split: if_splits)
    have "numeric_value n = (case sg of Positive \<Rightarrow> 1 | Negative \<Rightarrow> - 1) * decimal_value ds dweight"
      using strip(1) [of weight] val by (simp add: n(1) mult.assoc)
    moreover have "\<forall>d \<in> set ?out. 0 \<le> d \<and> d < 10000" using strip(2) bound by blast
    moreover have "i16_ok (weight - ?lead)" using n(2,3) by (simp add: i16_ok_def)
    ultimately show ?thesis using n(1) strip(4,5) scale by blast
  qed
qed

section \<open>Properties\<close>

text \<open>
  C28. Writing a numeric in the binary format of Postgres and reading it back gives the
  same numeric, for every numeric whose fields fit the format, the special values included.
\<close>

theorem numeric_binary_roundtrip:
  assumes "numeric_ok n"
  shows "\<exists>bs. to_sql n = Some bs \<and> from_sql bs = Some n"
  by (rule from_sql_to_sql [OF assms])

theorem numeric_binary_roundtrip_witness:
  "\<exists>bs. to_sql (NumValue Negative 0 2 [12, 3400]) = Some bs \<and> from_sql bs = Some (NumValue Negative 0 2 [12, 3400])"
  using numeric_binary_roundtrip [of "NumValue Negative 0 2 [12, 3400]"] by (simp add: i16_ok_def)

text \<open>
  C29. The conversion of decimal digits to base 10000 keeps the number exactly, keeps
  its scale, produces digits below 10000 with no zero at either end, and a weight that fits
  the format.
\<close>

theorem base_10000_exact:
  assumes "convert_to_base_10000 ds dweight dscale sg = Inr n" "\<forall>d \<in> set ds. d < 10"
  shows "numeric_value n = (case sg of Positive \<Rightarrow> 1 | Negative \<Rightarrow> - 1) * decimal_value ds dweight \<and>
    (\<exists>s w out. n = NumValue s w dscale out \<and> i16_ok w \<and> dscale < 65536 \<and>
      (\<forall>d \<in> set out. 0 \<le> d \<and> d < 10000) \<and> (out = [] \<or> hd out \<noteq> 0 \<and> last out \<noteq> 0))"
  by (rule convert_to_base_10000_value [OF assms])

theorem base_10000_exact_witness:
  "convert_to_base_10000 [1, 2, 3, 4, 5, 6] 4 1 Positive = Inr (NumValue Positive 1 1 [1, 2345, 6000]) \<and>
   numeric_value (NumValue Positive 1 1 [1, 2345, 6000]) = decimal_value [1, 2, 3, 4, 5, 6] 4"
proof -
  have "replicate 3 (0::nat) = [0, 0, 0]" by (simp add: numeral_3_eq_3)
  then have "convert_to_base_10000 [1, 2, 3, 4, 5, 6] 4 1 Positive = Inr (NumValue Positive 1 1 [1, 2345, 6000])"
    by (simp add: convert_to_base_10000_def strip_trailing_zeros_def Let_def)
  then show ?thesis using base_10000_exact [of "[1, 2, 3, 4, 5, 6]" 4 1 Positive] by simp
qed

end
