(* ===== verification/Table_Phase.thy ===== *)
theory Table_Phase
  imports Etl_Error
begin

text \<open>
  Table replication phases, \<open>crates/etl/src/state/table.rs\<close>.

  The phase of a table, its type, what of it is persisted, and the errors a
  table is put into. The text forms of an LSN and of a timestamp belong to the
  \<open>tokio_postgres\<close> and \<open>chrono\<close> crates: the JSON codec takes them as arguments,
  bundled in the record \<open>text_codec\<close>, and the round trip names as hypothesis
  that each parser inverts its printer.
\<close>

section \<open>Phases\<close>

type_synonym timestamp = int

datatype retry_policy = NoRetry | ManualRetry | TimedRetry timestamp

definition retry_in :: "timestamp \<Rightarrow> int \<Rightarrow> retry_policy" where
  "retry_in now duration = TimedRetry (now + duration)"

datatype phase =
    Init
  | DataSync
  | FinishedCopy
  | SyncWait lsn
  | Catchup lsn
  | SyncDone lsn
  | Ready
  | Errored string "string option" retry_policy etl_error

datatype phase_type =
    InitT | DataSyncT | FinishedCopyT | SyncWaitT | CatchupT | SyncDoneT | ReadyT | ErroredT

fun as_type :: "phase \<Rightarrow> phase_type" where
  "as_type Init = InitT"
| "as_type DataSync = DataSyncT"
| "as_type FinishedCopy = FinishedCopyT"
| "as_type (SyncWait _) = SyncWaitT"
| "as_type (Catchup _) = CatchupT"
| "as_type (SyncDone _) = SyncDoneT"
| "as_type Ready = ReadyT"
| "as_type (Errored _ _ _ _) = ErroredT"

fun should_store :: "phase_type \<Rightarrow> bool" where
  "should_store InitT = True"
| "should_store DataSyncT = True"
| "should_store FinishedCopyT = True"
| "should_store SyncWaitT = False"
| "should_store CatchupT = False"
| "should_store SyncDoneT = True"
| "should_store ReadyT = True"
| "should_store ErroredT = True"

fun is_done :: "phase_type \<Rightarrow> bool" where
  "is_done InitT = False"
| "is_done DataSyncT = False"
| "is_done FinishedCopyT = False"
| "is_done SyncWaitT = False"
| "is_done CatchupT = False"
| "is_done SyncDoneT = False"
| "is_done ReadyT = True"
| "is_done ErroredT = True"

fun is_errored_type :: "phase_type \<Rightarrow> bool" where
  "is_errored_type ErroredT = True"
| "is_errored_type _ = False"

fun is_errored :: "phase \<Rightarrow> bool" where
  "is_errored (Errored _ _ _ _) = True"
| "is_errored _ = False"

fun as_static_str :: "phase_type \<Rightarrow> string" where
  "as_static_str InitT = ''init''"
| "as_static_str DataSyncT = ''data_sync''"
| "as_static_str FinishedCopyT = ''finished_copy''"
| "as_static_str SyncWaitT = ''sync_wait''"
| "as_static_str CatchupT = ''catchup''"
| "as_static_str SyncDoneT = ''sync_done''"
| "as_static_str ReadyT = ''ready''"
| "as_static_str ErroredT = ''errored''"

section \<open>Table errors\<close>

record table_replication_error =
  tre_table_id :: table_id
  tre_reason :: string
  tre_solution :: "string option"
  tre_retry_policy :: retry_policy
  tre_source_err :: etl_error

definition with_solution ::
    "table_id \<Rightarrow> string \<Rightarrow> string \<Rightarrow> retry_policy \<Rightarrow> table_replication_error" where
  "with_solution t reason sol rp =
     \<lparr> tre_table_id = t, tre_reason = reason, tre_solution = Some sol, tre_retry_policy = rp,
       tre_source_err = Single Unknown ''Table replication error'' (Some reason) \<rparr>"

definition without_solution ::
    "table_id \<Rightarrow> string \<Rightarrow> retry_policy \<Rightarrow> table_replication_error" where
  "without_solution t reason rp =
     \<lparr> tre_table_id = t, tre_reason = reason, tre_solution = None, tre_retry_policy = rp,
       tre_source_err = Single Unknown ''Table replication error'' (Some reason) \<rparr>"

definition with_retry_policy ::
    "retry_policy \<Rightarrow> table_replication_error \<Rightarrow> table_replication_error" where
  "with_retry_policy rp e = e \<lparr> tre_retry_policy := rp \<rparr>"

definition with_source_err :: "etl_error \<Rightarrow> table_replication_error \<Rightarrow> table_replication_error" where
  "with_source_err src e = e \<lparr> tre_source_err := src \<rparr>"

text \<open>\<open>disp\<close> is the \<open>Display\<close> text of an error.\<close>

definition from_etl_error ::
    "(etl_error \<Rightarrow> string) \<Rightarrow> timestamp \<Rightarrow> int \<Rightarrow> table_id \<Rightarrow> etl_error \<Rightarrow> table_replication_error" where
  "from_etl_error disp now retry_delay_ms t e =
    (let timed = without_solution t (disp e) (retry_in now retry_delay_ms);
         manual = (\<lambda>sol. with_solution t (disp e) sol ManualRetry);
         r = (case kind e of
              SourceConnectionFailed \<Rightarrow> timed
            | DestinationConnectionFailed \<Rightarrow> timed
            | DestinationTimeout \<Rightarrow> timed
            | SourceOperationCanceled \<Rightarrow> timed
            | SourceDatabaseShutdown \<Rightarrow> timed
            | SourceLockTimeout \<Rightarrow> timed
            | SourceDatabaseInRecovery \<Rightarrow> timed
            | SourceAuthenticationError \<Rightarrow>
                manual ''Verify database credentials and authentication token validity.''
            | SourceSchemaError \<Rightarrow>
                manual ''Update the Postgres database schema to resolve compatibility issues.''
            | ConfigError \<Rightarrow>
                manual ''Update the application or service configuration settings.''
            | ReplicationSlotAlreadyExists \<Rightarrow>
                manual ''Remove the existing replication slot from the Postgres database.''
            | ReplicationSlotNotCreated \<Rightarrow>
                manual ''Verify the Postgres database allows creation of new replication slots.''
            | SourceConfigurationLimitExceeded \<Rightarrow>
                manual (''Verify the configured limits for Postgres, for example, the maximum number of '' @
                        ''replication slots.'')
            | NullValuesNotSupportedInArrayInDestination \<Rightarrow>
                manual ''Remove NULL values from array columns in the Postgres tables.''
            | UnsupportedValueInDestination \<Rightarrow>
                manual ''Update the value in the Postgres table.''
            | SourceSnapshotTooOld \<Rightarrow>
                manual ''Check replication slot status and database configuration.''
            | CorruptedTableSchema \<Rightarrow>
                manual ''Reset the table state and restart the replication.''
            | _ \<Rightarrow>
                manual (''There is no explicit solution for this error, if the issue persists after '' @
                        ''rollback, please contact support.''))
     in r \<lparr> tre_source_err := e \<rparr>)"

definition from_error_policy ::
    "(etl_error \<Rightarrow> string) \<Rightarrow> table_id \<Rightarrow> etl_error \<Rightarrow> error_handling_policy \<Rightarrow> retry_policy
     \<Rightarrow> table_replication_error" where
  "from_error_policy disp t e p rp = (case policy_solution p of
      Some sol \<Rightarrow> with_source_err e (with_solution t (disp e) sol rp)
    | None \<Rightarrow> with_source_err e (without_solution t (disp e) rp))"

definition phase_of_error :: "table_replication_error \<Rightarrow> phase" where
  "phase_of_error e =
     Errored (tre_reason e) (tre_solution e) (tre_retry_policy e) (tre_source_err e)"

section \<open>Persistence\<close>

datatype json =
    JNull
  | JBool bool
  | JNumber int
  | JString string
  | JArray "json list"
  | JObject "(string \<times> json) list"

record text_codec =
  lsn_text :: "lsn \<Rightarrow> string"
  lsn_parse :: "string \<Rightarrow> lsn option"
  time_text :: "timestamp \<Rightarrow> string"
  time_parse :: "string \<Rightarrow> timestamp option"

definition codec_ok :: "text_codec \<Rightarrow> bool" where
  "codec_ok c \<longleftrightarrow> (\<forall>l. lsn_parse c (lsn_text c l) = Some l) \<and>
                (\<forall>t. time_parse c (time_text c t) = Some t)"

text \<open>One codec that satisfies the assumption: both texts are written in unary.\<close>

definition unary_codec :: text_codec where
  "unary_codec = \<lparr> lsn_text = (\<lambda>l. replicate (unat l) CHR ''1''),
     lsn_parse = (\<lambda>s. Some (of_nat (length s))),
     time_text = (\<lambda>t. replicate (nat \<bar>t\<bar>) (if 0 \<le> t then CHR ''+'' else CHR ''-'')),
     time_parse = (\<lambda>s. Some (case s of [] \<Rightarrow> 0
        | c # _ \<Rightarrow> if c = CHR ''+'' then int (length s) else - int (length s))) \<rparr>"

datatype state_type = InitS | DataSyncS | FinishedCopyS | SyncDoneS | ReadyS | ErroredS

definition default_source_err :: etl_error where
  "default_source_err = etl_err Unknown ''Table replication error restored from state store''"

fun retry_policy_json :: "text_codec \<Rightarrow> retry_policy \<Rightarrow> json" where
  "retry_policy_json c NoRetry = JObject [(''type'', JString ''no_retry'')]"
| "retry_policy_json c ManualRetry = JObject [(''type'', JString ''manual_retry'')]"
| "retry_policy_json c (TimedRetry t) =
     JObject [(''type'', JString ''timed_retry''), (''next_retry'', JString (time_text c t))]"

fun opt_string_json :: "string option \<Rightarrow> json" where
  "opt_string_json None = JNull"
| "opt_string_json (Some s) = JString s"

fun phase_json :: "text_codec \<Rightarrow> phase \<Rightarrow> json" where
  "phase_json c Init = JObject [(''type'', JString ''init'')]"
| "phase_json c DataSync = JObject [(''type'', JString ''data_sync'')]"
| "phase_json c FinishedCopy = JObject [(''type'', JString ''finished_copy'')]"
| "phase_json c (SyncWait l) =
     JObject [(''type'', JString ''sync_wait''), (''lsn'', JString (lsn_text c l))]"
| "phase_json c (Catchup l) =
     JObject [(''type'', JString ''catchup''), (''lsn'', JString (lsn_text c l))]"
| "phase_json c (SyncDone l) =
     JObject [(''type'', JString ''sync_done''), (''lsn'', JString (lsn_text c l))]"
| "phase_json c Ready = JObject [(''type'', JString ''ready'')]"
| "phase_json c (Errored reason sol rp _) =
     JObject [(''type'', JString ''errored''), (''reason'', JString reason),
              (''solution'', opt_string_json sol), (''retry_policy'', retry_policy_json c rp)]"

fun json_string :: "json option \<Rightarrow> string option" where
  "json_string (Some (JString s)) = Some s"
| "json_string _ = None"

fun json_opt_string :: "json option \<Rightarrow> string option option" where
  "json_opt_string None = Some None"
| "json_opt_string (Some JNull) = Some None"
| "json_opt_string (Some (JString s)) = Some (Some s)"
| "json_opt_string _ = None"

fun json_retry_policy :: "text_codec \<Rightarrow> json option \<Rightarrow> retry_policy option" where
  "json_retry_policy c (Some (JObject kvs)) = (case json_string (map_of kvs ''type'') of
      None \<Rightarrow> None
    | Some ty \<Rightarrow>
        if ty = ''no_retry'' then Some NoRetry
        else if ty = ''manual_retry'' then Some ManualRetry
        else if ty = ''timed_retry'' then
          Option.bind (json_string (map_of kvs ''next_retry'')) (\<lambda>s.
          map_option TimedRetry (time_parse c s))
        else None)"
| "json_retry_policy c _ = None"

definition json_lsn :: "text_codec \<Rightarrow> (string \<times> json) list \<Rightarrow> lsn option" where
  "json_lsn c kvs = Option.bind (json_string (map_of kvs ''lsn'')) (lsn_parse c)"

fun json_phase :: "text_codec \<Rightarrow> json \<Rightarrow> phase option" where
  "json_phase c (JObject kvs) = (case json_string (map_of kvs ''type'') of
      None \<Rightarrow> None
    | Some ty \<Rightarrow>
        if ty = ''init'' then Some Init
        else if ty = ''data_sync'' then Some DataSync
        else if ty = ''finished_copy'' then Some FinishedCopy
        else if ty = ''sync_wait'' then map_option SyncWait (json_lsn c kvs)
        else if ty = ''catchup'' then map_option Catchup (json_lsn c kvs)
        else if ty = ''sync_done'' then map_option SyncDone (json_lsn c kvs)
        else if ty = ''ready'' then Some Ready
        else if ty = ''errored'' then
          Option.bind (json_string (map_of kvs ''reason'')) (\<lambda>reason.
          Option.bind (json_opt_string (map_of kvs ''solution'')) (\<lambda>sol.
          map_option (\<lambda>rp. Errored reason sol rp default_source_err)
            (json_retry_policy c (map_of kvs ''retry_policy''))))
        else None)"
| "json_phase c _ = None"

definition to_storage_format :: "text_codec \<Rightarrow> phase \<Rightarrow> (state_type \<times> json) etl_result" where
  "to_storage_format c p =
     (if \<not> should_store (as_type p)
      then Inl (Single InvalidState ''In-memory replication phase cannot be persisted''
             (Some (''In-memory table replication phases (SyncWait, Catchup) cannot be saved to '' @
                    ''state store'')))
      else (case as_type p of
          InitT \<Rightarrow> Inr (InitS, phase_json c p)
        | DataSyncT \<Rightarrow> Inr (DataSyncS, phase_json c p)
        | FinishedCopyT \<Rightarrow> Inr (FinishedCopyS, phase_json c p)
        | SyncDoneT \<Rightarrow> Inr (SyncDoneS, phase_json c p)
        | ReadyT \<Rightarrow> Inr (ReadyS, phase_json c p)
        | ErroredT \<Rightarrow> Inr (ErroredS, phase_json c p)
        | _ \<Rightarrow> Inl (etl_err Unknown ''unreachable'')))"

definition from_state_row :: "text_codec \<Rightarrow> json option \<Rightarrow> phase etl_result" where
  "from_state_row c metadata = (case metadata of
      None \<Rightarrow> Inl (Single InvalidState ''Table replication state not found''
        (Some ''Table replication state does not exist in metadata column in PostgreSQL''))
    | Some m \<Rightarrow> ok_or
        (etl_err DeserializationError ''Table replication state deserialization failed'')
        (json_phase c m))"

text \<open>What a phase looks like once it has been through the store.\<close>

fun persisted :: "phase \<Rightarrow> phase" where
  "persisted (Errored reason sol rp _) = Errored reason sol rp default_source_err"
| "persisted p = p"

abbreviation storable :: "phase \<Rightarrow> bool" where
  "storable p \<equiv> should_store (as_type p)"

section \<open>Lemmas\<close>

lemma storable_iff [phase_simps]:
  "storable p \<longleftrightarrow> (\<forall>l. p \<noteq> SyncWait l \<and> p \<noteq> Catchup l)"
  by (cases p) auto

lemma is_errored_iff [phase_simps]: "is_errored p \<longleftrightarrow> as_type p = ErroredT"
  by (cases p) auto

lemma as_static_str_inj: "as_static_str a = as_static_str b \<longleftrightarrow> a = b"
  by (cases a; cases b) auto

lemma as_type_persisted [simp]: "as_type (persisted p) = as_type p"
  by (cases p) auto

lemma persisted_idem [simp]: "persisted (persisted p) = persisted p"
  by (cases p) auto

lemma unary_codec_ok: "codec_ok unary_codec"
proof -
  have "time_parse unary_codec (time_text unary_codec t) = Some t" for t
    by (cases "nat \<bar>t\<bar>") (auto simp: unary_codec_def)
  then show ?thesis by (simp add: codec_ok_def) (simp add: unary_codec_def)
qed

lemma json_retry_policy_json:
  "codec_ok c \<Longrightarrow> json_retry_policy c (Some (retry_policy_json c rp)) = Some rp"
  by (cases rp) (auto simp: codec_ok_def)

lemma json_opt_string_json [simp]: "json_opt_string (Some (opt_string_json s)) = Some s"
  by (cases s) auto

lemma json_phase_json: "codec_ok c \<Longrightarrow> json_phase c (phase_json c p) = Some (persisted p)"
  by (cases p) (auto simp: json_lsn_def codec_ok_def json_retry_policy_json)

lemma to_storage_format_ok_iff: "is_ok (to_storage_format c p) \<longleftrightarrow> storable p"
  by (cases p) (auto simp: to_storage_format_def)

lemma to_storage_format_metadata:
  "to_storage_format c p = Inr (s, m) \<Longrightarrow> m = phase_json c p"
  by (cases p) (auto simp: to_storage_format_def)

section \<open>Properties\<close>

text \<open>
  C27. A phase can be written to the state store exactly when it is not one of the two phases
  that live in memory only, and reading the written row gives the phase back, up to the
  source error of an errored phase, whatever the text forms of positions and times are.
\<close>

theorem phase_storage_roundtrip:
  assumes "codec_ok c"
  shows "case to_storage_format c p of
      Inl _ \<Rightarrow> \<exists>l. p = SyncWait l \<or> p = Catchup l
    | Inr (_, m) \<Rightarrow> from_state_row c (Some m) = Inr (persisted p)"
proof (cases "to_storage_format c p")
  case (Inl e)
  then have "\<not> storable p" using to_storage_format_ok_iff [of c p] by simp
  with Inl show ?thesis by (auto simp: storable_iff)
next
  case (Inr sm)
  then obtain st where "to_storage_format c p = Inr (st, phase_json c p)"
    using to_storage_format_metadata by (cases sm) blast
  then show ?thesis using json_phase_json [OF assms] by (simp add: from_state_row_def)
qed

theorem phase_storage_roundtrip_witness:
  "case to_storage_format unary_codec (SyncDone 40) of
      Inl _ \<Rightarrow> False
    | Inr (_, m) \<Rightarrow> from_state_row unary_codec (Some m) = Inr (SyncDone 40)"
  using phase_storage_roundtrip [OF unary_codec_ok, of "SyncDone 40"] by (simp add: to_storage_format_def)

end
