(* ===== verification/Cells.thy ===== *)
theory Cells
  imports Numeric Table_Phase
begin

text \<open>
  Cells and the parser of their Postgres text form: \<open>etl/src/types/cell.rs\<close>,
  \<open>etl/src/conversions/text.rs\<close>, \<open>bool.rs\<close> and \<open>hex.rs\<close>. A text is the
  sequence of its UTF-8 bytes; the delimiters the parsers look at are ASCII, which
  never occur inside a longer code point. Parsing of floats, dates, times, UUIDs
  and JSON is done by other libraries and comes as a record of functions
  (\<open>text_parsers\<close>); their values are represented by integers, words and \<open>json\<close>.
\<close>

datatype array_cell =
    ABool "bool option list"
  | AString "string option list"
  | AI16 "int option list"
  | AI32 "int option list"
  | AU32 "nat option list"
  | AI64 "int option list"
  | AF32 "32 word option list"
  | AF64 "64 word option list"
  | ANumeric "pg_numeric option list"
  | ADate "int option list"
  | ATime "int option list"
  | ATimestamp "int option list"
  | ATimestampTz "int option list"
  | AUuid "128 word option list"
  | AJson "json option list"
  | ABytes "8 word list option list"

datatype cell =
    CellNull
  | CellBool bool
  | CellString string
  | CellI16 int
  | CellI32 int
  | CellU32 nat
  | CellI64 int
  | CellF32 "32 word"
  | CellF64 "64 word"
  | CellNumeric pg_numeric
  | CellDate int
  | CellTime int
  | CellTimestamp int
  | CellTimestampTz int
  | CellUuid "128 word"
  | CellJson json
  | CellBytes "8 word list"
  | CellArray array_cell

record text_parsers =
  tp_f32 :: "string \<Rightarrow> 32 word option"
  tp_f64 :: "string \<Rightarrow> 64 word option"
  tp_date :: "string \<Rightarrow> int option"
  tp_time :: "string \<Rightarrow> int option"
  tp_timestamp :: "string \<Rightarrow> int option"
  tp_timestamptz_hhmm :: "string \<Rightarrow> int option"
  tp_timestamptz_hh_mm :: "string \<Rightarrow> int option"
  tp_uuid :: "string \<Rightarrow> 128 word option"
  tp_json :: "string \<Rightarrow> json option"
  tp_is_array_type :: "string \<Rightarrow> bool"

section \<open>Scalars\<close>

definition conversion_error :: "string \<Rightarrow> etl_error" where
  "conversion_error d = etl_err ConversionError d"

definition parse_bool :: "string \<Rightarrow> bool etl_result" where
  "parse_bool s = (if s = ''t'' then Inr True else if s = ''f'' then Inr False
     else Inl (etl_err InvalidData ''Invalid boolean value''))"

text \<open>\<open>str::parse\<close> of an integer type with the given range.\<close>

definition decimal_number :: "string \<Rightarrow> int option" where
  "decimal_number cs = (if cs \<noteq> [] \<and> list_all is_digit cs
     then Some (horner 10 (map (int \<circ> digit_value) cs)) else None)"

definition parse_int :: "int \<Rightarrow> int \<Rightarrow> string \<Rightarrow> int etl_result" where
  "parse_int lo hi s =
     (let v = (case s of
            [] \<Rightarrow> None
          | c # cs \<Rightarrow> if c = CHR ''+'' then decimal_number cs
                     else if c = CHR ''-'' \<and> lo < 0 then map_option uminus (decimal_number cs)
                     else decimal_number s)
      in case v of
           None \<Rightarrow> Inl (conversion_error ''Integer parsing failed'')
         | Some i \<Rightarrow> if lo \<le> i \<and> i \<le> hi then Inr i else Inl (conversion_error ''Integer parsing failed''))"

definition parse_numeric_cell :: "string \<Rightarrow> pg_numeric etl_result" where
  "parse_numeric_cell s = (case parse_numeric s of
      Inr n \<Rightarrow> Inr n
    | Inl InvalidSyntax \<Rightarrow> Inl (etl_err ConversionError ''Invalid numeric value format'')
    | Inl ValueOutOfRange \<Rightarrow> Inl (etl_err ConversionError ''Numeric value out of range''))"

section \<open>Bytea\<close>

definition hex_value :: "char \<Rightarrow> nat option" where
  "hex_value c = (let n = (of_char c :: nat) in
     if 48 \<le> n \<and> n \<le> 57 then Some (n - 48)
     else if 97 \<le> n \<and> n \<le> 102 then Some (n - 87)
     else if 65 \<le> n \<and> n \<le> 70 then Some (n - 55)
     else None)"

text \<open>\<open>u8::from_str_radix(_, 16)\<close> of two characters: a leading plus sign is accepted.\<close>

definition hex_byte :: "char \<Rightarrow> char \<Rightarrow> nat option" where
  "hex_byte a b = (if a = CHR ''+'' then hex_value b
     else Option.bind (hex_value a) (\<lambda>x. map_option (\<lambda>y. 16 * x + y) (hex_value b)))"

fun hex_bytes :: "string \<Rightarrow> 8 word list etl_result" where
  "hex_bytes [] = Inr []"
| "hex_bytes [a] = Inl (conversion_error ''Bytea hex string conversion failed'')"
| "hex_bytes (a # b # cs) = (case hex_byte a b of
      None \<Rightarrow> Inl (conversion_error ''Integer parsing failed'')
    | Some v \<Rightarrow> res_bind (hex_bytes cs) (\<lambda>vs. Inr (of_nat v # vs)))"

definition parse_bytea_hex_string :: "string \<Rightarrow> 8 word list etl_result" where
  "parse_bytea_hex_string s =
     (if length s < 2 \<or> take 2 s \<noteq> [CHR 0x5C, CHR ''x'']
      then Inl (conversion_error ''Bytea hex string conversion failed'')
      else let v = drop 2 s in
        if odd (length v) then Inl (conversion_error ''Bytea hex string conversion failed'')
        else hex_bytes v)"

section \<open>Array literals\<close>

text \<open>
  One element: the characters up to an unquoted comma, whether a quote was seen,
  and the rest after the comma (\<open>None\<close> at the end of the input).
\<close>

fun array_element ::
    "string \<Rightarrow> string \<Rightarrow> bool \<Rightarrow> bool \<Rightarrow> bool \<Rightarrow> string \<times> bool \<times> bool \<times> bool \<times> string option" where
  "array_element [] val in_quotes in_escape quoted = (val, quoted, in_quotes, in_escape, None)"
| "array_element (c # cs) val in_quotes in_escape quoted =
     (if in_escape then array_element cs (val @ [c]) in_quotes False quoted
      else if c = CHR 0x22 then array_element cs val (\<not> in_quotes) in_escape (quoted \<or> \<not> in_quotes)
      else if c = CHR 0x5C then array_element cs val in_quotes True quoted
      else if c = CHR '','' \<and> \<not> in_quotes then (val, quoted, in_quotes, in_escape, Some cs)
      else array_element cs (val @ [c]) in_quotes in_escape quoted)"

lemma array_element_shrinks:
  "array_element cs val q e d = (v, d', q', e', Some rest) \<Longrightarrow> length rest < length cs"
  by (induction cs val q e d rule: array_element.induct) (auto split: if_splits)

function array_elements :: "(string \<Rightarrow> 'a etl_result) \<Rightarrow> string \<Rightarrow> bool \<Rightarrow> bool \<Rightarrow> 'a option list etl_result" where
  "array_elements parse cs in_quotes in_escape =
     (case array_element cs [] in_quotes in_escape False of (val, quoted, q, e, rest) \<Rightarrow>
        res_bind (if \<not> quoted \<and> map to_lower val = ''null'' then Inr None
                  else res_bind (parse val) (\<lambda>x. Inr (Some x)))
          (\<lambda>x. case rest of
              None \<Rightarrow> Inr [x]
            | Some cs' \<Rightarrow> res_bind (array_elements parse cs' q e) (\<lambda>xs. Inr (x # xs))))"
  by pat_completeness auto
termination
  by (relation "measure (\<lambda>(parse, cs, q, e). length cs)") (auto dest!: array_element_shrinks [OF sym])

declare array_elements.simps [simp del]

definition parse_array :: "string \<Rightarrow> (string \<Rightarrow> 'a etl_result) \<Rightarrow> ('a option list \<Rightarrow> array_cell) \<Rightarrow> cell etl_result" where
  "parse_array s parse m =
     (if length s < 2 then Inl (conversion_error ''Array input too short'')
      else if hd s \<noteq> CHR 0x7B \<or> last s \<noteq> CHR 0x7D
      then Inl (conversion_error ''Array input missing braces'')
      else let body = butlast (tl s) in
        if body = [] then Inr (CellArray (m []))
        else res_bind (array_elements parse body False False) (\<lambda>xs. Inr (CellArray (m xs))))"

section \<open>Dispatch on the column type\<close>

definition third :: "(string \<Rightarrow> 'a option) \<Rightarrow> string \<Rightarrow> 'a etl_result" where
  "third f s = ok_or (conversion_error ''Value parsing failed'') (f s)"

definition parse_cell_from_postgres_text :: "text_parsers \<Rightarrow> string \<Rightarrow> string \<Rightarrow> cell etl_result" where
  "parse_cell_from_postgres_text tp typ s =
     (let i16 = parse_int (- 32768) 32767; i32 = parse_int (- 2147483648) 2147483647;
          i64 = parse_int (- 9223372036854775808) 9223372036854775807;
          u32 = (\<lambda>s. res_bind (parse_int 0 4294967295 s) (\<lambda>i. Inr (nat i)))
      in
      if typ = ''BOOL'' then res_bind (parse_bool s) (Inr \<circ> CellBool)
      else if typ = ''BOOL_ARRAY'' then parse_array s parse_bool ABool
      else if typ \<in> set [''CHAR'', ''BPCHAR'', ''VARCHAR'', ''NAME'', ''TEXT'', ''MONEY''] then Inr (CellString s)
      else if typ \<in> set [''CHAR_ARRAY'', ''BPCHAR_ARRAY'', ''VARCHAR_ARRAY'', ''NAME_ARRAY'', ''TEXT_ARRAY'', ''MONEY_ARRAY'']
      then parse_array s Inr AString
      else if typ = ''INT2'' then res_bind (i16 s) (Inr \<circ> CellI16)
      else if typ = ''INT2_ARRAY'' then parse_array s i16 AI16
      else if typ = ''INT4'' then res_bind (i32 s) (Inr \<circ> CellI32)
      else if typ = ''INT4_ARRAY'' then parse_array s i32 AI32
      else if typ = ''INT8'' then res_bind (i64 s) (Inr \<circ> CellI64)
      else if typ = ''INT8_ARRAY'' then parse_array s i64 AI64
      else if typ = ''FLOAT4'' then res_bind (third (tp_f32 tp) s) (Inr \<circ> CellF32)
      else if typ = ''FLOAT4_ARRAY'' then parse_array s (third (tp_f32 tp)) AF32
      else if typ = ''FLOAT8'' then res_bind (third (tp_f64 tp) s) (Inr \<circ> CellF64)
      else if typ = ''FLOAT8_ARRAY'' then parse_array s (third (tp_f64 tp)) AF64
      else if typ = ''NUMERIC'' then res_bind (parse_numeric_cell s) (Inr \<circ> CellNumeric)
      else if typ = ''NUMERIC_ARRAY'' then parse_array s parse_numeric_cell ANumeric
      else if typ = ''BYTEA'' then res_bind (parse_bytea_hex_string s) (Inr \<circ> CellBytes)
      else if typ = ''BYTEA_ARRAY'' then parse_array s parse_bytea_hex_string ABytes
      else if typ = ''DATE'' then res_bind (third (tp_date tp) s) (Inr \<circ> CellDate)
      else if typ = ''DATE_ARRAY'' then parse_array s (third (tp_date tp)) ADate
      else if typ = ''TIME'' then res_bind (third (tp_time tp) s) (Inr \<circ> CellTime)
      else if typ = ''TIME_ARRAY'' then parse_array s (third (tp_time tp)) ATime
      else if typ = ''TIMESTAMP'' then res_bind (third (tp_timestamp tp) s) (Inr \<circ> CellTimestamp)
      else if typ = ''TIMESTAMP_ARRAY'' then parse_array s (third (tp_timestamp tp)) ATimestamp
      else if typ = ''TIMESTAMPTZ'' then
        (case tp_timestamptz_hhmm tp s of
           Some v \<Rightarrow> Inr (CellTimestampTz v)
         | None \<Rightarrow> res_bind (third (tp_timestamptz_hh_mm tp) s) (Inr \<circ> CellTimestampTz))
      else if typ = ''TIMESTAMPTZ_ARRAY'' then
        (case parse_array s (third (tp_timestamptz_hhmm tp)) ATimestampTz of
           Inr v \<Rightarrow> Inr v
         | Inl _ \<Rightarrow> parse_array s (third (tp_timestamptz_hh_mm tp)) ATimestampTz)
      else if typ = ''UUID'' then res_bind (third (tp_uuid tp) s) (Inr \<circ> CellUuid)
      else if typ = ''UUID_ARRAY'' then parse_array s (third (tp_uuid tp)) AUuid
      else if typ = ''JSON'' \<or> typ = ''JSONB'' then res_bind (third (tp_json tp) s) (Inr \<circ> CellJson)
      else if typ = ''JSON_ARRAY'' \<or> typ = ''JSONB_ARRAY'' then parse_array s (third (tp_json tp)) AJson
      else if typ = ''OID'' then res_bind (u32 s) (Inr \<circ> CellU32)
      else if typ = ''OID_ARRAY'' then parse_array s u32 AU32
      else if tp_is_array_type tp typ then parse_array s Inr AString
      else Inr (CellString s))"

section \<open>Lemmas: bytea\<close>

definition hex_char :: "nat \<Rightarrow> char" where
  "hex_char n = char_of (if n < 10 then n + 48 else n + 87)"

definition bytea_text :: "8 word list \<Rightarrow> string" where
  "bytea_text bs = [CHR 0x5C, CHR ''x''] @
     concat (map (\<lambda>b. [hex_char (unat b div 16), hex_char (unat b mod 16)]) bs)"

lemma hex_value_char: "n < 16 \<Longrightarrow> hex_value (hex_char n) = Some n"
  by (auto simp: hex_value_def hex_char_def Let_def)

lemma hex_char_not_plus: "n < 16 \<Longrightarrow> hex_char n \<noteq> CHR ''+''"
proof
  assume "n < 16" "hex_char n = CHR ''+''"
  then have "(of_char (hex_char n) :: nat) = of_char (CHR ''+'')" by simp
  with \<open>n < 16\<close> show False by (auto simp: hex_char_def split: if_splits)
qed

lemma hex_bytes_text:
  "hex_bytes (concat (map (\<lambda>b. [hex_char (unat b div 16), hex_char (unat b mod 16)]) bs)) = Inr bs"
proof (induction bs)
  case (Cons b bs)
  have "unat b < 256" using unat_bound [of b] by simp
  then have "unat b div 16 < 16" by simp
  then have "hex_byte (hex_char (unat b div 16)) (hex_char (unat b mod 16)) = Some (unat b)"
    by (simp add: hex_byte_def hex_char_not_plus hex_value_char)
  then show ?case by (simp add: Cons.IH)
qed simp

lemma parse_bytea_text: "parse_bytea_hex_string (bytea_text bs) = Inr bs"
proof -
  have "even (length (concat (map (\<lambda>b. [hex_char (unat b div 16), hex_char (unat b mod 16)]) bs)))"
    by (induction bs) auto
  then show ?thesis by (simp add: parse_bytea_hex_string_def bytea_text_def hex_bytes_text)
qed

section \<open>Lemmas: array literals\<close>

text \<open>
  How Postgres writes an array of texts when it quotes every element: a quote or
  a backslash inside an element is escaped, a missing element is written bare.
\<close>

fun escape_element :: "string \<Rightarrow> string" where
  "escape_element [] = []"
| "escape_element (c # cs) = (if c = CHR 0x22 \<or> c = CHR 0x5C then [CHR 0x5C, c] else [c]) @ escape_element cs"

fun element_text :: "string option \<Rightarrow> string" where
  "element_text None = ''NULL''"
| "element_text (Some v) = [CHR 0x22] @ escape_element v @ [CHR 0x22]"

fun elements_text :: "string option list \<Rightarrow> string" where
  "elements_text [] = []"
| "elements_text [x] = element_text x"
| "elements_text (x # xs) = element_text x @ [CHR '',''] @ elements_text xs"

definition array_text :: "string option list \<Rightarrow> string" where
  "array_text xs = [CHR 0x7B] @ elements_text xs @ [CHR 0x7D]"

lemma array_element_escape:
  "array_element (escape_element v @ CHR 0x22 # rest) acc True False True = array_element rest (acc @ v) False False True"
  by (induction v arbitrary: acc) auto

lemma array_element_text:
  "array_element (element_text x @ rest) [] False False False =
     array_element rest (case x of None \<Rightarrow> ''NULL'' | Some v \<Rightarrow> v) False False (x \<noteq> None)"
  by (cases x) (simp_all add: array_element_escape)

lemma element_text_nonempty [simp]: "element_text x \<noteq> []"
  by (cases x) auto

lemma elements_text_nonempty: "xs \<noteq> [] \<Longrightarrow> elements_text xs \<noteq> []"
  by (cases xs rule: elements_text.cases) auto

lemma lower_null [simp]: "to_lower (CHR ''N'') = CHR ''n''" "to_lower (CHR ''U'') = CHR ''u''"
  "to_lower (CHR ''L'') = CHR ''l''"
  by code_simp+

lemma array_elements_text:
  "xs \<noteq> [] \<Longrightarrow> array_elements Inr (elements_text xs) False False = Inr xs"
proof (induction xs rule: elements_text.induct)
  case (2 x)
  show ?case
    using array_element_text [of x "[]"]
    by (cases x) (simp_all add: array_elements.simps [of _ _ False False])
next
  case (3 x y xs)
  have IH: "array_elements Inr (elements_text (y # xs)) False False = Inr (y # xs)"
    using "3.IH" by simp
  show ?case
    using array_element_text [of x "CHR '','' # elements_text (y # xs)"] IH
    by (cases x)
      (simp_all add: array_elements.simps [of _ "element_text _ @ _" False False]
        array_elements.simps [of _ "_ # _" False False])
qed simp

lemma parse_array_text: "parse_array (array_text xs) Inr AString = Inr (CellArray (AString xs))"
proof (cases "xs = []")
  case False
  then show ?thesis using elements_text_nonempty [OF False] array_elements_text [OF False]
    by (simp add: parse_array_def array_text_def butlast_append)
qed (simp add: parse_array_def array_text_def)

section \<open>Properties\<close>

text \<open>
  C31. A bytea value printed by Postgres in its hex format is read back byte for byte.
\<close>

theorem bytea_roundtrip: "parse_bytea_hex_string (bytea_text bs) = Inr bs"
  by (rule parse_bytea_text)

text \<open>
  C30. An array of texts printed with quoted elements, with quotes and backslashes
  escaped and missing elements written as a bare NULL, is read back element by element: the
  text NULL in quotes stays a text.
\<close>

theorem array_roundtrip: "parse_array (array_text xs) Inr AString = Inr (CellArray (AString xs))"
  by (rule parse_array_text)

end
