(* ===== verification/Decimal_Text.thy ===== *)
theory Decimal_Text
  imports Cells
begin

text \<open>
  Decimal text of natural numbers: what \<open>format!\<close> prints for an unsigned integer, and
  that \<open>str::parse\<close> reads it back.
\<close>

definition digit_char :: "nat \<Rightarrow> char" where
  "digit_char n = char_of (48 + n)"

fun dec :: "nat \<Rightarrow> string" where
  "dec n = (if n < 10 then [digit_char n] else dec (n div 10) @ [digit_char (n mod 10)])"

declare dec.simps [simp del]

lemma digit_char:
  assumes "n < 10"
  shows "is_digit (digit_char n)" "digit_value (digit_char n) = n"
  using assms by (simp_all add: is_digit_def digit_value_def digit_char_def)

lemma dec_digits: "list_all is_digit (dec n)"
  by (induction n rule: dec.induct) (subst dec.simps, simp add: digit_char)

lemma dec_nonempty: "dec n \<noteq> []"
  by (subst dec.simps) simp

lemma horner_dec: "horner 10 (map (int \<circ> digit_value) (dec n)) = int n"
proof (induction n rule: dec.induct)
  case (1 n)
  show ?case
  proof (cases "n < 10")
    case True
    then show ?thesis by (subst dec.simps) (simp add: digit_char)
  next
    case False
    have "int (n div 10) * 10 + int (n mod 10) = int n"
      by (metis mult_div_mod_eq mult.commute of_nat_add of_nat_mult of_nat_numeral)
    then show ?thesis using 1 False by (subst dec.simps) (simp add: digit_char comp_def)
  qed
qed

lemma decimal_number_dec: "decimal_number (dec n) = Some (int n)"
  by (simp add: decimal_number_def dec_nonempty dec_digits horner_dec)

lemma dec_hd: "is_digit (hd (dec n))"
  using dec_digits [of n] dec_nonempty [of n] by (cases "dec n") simp_all

lemma parse_int_dec: "parse_int 0 hi (dec n) = (if int n \<le> hi then Inr (int n) else Inl (conversion_error ''Integer parsing failed''))"
proof -
  obtain c cs where d: "dec n = c # cs" using dec_nonempty by (cases "dec n") auto
  have "c \<noteq> CHR ''+''" using dec_hd [of n] d by (auto simp: is_digit_def)
  then show ?thesis using decimal_number_dec [of n] by (simp add: parse_int_def d)
qed

lemma dec_inject: "dec m = dec n \<longleftrightarrow> m = n"
  using decimal_number_dec by (metis of_nat_eq_iff option.inject)

lemma length_dec: "0 < k \<Longrightarrow> n < 10 ^ k \<Longrightarrow> length (dec n) \<le> k"
proof (induction n arbitrary: k rule: dec.induct)
  case (1 n)
  show ?case
  proof (cases "n < 10")
    case False
    with "1.prems" obtain k' where k: "k = Suc k'" "0 < k'" by (cases k; cases "k - 1") auto
    then have "n div 10 < 10 ^ k'" using "1.prems" by (simp add: div_less_iff_less_mult)
    then show ?thesis using "1.IH" [OF False k(2)] False k(1) by (subst dec.simps) simp
  qed (use "1.prems" in \<open>simp add: dec.simps [of n]\<close>)
qed

lemma dec_no_char: "\<not> is_digit c \<Longrightarrow> c \<notin> set (dec n)"
  using dec_digits [of n] by (auto simp: list_all_iff)

lemmas length_dec_u64 = length_dec [of 20 "unat (w :: 64 word)" for w]
lemmas length_dec_u32 = length_dec [of 10 "unat (w :: 32 word)" for w]

end
