(* ===== verification/Slots.thy ===== *)
theory Slots
  imports Decimal_Text
begin

text \<open>
  Names of replication slots, \<open>etl-postgres/src/replication/slots.rs\<close>: how a slot is
  named, how a name is read back, and the deletion of all slots of a pipeline, which
  selects them by name with an SQL LIKE pattern. The server that drops the slots is a
  parameter (\<open>slot_admin\<close>).
\<close>

definition max_slot_name_length :: nat where "max_slot_name_length = 63"

definition apply_worker_prefix :: string where "apply_worker_prefix = ''supabase_etl_apply''"

definition table_sync_worker_prefix :: string where "table_sync_worker_prefix = ''supabase_etl_table_sync''"

datatype slot_error = InvalidSlotNameLength string | InvalidSlotName string

datatype etl_replication_slot = ApplySlot pipeline_id | TableSyncSlot pipeline_id table_id

definition for_apply_worker :: "pipeline_id \<Rightarrow> etl_replication_slot" where
  "for_apply_worker p = ApplySlot p"

definition for_table_sync_worker :: "pipeline_id \<Rightarrow> table_id \<Rightarrow> etl_replication_slot" where
  "for_table_sync_worker p t = TableSyncSlot p t"

definition apply_prefix :: "pipeline_id \<Rightarrow> (slot_error, string) result" where
  "apply_prefix p =
     (let prefix = apply_worker_prefix @ ''_'' @ dec (unat p) in
      if max_slot_name_length \<le> length prefix then Inl (InvalidSlotNameLength prefix) else Inr prefix)"

definition table_sync_prefix :: "pipeline_id \<Rightarrow> (slot_error, string) result" where
  "table_sync_prefix p =
     (let prefix = table_sync_worker_prefix @ ''_'' @ dec (unat p) @ ''_'' in
      if max_slot_name_length \<le> length prefix then Inl (InvalidSlotNameLength prefix) else Inr prefix)"

text \<open>\<open>strip_prefix\<close> and \<open>rsplitn(2, '_')\<close> of the standard library; the latter gives the part
  after the last underscore and then, if there is one, the part before it.\<close>

fun strip_prefix :: "string \<Rightarrow> string \<Rightarrow> string option" where
  "strip_prefix [] s = Some s"
| "strip_prefix (c # p) [] = None"
| "strip_prefix (c # p) (d # s) = (if c = d then strip_prefix p s else None)"

definition rsplit_once :: "char \<Rightarrow> string \<Rightarrow> string \<times> string option" where
  "rsplit_once c s =
     (let last_part = rev (takeWhile (\<lambda>x. x \<noteq> c) (rev s)) in
      case dropWhile (\<lambda>x. x \<noteq> c) (rev s) of [] \<Rightarrow> (last_part, None) | _ # r \<Rightarrow> (last_part, Some (rev r)))"

definition parse_u64 :: "string \<Rightarrow> 64 word option" where
  "parse_u64 s = (case parse_int 0 (2 ^ 64 - 1) s of Inl _ \<Rightarrow> None | Inr i \<Rightarrow> Some (word_of_int i))"

definition parse_u32 :: "string \<Rightarrow> 32 word option" where
  "parse_u32 s = (case parse_int 0 (2 ^ 32 - 1) s of Inl _ \<Rightarrow> None | Inr i \<Rightarrow> Some (word_of_int i))"

definition slot_of_name :: "string \<Rightarrow> (slot_error, etl_replication_slot) result" where
  "slot_of_name name =
     (let invalid = InvalidSlotName name in
      case strip_prefix apply_worker_prefix name of
        Some rest \<Rightarrow>
          res_bind (ok_or invalid (strip_prefix ''_'' rest)) (\<lambda>rest.
          res_bind (ok_or invalid (parse_u64 rest)) (\<lambda>p. Inr (for_apply_worker p)))
      | None \<Rightarrow>
          (case strip_prefix table_sync_worker_prefix name of
             Some rest \<Rightarrow>
               res_bind (ok_or invalid (strip_prefix ''_'' rest)) (\<lambda>rest.
               let (table_part, pipeline_part) = rsplit_once CHR ''_'' rest in
               res_bind (ok_or invalid pipeline_part) (\<lambda>pipeline_part.
               res_bind (ok_or invalid (parse_u64 pipeline_part)) (\<lambda>p.
               res_bind (ok_or invalid (parse_u32 table_part)) (\<lambda>t.
               Inr (for_table_sync_worker p t)))))
           | None \<Rightarrow> Inl invalid))"

definition name_of_slot :: "etl_replication_slot \<Rightarrow> (slot_error, string) result" where
  "name_of_slot slot =
     (let name = (case slot of
          ApplySlot p \<Rightarrow> apply_worker_prefix @ ''_'' @ dec (unat p)
        | TableSyncSlot p t \<Rightarrow> table_sync_worker_prefix @ ''_'' @ dec (unat p) @ ''_'' @ dec (unat t)) in
      if max_slot_name_length < length name then Inl (InvalidSlotNameLength name) else Inr name)"

section \<open>Deleting the slots of a pipeline\<close>

definition escape_underscores :: "string \<Rightarrow> string" where
  "escape_underscores s = concat (map (\<lambda>c. if c = CHR ''_'' then [CHR 0x5C, CHR ''_''] else [c]) s)"

definition table_sync_like_pattern :: "pipeline_id \<Rightarrow> (slot_error, string) result" where
  "table_sync_like_pattern p = res_bind (table_sync_prefix p) (\<lambda>prefix. Inr (escape_underscores prefix @ ''%''))"

text \<open>SQL LIKE with the backslash as escape character, for patterns that do not end in it.\<close>

fun sql_like :: "string \<Rightarrow> string \<Rightarrow> bool" where
  "sql_like [] s = (s = [])"
| "sql_like [c] s =
     (if c = CHR ''%'' then True
      else if c = CHR ''_'' then length s = 1
      else s = [c] \<and> c \<noteq> CHR 0x5C)"
| "sql_like (c # d # p) s =
     (if c = CHR 0x5C then (case s of [] \<Rightarrow> False | x # xs \<Rightarrow> x = d \<and> sql_like p xs)
      else if c = CHR ''%'' then list_ex (\<lambda>i. sql_like (d # p) (drop i s)) [0..<length s + 1]
      else case s of [] \<Rightarrow> False | x # xs \<Rightarrow> (c = CHR ''_'' \<or> x = c) \<and> sql_like (d # p) xs)"

definition slot_selected :: "string \<Rightarrow> string \<Rightarrow> string \<Rightarrow> bool" where
  "slot_selected apply_name pattern name \<longleftrightarrow> name = apply_name \<or> sql_like pattern name"

text \<open>
  The two statements of the deletion, by what they select: ending the walsenders of the
  selected slots and dropping the selected slots.
\<close>

record 'w slot_admin =
  sa_terminate :: "(string \<Rightarrow> bool) \<Rightarrow> 'w \<Rightarrow> (sqlx_error, unit) result \<times> 'w"
  sa_drop :: "(string \<Rightarrow> bool) \<Rightarrow> 'w \<Rightarrow> (sqlx_error, unit) result \<times> 'w"

definition delete_max_retries :: nat where "delete_max_retries = 3"

fun delete_attempts ::
    "'w slot_admin \<Rightarrow> (string \<Rightarrow> bool) \<Rightarrow> nat list \<Rightarrow> 'w \<Rightarrow> (sqlx_error, unit) result \<times> 'w" where
  "delete_attempts adm sel [] w = (Inr (), w)"
| "delete_attempts adm sel (attempt # rest) w =
     (let (_, w1) = sa_terminate adm sel w in
      case sa_drop adm sel w1 of
        (Inr _, w2) \<Rightarrow> (Inr (), w2)
      | (Inl err, w2) \<Rightarrow> if attempt = delete_max_retries - 1 then (Inl err, w2) else delete_attempts adm sel rest w2)"

definition delete_pipeline_replication_slots ::
    "'w slot_admin \<Rightarrow> pipeline_id \<Rightarrow> 'w \<Rightarrow> (sqlx_error, unit) result \<times> 'w" where
  "delete_pipeline_replication_slots adm p w =
     (case name_of_slot (for_apply_worker p) of
        Inl _ \<Rightarrow> (Inr (), w)
      | Inr apply_name \<Rightarrow>
          (case table_sync_like_pattern p of
             Inl _ \<Rightarrow> (Inr (), w)
           | Inr pattern \<Rightarrow> delete_attempts adm (slot_selected apply_name pattern) [0..<delete_max_retries] w))"

text \<open>What the deletion relies on: dropping only removes selected slots, and removes all of them when it succeeds.\<close>

definition admin_ok :: "'w slot_admin \<Rightarrow> ('w \<Rightarrow> string set) \<Rightarrow> bool" where
  "admin_ok adm names \<longleftrightarrow>
     (\<forall>sel w. names (snd (sa_terminate adm sel w)) = names w) \<and>
     (\<forall>sel w. case sa_drop adm sel w of
         (Inr _, w') \<Rightarrow> names w' = {n \<in> names w. \<not> sel n}
       | (Inl _, w') \<Rightarrow> names w' \<subseteq> names w \<and> {n \<in> names w. \<not> sel n} \<subseteq> names w')"

fun pipeline_of_slot :: "etl_replication_slot \<Rightarrow> pipeline_id" where
  "pipeline_of_slot (ApplySlot p) = p"
| "pipeline_of_slot (TableSyncSlot p t) = p"

section \<open>Names are read back\<close>

lemma strip_prefix_append [simp]: "strip_prefix p (p @ s) = Some s"
  by (induction p) simp_all

lemma strip_prefix_eq_Some: "strip_prefix p s = Some r \<longleftrightarrow> s = p @ r"
  by (induction p s rule: strip_prefix.induct) auto

lemma rsplit_once_append: "c \<notin> set b \<Longrightarrow> rsplit_once c (a @ c # b) = (b, Some a)"
  by (simp add: rsplit_once_def Let_def takeWhile_append dropWhile_append)

lemma parse_dec [simp]:
  "parse_u64 (dec (unat p)) = Some p" "parse_u32 (dec (unat t)) = Some t"
proof -
  have "uint p < 2 ^ 64" "uint t < 2 ^ 32"
    using unsigned_less [where w = p and ?'a = int] unsigned_less [where w = t and ?'a = int] by simp_all
  then show "parse_u64 (dec (unat p)) = Some p" "parse_u32 (dec (unat t)) = Some t"
    by (simp_all add: parse_u64_def parse_u32_def parse_int_dec)
qed

lemma length_dec_word:
  "length (dec (unat (p :: 64 word))) \<le> 20" "length (dec (unat (t :: 32 word))) \<le> 10"
  using unat_bound [of p] unat_bound [of t] by (auto intro!: length_dec)

lemma underscore_not_digit [simp]: "\<not> is_digit CHR ''_''"
  by (simp add: is_digit_def)

lemma apply_prefix_not_table_sync: "strip_prefix apply_worker_prefix (table_sync_worker_prefix @ r) = None"
  by (simp add: apply_worker_prefix_def table_sync_worker_prefix_def)

lemma name_of_apply_slot: "name_of_slot (ApplySlot p) = Inr (apply_worker_prefix @ ''_'' @ dec (unat p))"
  using length_dec_word(1) [of p] by (simp add: name_of_slot_def max_slot_name_length_def apply_worker_prefix_def)

lemma name_of_table_sync_slot:
  "name_of_slot (TableSyncSlot p t) = Inr (table_sync_worker_prefix @ ''_'' @ dec (unat p) @ ''_'' @ dec (unat t))"
  using length_dec_word(1) [of p] length_dec_word(2) [of t]
  by (simp add: name_of_slot_def max_slot_name_length_def table_sync_worker_prefix_def)

lemmas name_of_slot_simps = name_of_apply_slot name_of_table_sync_slot

lemma slot_of_name_of_slot:
  assumes "name_of_slot s = Inr n"
  shows "slot_of_name n = Inr s"
proof (cases s)
  case (ApplySlot p)
  then have n: "n = apply_worker_prefix @ CHR ''_'' # dec (unat p)" using assms by (simp add: name_of_slot_simps)
  show ?thesis by (simp add: n ApplySlot slot_of_name_def for_apply_worker_def)
next
  case (TableSyncSlot p t)
  then have n: "n = table_sync_worker_prefix @ CHR ''_'' # dec (unat p) @ CHR ''_'' # dec (unat t)"
    using assms by (simp add: name_of_slot_simps)
  show ?thesis
    by (simp add: n TableSyncSlot slot_of_name_def apply_prefix_not_table_sync rsplit_once_append dec_no_char
        for_table_sync_worker_def)
qed

text \<open>
  C33. Every slot has a name that Postgres accepts (at most 63 bytes), and reading the name
  gives the slot back; so no two workers, of whatever pipelines and tables, share a slot.
\<close>

theorem slot_name_roundtrip:
  "\<exists>n. name_of_slot s = Inr n \<and> length n \<le> 63 \<and> slot_of_name n = Inr s"
proof -
  obtain n where n: "name_of_slot s = Inr n" by (cases s) (simp_all add: name_of_slot_simps)
  then have "length n \<le> 63"
    by (auto simp: name_of_slot_def Let_def max_slot_name_length_def split: if_splits)
  then show ?thesis using n slot_of_name_of_slot by blast
qed

section \<open>The deletion finds exactly the slots of the pipeline\<close>

lemma sql_like_prefix:
  assumes "CHR 0x5C \<notin> set s" "CHR ''%'' \<notin> set s"
  shows "sql_like (escape_underscores s @ ''%'') n \<longleftrightarrow> (\<exists>r. n = s @ r)"
  using assms
proof (induction s arbitrary: n)
  case (Cons c s)
  have IH: "sql_like (escape_underscores s @ ''%'') m \<longleftrightarrow> (\<exists>r. m = s @ r)" for m using Cons by simp
  obtain d p where dp: "escape_underscores s @ ''%'' = d # p" by (cases "escape_underscores s @ ''%''") auto
  show ?case
  proof (cases "c = CHR ''_''")
    case True
    then show ?thesis using IH by (cases n) (auto simp: escape_underscores_def)
  next
    case False
    then have "sql_like (escape_underscores (c # s) @ ''%'') n = sql_like (c # d # p) n"
      using dp by (simp add: escape_underscores_def)
    then show ?thesis using False Cons.prems IH dp by (cases n) auto
  qed
qed (simp add: escape_underscores_def)

lemma table_sync_like_pattern_eq:
  "table_sync_like_pattern p = Inr (escape_underscores (table_sync_worker_prefix @ ''_'' @ dec (unat p) @ ''_'') @ ''%'')"
  using length_dec_word(1) [of p]
  by (simp add: table_sync_like_pattern_def table_sync_prefix_def max_slot_name_length_def table_sync_worker_prefix_def)

lemma dec_separated: "dec m @ CHR ''_'' # a = dec n @ CHR ''_'' # b \<longleftrightarrow> m = n \<and> a = b"
proof
  assume eq: "dec m @ CHR ''_'' # a = dec n @ CHR ''_'' # b"
  have "takeWhile is_digit (dec k @ CHR ''_'' # c) = dec k" for k c
    using dec_digits [of k] by (simp add: takeWhile_append list_all_iff)
  then have "dec m = dec n" using eq by metis
  then show "m = n \<and> a = b" using eq by (simp add: dec_inject)
qed simp

lemma slot_selected_iff:
  assumes "name_of_slot (ApplySlot p) = Inr a" "table_sync_like_pattern p = Inr pat" "name_of_slot s = Inr n"
  shows "slot_selected a pat n \<longleftrightarrow> pipeline_of_slot s = p"
proof -
  let ?pre = "table_sync_worker_prefix @ ''_'' @ dec (unat p) @ ''_''"
  have "CHR 0x5C \<notin> set ?pre" "CHR ''%'' \<notin> set ?pre"
    using dec_no_char [of "CHR 0x5C" "unat p"] dec_no_char [of "CHR ''%''" "unat p"]
    by (auto simp: is_digit_def table_sync_worker_prefix_def)
  then have like: "sql_like pat n \<longleftrightarrow> (\<exists>r. n = ?pre @ r)"
    using sql_like_prefix assms(2) by (auto simp: table_sync_like_pattern_eq)
  show ?thesis
  proof (cases s)
    case (ApplySlot q)
    have "\<not> sql_like pat n" unfolding like using assms(3) ApplySlot
      by (auto simp: name_of_slot_simps apply_worker_prefix_def table_sync_worker_prefix_def)
    then show ?thesis using assms(1,3) ApplySlot by (auto simp: slot_selected_def name_of_slot_simps dec_inject word_unat_eq_iff)
  next
    case (TableSyncSlot q t)
    then have n: "n = table_sync_worker_prefix @ CHR ''_'' # dec (unat q) @ CHR ''_'' # dec (unat t)"
      using assms(3) by (simp add: name_of_slot_simps)
    have "n \<noteq> a" using assms(1) unfolding n
      by (auto simp: name_of_slot_simps apply_worker_prefix_def table_sync_worker_prefix_def)
    moreover have "(\<exists>r. n = ?pre @ r) \<longleftrightarrow> q = p" unfolding n by (auto simp: dec_separated word_unat_eq_iff)
    ultimately show ?thesis by (simp add: slot_selected_def TableSyncSlot like del: append_assoc)
  qed
qed

lemma admin_ok_drop:
  assumes "admin_ok adm names"
  shows "case sa_drop adm sel w of
         (Inr _, w') \<Rightarrow> names w' = {n \<in> names w. \<not> sel n}
       | (Inl _, w') \<Rightarrow> names w' \<subseteq> names w \<and> {n \<in> names w. \<not> sel n} \<subseteq> names w'"
  using assms unfolding admin_ok_def by simp

lemma delete_attempts_names:
  assumes "admin_ok adm names" "delete_attempts adm sel as w = (r, w')" "last as = delete_max_retries - 1" "as \<noteq> []"
    "distinct as"
  shows "{n \<in> names w. \<not> sel n} \<subseteq> names w' \<and> names w' \<subseteq> names w \<and> (is_ok r \<longrightarrow> (\<forall>n \<in> names w'. \<not> sel n))"
  using assms(2-)
proof (induction as arbitrary: w)
  case (Cons a as)
  obtain x w1 where t: "sa_terminate adm sel w = (x, w1)" by fastforce
  obtain y w2 where d: "sa_drop adm sel w1 = (y, w2)" by fastforce
  have w1: "names w1 = names w" using assms(1) t unfolding admin_ok_def by (metis snd_conv)
  have w2: "case y of Inr _ \<Rightarrow> names w2 = {n \<in> names w1. \<not> sel n}
      | Inl _ \<Rightarrow> names w2 \<subseteq> names w1 \<and> {n \<in> names w1. \<not> sel n} \<subseteq> names w2"
    using admin_ok_drop [OF assms(1), where sel = sel and w = w1] d by (cases y) simp_all
  show ?case
  proof (cases "\<exists>e. y = Inl e \<and> a \<noteq> delete_max_retries - 1")
    case True
    then obtain e where e: "y = Inl e" "a \<noteq> delete_max_retries - 1" by blast
    then have "as \<noteq> []" using Cons.prems by auto
    moreover have "delete_attempts adm sel as w2 = (r, w')" using Cons.prems(1) t d e by simp
    ultimately have "{n \<in> names w2. \<not> sel n} \<subseteq> names w' \<and> names w' \<subseteq> names w2 \<and> (is_ok r \<longrightarrow> (\<forall>n \<in> names w'. \<not> sel n))"
      using Cons.prems(2,4) by (intro Cons.IH) simp_all
    moreover have "names w2 \<subseteq> names w" "{n \<in> names w. \<not> sel n} \<subseteq> names w2" using w1 w2 e by simp_all
    ultimately show ?thesis by blast
  next
    case False
    then have "(r, w') = (y, w2)" using Cons.prems(1) t d by (cases y) auto
    then show ?thesis using w1 w2 by (cases y) auto
  qed
qed simp

text \<open>
  C34. Deleting a pipeline removes its slots and only them. Whatever the attempts do, no slot
  of another pipeline is dropped, and when the deletion succeeds no slot of the pipeline is
  left, for a server that drops all slots a statement selects, or some of them when it
  fails.
\<close>

theorem delete_slots_exact:
  assumes "admin_ok adm names" "delete_pipeline_replication_slots adm p w = (r, w')" "name_of_slot s = Inr n"
  shows "(pipeline_of_slot s \<noteq> p \<longrightarrow> (n \<in> names w' \<longleftrightarrow> n \<in> names w)) \<and>
     (pipeline_of_slot s = p \<longrightarrow> is_ok r \<longrightarrow> n \<notin> names w')"
proof -
  obtain a pat where a: "name_of_slot (ApplySlot p) = Inr a" "table_sync_like_pattern p = Inr pat"
    by (simp add: name_of_slot_simps table_sync_like_pattern_eq)
  have "delete_attempts adm (slot_selected a pat) [0..<delete_max_retries] w = (r, w')"
    using assms(2) a by (simp add: delete_pipeline_replication_slots_def for_apply_worker_def)
  from delete_attempts_names [OF assms(1) this] show ?thesis
    using slot_selected_iff [OF a assms(3)] by (auto simp: delete_max_retries_def)
qed

definition all_at_once :: "string set slot_admin" where
  "all_at_once = \<lparr> sa_terminate = (\<lambda>_ w. (Inr (), w)), sa_drop = (\<lambda>sel w. (Inr (), {n \<in> w. \<not> sel n})) \<rparr>"

theorem delete_slots_exact_witness:
  "''supabase_etl_apply_1'' \<in> snd (delete_pipeline_replication_slots all_at_once 12 {''supabase_etl_apply_1''})"
proof -
  have "admin_ok all_at_once id" by (simp add: admin_ok_def all_at_once_def)
  moreover have "name_of_slot (ApplySlot 1) = Inr ''supabase_etl_apply_1''"
    by (simp add: name_of_slot_simps apply_worker_prefix_def dec.simps digit_char_def char_of_def bit_iff_odd)
  ultimately show ?thesis
    using delete_slots_exact [of all_at_once id 12 "{''supabase_etl_apply_1''}" _ _ "ApplySlot 1" "''supabase_etl_apply_1''"]
    by (cases "delete_pipeline_replication_slots all_at_once 12 {''supabase_etl_apply_1''}") simp
qed

end
