(* ===== verification/Schema.thy ===== *)
theory Schema
  imports Etl_Error "HOL-Library.AList"
begin

text \<open>
  Table schemas, masks and replicated schemas,
  \<open>crates/etl-postgres/src/types/schema.rs\<close>.

  A mask is a list of bytes in table-column order. A Postgres type is named by
  its \<open>PgType\<close> constant. A \<open>HashSet<String>\<close> is the list of its elements in
  iteration order, a \<open>HashMap\<close> an association list with distinct keys: no result
  below depends on that order. The \<open>i32\<close> fields of a column are never computed
  with and are integers here.
\<close>

section \<open>Identifiers, names, columns\<close>

datatype schema_error = UnknownReplicatedColumns "string list" | InvalidSnapshotId string

type_synonym snapshot_id = lsn

definition snapshot_initial :: snapshot_id where "snapshot_initial = 0"

definition snapshot_max :: snapshot_id where "snapshot_max = - 1"

record table_name =
  tn_schema :: string
  tn_name :: string

definition table_name_display :: "table_name \<Rightarrow> string" where
  "table_name_display n = tn_schema n @ ''.'' @ tn_name n"

type_synonym pg_type = string

record column_schema =
  cs_name :: string
  cs_typ :: pg_type
  cs_modifier :: int
  cs_ordinal :: int
  cs_pk_ordinal :: "int option"
  cs_nullable :: bool

definition primary_key :: "column_schema \<Rightarrow> bool" where
  "primary_key c = (cs_pk_ordinal c \<noteq> None)"

record table_schema =
  ts_id :: table_id
  ts_name :: table_name
  ts_columns :: "column_schema list"
  ts_snapshot :: snapshot_id

definition with_snapshot_id ::
    "table_id \<Rightarrow> table_name \<Rightarrow> column_schema list \<Rightarrow> snapshot_id \<Rightarrow> table_schema" where
  "with_snapshot_id i n cs s = \<lparr> ts_id = i, ts_name = n, ts_columns = cs, ts_snapshot = s \<rparr>"

definition new_table_schema :: "table_id \<Rightarrow> table_name \<Rightarrow> column_schema list \<Rightarrow> table_schema" where
  "new_table_schema i n cs = with_snapshot_id i n cs snapshot_initial"

definition add_column_schema :: "column_schema \<Rightarrow> table_schema \<Rightarrow> table_schema" where
  "add_column_schema c t = t \<lparr> ts_columns := ts_columns t @ [c] \<rparr>"

definition has_primary_keys :: "table_schema \<Rightarrow> bool" where
  "has_primary_keys t = list_ex primary_key (ts_columns t)"

section \<open>Masks\<close>

type_synonym byte = "8 word"
type_synonym mask = "byte list"

definition u8_from_bool :: "bool \<Rightarrow> byte" where
  "u8_from_bool b = (if b then 1 else 0)"

definition validate_mask_column_names ::
    "table_schema \<Rightarrow> string list \<Rightarrow> (schema_error, unit) result" where
  "validate_mask_column_names t names =
     (let schema_names = map cs_name (ts_columns t);
          unknown = filter (\<lambda>n. n \<notin> set schema_names) names
      in if unknown \<noteq> [] then Inl (UnknownReplicatedColumns unknown) else Inr ())"

definition build_mask_bytes :: "table_schema \<Rightarrow> string list \<Rightarrow> mask" where
  "build_mask_bytes t names = map (\<lambda>c. u8_from_bool (cs_name c \<in> set names)) (ts_columns t)"

definition mask_try_build :: "table_schema \<Rightarrow> string list \<Rightarrow> (schema_error, mask) result" where
  "mask_try_build t names =
     res_bind (validate_mask_column_names t names) (\<lambda>_. Inr (build_mask_bytes t names))"

definition mask_all :: "table_schema \<Rightarrow> mask" where
  "mask_all t = replicate (length (ts_columns t)) 1"

definition mask_build_or_all :: "table_schema \<Rightarrow> string list \<Rightarrow> mask" where
  "mask_build_or_all t names = (case mask_try_build t names of
      Inr m \<Rightarrow> m | Inl _ \<Rightarrow> mask_all t)"

definition replicated_count :: "mask \<Rightarrow> nat" where
  "replicated_count m = length (filter (\<lambda>b. b = 1) m)"

definition identity_try_build :: "table_schema \<Rightarrow> string list \<Rightarrow> (schema_error, mask) result" where
  "identity_try_build t names =
     res_bind (validate_mask_column_names t names) (\<lambda>_. Inr (build_mask_bytes t names))"

section \<open>Replicated schemas\<close>

datatype identity_type = Full | PrimaryKey | AlternativeKey | Missing

record 'a sized_iterator =
  si_inner :: "'a list"
  si_len :: nat

definition si_next :: "'a sized_iterator \<Rightarrow> 'a option \<times> 'a sized_iterator" where
  "si_next it = (case si_inner it of
      [] \<Rightarrow> (None, it)
    | x # xs \<Rightarrow> (Some x, it \<lparr> si_inner := xs, si_len := si_len it - 1 \<rparr>))"

record replicated_table_schema =
  rts_schema :: table_schema
  rts_mask :: mask
  rts_count :: nat
  rts_identity_mask :: mask
  rts_identity_count :: nat
  rts_pk_count :: nat
  rts_identity_type :: identity_type

fun infer_loop ::
    "((column_schema \<times> byte) \<times> byte) list \<Rightarrow> bool \<times> bool \<times> bool \<Rightarrow> bool \<times> bool \<times> bool" where
  "infer_loop [] acc = acc"
| "infer_loop (((c, replicated), identity) # rest) (has_identity, matches_pk, matches_full) =
     infer_loop rest
       (has_identity \<or> identity = 1,
        (if identity \<noteq> u8_from_bool (replicated = 1 \<and> primary_key c) then False else matches_pk),
        (if identity \<noteq> replicated then False else matches_full))"

definition infer_identity_type :: "table_schema \<Rightarrow> mask \<Rightarrow> mask \<Rightarrow> identity_type" where
  "infer_identity_type t rm im =
     (let (has_identity, matches_pk, matches_full) =
            infer_loop (zip (zip (ts_columns t) rm) im) (False, True, True)
      in if \<not> has_identity then Missing
         else if matches_pk then PrimaryKey
         else if matches_full then Full
         else AlternativeKey)"

definition primary_key_identity_mask :: "table_schema \<Rightarrow> mask \<Rightarrow> mask" where
  "primary_key_identity_mask t rm =
     map (\<lambda>(c, replicated). u8_from_bool (replicated = 1 \<and> primary_key c)) (zip (ts_columns t) rm)"

definition from_masks :: "table_schema \<Rightarrow> mask \<Rightarrow> mask \<Rightarrow> replicated_table_schema" where
  "from_masks t rm im =
     \<lparr> rts_schema = t,
       rts_mask = rm,
       rts_count = replicated_count rm,
       rts_identity_mask = im,
       rts_identity_count = length (filter (\<lambda>(r, i). r = 1 \<and> i = 1) (zip rm im)),
       rts_pk_count = length (filter (\<lambda>(c, r). r = 1 \<and> primary_key c) (zip (ts_columns t) rm)),
       rts_identity_type = infer_identity_type t rm im \<rparr>"

definition from_mask :: "table_schema \<Rightarrow> mask \<Rightarrow> replicated_table_schema" where
  "from_mask t rm = from_masks t rm (primary_key_identity_mask t rm)"

definition replicated_all :: "table_schema \<Rightarrow> replicated_table_schema" where
  "replicated_all t = from_mask t (mask_all t)"

definition rts_id :: "replicated_table_schema \<Rightarrow> table_id" where
  "rts_id r = ts_id (rts_schema r)"

definition identity_matches_primary_key :: "replicated_table_schema \<Rightarrow> bool" where
  "identity_matches_primary_key r =
     (rts_identity_mask r = primary_key_identity_mask (rts_schema r) (rts_mask r))"

definition filter_map :: "('a \<Rightarrow> 'b option) \<Rightarrow> 'a list \<Rightarrow> 'b list" where
  "filter_map f xs = List.map_filter f xs"

definition column_schemas :: "replicated_table_schema \<Rightarrow> column_schema sized_iterator" where
  "column_schemas r =
     \<lparr> si_inner = filter_map (\<lambda>(c, m). if m = 1 then Some c else None)
                    (zip (ts_columns (rts_schema r)) (rts_mask r)),
       si_len = rts_count r \<rparr>"

definition identity_column_schemas :: "replicated_table_schema \<Rightarrow> column_schema sized_iterator" where
  "identity_column_schemas r =
     \<lparr> si_inner = filter_map (\<lambda>(c, m, i). if m = 1 \<and> i = 1 then Some c else None)
                    (zip (ts_columns (rts_schema r)) (zip (rts_mask r) (rts_identity_mask r))),
       si_len = rts_identity_count r \<rparr>"

definition primary_key_column_schemas :: "replicated_table_schema \<Rightarrow> column_schema sized_iterator" where
  "primary_key_column_schemas r =
     \<lparr> si_inner = filter_map (\<lambda>(c, m). if m = 1 \<and> primary_key c then Some c else None)
                    (zip (ts_columns (rts_schema r)) (rts_mask r)),
       si_len = rts_pk_count r \<rparr>"

definition unreplicated_primary_key_column_schemas ::
    "replicated_table_schema \<Rightarrow> column_schema list" where
  "unreplicated_primary_key_column_schemas r =
     filter_map (\<lambda>(c, m). if primary_key c \<and> m = 0 then Some c else None)
       (zip (ts_columns (rts_schema r)) (rts_mask r))"

definition all_primary_key_columns_replicated :: "replicated_table_schema \<Rightarrow> bool" where
  "all_primary_key_columns_replicated r = (unreplicated_primary_key_column_schemas r = [])"

section \<open>Schema differences\<close>

record column_rename =
  cr_old_name :: string
  cr_new_name :: string
  cr_ordinal :: int

record schema_diff =
  columns_to_add :: "column_schema list"
  columns_to_remove :: "column_schema list"
  columns_to_rename :: "column_rename list"

definition diff_is_empty :: "schema_diff \<Rightarrow> bool" where
  "diff_is_empty d \<longleftrightarrow> columns_to_add d = [] \<and> columns_to_remove d = [] \<and> columns_to_rename d = []"

text \<open>Collecting pairs into a \<open>HashMap\<close>: a later pair replaces an earlier one.\<close>

definition collect_map :: "('k \<times> 'v) list \<Rightarrow> ('k \<times> 'v) list" where
  "collect_map kvs = fold (\<lambda>(k, v) m. AList.update k v m) kvs []"

definition columns_by_ordinal :: "replicated_table_schema \<Rightarrow> (int \<times> column_schema) list" where
  "columns_by_ordinal r = collect_map (map (\<lambda>c. (cs_ordinal c, c)) (si_inner (column_schemas r)))"

definition diff :: "replicated_table_schema \<Rightarrow> replicated_table_schema \<Rightarrow> schema_diff" where
  "diff old new_schema =
     (let old_columns = columns_by_ordinal old;
          new_columns = columns_by_ordinal new_schema;
          renames = filter_map (\<lambda>(p, oc). case map_of new_columns p of
              Some nc \<Rightarrow> if cs_name oc \<noteq> cs_name nc
                then Some \<lparr> cr_old_name = cs_name oc, cr_new_name = cs_name nc, cr_ordinal = p \<rparr>
                else None
            | None \<Rightarrow> None) old_columns;
          removes = filter_map (\<lambda>(p, oc). case map_of new_columns p of
              None \<Rightarrow> Some oc | Some _ \<Rightarrow> None) old_columns;
          adds = map snd (filter (\<lambda>(p, _). map_of old_columns p = None) new_columns)
      in \<lparr> columns_to_add = sort_key cs_ordinal adds,
           columns_to_remove = sort_key cs_ordinal removes,
           columns_to_rename = sort_key cr_ordinal renames \<rparr>)"

section \<open>Specifications\<close>

text \<open>An exact-size iterator announces the number of items it still yields.\<close>

definition exact_size :: "'a sized_iterator \<Rightarrow> bool" where
  "exact_size it \<longleftrightarrow> si_len it = length (si_inner it)"

text \<open>The name a replicated schema gives to a position, and the effect of a diff on such names.\<close>

definition names_at :: "replicated_table_schema \<Rightarrow> int \<Rightarrow> string option" where
  "names_at r p = map_option cs_name (map_of (columns_by_ordinal r) p)"

definition apply_diff :: "schema_diff \<Rightarrow> (int \<Rightarrow> string option) \<Rightarrow> int \<Rightarrow> string option" where
  "apply_diff d names p =
     (if p \<in> cs_ordinal ` set (columns_to_remove d) then None
      else (case find (\<lambda>r. cr_ordinal r = p \<and> names p = Some (cr_old_name r)) (columns_to_rename d) of
          Some r \<Rightarrow> Some (cr_new_name r)
        | None \<Rightarrow> (case find (\<lambda>c. cs_ordinal c = p) (columns_to_add d) of
            Some c \<Rightarrow> Some (cs_name c)
          | None \<Rightarrow> names p)))"

section \<open>Lemmas on masks\<close>

lemma u8_from_bool_simps [simp, schema_simps]:
  "u8_from_bool b = 1 \<longleftrightarrow> b" "u8_from_bool b = 0 \<longleftrightarrow> \<not> b"
  by (simp_all add: u8_from_bool_def)

lemma filter_map_simps [simp, schema_simps]:
  "filter_map f [] = []"
  "filter_map f (x # xs) = (case f x of None \<Rightarrow> filter_map f xs | Some y \<Rightarrow> y # filter_map f xs)"
  by (simp_all add: filter_map_def List.map_filter_simps split: option.split)

lemma set_filter_map: "set (filter_map f xs) = {y. \<exists>x \<in> set xs. f x = Some y}"
  by (induction xs) (auto split: option.splits)

lemma length_build_mask_bytes [simp]: "length (build_mask_bytes t names) = length (ts_columns t)"
  by (simp add: build_mask_bytes_def)

lemma length_mask_all [simp]: "length (mask_all t) = length (ts_columns t)"
  by (simp add: mask_all_def)

lemma length_primary_key_identity_mask [simp]:
  "length (primary_key_identity_mask t rm) = min (length (ts_columns t)) (length rm)"
  by (simp add: primary_key_identity_mask_def)

lemma validate_ok_iff:
  "validate_mask_column_names t names = Inr () \<longleftrightarrow> set names \<subseteq> cs_name ` set (ts_columns t)"
  by (auto simp: validate_mask_column_names_def Let_def filter_empty_conv)

lemma mask_try_build_iff:
  "mask_try_build t names = Inr m \<longleftrightarrow>
     set names \<subseteq> cs_name ` set (ts_columns t) \<and> m = build_mask_bytes t names"
proof -
  have "mask_try_build t names = Inr m \<longleftrightarrow>
      validate_mask_column_names t names = Inr () \<and> m = build_mask_bytes t names"
    by (cases "validate_mask_column_names t names") (auto simp: mask_try_build_def)
  then show ?thesis by (simp add: validate_ok_iff)
qed

lemma filter_map_mask:
  "filter_map (\<lambda>(c, m). if m = 1 then Some c else None)
     (zip cs (map (\<lambda>c. u8_from_bool (P c)) cs)) = filter P cs"
  by (induction cs) auto

lemma column_schemas_build_mask:
  "si_inner (column_schemas (from_masks t (build_mask_bytes t names) im)) =
     filter (\<lambda>c. cs_name c \<in> set names) (ts_columns t)"
  by (simp add: column_schemas_def from_masks_def build_mask_bytes_def filter_map_mask)

section \<open>Lemmas on the exact-size iterators\<close>

lemma exact_size_next: "exact_size it \<Longrightarrow> exact_size (snd (si_next it))"
  by (auto simp: exact_size_def si_next_def split: list.split)

lemma length_filter_map_columns:
  "length m = length cs \<Longrightarrow>
   length (filter_map (\<lambda>(c, b). if b = 1 then Some c else None) (zip cs m)) = replicated_count m"
  by (induction m cs rule: list_induct2) (auto simp: replicated_count_def)

lemma length_filter_map_identity:
  "length cs = length m \<Longrightarrow> length m = length i \<Longrightarrow>
   length (filter_map (\<lambda>(c, a, b). if a = 1 \<and> b = 1 then Some c else None) (zip cs (zip m i))) =
   length (filter (\<lambda>(a, b). a = 1 \<and> b = 1) (zip m i))"
  by (induction cs m i rule: list_induct3) auto

lemma length_filter_map_pk:
  "length (filter_map (\<lambda>(c, b). if b = 1 \<and> primary_key c then Some c else None) zs) =
   length (filter (\<lambda>(c, b). b = 1 \<and> primary_key c) zs)"
  by (induction zs) (simp_all split: prod.split)

section \<open>Lemmas on the identity type\<close>

lemma infer_loop_eq:
  "infer_loop zs (h, p, f) =
     (h \<or> (\<exists>z \<in> set zs. snd z = 1),
      p \<and> (\<forall>z \<in> set zs. snd z = u8_from_bool (snd (fst z) = 1 \<and> primary_key (fst (fst z)))),
      f \<and> (\<forall>z \<in> set zs. snd z = snd (fst z)))"
  by (induction zs "(h, p, f)" arbitrary: h p f rule: infer_loop.induct) auto

lemma ball_zip_eq_iff:
  "length xs = length ys \<Longrightarrow> (\<forall>z \<in> set (zip xs ys). snd z = g (fst z)) \<longleftrightarrow> ys = map g xs"
  by (induction xs ys rule: list_induct2) auto

lemma bex_zip_snd:
  "length xs = length ys \<Longrightarrow> (\<exists>z \<in> set (zip xs ys). snd z = v) \<longleftrightarrow> v \<in> set ys"
  by (induction xs ys rule: list_induct2) auto

lemma infer_identity_type_eq:
  assumes "length rm = length (ts_columns t)" and "length im = length (ts_columns t)"
  shows "infer_identity_type t rm im =
     (if 1 \<notin> set im then Missing
      else if im = primary_key_identity_mask t rm then PrimaryKey
      else if im = rm then Full
      else AlternativeKey)"
proof -
  let ?z = "zip (zip (ts_columns t) rm) im"
  have len: "length (zip (ts_columns t) rm) = length im" using assms by simp
  have pk: "(\<forall>z \<in> set ?z. snd z = u8_from_bool (snd (fst z) = 1 \<and> primary_key (fst (fst z)))) \<longleftrightarrow>
      im = primary_key_identity_mask t rm"
    using ball_zip_eq_iff [OF len, of "\<lambda>x. u8_from_bool (snd x = 1 \<and> primary_key (fst x))"]
    by (simp add: primary_key_identity_mask_def case_prod_unfold)
  have full: "(\<forall>z \<in> set ?z. snd z = snd (fst z)) \<longleftrightarrow> im = rm"
    using ball_zip_eq_iff [OF len, of snd] assms by simp
  show ?thesis
    by (simp add: infer_identity_type_def infer_loop_eq bex_zip_snd [OF len] pk full)
qed

section \<open>Lemmas on schema differences\<close>

lemma map_of_fold_update:
  "map_of (fold (\<lambda>(k, v) m. AList.update k v m) kvs acc) = map_of acc ++ map_of (rev kvs)"
  by (induction kvs arbitrary: acc) (auto simp: update_conv' map_add_upd_left)

lemma distinct_fold_update:
  "distinct (map fst acc) \<Longrightarrow>
   distinct (map fst (fold (\<lambda>(k, v) m. AList.update k v m) kvs acc))"
  by (induction kvs arbitrary: acc) (auto simp: distinct_update)

lemma map_of_collect_map: "map_of (collect_map kvs) = map_of (rev kvs)"
  by (simp add: collect_map_def map_of_fold_update)

lemma distinct_collect_map: "distinct (map fst (collect_map kvs))"
  by (simp add: collect_map_def distinct_fold_update)

lemma in_columns_by_ordinal:
  "(p, c) \<in> set (columns_by_ordinal r) \<longleftrightarrow> map_of (columns_by_ordinal r) p = Some c"
  by (simp add: columns_by_ordinal_def map_of_eq_Some_iff [OF distinct_collect_map])

lemma bex_columns_by_ordinal:
  "(\<exists>x \<in> set (columns_by_ordinal r). P x) \<longleftrightarrow>
   (\<exists>p c. map_of (columns_by_ordinal r) p = Some c \<and> P (p, c))"
  using in_columns_by_ordinal by fastforce

lemma columns_by_ordinal_key: "map_of (columns_by_ordinal r) p = Some c \<Longrightarrow> cs_ordinal c = p"
  unfolding columns_by_ordinal_def map_of_collect_map by (auto dest: map_of_SomeD)

lemma set_columns_to_remove:
  "set (columns_to_remove (diff a b)) =
     {c. \<exists>p. map_of (columns_by_ordinal a) p = Some c \<and> map_of (columns_by_ordinal b) p = None}"
  by (auto simp: diff_def Let_def set_filter_map bex_columns_by_ordinal split: option.splits)

lemma set_columns_to_add:
  "set (columns_to_add (diff a b)) =
     {c. \<exists>p. map_of (columns_by_ordinal b) p = Some c \<and> map_of (columns_by_ordinal a) p = None}"
  by (force simp: diff_def Let_def in_columns_by_ordinal)

lemma in_columns_to_rename:
  "r \<in> set (columns_to_rename (diff a b)) \<longleftrightarrow>
     (\<exists>oc nc. map_of (columns_by_ordinal a) (cr_ordinal r) = Some oc \<and>
              map_of (columns_by_ordinal b) (cr_ordinal r) = Some nc \<and>
              cs_name oc \<noteq> cs_name nc \<and> cr_old_name r = cs_name oc \<and> cr_new_name r = cs_name nc)"
  (is "?l = ?r")
proof
  show "?l \<Longrightarrow> ?r"
    by (auto simp: diff_def Let_def set_filter_map bex_columns_by_ordinal
        split: option.splits if_splits)
  show "?r \<Longrightarrow> ?l"
    by (cases r) (auto simp: diff_def Let_def set_filter_map bex_columns_by_ordinal
        intro!: exI [of _ "cr_ordinal r"])
qed

lemma ordinal_in_columns_to_remove:
  "p \<in> cs_ordinal ` set (columns_to_remove (diff a b)) \<longleftrightarrow>
     map_of (columns_by_ordinal a) p \<noteq> None \<and> map_of (columns_by_ordinal b) p = None"
  by (auto simp: set_columns_to_remove image_iff dest: columns_by_ordinal_key)

lemma find_eq_Some_in: "find P xs = Some x \<Longrightarrow> x \<in> set xs \<and> P x"
  by (auto simp: find_Some_iff)

lemma find_columns_to_add:
  "find (\<lambda>c. cs_ordinal c = p) (columns_to_add (diff a b)) =
     (if map_of (columns_by_ordinal a) p = None then map_of (columns_by_ordinal b) p else None)"
proof (cases "find (\<lambda>c. cs_ordinal c = p) (columns_to_add (diff a b))")
  case None
  have "map_of (columns_by_ordinal b) p = Some c \<Longrightarrow> map_of (columns_by_ordinal a) p \<noteq> None" for c
  proof
    assume *: "map_of (columns_by_ordinal b) p = Some c" "map_of (columns_by_ordinal a) p = None"
    then have "c \<in> set (columns_to_add (diff a b))" by (auto simp: set_columns_to_add)
    with None columns_by_ordinal_key [OF *(1)] show False by (auto simp: find_None_iff)
  qed
  with None show ?thesis by (cases "map_of (columns_by_ordinal b) p") auto
next
  case (Some c)
  then obtain q where q: "map_of (columns_by_ordinal b) q = Some c"
      "map_of (columns_by_ordinal a) q = None" and "cs_ordinal c = p"
    by (auto simp: set_columns_to_add dest!: find_eq_Some_in)
  moreover from q(1) have "cs_ordinal c = q" by (rule columns_by_ordinal_key)
  ultimately show ?thesis using Some by simp
qed

lemma find_columns_to_rename:
  "map_option cr_new_name
     (find (\<lambda>r. cr_ordinal r = p \<and> names_at a p = Some (cr_old_name r)) (columns_to_rename (diff a b))) =
   (if names_at a p \<noteq> None \<and> names_at b p \<noteq> None \<and> names_at a p \<noteq> names_at b p
    then names_at b p else None)"
proof (cases "find (\<lambda>r. cr_ordinal r = p \<and> names_at a p = Some (cr_old_name r)) (columns_to_rename (diff a b))")
  case None
  have "names_at a p = Some x \<Longrightarrow> names_at b p = Some y \<Longrightarrow> x = y" for x y
  proof (rule ccontr)
    assume xy: "names_at a p = Some x" "names_at b p = Some y" "x \<noteq> y"
    then have "\<lparr> cr_old_name = x, cr_new_name = y, cr_ordinal = p \<rparr> \<in> set (columns_to_rename (diff a b))"
      by (auto simp: in_columns_to_rename names_at_def)
    with None xy(1) show False by (force simp: find_None_iff)
  qed
  with None show ?thesis by auto
next
  case (Some r)
  then show ?thesis
    by (auto simp: in_columns_to_rename names_at_def dest!: find_eq_Some_in)
qed

lemma apply_diff_alt:
  "apply_diff d names p =
     (if p \<in> cs_ordinal ` set (columns_to_remove d) then None
      else (case map_option cr_new_name
                (find (\<lambda>r. cr_ordinal r = p \<and> names p = Some (cr_old_name r)) (columns_to_rename d)) of
          Some n \<Rightarrow> Some n
        | None \<Rightarrow> (case map_option cs_name (find (\<lambda>c. cs_ordinal c = p) (columns_to_add d)) of
            Some n \<Rightarrow> Some n
          | None \<Rightarrow> names p)))"
  unfolding apply_diff_def by (simp split: option.split)

lemma apply_diff_diff: "apply_diff (diff a b) (names_at a) p = names_at b p"
  unfolding apply_diff_alt find_columns_to_rename find_columns_to_add ordinal_in_columns_to_remove
  by (cases "map_of (columns_by_ordinal a) p"; cases "map_of (columns_by_ordinal b) p")
    (auto simp: names_at_def)

lemma diff_is_empty_iff: "diff_is_empty (diff a b) \<longleftrightarrow> names_at a = names_at b"
proof
  assume "diff_is_empty (diff a b)"
  then have "apply_diff (diff a b) (names_at a) p = names_at a p" for p
    by (simp add: diff_is_empty_def apply_diff_def)
  then show "names_at a = names_at b" by (auto simp: apply_diff_diff fun_eq_iff)
next
  assume "names_at a = names_at b"
  then have eq: "map_option cs_name (map_of (columns_by_ordinal a) p) =
      map_option cs_name (map_of (columns_by_ordinal b) p)" for p
    by (simp add: names_at_def fun_eq_iff)
  have "map_of (columns_by_ordinal a) p = None \<longleftrightarrow> map_of (columns_by_ordinal b) p = None" for p
    using eq [of p] by (metis option.map_disc_iff)
  then have "set (columns_to_add (diff a b)) = {}" "set (columns_to_remove (diff a b)) = {}"
    by (auto simp: set_columns_to_add set_columns_to_remove) (metis not_None_eq)
  moreover have "r \<in> set (columns_to_rename (diff a b)) \<Longrightarrow> False" for r
    using eq [of "cr_ordinal r"] by (auto simp: in_columns_to_rename)
  then have "set (columns_to_rename (diff a b)) = {}" by (rule equals0I)
  ultimately show "diff_is_empty (diff a b)"
    by (auto simp: diff_is_empty_def)
qed

section \<open>Properties\<close>

text \<open>
  C26. The difference of two replicated schemas is exact: removing, renaming and adding
  the columns it names turns the old column names, position by position, into the new
  ones, and it is empty exactly when no position has another name.
\<close>

theorem diff_correct:
  "apply_diff (diff a b) (names_at a) = names_at b \<and> (diff_is_empty (diff a b) \<longleftrightarrow> names_at a = names_at b)"
  by (simp add: fun_eq_iff apply_diff_diff diff_is_empty_iff)

text \<open>
  A replication mask is built exactly when every replicated column is known, and then
  the schema iterates over exactly those columns in table order and announces their
  number; otherwise the error lists exactly the unknown columns.
\<close>

lemma replication_mask_correct:
  "case mask_try_build t names of
      Inl (UnknownReplicatedColumns cs) \<Rightarrow> set cs = set names - cs_name ` set (ts_columns t) \<and> cs \<noteq> []
    | Inl (InvalidSnapshotId _) \<Rightarrow> False
    | Inr m \<Rightarrow> set names \<subseteq> cs_name ` set (ts_columns t) \<and>
        si_inner (column_schemas (from_masks t m im)) = filter (\<lambda>c. cs_name c \<in> set names) (ts_columns t) \<and>
        exact_size (column_schemas (from_masks t m im))"
proof (cases "mask_try_build t names")
  case (Inl e)
  then show ?thesis
    by (auto simp: mask_try_build_def validate_mask_column_names_def Let_def split: if_splits)
next
  case (Inr m)
  then have "set names \<subseteq> cs_name ` set (ts_columns t)" "m = build_mask_bytes t names"
    by (simp_all add: mask_try_build_iff)
  then show ?thesis
    using Inr column_schemas_build_mask [of t names im] length_filter_map_columns [of "build_mask_bytes t names" "ts_columns t"]
    by (simp add: exact_size_def column_schemas_def from_masks_def)
qed

text \<open>
  The identity type of a table with masks of the right width is the documented one:
  missing when no column identifies a row, the primary key when the identity is exactly the
  replicated primary key, full when it is the whole replicated row, and an alternative key
  otherwise.
\<close>

theorem identity_type_correct:
  assumes "length rm = length (ts_columns t)" "length im = length (ts_columns t)"
  shows "infer_identity_type t rm im =
     (if 1 \<notin> set im then Missing
      else if im = primary_key_identity_mask t rm then PrimaryKey
      else if im = rm then Full
      else AlternativeKey)"
  by (rule infer_identity_type_eq [OF assms])

definition one_text_column :: table_schema where
  "one_text_column = \<lparr> ts_id = 1, ts_name = \<lparr> tn_schema = ''s'', tn_name = ''t'' \<rparr>,
     ts_columns = [\<lparr> cs_name = ''a'', cs_typ = ''text'', cs_modifier = - 1, cs_ordinal = 1, cs_pk_ordinal = None,
       cs_nullable = True \<rparr>], ts_snapshot = 0 \<rparr>"

theorem identity_type_correct_witness: "infer_identity_type one_text_column [1] [1] = Full"
  using identity_type_correct [of "[1]" one_text_column "[1]"]
  by (simp add: one_text_column_def primary_key_identity_mask_def primary_key_def)

end
