(* ===== verification/Events.thy ===== *)
theory Events
  imports Cells Schema
begin

text \<open>
  Replication events (\<open>etl/src/types/event.rs\<close>, \<open>table_row.rs\<close>), the messages of
  the logical replication protocol they come from, and the decoder of
  \<open>etl/src/conversions/event.rs\<close>: tuples to rows, key images to dense key rows,
  and updates whose unchanged values have to be taken from the old row.
\<close>

section \<open>Rows and events\<close>

type_synonym table_row = "cell list"

datatype updated_table_row =
    UpdatedFull table_row
  | UpdatedPartial nat table_row "nat list"

datatype old_table_row = OldFull table_row | OldKey table_row

record event_position =
  ep_start :: lsn
  ep_commit :: lsn
  ep_ordinal :: "64 word"

record begin_event = event_position +
  be_timestamp :: int
  be_xid :: "32 word"

record commit_event = event_position +
  ce_flags :: int
  ce_end :: lsn
  ce_timestamp :: int

record insert_event = event_position +
  ie_schema :: replicated_table_schema
  ie_row :: table_row

record update_event = event_position +
  ue_schema :: replicated_table_schema
  ue_row :: updated_table_row
  ue_old :: "old_table_row option"

record delete_event = event_position +
  de_schema :: replicated_table_schema
  de_old :: "old_table_row option"

record truncate_event = event_position +
  te_options :: int
  te_tables :: "replicated_table_schema list"

record relation_event = event_position +
  rel_schema :: replicated_table_schema

datatype event =
    EvBegin begin_event
  | EvCommit commit_event
  | EvInsert insert_event
  | EvUpdate update_event
  | EvDelete delete_event
  | EvTruncate truncate_event
  | EvRelation relation_event
  | EvUnsupported

fun has_table_id :: "event \<Rightarrow> table_id \<Rightarrow> bool" where
  "has_table_id (EvInsert e) t = (rts_id (ie_schema e) = t)"
| "has_table_id (EvUpdate e) t = (rts_id (ue_schema e) = t)"
| "has_table_id (EvDelete e) t = (rts_id (de_schema e) = t)"
| "has_table_id (EvTruncate e) t = list_ex (\<lambda>s. rts_id s = t) (te_tables e)"
| "has_table_id (EvRelation e) t = (rts_id (rel_schema e) = t)"
| "has_table_id _ t = False"

record event_sequence_key =
  sk_commit :: lsn
  sk_ordinal :: "64 word"

definition as_u128 :: "event_sequence_key \<Rightarrow> 128 word" where
  "as_u128 k = or (push_bit 64 (ucast (sk_commit k))) (ucast (sk_ordinal k))"

fun event_key :: "event \<Rightarrow> event_sequence_key option" where
  "event_key (EvBegin e) = Some \<lparr> sk_commit = ep_commit e, sk_ordinal = ep_ordinal e \<rparr>"
| "event_key (EvCommit e) = Some \<lparr> sk_commit = ep_commit e, sk_ordinal = ep_ordinal e \<rparr>"
| "event_key (EvInsert e) = Some \<lparr> sk_commit = ep_commit e, sk_ordinal = ep_ordinal e \<rparr>"
| "event_key (EvUpdate e) = Some \<lparr> sk_commit = ep_commit e, sk_ordinal = ep_ordinal e \<rparr>"
| "event_key (EvDelete e) = Some \<lparr> sk_commit = ep_commit e, sk_ordinal = ep_ordinal e \<rparr>"
| "event_key (EvTruncate e) = Some \<lparr> sk_commit = ep_commit e, sk_ordinal = ep_ordinal e \<rparr>"
| "event_key (EvRelation e) = Some \<lparr> sk_commit = ep_commit e, sk_ordinal = ep_ordinal e \<rparr>"
| "event_key EvUnsupported = None"

section \<open>Protocol messages\<close>

datatype tuple_data = TNull | TUnchangedToast | TText string | TBinary string

record begin_body =
  bb_final_lsn :: lsn
  bb_timestamp :: int
  bb_xid :: "32 word"

record commit_body =
  cb_flags :: int
  cb_commit_lsn :: lsn
  cb_end_lsn :: lsn
  cb_timestamp :: int

datatype replica_identity = IdentityDefault | IdentityNothing | IdentityFull | IdentityIndex

text \<open>The name of a column is what the protocol library decodes, \<open>None\<close> when it reports an I/O error.\<close>

record relation_column =
  rc_flags :: "8 word"
  rc_name :: "string option"

record relation_body =
  rb_rel_id :: table_id
  rb_identity :: replica_identity
  rb_columns :: "relation_column list"

record insert_body =
  ib_rel_id :: table_id
  ib_tuple :: "tuple_data list"

record update_body =
  ub_rel_id :: table_id
  ub_old_tuple :: "tuple_data list option"
  ub_key_tuple :: "tuple_data list option"
  ub_new_tuple :: "tuple_data list"

record delete_body =
  db_rel_id :: table_id
  db_old_tuple :: "tuple_data list option"
  db_key_tuple :: "tuple_data list option"

record truncate_body =
  tb_options :: int
  tb_rel_ids :: "table_id list"

section \<open>Schema change messages\<close>

record column_schema_message =
  cm_attname :: string
  cm_atttypid :: "32 word"
  cm_atttypmod :: int
  cm_attnum :: int
  cm_attnotnull :: bool

record identity_message =
  im_primary_key_attnums :: "int list"
  im_relreplident :: string
  im_index_attnums :: "int list"

record schema_change_message =
  sm_command_tag :: string
  sm_nspname :: string
  sm_relname :: string
  sm_oid :: int
  sm_identity :: identity_message
  sm_columns :: "column_schema_message list"

definition message_table_id :: "schema_change_message \<Rightarrow> table_id" where
  "message_table_id m = of_int (sm_oid m)"

text \<open>\<open>Type::from_oid\<close> belongs to the Postgres client library: \<open>type_of_oid\<close>.\<close>

definition build_column_schemas ::
    "(oid \<Rightarrow> pg_type option) \<Rightarrow> column_schema_message list \<Rightarrow> int list \<Rightarrow> column_schema list" where
  "build_column_schemas type_of_oid columns pk =
     (let positions = map_of (rev (zip pk (map int [1 ..< Suc (length pk)])))
      in map (\<lambda>c. \<lparr> cs_name = cm_attname c,
              cs_typ = (case type_of_oid (cm_atttypid c) of None \<Rightarrow> ''TEXT'' | Some ty \<Rightarrow> ty),
              cs_modifier = cm_atttypmod c, cs_ordinal = cm_attnum c,
              cs_pk_ordinal = positions (cm_attnum c), cs_nullable = (\<not> cm_attnotnull c) \<rparr>)
           (sort_key cm_attnum columns))"

definition into_table_schema ::
    "(oid \<Rightarrow> pg_type option) \<Rightarrow> snapshot_id \<Rightarrow> schema_change_message \<Rightarrow> table_schema" where
  "into_table_schema type_of_oid snap m =
     with_snapshot_id (message_table_id m) \<lparr> tn_schema = sm_nspname m, tn_name = sm_relname m \<rparr>
       (build_column_schemas type_of_oid (sm_columns m) (im_primary_key_attnums (sm_identity m))) snap"

definition build_identity_mask_from_attnums :: "table_schema \<Rightarrow> mask \<Rightarrow> int list \<Rightarrow> mask" where
  "build_identity_mask_from_attnums t m attnums =
     map (\<lambda>(c, r). u8_from_bool (r = 1 \<and> cs_ordinal c \<in> set attnums)) (zip (ts_columns t) m)"

definition build_identity_mask :: "identity_message \<Rightarrow> table_schema \<Rightarrow> mask \<Rightarrow> mask etl_result" where
  "build_identity_mask im t m =
     (if im_relreplident im = ''f'' then Inr m
      else if im_relreplident im = ''d'' then Inr (build_identity_mask_from_attnums t m (im_primary_key_attnums im))
      else if im_relreplident im = ''i'' then Inr (build_identity_mask_from_attnums t m (im_index_attnums im))
      else if im_relreplident im = ''n'' then Inr (replicate (length (ts_columns t)) 0)
      else Inl (etl_err ConversionError ''Invalid replica identity metadata''))"

section \<open>Decoding tuples\<close>

text \<open>Validity of UTF-8: the well-formed byte sequences of the Unicode standard.\<close>

fun utf8_valid :: "string \<Rightarrow> bool" where
  "utf8_valid [] = True"
| "utf8_valid (c # cs) =
     (let a = (of_char c :: nat); cont = (\<lambda>lo hi b. lo \<le> (of_char b :: nat) \<and> (of_char b :: nat) \<le> hi) in
      if a \<le> 0x7F then utf8_valid cs
      else if 0xC2 \<le> a \<and> a \<le> 0xDF then
        (case cs of b # r \<Rightarrow> cont 0x80 0xBF b \<and> utf8_valid r | _ \<Rightarrow> False)
      else if 0xE0 \<le> a \<and> a \<le> 0xEF then
        (case cs of b1 # b2 # r \<Rightarrow>
            cont (if a = 0xE0 then 0xA0 else 0x80) (if a = 0xED then 0x9F else 0xBF) b1 \<and>
            cont 0x80 0xBF b2 \<and> utf8_valid r
         | _ \<Rightarrow> False)
      else if 0xF0 \<le> a \<and> a \<le> 0xF4 then
        (case cs of b1 # b2 # b3 # r \<Rightarrow>
            cont (if a = 0xF0 then 0x90 else 0x80) (if a = 0xF4 then 0x8F else 0xBF) b1 \<and>
            cont 0x80 0xBF b2 \<and> cont 0x80 0xBF b3 \<and> utf8_valid r
         | _ \<Rightarrow> False)
      else False)"

datatype converted_cell = CellPresent cell | CellMissing

fun convert_tuple_data_to_cell ::
    "text_parsers \<Rightarrow> column_schema \<Rightarrow> tuple_data \<Rightarrow> cell option \<Rightarrow> converted_cell etl_result" where
  "convert_tuple_data_to_cell tp c TNull old =
     (if cs_nullable c then Inr (CellPresent CellNull)
      else Inl (etl_err InvalidData ''Required column missing from tuple''))"
| "convert_tuple_data_to_cell tp c TUnchangedToast old =
     (case old of Some v \<Rightarrow> Inr (CellPresent v) | None \<Rightarrow> Inr CellMissing)"
| "convert_tuple_data_to_cell tp c (TText bs) old =
     (if \<not> utf8_valid bs then Inl (etl_err ConversionError ''UTF-8 conversion failed'')
      else res_bind (parse_cell_from_postgres_text tp (cs_typ c) bs) (Inr \<circ> CellPresent))"
| "convert_tuple_data_to_cell tp c (TBinary bs) old =
     Inl (etl_err ConversionError ''Binary format not supported in tuple data'')"

text \<open>The loop shared by full rows and dense key rows: every field must be present.\<close>

fun convert_present ::
    "text_parsers \<Rightarrow> string \<Rightarrow> (column_schema \<times> tuple_data) list \<Rightarrow> table_row etl_result" where
  "convert_present tp missing [] = Inr []"
| "convert_present tp missing ((c, d) # cds) =
     res_bind (convert_tuple_data_to_cell tp c d None) (\<lambda>x. case x of
         CellMissing \<Rightarrow> Inl (etl_err ConversionError missing)
       | CellPresent v \<Rightarrow> res_bind (convert_present tp missing cds) (\<lambda>vs. Inr (v # vs)))"

definition convert_tuple_to_row ::
    "text_parsers \<Rightarrow> column_schema sized_iterator \<Rightarrow> tuple_data list \<Rightarrow> table_row etl_result" where
  "convert_tuple_to_row tp cols data =
     (if length data \<noteq> si_len cols
      then Inl (etl_err ConversionError ''Tuple data field count does not match schema'')
      else convert_present tp ''Tuple missing source value for full row image'' (zip (si_inner cols) data))"

definition convert_dense_key_tuple_to_row ::
    "text_parsers \<Rightarrow> column_schema list \<Rightarrow> tuple_data list \<Rightarrow> table_row etl_result" where
  "convert_dense_key_tuple_to_row tp identity data =
     convert_present tp ''Replica-identity tuple missing source value'' (zip identity data)"

text \<open>Walking the replicated columns and the identity columns side by side.\<close>

fun full_width_key ::
    "text_parsers \<Rightarrow> column_schema list \<Rightarrow> (column_schema \<times> tuple_data) list \<Rightarrow> table_row etl_result" where
  "full_width_key tp identity [] = Inr []"
| "full_width_key tp [] ((c, d) # cds) = full_width_key tp [] cds"
| "full_width_key tp (k # ks) ((c, d) # cds) =
     (if cs_ordinal k \<noteq> cs_ordinal c then full_width_key tp (k # ks) cds
      else res_bind (convert_tuple_data_to_cell tp k d None) (\<lambda>x. case x of
          CellMissing \<Rightarrow> Inl (etl_err ConversionError ''Replica-identity tuple missing source value'')
        | CellPresent v \<Rightarrow> res_bind (full_width_key tp ks cds) (\<lambda>vs. Inr (v # vs))))"

definition normalize_key_tuple_to_row ::
    "text_parsers \<Rightarrow> replicated_table_schema \<Rightarrow> tuple_data list \<Rightarrow> table_row etl_result" where
  "normalize_key_tuple_to_row tp r data =
     (let identity = si_inner (identity_column_schemas r);
          replicated = si_inner (column_schemas r)
      in if length identity = 0
         then Inl (etl_err ConversionError ''Replica-identity tuple missing key columns'')
         else if length data = length identity then convert_dense_key_tuple_to_row tp identity data
         else if length data = length replicated then full_width_key tp identity (zip replicated data)
         else Inl (etl_err ConversionError ''Replica-identity tuple shape does not match schema''))"

section \<open>Order of the sequence keys\<close>

lemma as_u128_plus: "as_u128 k = push_bit 64 (ucast (sk_commit k)) + ucast (sk_ordinal k)"
proof -
  have "and (push_bit 64 (ucast (sk_commit k))) (ucast (sk_ordinal k)) = (0 :: 128 word)"
    by (rule bit_word_eqI) (auto simp: bit_simps dest: bit_imp_le_length)
  then show ?thesis unfolding as_u128_def by (rule disjunctive_add_eq_or [symmetric])
qed

lemma unat_as_u128: "unat (as_u128 k) = unat (sk_commit k) * 2 ^ 64 + unat (sk_ordinal k)"
proof -
  have c: "unat (sk_commit k) < 2 ^ 64" using unat_bound [of "sk_commit k"] by simp
  have o: "unat (sk_ordinal k) < 2 ^ 64" using unat_bound [of "sk_ordinal k"] by simp
  have h: "unat (push_bit 64 (ucast (sk_commit k)) :: 128 word) = unat (sk_commit k) * 2 ^ 64"
  proof -
    have "unat (push_bit 64 (ucast (sk_commit k)) :: 128 word) =
        take_bit LENGTH(128) (push_bit 64 (take_bit LENGTH(128) (unat (sk_commit k))))"
      by (simp only: unsigned_push_bit_eq unsigned_ucast_eq)
    then show ?thesis using c by (simp add: push_bit_eq_mult take_bit_eq_mod)
  qed
  have l: "unat (ucast (sk_ordinal k) :: 128 word) = unat (sk_ordinal k)"
    using o by (simp add: unsigned_ucast_eq take_bit_eq_mod)
  have "unat (sk_commit k) * 2 ^ 64 + unat (sk_ordinal k) < 2 ^ 128" using c o by simp
  then show ?thesis unfolding as_u128_plus using h l by (subst unat_add_lem [THEN iffD1]) auto
qed

lemma split_less:
  fixes a b c d n :: nat
  assumes "b < n" and "d < n"
  shows "a * n + b < c * n + d \<longleftrightarrow> a < c \<or> a = c \<and> b < d"
proof -
  have "a * n + b < c * n + d" if "a < c"
  proof -
    have "a * n + n \<le> c * n" using mult_le_mono1 [of "Suc a" c n] that by simp
    then show ?thesis using assms by linarith
  qed
  moreover have "c * n + d < a * n + b" if "c < a"
  proof -
    have "c * n + n \<le> a * n" using mult_le_mono1 [of "Suc c" a n] that by simp
    then show ?thesis using assms by linarith
  qed
  ultimately show ?thesis using nat_neq_iff [of a c] by auto
qed

text \<open>
  The 128-bit number of an event sequence key orders events exactly by commit
  position and then by position within the transaction, and two keys with the same
  number are equal: no carry or overlap between the two halves loses information.
\<close>

lemma as_u128_order:
  "(as_u128 a < as_u128 b \<longleftrightarrow>
      sk_commit a < sk_commit b \<or> sk_commit a = sk_commit b \<and> sk_ordinal a < sk_ordinal b) \<and>
   (as_u128 a = as_u128 b \<longleftrightarrow> sk_commit a = sk_commit b \<and> sk_ordinal a = sk_ordinal b)"
proof -
  have b: "unat (sk_ordinal k) < 2 ^ 64" for k using unat_bound [of "sk_ordinal k"] by simp
  have less: "as_u128 x < as_u128 y \<longleftrightarrow>
      sk_commit x < sk_commit y \<or> sk_commit x = sk_commit y \<and> sk_ordinal x < sk_ordinal y" for x y
    unfolding word_less_nat_alt unat_as_u128 word_unat_eq_iff by (rule split_less [OF b b])
  then show ?thesis using less [of a b] less [of b a] by (metis not_less_iff_gr_or_eq as_u128_def)
qed

end
