(* ===== verification/Event_Decoding.thy ===== *)
theory Event_Decoding
  imports Events "HOL-Library.Sublist"
begin

text \<open>
  From protocol messages to events, the second half of \<open>etl/src/conversions/event.rs\<close>.
  An update may leave out values that did not change; \<open>OldRowResolver\<close> takes them from
  the old image of the row, and a row with values that cannot be recovered is partial.
\<close>

section \<open>Old rows\<close>

datatype old_row_resolver =
    NoOldRow
  | FullOldRow table_row nat
  | KeyOldRow table_row nat

definition resolver_new :: "old_table_row option \<Rightarrow> nat \<Rightarrow> old_row_resolver etl_result" where
  "resolver_new old column_count = (case old of
       Some (OldFull row) \<Rightarrow>
         if length row \<noteq> column_count
         then Inl (etl_err ConversionError ''Old tuple row width does not match schema'')
         else Inr (FullOldRow row 0)
     | Some (OldKey row) \<Rightarrow> Inr (KeyOldRow row 0)
     | None \<Rightarrow> Inr NoOldRow)"

fun value_for_column :: "bool \<Rightarrow> old_row_resolver \<Rightarrow> (cell option \<times> old_row_resolver) etl_result" where
  "value_for_column is_identity NoOldRow = Inr (None, NoOldRow)"
| "value_for_column is_identity (FullOldRow values next) =
     (if next < length values then Inr (Some (values ! next), FullOldRow values (next + 1))
      else Inl (etl_err ConversionError ''Old tuple row width does not match schema''))"
| "value_for_column is_identity (KeyOldRow values next) =
     (if \<not> is_identity then Inr (None, KeyOldRow values next)
      else if next < length values then Inr (Some (values ! next), KeyOldRow values (next + 1))
      else Inl (etl_err ConversionError ''Replica-identity tuple shape does not match schema''))"

fun resolver_finish :: "old_row_resolver \<Rightarrow> unit etl_result" where
  "resolver_finish (FullOldRow values next) =
     (if next \<noteq> length values
      then Inl (etl_err ConversionError ''Old tuple row width does not match schema'') else Inr ())"
| "resolver_finish (KeyOldRow values next) =
     (if next \<noteq> length values
      then Inl (etl_err ConversionError ''Replica-identity tuple shape does not match schema'') else Inr ())"
| "resolver_finish NoOldRow = Inr ()"

section \<open>New rows\<close>

text \<open>The local variables of the decoding loop.\<close>

record update_values =
  uv_full :: table_row
  uv_present :: table_row
  uv_missing :: "nat list"
  uv_partial :: bool

definition no_values :: update_values where
  "no_values = \<lparr> uv_full = [], uv_present = [], uv_missing = [], uv_partial = False \<rparr>"

fun push_value :: "nat \<Rightarrow> converted_cell \<Rightarrow> update_values \<Rightarrow> update_values" where
  "push_value index (CellPresent v) u =
     (if uv_partial u then u \<lparr> uv_present := uv_present u @ [v] \<rparr>
      else u \<lparr> uv_full := uv_full u @ [v] \<rparr>)"
| "push_value index CellMissing u =
     (let u' = (if \<not> uv_partial u
                then u \<lparr> uv_present := uv_present u @ uv_full u, uv_full := [], uv_partial := True \<rparr>
                else u)
      in u' \<lparr> uv_missing := uv_missing u' @ [index] \<rparr>)"

definition next_is :: "column_schema list \<Rightarrow> column_schema \<Rightarrow> bool" where
  "next_is identity c = (case identity of [] \<Rightarrow> False | k # _ \<Rightarrow> cs_ordinal k = cs_ordinal c)"

fun update_columns ::
    "text_parsers \<Rightarrow> column_schema list \<Rightarrow> nat \<Rightarrow> (column_schema \<times> tuple_data) list
     \<Rightarrow> old_row_resolver \<Rightarrow> update_values \<Rightarrow> (update_values \<times> old_row_resolver) etl_result" where
  "update_columns tp identity index [] res u = Inr (u, res)"
| "update_columns tp identity index ((c, d) # cds) res u =
     res_bind (value_for_column (next_is identity c) res) (\<lambda>(old_value, res').
       res_bind (convert_tuple_data_to_cell tp c d old_value) (\<lambda>x.
         update_columns tp (if next_is identity c then tl identity else identity) (index + 1) cds
           res' (push_value index x u)))"

definition convert_update_tuple_to_updated_table_row ::
    "text_parsers \<Rightarrow> replicated_table_schema \<Rightarrow> tuple_data list \<Rightarrow> old_table_row option
     \<Rightarrow> updated_table_row etl_result" where
  "convert_update_tuple_to_updated_table_row tp r data old =
     (let column_count = si_len (column_schemas r) in
      if length data \<noteq> column_count
      then Inl (etl_err ConversionError ''Tuple data field count does not match schema'')
      else res_bind (resolver_new old column_count) (\<lambda>res.
        res_bind (update_columns tp (si_inner (identity_column_schemas r)) 0
            (zip (si_inner (column_schemas r)) data) res no_values) (\<lambda>(u, res').
          res_bind (resolver_finish res') (\<lambda>_.
            if uv_partial u then Inr (UpdatedPartial column_count (uv_present u) (uv_missing u))
            else Inr (UpdatedFull (uv_full u))))))"

section \<open>Events from messages\<close>

definition parse_event_from_begin_message :: "lsn \<Rightarrow> lsn \<Rightarrow> 64 word \<Rightarrow> begin_body \<Rightarrow> begin_event" where
  "parse_event_from_begin_message start_lsn commit_lsn tx_ordinal body =
     \<lparr> ep_start = start_lsn, ep_commit = commit_lsn, ep_ordinal = tx_ordinal,
       be_timestamp = bb_timestamp body, be_xid = bb_xid body \<rparr>"

definition parse_event_from_commit_message :: "lsn \<Rightarrow> lsn \<Rightarrow> 64 word \<Rightarrow> commit_body \<Rightarrow> commit_event" where
  "parse_event_from_commit_message start_lsn commit_lsn tx_ordinal body =
     \<lparr> ep_start = start_lsn, ep_commit = commit_lsn, ep_ordinal = tx_ordinal,
       ce_flags = cb_flags body, ce_end = cb_end_lsn body, ce_timestamp = cb_timestamp body \<rparr>"

definition column_name :: "relation_column \<Rightarrow> string etl_result" where
  "column_name c = ok_or (etl_err IoError ''I/O operation failed'') (rc_name c)"

definition parse_replicated_column_names :: "relation_body \<Rightarrow> string list etl_result" where
  "parse_replicated_column_names body = res_map column_name (rb_columns body)"

definition parse_replica_identity_column_names :: "relation_body \<Rightarrow> string list etl_result" where
  "parse_replica_identity_column_names body =
     (case rb_identity body of
        IdentityFull \<Rightarrow> res_map column_name (rb_columns body)
      | _ \<Rightarrow> res_map column_name (filter (\<lambda>c. and (rc_flags c) 1 = 1) (rb_columns body)))"

definition parse_event_from_insert_message ::
    "text_parsers \<Rightarrow> replicated_table_schema \<Rightarrow> lsn \<Rightarrow> lsn \<Rightarrow> 64 word \<Rightarrow> insert_body
     \<Rightarrow> insert_event etl_result" where
  "parse_event_from_insert_message tp r start_lsn commit_lsn tx_ordinal body =
     res_bind (convert_tuple_to_row tp (column_schemas r) (ib_tuple body)) (\<lambda>row.
       Inr \<lparr> ep_start = start_lsn, ep_commit = commit_lsn, ep_ordinal = tx_ordinal,
             ie_schema = r, ie_row = row \<rparr>)"

text \<open>The old image shared by updates and deletes: the full tuple when there is one, else the key.\<close>

definition decode_old_row ::
    "text_parsers \<Rightarrow> replicated_table_schema \<Rightarrow> tuple_data list option \<Rightarrow> tuple_data list option
     \<Rightarrow> old_table_row option etl_result" where
  "decode_old_row tp r old_tuple key_tuple =
     (case old_tuple of
        Some data \<Rightarrow> res_bind (convert_tuple_to_row tp (column_schemas r) data) (\<lambda>row. Inr (Some (OldFull row)))
      | None \<Rightarrow> (case key_tuple of
          Some data \<Rightarrow> res_bind (normalize_key_tuple_to_row tp r data) (\<lambda>row. Inr (Some (OldKey row)))
        | None \<Rightarrow> Inr None))"

definition parse_event_from_update_message ::
    "text_parsers \<Rightarrow> replicated_table_schema \<Rightarrow> lsn \<Rightarrow> lsn \<Rightarrow> 64 word \<Rightarrow> update_body
     \<Rightarrow> update_event etl_result" where
  "parse_event_from_update_message tp r start_lsn commit_lsn tx_ordinal body =
     res_bind (decode_old_row tp r (ub_old_tuple body) (ub_key_tuple body)) (\<lambda>old.
       res_bind (convert_update_tuple_to_updated_table_row tp r (ub_new_tuple body) old) (\<lambda>row.
         Inr \<lparr> ep_start = start_lsn, ep_commit = commit_lsn, ep_ordinal = tx_ordinal,
               ue_schema = r, ue_row = row, ue_old = old \<rparr>))"

definition parse_event_from_delete_message ::
    "text_parsers \<Rightarrow> replicated_table_schema \<Rightarrow> lsn \<Rightarrow> lsn \<Rightarrow> 64 word \<Rightarrow> delete_body
     \<Rightarrow> delete_event etl_result" where
  "parse_event_from_delete_message tp r start_lsn commit_lsn tx_ordinal body =
     res_bind (decode_old_row tp r (db_old_tuple body) (db_key_tuple body)) (\<lambda>old.
       Inr \<lparr> ep_start = start_lsn, ep_commit = commit_lsn, ep_ordinal = tx_ordinal,
             de_schema = r, de_old = old \<rparr>)"

definition parse_event_from_truncate_message ::
    "lsn \<Rightarrow> lsn \<Rightarrow> 64 word \<Rightarrow> truncate_body \<Rightarrow> replicated_table_schema list \<Rightarrow> truncate_event" where
  "parse_event_from_truncate_message start_lsn commit_lsn tx_ordinal body tables =
     \<lparr> ep_start = start_lsn, ep_commit = commit_lsn, ep_ordinal = tx_ordinal,
       te_options = tb_options body, te_tables = tables \<rparr>"

section \<open>What the decoded row holds\<close>

text \<open>
  The old value available for a column: by position in a full old row, by identity
  column in a key row.
\<close>

definition old_value_of :: "replicated_table_schema \<Rightarrow> old_table_row option \<Rightarrow> column_schema \<Rightarrow> cell option" where
  "old_value_of r old c = (case old of
       None \<Rightarrow> None
     | Some (OldFull row) \<Rightarrow> map_of (zip (map cs_ordinal (si_inner (column_schemas r))) row) (cs_ordinal c)
     | Some (OldKey row) \<Rightarrow>
         map_of (zip (map cs_ordinal (si_inner (identity_column_schemas r))) row) (cs_ordinal c))"

lemma old_value_of_simps:
  "old_value_of r None = (\<lambda>_. None)"
  "old_value_of r (Some (OldFull row)) =
     (\<lambda>c. map_of (zip (map cs_ordinal (si_inner (column_schemas r))) row) (cs_ordinal c))"
  "old_value_of r (Some (OldKey row)) =
     (\<lambda>c. map_of (zip (map cs_ordinal (si_inner (identity_column_schemas r))) row) (cs_ordinal c))"
  by (simp_all add: old_value_of_def fun_eq_iff)

fun cell_option :: "converted_cell \<Rightarrow> cell option" where
  "cell_option (CellPresent v) = Some v"
| "cell_option CellMissing = None"

definition row_of :: "cell option list \<Rightarrow> updated_table_row" where
  "row_of vs = (if None \<in> set vs
     then UpdatedPartial (length vs) (filter_map id vs) (filter (\<lambda>i. vs ! i = None) [0 ..< length vs])
     else UpdatedFull (map the vs))"

text \<open>The loop without its accumulators.\<close>

fun decoded_columns ::
    "text_parsers \<Rightarrow> column_schema list \<Rightarrow> (column_schema \<times> tuple_data) list
     \<Rightarrow> old_row_resolver \<Rightarrow> (converted_cell list \<times> old_row_resolver) etl_result" where
  "decoded_columns tp identity [] res = Inr ([], res)"
| "decoded_columns tp identity ((c, d) # cds) res =
     res_bind (value_for_column (next_is identity c) res) (\<lambda>(old_value, res').
       res_bind (convert_tuple_data_to_cell tp c d old_value) (\<lambda>x.
         res_bind (decoded_columns tp (if next_is identity c then tl identity else identity) cds res')
           (\<lambda>(xs, res''). Inr (x # xs, res''))))"

fun push_values :: "nat \<Rightarrow> converted_cell list \<Rightarrow> update_values \<Rightarrow> update_values" where
  "push_values i [] u = u"
| "push_values i (x # xs) u = push_values (i + 1) xs (push_value i x u)"

lemma update_columns_eq:
  "update_columns tp ids i cds res u =
     res_bind (decoded_columns tp ids cds res) (\<lambda>(xs, res'). Inr (push_values i xs u, res'))"
proof (induction cds arbitrary: ids i res u)
  case (Cons cd cds)
  obtain c d where cd: "cd = (c, d)" by (cases cd)
  show ?case
  proof (cases "value_for_column (next_is ids c) res")
    case (Inr a)
    obtain old res' where a: "a = (old, res')" by (cases a)
    show ?thesis
    proof (cases "convert_tuple_data_to_cell tp c d old")
      case (Inr x)
      show ?thesis
        using \<open>value_for_column _ _ = Inr a\<close> Inr
        by (simp add: cd a Cons.IH res_bind_def split: sum.split prod.split)
    qed (simp add: cd a \<open>value_for_column _ _ = Inr a\<close>)
  qed (simp add: cd)
qed simp

text \<open>Accumulating cells: \<open>ok_values\<close> relates the loop variables to the cells seen so far.\<close>

definition ok_values :: "cell option list \<Rightarrow> update_values \<Rightarrow> bool" where
  "ok_values vs u \<longleftrightarrow>
     uv_partial u = (None \<in> set vs) \<and>
     uv_missing u = filter (\<lambda>i. vs ! i = None) [0 ..< length vs] \<and>
     (if None \<in> set vs then uv_full u = [] \<and> uv_present u = filter_map id vs
      else uv_full u = map the vs \<and> uv_present u = [])"

lemma filter_nth_snoc:
  "filter (\<lambda>i. (vs @ [v]) ! i = None) [0 ..< length vs] = filter (\<lambda>i. vs ! i = None) [0 ..< length vs]"
  by (rule filter_cong) (auto simp: nth_append)

lemma filter_map_snoc: "filter_map f (xs @ [x]) = filter_map f xs @ (case f x of None \<Rightarrow> [] | Some y \<Rightarrow> [y])"
  by (induction xs) (auto split: option.splits)

lemma filter_map_id_no_None: "None \<notin> set vs \<Longrightarrow> filter_map id vs = map the vs"
proof (induction vs)
  case (Cons a vs)
  then show ?case by (cases a) auto
qed simp

lemma filter_nth_none: "None \<notin> set vs \<Longrightarrow> filter (\<lambda>i. vs ! i = None) [0 ..< length vs] = []"
  by (auto simp: filter_empty_conv in_set_conv_nth)

lemma ok_values_push:
  assumes "ok_values vs u" and "i = length vs"
  shows "ok_values (vs @ [cell_option x]) (push_value i x u)"
proof (cases x)
  case (CellPresent v)
  then show ?thesis using assms by (auto simp: ok_values_def filter_nth_snoc filter_map_snoc)
next
  case CellMissing
  then show ?thesis using assms
    by (auto simp: ok_values_def filter_nth_snoc filter_map_snoc filter_map_id_no_None filter_nth_none)
qed

lemma ok_values_pushes:
  "ok_values vs u \<Longrightarrow> i = length vs \<Longrightarrow> ok_values (vs @ map cell_option xs) (push_values i xs u)"
proof (induction xs arbitrary: vs u i)
  case (Cons x xs)
  show ?case using Cons.IH [OF ok_values_push [OF Cons.prems, of x]] Cons.prems by simp
qed simp

lemma ok_values_row:
  assumes "ok_values vs u"
  shows "row_of vs = (if uv_partial u then UpdatedPartial (length vs) (uv_present u) (uv_missing u)
                      else UpdatedFull (uv_full u))"
  using assms by (auto simp: ok_values_def row_of_def)

lemma ok_no_values: "ok_values [] no_values"
  by (simp add: ok_values_def no_values_def)

text \<open>The old value handed to each column is the one of \<open>old_value_of\<close>.\<close>

definition columns_decode ::
    "text_parsers \<Rightarrow> (column_schema \<Rightarrow> cell option) \<Rightarrow> (column_schema \<times> tuple_data) list \<Rightarrow> converted_cell list \<Rightarrow> bool" where
  "columns_decode tp old cds xs \<longleftrightarrow>
     list_all2 (\<lambda>(c, d) x. convert_tuple_data_to_cell tp c d (old c) = Inr x) cds xs"

lemma columns_decode_cong:
  assumes "columns_decode tp old cds xs" and "\<And>c d. (c, d) \<in> set cds \<Longrightarrow> old' c = old c"
  shows "columns_decode tp old' cds xs"
  using assms unfolding columns_decode_def
  by (auto simp: list_all2_conv_all_nth case_prod_unfold) (metis nth_mem prod.collapse)

lemma decoded_no_old:
  "decoded_columns tp ids cds NoOldRow = Inr (xs, res) \<Longrightarrow> columns_decode tp (\<lambda>_. None) cds xs"
proof (induction cds arbitrary: ids xs)
  case (Cons cd cds)
  obtain c d where [simp]: "cd = (c, d)" by (cases cd)
  from Cons.prems show ?case
    by (auto simp: res_bind_eq_Inr_iff columns_decode_def dest!: Cons.IH)
qed (simp add: columns_decode_def)

lemma decoded_full_old:
  assumes "decoded_columns tp ids cds (FullOldRow row k) = Inr (xs, res)"
    and "distinct (map (\<lambda>a. cs_ordinal (fst a)) cds)"
  shows "columns_decode tp (\<lambda>c. map_of (zip (map (\<lambda>a. cs_ordinal (fst a)) cds) (drop k row)) (cs_ordinal c)) cds xs"
  using assms
proof (induction cds arbitrary: ids xs k)
  case (Cons cd cds)
  obtain c d where cd: "cd = (c, d)" by (cases cd)
  from Cons.prems(1) [unfolded cd] obtain x ys where k: "k < length row"
      and x: "convert_tuple_data_to_cell tp c d (Some (row ! k)) = Inr x"
      and ys: "decoded_columns tp (if next_is ids c then tl ids else ids) cds (FullOldRow row (Suc k)) = Inr (ys, res)"
      and xs: "xs = x # ys"
    by (auto simp: res_bind_eq_Inr_iff split: if_splits)
  have dr: "drop k row = row ! k # drop (Suc k) row" using k by (simp add: Cons_nth_drop_Suc)
  have "columns_decode tp (\<lambda>c. map_of (zip (map (\<lambda>a. cs_ordinal (fst a)) cds) (drop (Suc k) row)) (cs_ordinal c)) cds ys"
    using Cons.IH [OF ys] Cons.prems(2) by (simp add: comp_def)
  then have "columns_decode tp (\<lambda>c'. map_of (zip (map (\<lambda>a. cs_ordinal (fst a)) ((c, d) # cds)) (drop k row)) (cs_ordinal c')) cds ys"
    by (rule columns_decode_cong) (use Cons.prems(2) in \<open>force simp: cd dr\<close>)
  with x show ?case by (simp add: columns_decode_def cd xs dr)
qed (simp add: columns_decode_def)

lemma map_of_zip_None: "k \<notin> set ks \<Longrightarrow> map_of (zip ks vs) k = None"
  by (auto simp: map_of_eq_None_iff dest: set_zip_leftD)

lemma subseq_subset: "subseq xs ys \<Longrightarrow> set xs \<subseteq> set ys"
  by (auto elim: list_emb_set)

lemma subseq_identity_cases:
  assumes "subseq ids (c # cs)" and "distinct (map cs_ordinal (c # cs))"
  shows "next_is ids c \<Longrightarrow> \<exists>ks. ids = c # ks \<and> subseq ks cs"
    and "\<not> next_is ids c \<Longrightarrow> subseq ids cs"
proof -
  show "next_is ids c \<Longrightarrow> \<exists>ks. ids = c # ks \<and> subseq ks cs"
  proof (cases ids)
    case (Cons k ks)
    assume "next_is ids c"
    then have k: "cs_ordinal k = cs_ordinal c" by (simp add: next_is_def Cons)
    have "k = c"
    proof (rule ccontr)
      assume "k \<noteq> c"
      then have "subseq (k # ks) cs" using assms(1) Cons by simp
      then have "k \<in> set cs" using subseq_subset by fastforce
      with k assms(2) show False by (metis distinct.simps(2) image_eqI list.simps(9) set_map)
    qed
    then show ?thesis using assms(1) Cons by simp
  qed (simp add: next_is_def)
  show "subseq ids cs" if "\<not> next_is ids c"
    using assms(1) that by (cases ids) (auto simp: next_is_def split: if_splits)
qed

lemma decoded_key_old:
  assumes "decoded_columns tp ids cds (KeyOldRow row k) = Inr (xs, res)"
    and "distinct (map (\<lambda>a. cs_ordinal (fst a)) cds)" and "subseq ids (map fst cds)"
  shows "columns_decode tp (\<lambda>c. map_of (zip (map cs_ordinal ids) (drop k row)) (cs_ordinal c)) cds xs"
  using assms
proof (induction cds arbitrary: ids xs k)
  case (Cons cd cds)
  obtain c d where cd: "cd = (c, d)" by (cases cd)
  have dist: "distinct (map cs_ordinal (c # map fst cds))" using Cons.prems(2) by (simp add: cd comp_def)
  have sub: "subseq ids (c # map fst cds)" using Cons.prems(3) by (simp add: cd)
  show ?case
  proof (cases "next_is ids c")
    case True
    then obtain ks where ids: "ids = c # ks" and ks: "subseq ks (map fst cds)"
      using subseq_identity_cases(1) [OF sub dist] by blast
    from Cons.prems(1) [unfolded cd] True obtain x ys where k: "k < length row"
        and x: "convert_tuple_data_to_cell tp c d (Some (row ! k)) = Inr x"
        and ys: "decoded_columns tp ks cds (KeyOldRow row (Suc k)) = Inr (ys, res)"
        and xs: "xs = x # ys"
      by (auto simp: res_bind_eq_Inr_iff ids split: if_splits)
    have dr: "drop k row = row ! k # drop (Suc k) row" using k by (simp add: Cons_nth_drop_Suc)
    have "columns_decode tp (\<lambda>c. map_of (zip (map cs_ordinal ks) (drop (Suc k) row)) (cs_ordinal c)) cds ys"
      using Cons.IH [OF ys _ ks] Cons.prems(2) by (simp add: comp_def)
    then have "columns_decode tp (\<lambda>c'. map_of (zip (map cs_ordinal ids) (drop k row)) (cs_ordinal c')) cds ys"
      by (rule columns_decode_cong) (use dist in \<open>force simp: ids dr\<close>)
    with x show ?thesis by (simp add: columns_decode_def cd xs dr ids)
  next
    case False
    then have ks: "subseq ids (map fst cds)" using subseq_identity_cases(2) [OF sub dist] by blast
    from Cons.prems(1) [unfolded cd] False obtain x ys where
        x: "convert_tuple_data_to_cell tp c d None = Inr x"
        and ys: "decoded_columns tp ids cds (KeyOldRow row k) = Inr (ys, res)"
        and xs: "xs = x # ys"
      by (auto simp: res_bind_eq_Inr_iff)
    have "cs_ordinal c \<notin> set (map cs_ordinal ids)"
      using dist subseq_subset [OF ks] by force
    then have "map_of (zip (map cs_ordinal ids) (drop k row)) (cs_ordinal c) = None"
      by (rule map_of_zip_None)
    with x Cons.IH [OF ys _ ks] Cons.prems(2) show ?thesis by (simp add: columns_decode_def cd xs comp_def)
  qed
qed (simp add: columns_decode_def)

lemma subseq_filter_map:
  "(\<And>x y. f x = Some y \<Longrightarrow> g x = Some y) \<Longrightarrow> subseq (filter_map f xs) (filter_map g xs)"
proof (induction xs)
  case (Cons x xs)
  from Cons.IH [OF Cons.prems] have IH: "subseq (filter_map f xs) (filter_map g xs)" by blast
  show ?case
  proof (cases "f x")
    case None
    then show ?thesis using IH by (auto split: option.split intro: list_emb_Cons)
  next
    case (Some y)
    then have "g x = Some y" by (rule Cons.prems)
    then show ?thesis using IH Some by simp
  qed
qed simp

lemma filter_map_zip_fst:
  "length ms = length is \<Longrightarrow>
   filter_map (\<lambda>(c, m, i). if m = 1 then Some c else None) (zip cs (zip ms is)) =
   filter_map (\<lambda>(c, m). if m = 1 then Some c else None) (zip cs ms)"
proof (induction cs arbitrary: ms "is")
  case (Cons c cs)
  then show ?case by (cases ms; cases "is") auto
qed simp

lemma identity_subseq_columns:
  assumes "length (rts_mask r) = length (rts_identity_mask r)"
  shows "subseq (si_inner (identity_column_schemas r)) (si_inner (column_schemas r))"
  unfolding identity_column_schemas_def column_schemas_def sized_iterator.simps
    filter_map_zip_fst [OF assms, symmetric]
  by (rule subseq_filter_map) (auto split: if_splits)

lemma resolver_decodes:
  assumes res: "resolver_new old (length cols) = Inr res"
    and dec: "decoded_columns tp ids (zip cols data) res = Inr (xs, res')"
    and cols: "cols = si_inner (column_schemas r)" and ids: "ids = si_inner (identity_column_schemas r)"
    and len: "length data = length cols" and dist: "distinct (map cs_ordinal cols)" and sub: "subseq ids cols"
  shows "columns_decode tp (old_value_of r old) (zip cols data) xs"
proof -
  have ords: "map (\<lambda>a. cs_ordinal (fst a)) (zip cols data) = map cs_ordinal cols"
    using map_fst_zip [of cols data] len by (simp add: list_eq_iff_nth_eq)
  have dist': "distinct (map (\<lambda>a. cs_ordinal (fst a)) (zip cols data))" using dist by (simp only: ords)
  show ?thesis
  proof (cases old)
    case None
    then have "res = NoOldRow" using res by (simp add: resolver_new_def)
    then show ?thesis using decoded_no_old dec None by (simp add: old_value_of_simps)
  next
    case (Some image)
    show ?thesis
    proof (cases image)
      case (OldFull row)
      then have "res = FullOldRow row 0" using res Some by (simp add: resolver_new_def split: if_splits)
      from decoded_full_old [OF dec [unfolded this] dist'] show ?thesis
        unfolding ords by (simp add: old_value_of_simps Some OldFull cols)
    next
      case (OldKey row)
      then have "res = KeyOldRow row 0" using res Some by (simp add: resolver_new_def)
      from decoded_key_old [OF dec [unfolded this] dist'] sub len show ?thesis
        by (simp add: old_value_of_simps Some OldKey ids)
    qed
  qed
qed

lemma update_row_columns:
  assumes upd: "convert_update_tuple_to_updated_table_row tp r data old = Inr u"
    and count: "si_len (column_schemas r) = length cols" and cols: "cols = si_inner (column_schemas r)"
    and dist: "distinct (map cs_ordinal cols)"
    and masks: "length (rts_mask r) = length (rts_identity_mask r)"
  shows "\<exists>xs. columns_decode tp (old_value_of r old) (zip cols data) xs \<and> length xs = length cols \<and>
              u = row_of (map cell_option xs)"
proof -
  let ?ids = "si_inner (identity_column_schemas r)"
  from upd obtain res xs res' where len: "length data = length cols"
      and res: "resolver_new old (length cols) = Inr res"
      and dec: "decoded_columns tp ?ids (zip cols data) res = Inr (xs, res')"
      and u: "u = (let v = push_values 0 xs no_values in
                if uv_partial v then UpdatedPartial (length cols) (uv_present v) (uv_missing v)
                else UpdatedFull (uv_full v))"
    unfolding convert_update_tuple_to_updated_table_row_def Let_def update_columns_eq count cols [symmetric]
    by (auto simp: res_bind_eq_Inr_iff split: if_splits)
  have sub: "subseq ?ids cols" using identity_subseq_columns [OF masks] cols by simp
  have c: "columns_decode tp (old_value_of r old) (zip cols data) xs"
    by (rule resolver_decodes [OF res dec cols refl len dist sub])
  then have xs: "length xs = length cols"
    using len by (simp add: columns_decode_def list_all2_conv_all_nth)
  have "ok_values (map cell_option xs) (push_values 0 xs no_values)"
    using ok_values_pushes [OF ok_no_values, of 0 xs] by simp
  from ok_values_row [OF this] have "u = row_of (map cell_option xs)"
    by (simp add: u Let_def xs)
  with c xs show ?thesis by blast
qed

lemma from_masks_columns_distinct:
  "distinct (map cs_ordinal (ts_columns t)) \<Longrightarrow>
   distinct (map cs_ordinal (si_inner (column_schemas (from_masks t rm im))))"
proof -
  have "distinct (map cs_ordinal (filter_map (\<lambda>(c, m). if m = 1 then Some c else None) (zip cs ms)))"
    if "distinct (map cs_ordinal cs)" for cs and ms :: mask
    using that
  proof (induction cs arbitrary: ms)
    case (Cons c cs)
    have sub: "set (filter_map (\<lambda>(c, m). if m = 1 then Some c else None) (zip cs ms')) \<subseteq> set cs" for ms' :: mask
      by (auto simp: set_filter_map dest: set_zip_leftD split: if_splits)
    show ?case
    proof (cases ms)
      case (Cons m ms')
      then show ?thesis using Cons.IH [of ms'] Cons.prems sub [of ms'] by (auto split: option.split)
    qed simp
  qed simp
  then show "distinct (map cs_ordinal (ts_columns t)) \<Longrightarrow> ?thesis"
    by (simp add: column_schemas_def from_masks_def)
qed

text \<open>
  C16. A decoded update row holds, for every replicated column, exactly the value the
  protocol sent, or the old row's value of that same column where the protocol marked it
  unchanged. The row is full when every column has a value. Otherwise it is partial: its
  missing indexes are exactly the columns without a value, in order, and its values are
  the remaining ones. Key images are matched to their columns by identity column.
\<close>

theorem update_row_aligned:
  assumes "r = from_masks t rm im" and "length rm = length (ts_columns t)"
    and "length im = length (ts_columns t)" and "distinct (map cs_ordinal (ts_columns t))"
    and "convert_update_tuple_to_updated_table_row tp r data old = Inr u"
  shows "\<exists>xs. length xs = si_len (column_schemas r) \<and> u = row_of (map cell_option xs) \<and>
      list_all2 (\<lambda>(c, d) x. convert_tuple_data_to_cell tp c d (old_value_of r old c) = Inr x)
        (zip (si_inner (column_schemas r)) data) xs"
proof -
  have count: "si_len (column_schemas r) = length (si_inner (column_schemas r))"
    using length_filter_map_columns [OF assms(2)] assms(1) by (simp add: column_schemas_def from_masks_def)
  have masks: "length (rts_mask r) = length (rts_identity_mask r)"
    using assms by (simp add: from_masks_def)
  have dist: "distinct (map cs_ordinal (si_inner (column_schemas r)))"
    using from_masks_columns_distinct [OF assms(4)] assms(1) by simp
  from update_row_columns [OF assms(5) count refl dist masks] show ?thesis
    unfolding columns_decode_def count by blast
qed

text \<open>A table with an integer key and a text column, for examples.\<close>

definition sample_parsers :: text_parsers where
  "sample_parsers = \<lparr> tp_f32 = \<lambda>_. None, tp_f64 = \<lambda>_. None, tp_date = \<lambda>_. None, tp_time = \<lambda>_. None,
     tp_timestamp = \<lambda>_. None, tp_timestamptz_hhmm = \<lambda>_. None, tp_timestamptz_hh_mm = \<lambda>_. None,
     tp_uuid = \<lambda>_. None, tp_json = \<lambda>_. None, tp_is_array_type = \<lambda>_. False \<rparr>"

definition sample_table :: table_schema where
  "sample_table = \<lparr> ts_id = 7, ts_name = \<lparr> tn_schema = ''public'', tn_name = ''t'' \<rparr>,
     ts_columns = [
       \<lparr> cs_name = ''id'', cs_typ = ''BOOL'', cs_modifier = - 1, cs_ordinal = 1,
         cs_pk_ordinal = Some 1, cs_nullable = False \<rparr>,
       \<lparr> cs_name = ''body'', cs_typ = ''TEXT'', cs_modifier = - 1, cs_ordinal = 2,
         cs_pk_ordinal = None, cs_nullable = True \<rparr>],
     ts_snapshot = 0 \<rparr>"

lemma sample_update:
  "convert_update_tuple_to_updated_table_row sample_parsers (from_masks sample_table [1, 1] [1, 0])
     [TUnchangedToast, TUnchangedToast] (Some (OldKey [CellBool True])) =
   Inr (UpdatedPartial 2 [CellBool True] [1])"
  by code_simp

lemma sample_masks: "from_masks sample_table [1, 1] [1, 0] = from_masks sample_table [1, 1] [1, 0]"
    "length [1, 1 :: byte] = length (ts_columns sample_table)"
    "length [1, 0 :: byte] = length (ts_columns sample_table)"
    "distinct (map cs_ordinal (ts_columns sample_table))"
  by (simp_all add: sample_table_def)

theorem update_row_aligned_witness:
  "\<exists>xs. UpdatedPartial 2 [CellBool True] [1] = row_of (map cell_option xs) \<and> length xs = 2"
proof -
  have "si_len (column_schemas (from_masks sample_table [1, 1] [1, 0])) = 2" by code_simp
  then show ?thesis using update_row_aligned [OF sample_masks sample_update] by auto
qed

end
