(* ===== verification/Source_Client.thy ===== *)
theory Source_Client
  imports Slots Event_Decoding
begin

text \<open>
  The client of the source database, \<open>etl/src/replication/client.rs\<close>, and the version test of
  \<open>etl-postgres/src/version.rs\<close>. The server is a parameter: a record with the rows that each
  statement of the client returns, as texts that may be NULL, and with the new state of the
  server for the statements that change it. Quoting of identifiers and literals, the text
  form of positions and the JSON of the schema helpers are the work of other libraries and
  are fields of the same record. Connecting and logging are left out.
\<close>

section \<open>The server\<close>

text \<open>A failed statement: the SQLSTATE, if the server sent one, and the message.\<close>

type_synonym pg_failure = "string option \<times> string"
type_synonym 'a pg_reply = "(pg_failure, 'a) result"

definition source_error :: "pg_failure \<Rightarrow> etl_error" where
  "source_error f = from_postgres_error (fst f) (snd f)"

definition source_reply :: "'a pg_reply \<Rightarrow> 'a etl_result" where
  "source_reply r = (case r of Inl f \<Rightarrow> Inl (source_error f) | Inr x \<Rightarrow> Inr x)"

record slot_row =
  sr_confirmed_flush_lsn :: "string option"
  sr_wal_status :: "string option"

record schema_snapshot_row =
  ssr_schema_name :: "string option"
  ssr_table_name :: "string option"
  ssr_columns :: "string option"
  ssr_identity :: "string option"

datatype snapshot_action = UseSnapshot | NoExportSnapshot

record 'w source =
  src_slot_rows :: "string \<Rightarrow> 'w \<Rightarrow> slot_row list pg_reply"
  src_create_slot :: "string \<Rightarrow> snapshot_action \<Rightarrow> 'w \<Rightarrow> string option list pg_reply \<times> 'w"
  src_drop_slot :: "string \<Rightarrow> 'w \<Rightarrow> unit pg_reply option \<times> 'w"
  src_begin :: "'w \<Rightarrow> unit pg_reply \<times> 'w"
  src_set_snapshot :: "string \<Rightarrow> 'w \<Rightarrow> unit pg_reply \<times> 'w"
  src_commit :: "'w \<Rightarrow> unit pg_reply \<times> 'w"
  src_export_snapshot :: "'w \<Rightarrow> string option list pg_reply"
  src_wal_sender_timeout :: "'w \<Rightarrow> (string option \<times> string option) list pg_reply"
  src_publication_rows :: "string \<Rightarrow> 'w \<Rightarrow> unit list pg_reply"
  src_pubviaroot :: "string \<Rightarrow> 'w \<Rightarrow> string option list pg_reply"
  src_partitioned_rows :: "table_id list \<Rightarrow> 'w \<Rightarrow> unit list pg_reply"
  src_leaf_rows :: "table_id \<Rightarrow> 'w \<Rightarrow> string option list pg_reply"
  src_publication_tables :: "string \<Rightarrow> 'w \<Rightarrow> (string option \<times> string option) list pg_reply"
  src_publication_roots :: "string \<Rightarrow> 'w \<Rightarrow> string option list pg_reply"
  src_column_rows :: "string \<Rightarrow> table_id \<Rightarrow> 'w \<Rightarrow> string option list pg_reply"
  src_generated_rows :: "table_id \<Rightarrow> 'w \<Rightarrow> string option list pg_reply"
  src_schema_rows :: "table_id \<Rightarrow> 'w \<Rightarrow> schema_snapshot_row list pg_reply"
  src_table_name_rows :: "table_id \<Rightarrow> 'w \<Rightarrow> (string option \<times> string option) list pg_reply"
  src_row_filter_rows :: "string \<Rightarrow> table_id \<Rightarrow> 'w \<Rightarrow> string option list pg_reply"
  src_block_rows :: "table_id \<Rightarrow> 'w \<Rightarrow> string option list pg_reply"
  src_copy_out :: "string \<Rightarrow> 'w \<Rightarrow> string pg_reply list pg_reply"
  src_server_version :: "int option"
  src_quote_identifier :: "string \<Rightarrow> string"
  src_quote_literal :: "string \<Rightarrow> string"
  src_parse_lsn :: "string \<Rightarrow> lsn option"
  src_parse_columns :: "string \<Rightarrow> column_schema_message list option"
  src_parse_identity :: "string \<Rightarrow> identity_message option"
  src_type_of_oid :: "oid \<Rightarrow> pg_type option"

definition meets_version :: "int option \<Rightarrow> int \<Rightarrow> bool" where
  "meets_version server required = (case server of None \<Rightarrow> False | Some v \<Rightarrow> required \<le> v)"

definition postgres_15 :: int where "postgres_15 = 150000"

definition get_row_value :: "(string \<Rightarrow> 'a option) \<Rightarrow> string option \<Rightarrow> 'a etl_result" where
  "get_row_value parse v = (case v of
       None \<Rightarrow> Inl (etl_err SourceSchemaError ''Column not found in source table'')
     | Some text \<Rightarrow> (case parse text of
           None \<Rightarrow> Inl (etl_err ConversionError ''Column parsing failed'')
         | Some x \<Rightarrow> Inr x))"

section \<open>Slots\<close>

record create_slot_result =
  csr_consistent_point :: lsn

record get_slot_result =
  gsr_confirmed_flush_lsn :: lsn

datatype slot_state = SlotValid | SlotInvalidated

datatype get_or_create_slot_result = CreateSlot create_slot_result | GetSlot get_slot_result

fun get_slot_start_lsn :: "get_or_create_slot_result \<Rightarrow> lsn" where
  "get_slot_start_lsn (CreateSlot r) = csr_consistent_point r"
| "get_slot_start_lsn (GetSlot r) = gsr_confirmed_flush_lsn r"

definition slot_not_found :: etl_error where
  "slot_not_found = etl_err ReplicationSlotNotFound ''Replication slot not found''"

definition get_slot_state :: "'w source \<Rightarrow> string \<Rightarrow> 'w \<Rightarrow> slot_state etl_result" where
  "get_slot_state src name w =
     res_bind (source_reply (src_slot_rows src name w)) (\<lambda>rows. case rows of
         [] \<Rightarrow> Inl slot_not_found
       | row # _ \<Rightarrow> Inr (if sr_wal_status row = Some ''lost'' then SlotInvalidated else SlotValid))"

definition get_slot :: "'w source \<Rightarrow> string \<Rightarrow> 'w \<Rightarrow> get_slot_result etl_result" where
  "get_slot src name w =
     res_bind (source_reply (src_slot_rows src name w)) (\<lambda>rows. case rows of
         [] \<Rightarrow> Inl slot_not_found
       | row # _ \<Rightarrow> res_bind (get_row_value (src_parse_lsn src) (sr_confirmed_flush_lsn row)) (\<lambda>l.
           Inr \<lparr> gsr_confirmed_flush_lsn = l \<rparr>))"

definition create_slot_internal ::
    "'w source \<Rightarrow> string \<Rightarrow> snapshot_action \<Rightarrow> 'w \<Rightarrow> create_slot_result etl_result \<times> 'w" where
  "create_slot_internal src name act w =
     (case src_create_slot src name act w of
        (Inr rows, w') \<Rightarrow>
          (case rows of
             [] \<Rightarrow> Inl (etl_err ReplicationSlotNotCreated ''Replication slot creation failed'')
           | row # _ \<Rightarrow> res_bind (get_row_value (src_parse_lsn src) row) (\<lambda>l. Inr \<lparr> csr_consistent_point = l \<rparr>), w')
      | (Inl f, w') \<Rightarrow>
          (if fst f = Some ''DUPLICATE_OBJECT''
           then Inl (etl_err ReplicationSlotAlreadyExists ''Replication slot already exists'')
           else Inl (source_error f), w'))"

definition create_slot :: "'w source \<Rightarrow> string \<Rightarrow> 'w \<Rightarrow> create_slot_result etl_result \<times> 'w" where
  "create_slot src name = create_slot_internal src name NoExportSnapshot"

definition begin_tx :: "'w source \<Rightarrow> 'w \<Rightarrow> unit etl_result \<times> 'w" where
  "begin_tx src w = (case src_begin src w of (r, w') \<Rightarrow> (source_reply r, w'))"

definition commit_tx :: "'w source \<Rightarrow> 'w \<Rightarrow> unit etl_result \<times> 'w" where
  "commit_tx src w = (case src_commit src w of (r, w') \<Rightarrow> (source_reply r, w'))"

definition set_tx_snapshot :: "'w source \<Rightarrow> string \<Rightarrow> 'w \<Rightarrow> unit etl_result \<times> 'w" where
  "set_tx_snapshot src snap w = (case src_set_snapshot src snap w of (r, w') \<Rightarrow> (source_reply r, w'))"

definition create_slot_with_transaction :: "'w source \<Rightarrow> string \<Rightarrow> 'w \<Rightarrow> create_slot_result etl_result \<times> 'w" where
  "create_slot_with_transaction src name w =
     (case begin_tx src w of
        (Inl e, w') \<Rightarrow> (Inl e, w')
      | (Inr _, w') \<Rightarrow> create_slot_internal src name UseSnapshot w')"

definition get_or_create_slot ::
    "'w source \<Rightarrow> string \<Rightarrow> 'w \<Rightarrow> get_or_create_slot_result etl_result \<times> 'w" where
  "get_or_create_slot src name w =
     (case get_slot src name w of
        Inr slot \<Rightarrow> (Inr (GetSlot slot), w)
      | Inl e \<Rightarrow>
          if kind e = ReplicationSlotNotFound
          then (case create_slot src name w of
                  (Inl e', w') \<Rightarrow> (Inl e', w')
                | (Inr c, w') \<Rightarrow> (Inr (CreateSlot c), w'))
          else (Inl e, w))"

definition delete_slot_internal :: "'w source \<Rightarrow> string \<Rightarrow> bool \<Rightarrow> 'w \<Rightarrow> unit etl_result \<times> 'w" where
  "delete_slot_internal src name fail_if_missing w =
     (case src_drop_slot src name w of
        (None, w') \<Rightarrow> (Inl (etl_err ReplicationSlotDeletionTimeout ''Replication slot deletion timed out''), w')
      | (Some (Inr _), w') \<Rightarrow> (Inr (), w')
      | (Some (Inl f), w') \<Rightarrow>
          (if fst f = Some ''UNDEFINED_OBJECT''
           then if fail_if_missing then Inl slot_not_found else Inr ()
           else Inl (source_error f), w'))"

definition delete_slot :: "'w source \<Rightarrow> string \<Rightarrow> 'w \<Rightarrow> unit etl_result \<times> 'w" where
  "delete_slot src name = delete_slot_internal src name True"

definition delete_slot_if_exists :: "'w source \<Rightarrow> string \<Rightarrow> 'w \<Rightarrow> unit etl_result \<times> 'w" where
  "delete_slot_if_exists src name = delete_slot_internal src name False"

section \<open>Settings and publications\<close>

text \<open>\<open>saturating_mul\<close> on 64-bit integers; a duration is its number of milliseconds.\<close>

definition saturating_mul_u64 :: "nat \<Rightarrow> nat \<Rightarrow> nat" where
  "saturating_mul_u64 a b = min (a * b) (2 ^ 64 - 1)"

definition get_wal_sender_timeout :: "'w source \<Rightarrow> 'w \<Rightarrow> nat option etl_result" where
  "get_wal_sender_timeout src w =
     res_bind (source_reply (src_wal_sender_timeout src w)) (\<lambda>rows. case rows of
         [] \<Rightarrow> Inl (etl_err SourceConnectionFailed ''Wal sender timeout not found'')
       | (setting, unit_text) # _ \<Rightarrow>
           res_bind (get_row_value parse_u64 setting) (\<lambda>setting.
             let n = unat setting; u = (case unit_text of None \<Rightarrow> ''ms'' | Some u \<Rightarrow> u) in
             if n = 0 then Inr None
             else if u = ''ms'' then Inr (Some n)
             else if u = ''s'' then Inr (Some (n * 1000))
             else if u = ''min'' then Inr (Some (saturating_mul_u64 n 60 * 1000))
             else if u = ''h'' then Inr (Some (saturating_mul_u64 n (60 * 60) * 1000))
             else if u = ''d'' then Inr (Some (saturating_mul_u64 n (60 * 60 * 24) * 1000))
             else Inl (etl_err ConversionError ''Unsupported wal sender timeout unit'')))"

definition publication_exists :: "'w source \<Rightarrow> string \<Rightarrow> 'w \<Rightarrow> bool etl_result" where
  "publication_exists src pub w = res_bind (source_reply (src_publication_rows src pub w)) (\<lambda>rows. Inr (rows \<noteq> []))"

definition get_publish_via_partition_root :: "'w source \<Rightarrow> string \<Rightarrow> 'w \<Rightarrow> bool etl_result" where
  "get_publish_via_partition_root src pub w =
     res_bind (source_reply (src_pubviaroot src pub w)) (\<lambda>rows. case rows of
         [] \<Rightarrow> Inl (etl_err ConfigError ''Publication not found'')
       | row # _ \<Rightarrow> res_bind (get_row_value Some row) (\<lambda>v. Inr (v = ''t'')))"

definition has_partitioned_tables :: "'w source \<Rightarrow> table_id list \<Rightarrow> 'w \<Rightarrow> bool etl_result" where
  "has_partitioned_tables src ts w =
     (if ts = [] then Inr False
      else res_bind (source_reply (src_partitioned_rows src ts w)) (\<lambda>rows. Inr (rows \<noteq> [])))"

definition is_partitioned_table :: "'w source \<Rightarrow> table_id \<Rightarrow> 'w \<Rightarrow> bool etl_result" where
  "is_partitioned_table src t = has_partitioned_tables src [t]"

definition get_leaf_partitions :: "'w source \<Rightarrow> table_id \<Rightarrow> 'w \<Rightarrow> table_id list etl_result" where
  "get_leaf_partitions src t w =
     res_bind (source_reply (src_leaf_rows src t w)) (res_map (get_row_value parse_u32))"

definition get_publication_table_names :: "'w source \<Rightarrow> string \<Rightarrow> 'w \<Rightarrow> table_name list etl_result" where
  "get_publication_table_names src pub w =
     res_bind (source_reply (src_publication_tables src pub w)) (res_map (\<lambda>(schema, name).
       res_bind (get_row_value Some schema) (\<lambda>schema.
       res_bind (get_row_value Some name) (\<lambda>name. Inr \<lparr> tn_schema = schema, tn_name = name \<rparr>))))"

definition get_publication_table_ids :: "'w source \<Rightarrow> string \<Rightarrow> 'w \<Rightarrow> table_id list etl_result" where
  "get_publication_table_ids src pub w =
     res_bind (source_reply (src_publication_roots src pub w)) (\<lambda>rows.
     res_bind (res_map (get_row_value parse_u32) rows) (\<lambda>ts.
       if ts = [] then Inl (etl_err ConfigError ''Publication has no tables'') else Inr ts))"

definition get_replicated_column_names ::
    "'w source \<Rightarrow> table_id \<Rightarrow> table_schema \<Rightarrow> string \<Rightarrow> 'w \<Rightarrow> string list etl_result" where
  "get_replicated_column_names src t schema pub w =
     (let all_names = map cs_name (ts_columns schema) in
      if \<not> meets_version (src_server_version src) postgres_15 then Inr all_names
      else res_bind (source_reply (src_column_rows src pub t w)) (\<lambda>rows.
        let names = concat (map (\<lambda>r. case r of None \<Rightarrow> [] | Some n \<Rightarrow> [n]) rows) in
        if rows = [] then Inl (etl_err ConfigError ''Table not in publication'')
        else if names = [] then Inr all_names
        else Inr names))"

section \<open>Schemas\<close>

definition warn_if_generated_columns_exist :: "'w source \<Rightarrow> table_id \<Rightarrow> 'w \<Rightarrow> unit etl_result" where
  "warn_if_generated_columns_exist src t w =
     res_bind (source_reply (src_generated_rows src t w)) (\<lambda>rows. case rows of
         [] \<Rightarrow> Inr ()
       | row # _ \<Rightarrow> res_bind (get_row_value Some row) (\<lambda>_. Inr ()))"

definition get_table_schema_snapshot ::
    "'w source \<Rightarrow> table_id \<Rightarrow> 'w \<Rightarrow> (table_name \<times> column_schema_message list \<times> identity_message) etl_result" where
  "get_table_schema_snapshot src t w =
     res_bind (warn_if_generated_columns_exist src t w) (\<lambda>_.
     res_bind (source_reply (src_schema_rows src t w)) (\<lambda>rows. case rows of
         [] \<Rightarrow> Inl (etl_err SourceSchemaError ''Table schema snapshot not found in source database'')
       | row # _ \<Rightarrow>
           res_bind (get_row_value Some (ssr_schema_name row)) (\<lambda>schema_name.
           res_bind (get_row_value Some (ssr_table_name row)) (\<lambda>table_name.
           res_bind (get_row_value Some (ssr_columns row)) (\<lambda>columns_json.
           res_bind (get_row_value Some (ssr_identity row)) (\<lambda>identity_json.
           res_bind (ok_or (etl_err DeserializationError ''Invalid table schema snapshot'')
             (src_parse_columns src columns_json)) (\<lambda>columns.
           res_bind (ok_or (etl_err DeserializationError ''Invalid table identity snapshot'')
             (src_parse_identity src identity_json)) (\<lambda>identity.
           Inr (\<lparr> tn_schema = schema_name, tn_name = table_name \<rparr>, columns, identity)))))))))"

definition build_table_schema ::
    "'w source \<Rightarrow> table_id \<Rightarrow> table_name \<Rightarrow> column_schema_message list \<Rightarrow> int list \<Rightarrow> snapshot_id \<Rightarrow> table_schema" where
  "build_table_schema src t name columns pk snap =
     with_snapshot_id t name (build_column_schemas (src_type_of_oid src) columns pk) snap"

definition get_table_schema_with_identity ::
    "'w source \<Rightarrow> table_id \<Rightarrow> 'w \<Rightarrow> (table_schema \<times> identity_message) etl_result" where
  "get_table_schema_with_identity src t w =
     res_bind (get_table_schema_snapshot src t w) (\<lambda>(name, columns, identity).
       Inr (build_table_schema src t name columns (im_primary_key_attnums identity) snapshot_initial, identity))"

definition get_source_table_schema :: "'w source \<Rightarrow> table_id \<Rightarrow> 'w \<Rightarrow> table_schema etl_result" where
  "get_source_table_schema src t w =
     res_bind (get_table_schema_snapshot src t w) (\<lambda>(name, columns, identity).
       Inr (build_table_schema src t name columns (im_primary_key_attnums identity) snapshot_initial))"

definition get_table_name :: "'w source \<Rightarrow> table_id \<Rightarrow> 'w \<Rightarrow> table_name etl_result" where
  "get_table_name src t w =
     res_bind (source_reply (src_table_name_rows src t w)) (\<lambda>rows. case rows of
         [] \<Rightarrow> Inl (etl_err SourceSchemaError ''Table not found in source database'')
       | (schema_name, table_name) # _ \<Rightarrow>
           res_bind (get_row_value Some schema_name) (\<lambda>schema_name.
           res_bind (get_row_value Some table_name) (\<lambda>table_name.
             Inr \<lparr> tn_schema = schema_name, tn_name = table_name \<rparr>)))"

definition get_row_filter :: "'w source \<Rightarrow> table_id \<Rightarrow> string option \<Rightarrow> 'w \<Rightarrow> string option etl_result" where
  "get_row_filter src t pub w =
     (if \<not> meets_version (src_server_version src) postgres_15 then Inr None
      else case pub of
        None \<Rightarrow> Inr None
      | Some pub \<Rightarrow> res_bind (source_reply (src_row_filter_rows src pub t w)) (\<lambda>rows. case rows of
            [] \<Rightarrow> Inr None
          | row # _ \<Rightarrow> Inr row))"

end
