(* ===== verification/Copy_Partitions.thy ===== *)
theory Copy_Partitions
  imports Source_Client
begin

text \<open>
  The queries that copy a table, and the division of a table into ctid ranges that are copied
  in parallel: the last part of \<open>etl/src/replication/client.rs\<close>. A ctid is the pair of a
  block number and an offset in the block, offsets start at 1, and ctids are ordered by
  block and then by offset.
\<close>

datatype ctid_partition =
    OpenStart string
  | Closed string string
  | OpenEnd string

definition as_quoted_identifier :: "'w source \<Rightarrow> table_name \<Rightarrow> string" where
  "as_quoted_identifier src n = src_quote_identifier src (tn_schema n) @ ''.'' @ src_quote_identifier src (tn_name n)"

definition join_with :: "string \<Rightarrow> string list \<Rightarrow> string" where
  "join_with sep xs = (case xs of [] \<Rightarrow> [] | y # ys \<Rightarrow> y @ concat (map (\<lambda>z. sep @ z) ys))"

definition column_list :: "'w source \<Rightarrow> column_schema list \<Rightarrow> string" where
  "column_list src cs = join_with '', '' (map (src_quote_identifier src \<circ> cs_name) cs)"

definition get_table_copy_stream ::
    "'w source \<Rightarrow> table_id \<Rightarrow> column_schema list \<Rightarrow> string option \<Rightarrow> 'w \<Rightarrow> string pg_reply list etl_result" where
  "get_table_copy_stream src t cs pub w =
     res_bind (get_table_name src t w) (\<lambda>name.
     res_bind (get_row_filter src t pub w) (\<lambda>row_filter.
     source_reply (src_copy_out src (case row_filter of
         Some f \<Rightarrow> ''copy (select '' @ column_list src cs @ '' from '' @ as_quoted_identifier src name
           @ '' where '' @ f @ '') to stdout with (format text);''
       | None \<Rightarrow> ''copy (select '' @ column_list src cs @ '' from '' @ as_quoted_identifier src name
           @ '') to stdout with (format text);'') w)))"

fun ctid_predicate :: "'w source \<Rightarrow> ctid_partition \<Rightarrow> string" where
  "ctid_predicate src (OpenStart end_tid) = ''ctid < '' @ src_quote_literal src end_tid @ ''::tid''"
| "ctid_predicate src (Closed start_tid end_tid) =
     ''ctid >= '' @ src_quote_literal src start_tid @ ''::tid and ctid < '' @ src_quote_literal src end_tid @ ''::tid''"
| "ctid_predicate src (OpenEnd start_tid) = ''ctid >= '' @ src_quote_literal src start_tid @ ''::tid''"

definition build_ctid_copy_query ::
    "'w source \<Rightarrow> table_name \<Rightarrow> string \<Rightarrow> string option \<Rightarrow> ctid_partition \<Rightarrow> string" where
  "build_ctid_copy_query src name columns row_filter part =
     ''copy (select '' @ columns @ '' from '' @ as_quoted_identifier src name @ '' where '' @ ctid_predicate src part
     @ (case row_filter of Some f \<Rightarrow> '' and ('' @ f @ '')'' | None \<Rightarrow> []) @ '') to stdout with (format text);''"

definition get_table_copy_stream_with_ctid_partition ::
    "'w source \<Rightarrow> table_id \<Rightarrow> column_schema list \<Rightarrow> string option \<Rightarrow> ctid_partition \<Rightarrow> 'w
     \<Rightarrow> string pg_reply list etl_result" where
  "get_table_copy_stream_with_ctid_partition src t cs pub part w =
     res_bind (get_table_name src t w) (\<lambda>name.
     res_bind (get_row_filter src t pub w) (\<lambda>row_filter.
     source_reply (src_copy_out src (build_ctid_copy_query src name (column_list src cs) row_filter part) w)))"

definition export_snapshot :: "'w source \<Rightarrow> 'w \<Rightarrow> string etl_result" where
  "export_snapshot src w =
     res_bind (source_reply (src_export_snapshot src w)) (\<lambda>rows. case rows of
         [] \<Rightarrow> Inl (etl_err InvalidState ''PostgreSQL pg_export_snapshot returned no rows'')
       | row # _ \<Rightarrow> ok_or (etl_err InvalidState ''PostgreSQL pg_export_snapshot returned NULL'') row)"

section \<open>Planning the partitions\<close>

definition tid_text :: "nat \<Rightarrow> string" where
  "tid_text block = ''('' @ dec block @ '',1)''"

definition ctid_ranges :: "nat \<Rightarrow> nat \<Rightarrow> ctid_partition list" where
  "ctid_ranges num_partitions table_blocks =
     (let effective = min num_partitions table_blocks;
          per_partition = (table_blocks + effective - 1) div effective
      in map (\<lambda>i.
           let start_block = i * per_partition;
               end_block = min ((i + 1) * per_partition) table_blocks
           in if effective = 1 then OpenEnd ''(0,1)''
              else if i = 0 then OpenStart (tid_text end_block)
              else if i = effective - 1 then OpenEnd (tid_text start_block)
              else Closed (tid_text start_block) (tid_text end_block)) [0..<effective])"

text \<open>The number of blocks is an i64; a negative one gives no partitions.\<close>

definition table_blocks :: "string option list \<Rightarrow> int option" where
  "table_blocks rows = find_map (\<lambda>row. case row of
       None \<Rightarrow> None
     | Some text \<Rightarrow> (case parse_int (- (2 ^ 63)) (2 ^ 63 - 1) text of Inl _ \<Rightarrow> None | Inr n \<Rightarrow> Some n)) rows"

definition plan_ctid_partitions :: "'w source \<Rightarrow> table_id \<Rightarrow> 16 word \<Rightarrow> 'w \<Rightarrow> ctid_partition list etl_result" where
  "plan_ctid_partitions src t num_partitions w =
     (if num_partitions = 0
      then Inl (etl_err ConfigError ''Number of ctid partitions must be greater than zero'')
      else res_bind (source_reply (src_block_rows src t w)) (\<lambda>rows.
        res_bind (ok_or (etl_err SourceSchemaError ''Could not retrieve table block count for partition planning'')
          (table_blocks rows)) (\<lambda>blocks.
        if blocks \<le> 0 then Inr [] else Inr (ctid_ranges (unat num_partitions) (nat blocks)))))"

section \<open>What a partition selects\<close>

type_synonym tid = "nat \<times> nat"

definition tid_less :: "tid \<Rightarrow> tid \<Rightarrow> bool" where
  "tid_less a b \<longleftrightarrow> fst a < fst b \<or> fst a = fst b \<and> snd a < snd b"

text \<open>The predicate of a partition, with the reading of ctid literals by the server.\<close>

fun selects :: "(string \<Rightarrow> tid) \<Rightarrow> ctid_partition \<Rightarrow> tid \<Rightarrow> bool" where
  "selects read (OpenStart e) x = tid_less x (read e)"
| "selects read (Closed s e) x = (\<not> tid_less x (read s) \<and> tid_less x (read e))"
| "selects read (OpenEnd s) x = (\<not> tid_less x (read s))"

definition reads_tids :: "(string \<Rightarrow> tid) \<Rightarrow> bool" where
  "reads_tids read \<longleftrightarrow> (\<forall>b. read (tid_text b) = (b, 1))"

lemma nth_ctid_ranges:
  assumes "n = min num b" "q = (b + n - 1) div n" "i < n"
  shows "ctid_ranges num b ! i =
      (if n = 1 then OpenEnd ''(0,1)'' else if i = 0 then OpenStart (tid_text (min ((i + 1) * q) b))
       else if i = n - 1 then OpenEnd (tid_text (i * q))
       else Closed (tid_text (i * q)) (tid_text (min ((i + 1) * q) b)))"
  using assms(3) unfolding assms(1,2) ctid_ranges_def Let_def by simp

lemma selects_range:
  assumes "reads_tids read" "n = min num b" "q = (b + n - 1) div n" "i < n" "1 \<le> snd x"
  shows "selects read (ctid_ranges num b ! i) x \<longleftrightarrow>
    (i \<noteq> 0 \<longrightarrow> i * q \<le> fst x) \<and> (i \<noteq> n - 1 \<longrightarrow> fst x < (i + 1) * q \<and> fst x < b)"
proof -
  have r0: "read ''(0,1)'' = (0, 1)"
    using assms(1) [unfolded reads_tids_def, rule_format, of 0]
    by (simp add: tid_text_def dec.simps digit_char_def char_of_def bit_iff_odd)
  have r: "read (tid_text k) = (k, 1)" for k using assms(1) by (simp add: reads_tids_def)
  have less: "tid_less x (k, 1) \<longleftrightarrow> fst x < k" for k using assms(5) by (auto simp: tid_less_def)
  consider "n = 1" "i = 0" | "n \<noteq> 1" "i = 0" "i \<noteq> n - 1" | "n \<noteq> 1" "i \<noteq> 0" "i = n - 1" | "n \<noteq> 1" "i \<noteq> 0" "i \<noteq> n - 1"
    using assms(4) by linarith
  then show ?thesis
    unfolding nth_ctid_ranges [OF assms(2-4)] by cases (simp_all add: r0 [unfolded One_nat_def] r [unfolded One_nat_def] less [unfolded One_nat_def] not_less)
qed

lemma length_ctid_ranges [simp]: "length (ctid_ranges num b) = min num b"
  by (simp add: ctid_ranges_def Let_def)

lemma per_partition_covers:
  fixes n b q :: nat
  assumes "0 < n" "0 < b" "q = (b + n - 1) div n"
  shows "0 < q" "b \<le> n * q"
proof -
  have "b + n - 1 < n * q + n"
    using dividend_less_times_div [of n "b + n - 1"] assms(1,3) by simp
  then show "b \<le> n * q" using assms(1) by linarith
  then show "0 < q" using assms(2) by (cases q) auto
qed

lemma ctid_ranges_disjoint:
  assumes "reads_tids read" "1 \<le> snd x" "i < j" "j < min num b" "selects read (ctid_ranges num b ! i) x"
  shows "\<not> selects read (ctid_ranges num b ! j) x"
proof
  define n where "n = min num b"
  define q where "q = (b + n - 1) div n"
  assume "selects read (ctid_ranges num b ! j) x"
  then have "j * q \<le> fst x"
    using selects_range [OF assms(1) n_def q_def _ assms(2), of j] assms(3,4) n_def by simp
  moreover have "fst x < (i + 1) * q"
    using selects_range [OF assms(1) n_def q_def _ assms(2), of i] assms(3-5) by (fastforce simp: n_def [symmetric])
  moreover have "(i + 1) * q \<le> j * q" using assms(3) by (intro mult_le_mono1) simp
  ultimately show False by linarith
qed

lemma ctid_ranges_cover:
  assumes "reads_tids read" "0 < num" "0 < b" "1 \<le> snd x" "fst x < b"
  shows "\<exists>i < min num b. selects read (ctid_ranges num b ! i) x"
proof -
  define n where "n = min num b"
  define q where "q = (b + n - 1) div n"
  have q: "0 < q" "b \<le> n * q" using per_partition_covers [OF _ _ q_def] assms(2,3) by (simp_all add: n_def)
  define i where "i = fst x div q"
  have "i < n" unfolding i_def using q assms(5) by (intro less_mult_imp_div_less) linarith
  moreover have "i * q \<le> fst x" "fst x < (i + 1) * q"
    unfolding i_def using q(1) dividend_less_times_div [of q "fst x"] by (simp_all add: algebra_simps)
  ultimately have "selects read (ctid_ranges num b ! i) x"
    using selects_range [OF assms(1) n_def q_def _ assms(4), of i] assms(5) by simp
  then show ?thesis using \<open>i < n\<close> n_def by blast
qed

text \<open>
  C13. Parallel copying reads every row once. When a table with the given number of blocks is
  divided into ctid ranges, there are at most as many ranges as requested, no row belongs
  to two ranges, and every row in those blocks belongs to exactly one.
\<close>

theorem partitions_exact:
  assumes "plan_ctid_partitions src t num w = Inr ps" "reads_tids read"
    and "src_block_rows src t w = Inr rows" "table_blocks rows = Some b"
  shows "length ps \<le> unat num \<and>
    (\<forall>x. 1 \<le> snd x \<longrightarrow>
       (\<forall>i j. i < j \<longrightarrow> j < length ps \<longrightarrow> \<not> (selects read (ps ! i) x \<and> selects read (ps ! j) x)) \<and>
       (int (fst x) < b \<longrightarrow> (\<exists>i < length ps. selects read (ps ! i) x)))"
proof -
  have num: "0 < unat num" using assms(1) by (cases "num = 0") (simp_all add: plan_ctid_partitions_def unat_gt_0)
  show ?thesis
  proof (cases "b \<le> 0")
    case True
    then have "ps = []" using assms by (auto simp: plan_ctid_partitions_def source_reply_def split: if_splits)
    then show ?thesis using True by simp
  next
    case False
    then have ps: "ps = ctid_ranges (unat num) (nat b)"
      using assms by (auto simp: plan_ctid_partitions_def source_reply_def split: if_splits)
    show ?thesis
      using ctid_ranges_disjoint [OF assms(2)] ctid_ranges_cover [OF assms(2) num, of "nat b"] False
      unfolding ps by (auto simp: zless_nat_eq_int_zless [symmetric])
  qed
qed

definition read_tid :: "string \<Rightarrow> tid" where
  "read_tid text = (case decimal_number (takeWhile is_digit (tl text)) of None \<Rightarrow> (0, 0) | Some b \<Rightarrow> (nat b, 1))"

lemma reads_tids_read_tid: "reads_tids read_tid"
proof -
  have "takeWhile is_digit (dec b @ '',1)'') = dec b" for b
    using dec_digits [of b] by (simp add: takeWhile_append list_all_iff is_digit_def)
  then show ?thesis by (simp add: reads_tids_def read_tid_def tid_text_def decimal_number_dec)
qed

text \<open>A server without tables and slots.\<close>

definition empty_source :: "'w source" where
  "empty_source = \<lparr> src_slot_rows = (\<lambda>_ _. Inr []), src_create_slot = (\<lambda>_ _ w. (Inr [Some []], w)),
     src_drop_slot = (\<lambda>_ w. (Some (Inr ()), w)), src_begin = (\<lambda>w. (Inr (), w)), src_set_snapshot = (\<lambda>_ w. (Inr (), w)),
     src_commit = (\<lambda>w. (Inr (), w)), src_export_snapshot = (\<lambda>_. Inr [Some []]), src_wal_sender_timeout = (\<lambda>_. Inr []),
     src_publication_rows = (\<lambda>_ _. Inr []), src_pubviaroot = (\<lambda>_ _. Inr []), src_partitioned_rows = (\<lambda>_ _. Inr []),
     src_leaf_rows = (\<lambda>_ _. Inr []), src_publication_tables = (\<lambda>_ _. Inr []), src_publication_roots = (\<lambda>_ _. Inr []),
     src_column_rows = (\<lambda>_ _ _. Inr []), src_generated_rows = (\<lambda>_ _. Inr []), src_schema_rows = (\<lambda>_ _. Inr []),
     src_table_name_rows = (\<lambda>_ _. Inr []), src_row_filter_rows = (\<lambda>_ _ _. Inr []), src_block_rows = (\<lambda>_ _. Inr []),
     src_copy_out = (\<lambda>_ _. Inr []), src_server_version = Some 150000, src_quote_identifier = id, src_quote_literal = id,
     src_parse_lsn = (\<lambda>_. Some 0), src_parse_columns = (\<lambda>_. None), src_parse_identity = (\<lambda>_. None),
     src_type_of_oid = (\<lambda>_. None) \<rparr>"

theorem partitions_exact_witness:
  "\<exists>ps. plan_ctid_partitions (empty_source \<lparr> src_block_rows := \<lambda>_ _. Inr [Some ''5''] \<rparr>) 7 4 () = Inr ps \<and> length ps = 4 \<and>
     (\<exists>i < 4. selects read_tid (ps ! i) (4, 2))"
proof -
  let ?src = "empty_source \<lparr> src_block_rows := \<lambda>_ _. Inr [Some ''5''] \<rparr> :: unit source"
  have b: "table_blocks [Some ''5''] = Some 5" by code_simp
  then have "plan_ctid_partitions ?src 7 4 () = Inr (ctid_ranges 4 5)" by (simp add: plan_ctid_partitions_def source_reply_def)
  then show ?thesis
    using partitions_exact [of ?src 7 4 "()" "ctid_ranges 4 5" read_tid "[Some ''5'']" 5] reads_tids_read_tid b by auto
qed



end
