(* ===== verification/Effects.thy ===== *)
theory Effects
  imports Etl_Error
begin

text \<open>
  Code that awaits and may fail, as functions of the state it changes. Such an action
  stops with an error (\<open>Failed\<close>, the question mark operator of the source) or because
  something it awaits has not happened (\<open>Blocked\<close>); in both cases the state is the one
  it had reached. \<open>keeps\<close> is the rule by which the invariants are proved: it follows
  the structure of an action.
\<close>

datatype stop = Failed etl_error | Blocked

type_synonym ('s, 'a) action = "'s \<Rightarrow> (stop, 'a) result \<times> 's"

definition act_return :: "'a \<Rightarrow> ('s, 'a) action" where
  "act_return x s = (Inr x, s)"

definition act_bind :: "('s, 'a) action \<Rightarrow> ('a \<Rightarrow> ('s, 'b) action) \<Rightarrow> ('s, 'b) action" where
  "act_bind m f s = (case m s of (Inl e, s') \<Rightarrow> (Inl e, s') | (Inr x, s') \<Rightarrow> f x s')"

definition act_fail :: "etl_error \<Rightarrow> ('s, 'a) action" where
  "act_fail e s = (Inl (Failed e), s)"

definition act_get :: "('s \<Rightarrow> 'a) \<Rightarrow> ('s, 'a) action" where
  "act_get f s = (Inr (f s), s)"

definition act_modify :: "('s \<Rightarrow> 's) \<Rightarrow> ('s, unit) action" where
  "act_modify f s = (Inr (), f s)"

definition failable :: "'a etl_result \<Rightarrow> (stop, 'a) result" where
  "failable r = (case r of Inl e \<Rightarrow> Inl (Failed e) | Inr x \<Rightarrow> Inr x)"

definition act_try :: "'a etl_result \<Rightarrow> ('s, 'a) action" where
  "act_try r s = (failable r, s)"

text \<open>A call on a part of the state.\<close>

definition act_on :: "('s \<Rightarrow> 'p) \<Rightarrow> ('p \<Rightarrow> 's \<Rightarrow> 's) \<Rightarrow> ('p, 'a) action \<Rightarrow> ('s, 'a) action" where
  "act_on get_part set_part m s = (case m (get_part s) of (r, p) \<Rightarrow> (r, set_part p s))"

definition act_call :: "('p \<Rightarrow> 'a etl_result \<times> 'p) \<Rightarrow> ('p, 'a) action" where
  "act_call f p = (case f p of (r, p') \<Rightarrow> (failable r, p'))"

definition act_when :: "bool \<Rightarrow> ('s, unit) action \<Rightarrow> ('s, unit) action" where
  "act_when b m = (if b then m else act_return ())"

text \<open>A loop that leaves early when its body returns something.\<close>

fun act_until :: "('a \<Rightarrow> ('s, 'b option) action) \<Rightarrow> 'a list \<Rightarrow> ('s, 'b option) action" where
  "act_until f [] = act_return None"
| "act_until f (x # xs) = act_bind (f x) (\<lambda>r. case r of
      Some y \<Rightarrow> act_return (Some y)
    | None \<Rightarrow> act_until f xs)"

fun act_each :: "('a \<Rightarrow> ('s, unit) action) \<Rightarrow> 'a list \<Rightarrow> ('s, unit) action" where
  "act_each f [] = act_return ()"
| "act_each f (x # xs) = act_bind (f x) (\<lambda>_. act_each f xs)"

section \<open>Laws\<close>

lemma act_stop:
  "act_return x s = (Inr x, s)" "act_fail e s = (Inl (Failed e), s)"
  by (simp_all add: act_return_def act_fail_def)

lemma act_simps [simp]:
  "act_get f s = (Inr (f s), s)" "act_modify g s = (Inr (), g s)"
  by (simp_all add: act_get_def act_modify_def)

lemma failable_simps [simp]: "failable (Inl e) = Inl (Failed e)" "failable (Inr x) = Inr x"
  by (simp_all add: failable_def)

lemma failable_eq_Inr [simp]: "failable r = Inr x \<longleftrightarrow> r = Inr x"
  by (cases r) auto

lemma act_bind_eq_Inr:
  "act_bind m f s = (Inr y, s'') \<longleftrightarrow> (\<exists>x s'. m s = (Inr x, s') \<and> f x s' = (Inr y, s''))"
  by (auto simp: act_bind_def split: prod.splits sum.splits)

lemma act_bind_return [simp]: "act_bind (act_return x) f = f x"
  by (rule ext) (simp add: act_bind_def act_stop)

lemma act_bind_get [simp]: "act_bind (act_get g) f s = f (g s) s"
  by (simp add: act_bind_def)

lemma act_bind_modify [simp]: "act_bind (act_modify g) f s = f () (g s)"
  by (simp add: act_bind_def)

lemma act_bind_fail [simp]: "act_bind (act_fail e) f = act_fail e"
  by (rule ext) (simp add: act_bind_def act_stop)

lemma act_bind_try: "act_bind (act_try r) f s = (case r of Inl e \<Rightarrow> (Inl (Failed e), s) | Inr x \<Rightarrow> f x s)"
  by (simp add: act_bind_def act_try_def failable_def split: sum.split)

section \<open>Invariants of actions\<close>

text \<open>
  \<open>hoare P m Q E\<close>: from a state with \<open>P\<close>, the action ends with a value and a state in \<open>Q\<close>,
  or stops in a state with \<open>E\<close>.
\<close>

definition hoare :: "('s \<Rightarrow> bool) \<Rightarrow> ('s, 'a) action \<Rightarrow> ('a \<Rightarrow> 's \<Rightarrow> bool) \<Rightarrow> ('s \<Rightarrow> bool) \<Rightarrow> bool" where
  "hoare P m Q E \<longleftrightarrow>
     (\<forall>s r s'. P s \<longrightarrow> m s = (r, s') \<longrightarrow> (case r of Inl _ \<Rightarrow> E s' | Inr x \<Rightarrow> Q x s'))"

lemma hoareD:
  assumes "hoare P m Q E" and "P s"
  shows "m s = (Inr x, s') \<Longrightarrow> Q x s'" and "m s = (Inl e, s') \<Longrightarrow> E s'"
  using assms unfolding hoare_def by fastforce+

lemma hoare_bind:
  assumes "hoare P m R E" and "\<And>x. hoare (R x) (f x) Q E"
  shows "hoare P (act_bind m f) Q E"
  unfolding hoare_def
proof (intro allI impI)
  fix s r s'
  assume P: "P s" and eq: "act_bind m f s = (r, s')"
  show "case r of Inl _ \<Rightarrow> E s' | Inr x \<Rightarrow> Q x s'"
  proof (cases "m s")
    case (Pair y t)
    show ?thesis
    proof (cases y)
      case (Inl e)
      then have "r = Inl e" "s' = t" using eq Pair by (auto simp: act_bind_def)
      then show ?thesis using hoareD(2) [OF assms(1) P] Pair Inl by simp
    next
      case (Inr x)
      then have "f x t = (r, s')" using eq Pair by (simp add: act_bind_def)
      moreover have "R x t" using hoareD(1) [OF assms(1) P] Pair Inr by simp
      ultimately show ?thesis using assms(2) [of x] unfolding hoare_def by blast
    qed
  qed
qed

lemma hoare_weaken:
  assumes "hoare P' m Q' E'" and "\<And>s. P s \<Longrightarrow> P' s" and "\<And>x s. Q' x s \<Longrightarrow> Q x s" and "\<And>s. E' s \<Longrightarrow> E s"
  shows "hoare P m Q E"
  using assms unfolding hoare_def by (fastforce split: sum.splits)

lemma hoare_return: "(\<And>s. P s \<Longrightarrow> Q x s) \<Longrightarrow> hoare P (act_return x) Q E"
  by (auto simp: hoare_def act_stop)

lemma hoare_fail: "(\<And>s. P s \<Longrightarrow> E s) \<Longrightarrow> hoare P (act_fail e) Q E"
  by (auto simp: hoare_def act_stop)

lemma hoare_get: "(\<And>s. P s \<Longrightarrow> Q (f s) s) \<Longrightarrow> hoare P (act_get f) Q E"
  by (auto simp: hoare_def)

lemma hoare_bind_get:
  assumes "\<And>x. hoare (\<lambda>s. P s \<and> f s = x) (g x) Q E"
  shows "hoare P (act_bind (act_get f) g) Q E"
  using assms unfolding hoare_def by simp

lemma hoare_modify: "(\<And>s. P s \<Longrightarrow> Q () (g s)) \<Longrightarrow> hoare P (act_modify g) Q E"
  by (auto simp: hoare_def)

lemma hoare_try:
  assumes "\<And>x s. P s \<Longrightarrow> r = Inr x \<Longrightarrow> Q x s" and "\<And>s. P s \<Longrightarrow> E s"
  shows "hoare P (act_try r) Q E"
  using assms by (auto simp: hoare_def act_try_def failable_def split: sum.splits)

lemma hoare_when:
  assumes "b \<Longrightarrow> hoare P m Q E" and "\<And>s. \<not> b \<Longrightarrow> P s \<Longrightarrow> Q () s"
  shows "hoare P (act_when b m) Q E"
  using assms by (auto simp: act_when_def intro: hoare_return)

lemma hoare_until:
  assumes "\<And>x. hoare P (f x) (\<lambda>r s. case r of None \<Rightarrow> P s | Some y \<Rightarrow> Q (Some y) s) E"
    and "\<And>s. P s \<Longrightarrow> Q None s"
  shows "hoare P (act_until f xs) Q E"
proof (induction xs)
  case (Cons x xs)
  show ?case
    unfolding act_until.simps
    by (rule hoare_bind [OF assms(1)]) (auto intro: hoare_return Cons.IH split: option.split)
qed (auto intro: hoare_return assms(2))

lemma hoare_each:
  assumes "\<And>x. hoare P (f x) (\<lambda>_. P) E"
  shows "hoare P (act_each f xs) (\<lambda>_. P) E"
  by (induction xs) (auto intro: hoare_return hoare_bind assms)

text \<open>An invariant kept on every path.\<close>

abbreviation keeps :: "('s \<Rightarrow> bool) \<Rightarrow> ('s, 'a) action \<Rightarrow> bool" where
  "keeps P m \<equiv> hoare P m (\<lambda>_. P) P"

lemma keeps_until: "(\<And>x. keeps P (f x)) \<Longrightarrow> keeps P (act_until f xs)"
  by (rule hoare_until) (rule hoare_weaken [where P' = P and Q' = "\<lambda>_. P" and E' = P], auto split: option.split)

lemma keeps_bind: "keeps P m \<Longrightarrow> (\<And>x. keeps P (f x)) \<Longrightarrow> keeps P (act_bind m f)"
  by (rule hoare_bind)

lemma keeps_get: "keeps P (act_get f)"
  by (rule hoare_get)

lemma keeps_return: "keeps P (act_return x)"
  by (rule hoare_return)

lemma keeps_when: "keeps P m \<Longrightarrow> keeps P (act_when b m)"
  by (rule hoare_when)

lemmas keeps_rules = keeps_bind keeps_get keeps_return keeps_when keeps_until hoare_each

end
