(* ===== verification/BTree_Map.thy ===== *)
theory BTree_Map
  imports Etl_Prelude
begin

text \<open>
  The ordered maps of the Rust standard library (\<open>BTreeMap\<close>): an association
  list in strictly increasing key order. The operations are the ones the
  program calls, each with its effect on lookups and on the order invariant.
\<close>

type_synonym ('k, 'v) btree_map = "('k \<times> 'v) list"

definition bt_ok :: "('k::linorder, 'v) btree_map \<Rightarrow> bool" where
  "bt_ok m \<longleftrightarrow> sorted_wrt (<) (map fst m)"

abbreviation bt_get :: "('k, 'v) btree_map \<Rightarrow> 'k \<Rightarrow> 'v option" where
  "bt_get m \<equiv> map_of m"

fun bt_insert :: "'k::linorder \<Rightarrow> 'v \<Rightarrow> ('k, 'v) btree_map \<Rightarrow> ('k, 'v) btree_map" where
  "bt_insert k v [] = [(k, v)]"
| "bt_insert k v ((k', v') # m) =
     (if k < k' then (k, v) # (k', v') # m
      else if k = k' then (k, v) # m
      else (k', v') # bt_insert k v m)"

definition bt_remove :: "'k \<Rightarrow> ('k, 'v) btree_map \<Rightarrow> ('k, 'v) btree_map" where
  "bt_remove k m = filter (\<lambda>(k', _). k' \<noteq> k) m"

definition bt_retain :: "('k \<Rightarrow> bool) \<Rightarrow> ('k, 'v) btree_map \<Rightarrow> ('k, 'v) btree_map" where
  "bt_retain P m = filter (\<lambda>(k, _). P k) m"

text \<open>\<open>range(..=k).next_back()\<close>: the entry with the greatest key at most \<open>k\<close>.\<close>

definition bt_last_le :: "'k::linorder \<Rightarrow> ('k, 'v) btree_map \<Rightarrow> ('k \<times> 'v) option" where
  "bt_last_le k m = (let ys = filter (\<lambda>(k', _). k' \<le> k) m in if ys = [] then None else Some (last ys))"

section \<open>Lemmas\<close>

lemma bt_ok_Nil [simp]: "bt_ok []"
  by (simp add: bt_ok_def)

lemma bt_ok_Cons: "bt_ok ((k, v) # m) \<longleftrightarrow> (\<forall>k' \<in> fst ` set m. k < k') \<and> bt_ok m"
  by (auto simp: bt_ok_def)

lemma bt_ok_distinct: "bt_ok m \<Longrightarrow> distinct (map fst m)"
  by (simp add: bt_ok_def strict_sorted_iff)

lemma fst_set_bt_insert: "fst ` set (bt_insert k v m) = insert k (fst ` set m)"
  by (induction k v m rule: bt_insert.induct) (simp_all add: insert_commute)

lemma bt_ok_insert [simp, intro]: "bt_ok m \<Longrightarrow> bt_ok (bt_insert k v m)"
proof (induction k v m rule: bt_insert.induct)
  case (2 k v k' v' m)
  show ?case
  proof (cases k k' rule: linorder_cases)
    case less
    then have "\<forall>x \<in> fst ` set ((k', v') # m). k < x"
      using 2 by (auto simp: bt_ok_Cons intro: less_trans)
    with less 2 show ?thesis by (simp add: bt_ok_Cons)
  next
    case equal
    with 2 show ?thesis by (simp add: bt_ok_Cons)
  next
    case greater
    with 2 have "bt_ok (bt_insert k v m)" "\<forall>x \<in> fst ` set m. k' < x"
      by (simp_all add: bt_ok_Cons)
    moreover from greater have "\<not> k < k'" "k \<noteq> k'" by auto
    ultimately show ?thesis using greater by (simp add: bt_ok_Cons fst_set_bt_insert)
  qed
qed (simp add: bt_ok_def)

lemma bt_get_insert: "bt_ok m \<Longrightarrow> bt_get (bt_insert k v m) = (bt_get m)(k \<mapsto> v)"
  by (induction m) (auto simp: bt_ok_Cons fun_eq_iff)

lemma bt_ok_filter: "bt_ok m \<Longrightarrow> bt_ok (filter P m)"
  by (induction m) (auto simp: bt_ok_Cons)

lemma bt_ok_remove [simp, intro]: "bt_ok m \<Longrightarrow> bt_ok (bt_remove k m)"
  by (simp add: bt_remove_def bt_ok_filter)

lemma bt_ok_retain [simp, intro]: "bt_ok m \<Longrightarrow> bt_ok (bt_retain P m)"
  by (simp add: bt_retain_def bt_ok_filter)

lemma bt_get_remove [simp]: "bt_get (bt_remove k m) k' = (if k' = k then None else bt_get m k')"
  by (induction m) (auto simp: bt_remove_def)

lemma bt_get_retain [simp]: "bt_get (bt_retain P m) k = (if P k then bt_get m k else None)"
  by (induction m) (auto simp: bt_retain_def)

lemma bt_get_in: "bt_ok m \<Longrightarrow> bt_get m k = Some v \<longleftrightarrow> (k, v) \<in> set m"
  by (simp add: bt_ok_distinct)

lemma bt_ok_last:
  "bt_ok m \<Longrightarrow> (k, v) \<in> set m \<Longrightarrow> k \<le> fst (last m)"
proof (induction m)
  case (Cons x m)
  show ?case
  proof (cases "m = []")
    case False
    then have "last m \<in> set m" by simp
    with Cons False show ?thesis by (cases x) (auto simp: bt_ok_Cons less_imp_le)
  qed (use Cons in auto)
qed simp

lemma bt_last_le_Some_iff:
  assumes "bt_ok m"
  shows "bt_last_le s m = Some (k, v) \<longleftrightarrow>
     bt_get m k = Some v \<and> k \<le> s \<and> (\<forall>k' \<in> dom (bt_get m). k' \<le> s \<longrightarrow> k' \<le> k)"
    (is "?l \<longleftrightarrow> ?r")
proof -
  let ?ys = "filter (\<lambda>(k', _). k' \<le> s) m"
  have ok: "bt_ok ?ys" using assms by (rule bt_ok_filter)
  have mem: "(a, b) \<in> set ?ys \<longleftrightarrow> bt_get m a = Some b \<and> a \<le> s" for a b
    using assms by (auto simp: bt_get_in)
  show ?thesis
  proof
    assume ?l
    then have ne: "?ys \<noteq> []" and last: "last ?ys = (k, v)"
      by (auto simp: bt_last_le_def Let_def split: if_splits)
    have "(k, v) \<in> set ?ys" using last_in_set [OF ne] by (simp add: last)
    moreover have "k' \<le> k" if "(k', v') \<in> set ?ys" for k' v'
      using bt_ok_last [OF ok that] by (simp add: last)
    ultimately show ?r using mem by blast
  next
    assume r: ?r
    then have kv: "(k, v) \<in> set ?ys" using mem by blast
    then have ne: "?ys \<noteq> []" by (metis empty_iff empty_set)
    obtain a b where ab: "last ?ys = (a, b)" by fastforce
    with last_in_set [OF ne] have "(a, b) \<in> set ?ys" by simp
    then have "a \<le> k" "bt_get m a = Some b" using r mem by blast+
    moreover have "k \<le> a" using bt_ok_last [OF ok kv] by (simp add: ab)
    ultimately show ?l using ne ab r by (auto simp: bt_last_le_def)
  qed
qed

lemma bt_last_le_None_iff:
  assumes "bt_ok m"
  shows "bt_last_le s m = None \<longleftrightarrow> (\<forall>k \<in> dom (bt_get m). s < k)"
proof -
  have "bt_last_le s m = None \<longleftrightarrow> (\<forall>(k, v) \<in> set m. s < k)"
    by (simp add: bt_last_le_def Let_def filter_empty_conv case_prod_unfold not_le)
  then show ?thesis using assms by (force simp flip: bt_get_in simp: dom_def)
qed

lemma bt_last_le_cong:
  assumes "bt_ok m" "bt_ok m'" "\<And>k. k \<le> s \<Longrightarrow> bt_get m k = bt_get m' k"
  shows "bt_last_le s m = bt_last_le s m'"
proof (cases "bt_last_le s m")
  case None
  then have "\<forall>k \<in> dom (bt_get m'). s < k"
    using assms by (auto simp: bt_last_le_None_iff dom_def) (metis not_le)
  then have "bt_last_le s m' = None" using assms by (simp add: bt_last_le_None_iff)
  with None show ?thesis by simp
next
  case (Some kv)
  obtain k v where "kv = (k, v)" by fastforce
  with Some assms have "bt_last_le s m' = Some (k, v)"
    by (auto simp: bt_last_le_Some_iff dom_def)
  with Some \<open>kv = (k, v)\<close> show ?thesis by simp
qed

lemma bt_ok_drop1: "bt_ok m \<Longrightarrow> bt_ok (tl m)"
  by (cases m) (auto simp: bt_ok_Cons)

lemma length_bt_insert: "length (bt_insert k v m) \<le> Suc (length m)"
  by (induction m) auto

end
