(* ===== verification/Schema_Snapshots.thy ===== *)
theory Schema_Snapshots
  imports BTree_Map Schema
begin

text \<open>
  The in-memory index of schema versions,
  \<open>crates/etl/src/store/schema/table.rs\<close>, and the contract every versioned
  schema lookup of the program follows: the newest version at or before a
  snapshot (locale \<open>version_lookup\<close>). The index here and the SQL tables of the
  Postgres store both interpret it.
\<close>

section \<open>The lookup contract\<close>

locale version_lookup =
  fixes inv :: "'m \<Rightarrow> bool"
    and version :: "'m \<Rightarrow> table_id \<Rightarrow> snapshot_id \<Rightarrow> table_schema option"
    and lookup :: "'m \<Rightarrow> table_id \<Rightarrow> snapshot_id \<Rightarrow> table_schema option"
  assumes version_snapshot: "inv m \<Longrightarrow> version m t s = Some x \<Longrightarrow> ts_snapshot x = s"
    and lookup_Some: "inv m \<Longrightarrow> lookup m t s = Some x \<longleftrightarrow>
      version m t (ts_snapshot x) = Some x \<and> ts_snapshot x \<le> s \<and>
      (\<forall>s'. version m t s' \<noteq> None \<longrightarrow> s' \<le> s \<longrightarrow> s' \<le> ts_snapshot x)"
    and lookup_None: "inv m \<Longrightarrow> lookup m t s = None \<longleftrightarrow> (\<forall>s' \<le> s. version m t s' = None)"
begin

lemma lookup_bound: "inv m \<Longrightarrow> lookup m t s = Some x \<Longrightarrow> ts_snapshot x \<le> s"
  by (simp add: lookup_Some)

lemma lookup_exact: "inv m \<Longrightarrow> version m t s = Some x \<Longrightarrow> lookup m t s = Some x"
  using version_snapshot by (auto simp: lookup_Some)

lemma lookup_idem:
  "inv m \<Longrightarrow> lookup m t s = Some x \<Longrightarrow> lookup m t (ts_snapshot x) = Some x"
  by (auto simp: lookup_Some)

lemma lookup_between:
  assumes "inv m" "lookup m t s = Some x" "ts_snapshot x \<le> r" "r \<le> s"
  shows "lookup m t r = Some x"
  using assms by (auto simp: lookup_Some)

lemma lookup_mono:
  assumes "inv m" "lookup m t s = Some x" "s \<le> s'"
  shows "\<exists>y. lookup m t s' = Some y \<and> ts_snapshot x \<le> ts_snapshot y"
proof -
  from assms have x: "version m t (ts_snapshot x) = Some x" "ts_snapshot x \<le> s'"
    by (auto simp: lookup_Some)
  then obtain y where y: "lookup m t s' = Some y"
    using assms(1) by (metis lookup_None not_Some_eq)
  with x assms(1) show ?thesis by (auto simp: lookup_Some)
qed

lemma lookup_cong:
  assumes "inv m" "inv m'" "\<And>s'. s' \<le> s \<Longrightarrow> version m t s' = version m' t s'"
  shows "lookup m t s = lookup m' t s"
proof (cases "lookup m t s")
  case None
  then have "lookup m' t s = None" using assms by (simp add: lookup_None)
  with None show ?thesis by simp
next
  case (Some x)
  then have "lookup m' t s = Some x" using assms by (auto simp: lookup_Some)
  with Some show ?thesis by simp
qed

text \<open>
  Dropping versions that are older than the version in force at \<open>r\<close> keeps every
  lookup at or after \<open>r\<close>.
\<close>

lemma lookup_after_drop:
  assumes "inv m" "inv m'" "r \<le> s"
    and kept: "\<And>s'. lookup m t r = None \<or> (\<exists>x. lookup m t r = Some x \<and> ts_snapshot x \<le> s') \<Longrightarrow>
               version m' t s' = version m t s'"
    and dropped: "\<And>s'. version m' t s' \<noteq> None \<Longrightarrow> version m' t s' = version m t s'"
  shows "lookup m' t s = lookup m t s"
proof (cases "lookup m t r")
  case None
  then have "version m' t s' = version m t s'" for s' using kept by blast
  then show ?thesis using assms(1,2) by (intro lookup_cong) auto
next
  case (Some x)
  with assms(1,3) obtain y where y: "lookup m t s = Some y" "ts_snapshot x \<le> ts_snapshot y"
    using lookup_mono by blast
  have "version m' t (ts_snapshot y) = Some y"
    using y assms(1) kept [of "ts_snapshot y"] Some by (auto simp: lookup_Some)
  moreover have "s' \<le> ts_snapshot y" if "version m' t s' \<noteq> None" "s' \<le> s" for s'
    using that dropped [of s'] y(1) assms(1) by (auto simp: lookup_Some)
  ultimately have "lookup m' t s = Some y"
    using y(1) assms(1,2) by (auto simp: lookup_Some)
  with y(1) show ?thesis by simp
qed

end

section \<open>The index\<close>

datatype table_schema_retention = RetainSnapshot snapshot_id | RetainDurableFlush lsn

fun to_lsn :: "table_schema_retention \<Rightarrow> lsn" where
  "to_lsn (RetainSnapshot s) = s"
| "to_lsn (RetainDurableFlush l) = l"

type_synonym versions = "(snapshot_id, table_schema) btree_map"
type_synonym snapshots = "(table_id, versions) btree_map"

definition total_snapshots_count :: "snapshots \<Rightarrow> nat" where
  "total_snapshots_count m = sum_list (map (\<lambda>(_, vs). length vs) m)"

definition all_snapshots :: "snapshots \<Rightarrow> table_schema list" where
  "all_snapshots m = concat (map (\<lambda>(_, vs). map snd vs) m)"

definition get_at_or_before :: "snapshots \<Rightarrow> table_id \<Rightarrow> snapshot_id \<Rightarrow> table_schema option" where
  "get_at_or_before m t s = Option.bind (bt_get m t) (\<lambda>vs. map_option snd (bt_last_le s vs))"

definition snap_insert :: "table_schema \<Rightarrow> snapshots \<Rightarrow> snapshots" where
  "snap_insert x m =
     bt_insert (ts_id x)
       (bt_insert (ts_snapshot x) x (case bt_get m (ts_id x) of None \<Rightarrow> [] | Some vs \<Rightarrow> vs)) m"

function evict :: "nat \<Rightarrow> versions \<Rightarrow> versions" where
  "evict max_snapshots vs =
     (if length vs > max_snapshots
      then (case vs of [] \<Rightarrow> vs | (oldest, _) # _ \<Rightarrow> evict max_snapshots (bt_remove oldest vs))
      else vs)"
  by pat_completeness auto

termination
proof (relation "measure (length \<circ> snd)")
  fix n :: nat and vs :: versions and p rest oldest y
  assume "n < length vs" "vs = p # rest" "(oldest, y) = p"
  then have "length (bt_remove oldest vs) \<le> length rest"
    by (auto simp: bt_remove_def le_Suc_eq length_filter_le)
  then show "((n, bt_remove oldest vs), n, vs) \<in> measure (length \<circ> snd)"
    using \<open>vs = p # rest\<close> by simp
qed simp

declare evict.simps [simp del]

definition insert_with_eviction :: "table_schema \<Rightarrow> nat \<Rightarrow> snapshots \<Rightarrow> snapshots" where
  "insert_with_eviction x max_snapshots m =
     (let m1 = snap_insert x m in
      if max_snapshots = 0 then bt_remove (ts_id x) m1
      else (case bt_get m1 (ts_id x) of
          Some vs \<Rightarrow> bt_insert (ts_id x) (evict max_snapshots vs) m1
        | None \<Rightarrow> m1))"

definition replace_all :: "table_schema list \<Rightarrow> snapshots \<Rightarrow> snapshots" where
  "replace_all xs m = fold snap_insert xs []"

definition remove_table :: "table_id \<Rightarrow> snapshots \<Rightarrow> snapshots" where
  "remove_table t m = bt_remove t m"

definition prune_versions :: "table_schema_retention option \<Rightarrow> versions \<Rightarrow> versions" where
  "prune_versions retention vs = (case retention of
      None \<Rightarrow> vs
    | Some r \<Rightarrow> (case find (\<lambda>s. s \<le> to_lsn r) (rev (map fst vs)) of
          None \<Rightarrow> vs
        | Some retained \<Rightarrow> bt_retain (\<lambda>s. s \<ge> retained) vs))"

fun prune ::
    "(table_id \<Rightarrow> table_schema_retention option) \<Rightarrow> snapshots \<Rightarrow> 64 word \<Rightarrow> snapshots \<times> 64 word" where
  "prune retentions [] removed = ([], removed)"
| "prune retentions ((t, vs) # m) removed =
     (let vs' = prune_versions (retentions t) vs;
          removed' = saturating_add removed (of_nat (length vs - length vs'));
          (m', total) = prune retentions m removed'
      in ((t, vs') # m', total))"

section \<open>Invariant and view\<close>

definition versions_ok :: "table_id \<Rightarrow> versions \<Rightarrow> bool" where
  "versions_ok t vs \<longleftrightarrow> bt_ok vs \<and> (\<forall>(s, x) \<in> set vs. ts_id x = t \<and> ts_snapshot x = s)"

definition snapshots_ok :: "snapshots \<Rightarrow> bool" where
  "snapshots_ok m \<longleftrightarrow> bt_ok m \<and> (\<forall>(t, vs) \<in> set m. versions_ok t vs)"

definition snap_version :: "snapshots \<Rightarrow> table_id \<Rightarrow> snapshot_id \<Rightarrow> table_schema option" where
  "snap_version m t s = Option.bind (bt_get m t) (\<lambda>vs. bt_get vs s)"

section \<open>Lemmas\<close>

lemma snapshots_ok_Nil [simp]: "snapshots_ok []"
  by (simp add: snapshots_ok_def)

lemma snapshots_ok_get: "snapshots_ok m \<Longrightarrow> bt_get m t = Some vs \<Longrightarrow> versions_ok t vs"
  by (auto simp: snapshots_ok_def dest: map_of_SomeD)

lemma versions_okD:
  assumes "versions_ok t vs"
  shows "bt_ok vs" "bt_get vs s = Some x \<Longrightarrow> ts_id x = t \<and> ts_snapshot x = s"
  using assms by (auto simp: versions_ok_def dest: map_of_SomeD)

lemma versions_ok_insert:
  assumes "versions_ok t vs" "ts_id x = t" "ts_snapshot x = s"
  shows "versions_ok t (bt_insert s x vs)"
proof -
  have "ts_id y = t \<and> ts_snapshot y = s'" if "(s', y) \<in> set (bt_insert s x vs)" for s' y
  proof -
    have "bt_get (bt_insert s x vs) s' = Some y"
      using that assms(1) by (simp add: bt_get_in versions_okD(1))
    then show ?thesis
      using assms by (auto simp: bt_get_insert versions_okD split: if_splits)
  qed
  with assms(1) show ?thesis by (auto simp: versions_ok_def)
qed

lemma versions_ok_filter: "versions_ok t vs \<Longrightarrow> versions_ok t (filter P vs)"
  by (auto simp: versions_ok_def bt_ok_filter)

lemma snapshots_ok_insert:
  assumes "snapshots_ok m" "versions_ok t vs"
  shows "snapshots_ok (bt_insert t vs m)"
proof -
  have ok: "bt_ok m" using assms(1) by (simp add: snapshots_ok_def)
  have "versions_ok t' vs'" if "(t', vs') \<in> set (bt_insert t vs m)" for t' vs'
  proof -
    have "bt_get (bt_insert t vs m) t' = Some vs'" using that ok by (simp add: bt_get_in)
    then show ?thesis
      using assms by (auto simp: bt_get_insert ok dest: snapshots_ok_get split: if_splits)
  qed
  with ok show ?thesis by (auto simp: snapshots_ok_def)
qed

interpretation snap: version_lookup snapshots_ok snap_version get_at_or_before
proof
  fix m t s x
  assume ok: "snapshots_ok m"
  show "snap_version m t s = Some x \<Longrightarrow> ts_snapshot x = s"
    using ok by (auto simp: snap_version_def bind_eq_Some_conv dest: snapshots_ok_get versions_okD)
  show "get_at_or_before m t s = Some x \<longleftrightarrow>
      snap_version m t (ts_snapshot x) = Some x \<and> ts_snapshot x \<le> s \<and>
      (\<forall>s'. snap_version m t s' \<noteq> None \<longrightarrow> s' \<le> s \<longrightarrow> s' \<le> ts_snapshot x)"
  proof (cases "bt_get m t")
    case None
    then show ?thesis by (simp add: get_at_or_before_def snap_version_def)
  next
    case (Some vs)
    note vs = snapshots_ok_get [OF ok Some]
    have "get_at_or_before m t s = Some x \<longleftrightarrow> (\<exists>k. bt_last_le s vs = Some (k, x))"
      using Some by (auto simp: get_at_or_before_def)
    also have "\<dots> \<longleftrightarrow> bt_last_le s vs = Some (ts_snapshot x, x)"
      using vs by (auto simp: bt_last_le_Some_iff versions_okD)
    finally show ?thesis
      using Some by (auto simp: bt_last_le_Some_iff versions_okD [OF vs] snap_version_def dom_def)
  qed
  show "get_at_or_before m t s = None \<longleftrightarrow> (\<forall>s' \<le> s. snap_version m t s' = None)"
  proof (cases "bt_get m t")
    case None
    then show ?thesis by (simp add: get_at_or_before_def snap_version_def)
  next
    case (Some vs)
    note vs = snapshots_ok_get [OF ok Some]
    show ?thesis using Some
      by (auto simp: get_at_or_before_def snap_version_def bt_last_le_None_iff versions_okD [OF vs] dom_def)
        (metis not_le not_None_eq)
  qed
qed

subsection \<open>Insertion and eviction\<close>

lemma snapshots_ok_snap_insert: "snapshots_ok m \<Longrightarrow> snapshots_ok (snap_insert x m)"
  by (auto simp: snap_insert_def versions_ok_def [of _ "[(_, _)]"] bt_ok_Cons split: option.split
      intro!: snapshots_ok_insert versions_ok_insert dest: snapshots_ok_get)

lemma snap_version_snap_insert:
  assumes "snapshots_ok m"
  shows "snap_version (snap_insert x m) t s =
     (if t = ts_id x \<and> s = ts_snapshot x then Some x else snap_version m t s)"
proof -
  have "bt_ok m" using assms by (simp add: snapshots_ok_def)
  then show ?thesis
    using assms by (auto simp: snap_insert_def snap_version_def bt_get_insert versions_okD
        dest: snapshots_ok_get split: option.split)
qed

lemma bt_remove_hd: "bt_ok ((k, v) # m) \<Longrightarrow> bt_remove k ((k, v) # m) = m"
  by (force simp: bt_remove_def bt_ok_Cons filter_id_conv)

lemma evict_eq_drop: "bt_ok vs \<Longrightarrow> evict n vs = drop (length vs - n) vs"
proof (induction n vs rule: evict.induct)
  case (1 n vs)
  show ?case
  proof (cases vs)
    case Nil
    then show ?thesis by (simp add: evict.simps)
  next
    case (Cons p rest)
    obtain k v where p: "p = (k, v)" by fastforce
    have rm: "bt_remove k vs = rest" using 1(2) Cons p by (simp add: bt_remove_hd)
    have ok: "bt_ok rest" using 1(2) Cons p by (simp add: bt_ok_Cons)
    show ?thesis
    proof (cases "n < length vs")
      case True
      then have "evict n vs = evict n rest" using Cons p rm by (subst evict.simps) simp
      also have "\<dots> = drop (length rest - n) rest"
        using 1(1) [OF True Cons] p rm ok by simp
      finally show ?thesis using True Cons by (simp add: Suc_diff_le)
    qed (simp add: evict.simps)
  qed
qed

lemma versions_ok_drop: "versions_ok t vs \<Longrightarrow> versions_ok t (drop n vs)"
  by (auto simp: versions_ok_def bt_ok_def drop_map [symmetric] sorted_wrt_drop dest: in_set_dropD)

lemma snap_insert_get:
  "snapshots_ok m \<Longrightarrow>
   bt_get (snap_insert x m) (ts_id x) =
     Some (bt_insert (ts_snapshot x) x (case bt_get m (ts_id x) of None \<Rightarrow> [] | Some vs \<Rightarrow> vs))"
  by (simp add: snap_insert_def bt_get_insert snapshots_ok_def)

lemma insert_with_eviction_get:
  assumes "snapshots_ok m" "0 < n"
  shows "bt_get (insert_with_eviction x n m) t =
     (if t = ts_id x
      then (let vs = bt_insert (ts_snapshot x) x (case bt_get m t of None \<Rightarrow> [] | Some vs \<Rightarrow> vs)
            in Some (drop (length vs - n) vs))
      else bt_get m t)"
proof -
  have ok: "snapshots_ok (snap_insert x m)" using assms(1) by (rule snapshots_ok_snap_insert)
  then have bt: "bt_ok (snap_insert x m)" by (simp add: snapshots_ok_def)
  have other: "t \<noteq> ts_id x \<Longrightarrow> bt_get (snap_insert x m) t = bt_get m t"
    using assms(1) by (simp add: snap_insert_def bt_get_insert snapshots_ok_def)
  note get = snap_insert_get [OF assms(1), of x]
  from get assms(2) bt other show ?thesis
    by (auto simp: insert_with_eviction_def Let_def bt_get_insert
        evict_eq_drop [OF versions_okD(1) [OF snapshots_ok_get [OF ok get]]])
qed

lemma snapshots_ok_insert_with_eviction:
  "snapshots_ok m \<Longrightarrow> snapshots_ok (insert_with_eviction x n m)"
proof -
  assume "snapshots_ok m"
  then have ok: "snapshots_ok (snap_insert x m)" by (rule snapshots_ok_snap_insert)
  have rm: "snapshots_ok (bt_remove t m')" if "snapshots_ok m'" for t and m' :: snapshots
    using that by (auto simp: snapshots_ok_def bt_remove_def bt_ok_filter)
  have "snapshots_ok (bt_insert t (evict n vs) m')" if "snapshots_ok m'" "bt_get m' t = Some vs" for t vs m'
  proof -
    have "versions_ok t vs" using that by (rule snapshots_ok_get)
    then show ?thesis
      using that(1) by (simp add: evict_eq_drop versions_okD versions_ok_drop snapshots_ok_insert)
  qed
  with ok rm show ?thesis
    by (auto simp: insert_with_eviction_def Let_def split: option.split)
qed

lemma bt_get_drop_newest:
  assumes "bt_ok vs" "bt_get vs s = Some x"
  shows "bt_get (drop n vs) s \<in> {None, Some x}"
proof (cases "bt_get (drop n vs) s")
  case (Some y)
  then have "(s, y) \<in> set vs" by (meson in_set_dropD map_of_SomeD)
  with assms Some show ?thesis by (simp add: bt_get_in [OF assms(1), symmetric])
qed simp

subsection \<open>Pruning\<close>

lemma find_rev: "find P (rev xs) = (let ys = filter P xs in if ys = [] then None else Some (last ys))"
  by (induction xs rule: rev_induct) (auto simp: Let_def)

lemma find_rev_keys: "find (\<lambda>s. s \<le> r) (rev (map fst vs)) = map_option fst (bt_last_le r vs)"
proof -
  have "filter (\<lambda>s. s \<le> r) (map fst vs) = map fst (filter (\<lambda>(s, _). s \<le> r) vs)"
    by (simp add: filter_map o_def case_prod_unfold)
  then show ?thesis by (simp add: find_rev bt_last_le_def Let_def last_map)
qed

lemma fst_prune: "fst (prune rs m c) = map (\<lambda>(t, vs). (t, prune_versions (rs t) vs)) m"
  by (induction rs m c rule: prune.induct) (auto simp: Let_def split: prod.split)

lemma bt_get_map_snd: "map_of (map (\<lambda>(k, v). (k, f k v)) m) k = map_option (f k) (map_of m k)"
  by (induction m) auto

lemma prune_get: "bt_get (fst (prune rs m c)) t = map_option (prune_versions (rs t)) (bt_get m t)"
  by (simp add: fst_prune bt_get_map_snd)

lemma versions_ok_prune: "versions_ok t vs \<Longrightarrow> versions_ok t (prune_versions r vs)"
  by (auto simp: prune_versions_def bt_retain_def versions_ok_filter split: option.split)

lemma snapshots_ok_prune: "snapshots_ok m \<Longrightarrow> snapshots_ok (fst (prune rs m c))"
proof -
  have "map fst (fst (prune rs m c)) = map fst m" by (auto simp: fst_prune)
  then have "bt_ok (fst (prune rs m c)) = bt_ok m" by (simp add: bt_ok_def)
  then show "snapshots_ok m \<Longrightarrow> ?thesis"
    by (auto simp: snapshots_ok_def fst_prune versions_ok_prune)
qed

lemma snap_version_prune:
  assumes "snapshots_ok m"
  shows "snap_version (fst (prune rs m c)) t s =
     (case rs t of
        None \<Rightarrow> snap_version m t s
      | Some r \<Rightarrow> (case get_at_or_before m t (to_lsn r) of
            None \<Rightarrow> snap_version m t s
          | Some x \<Rightarrow> if ts_snapshot x \<le> s then snap_version m t s else None))"
proof (cases "bt_get m t")
  case None
  then show ?thesis
    by (auto simp: snap_version_def prune_get get_at_or_before_def split: option.split)
next
  case (Some vs)
  note vs = snapshots_ok_get [OF assms Some]
  have "bt_last_le r vs = Some (k, x) \<Longrightarrow> ts_snapshot x = k" for r k x
    using vs by (auto simp: bt_last_le_Some_iff versions_okD)
  with Some show ?thesis
    by (auto simp: snap_version_def prune_get get_at_or_before_def prune_versions_def
        find_rev_keys split: option.split)
qed

lemma get_at_or_before_prune:
  assumes "snapshots_ok m" "rs t = Some r" "to_lsn r \<le> s"
  shows "get_at_or_before (fst (prune rs m c)) t s = get_at_or_before m t s"
  using assms
  by (intro snap.lookup_after_drop [where r = "to_lsn r"])
    (auto simp: snapshots_ok_prune snap_version_prune split: option.splits if_splits)

end
