(* ===== verification/Store_Interface.thy ===== *)
theory Store_Interface
  imports Table_Phase Schema_Snapshots
begin

text \<open>
  The store traits of the pipeline: \<open>StateStore\<close>
  (\<open>crates/etl/src/store/state/base.rs\<close>), \<open>SchemaStore\<close>
  (\<open>crates/etl/src/store/schema/base.rs\<close>) and \<open>TableLifecycleStore\<close>
  (\<open>crates/etl/src/store/lifecycle.rs\<close>), with the values they exchange
  (\<open>crates/etl/src/replication/worker_type.rs\<close>,
  \<open>crates/etl/src/state/destination_metadata.rs\<close>).

  A trait is the record \<open>store_ops\<close> of its methods over a store state, an
  implementation is a value of that record, and the documented contract is the
  locale \<open>state_store\<close>, which both implementations interpret.
\<close>

section \<open>Values\<close>

datatype worker_type = Apply | TableSync table_id

fun worker_type_str :: "worker_type \<Rightarrow> string" where
  "worker_type_str Apply = ''apply''"
| "worker_type_str (TableSync _) = ''table_sync''"

fun progress_table_id :: "worker_type \<Rightarrow> table_id option" where
  "progress_table_id Apply = None"
| "progress_table_id (TableSync t) = Some t"

datatype schema_status = Applying | Applied

record destination_table_metadata =
  dtm_destination_table_id :: string
  dtm_snapshot_id :: snapshot_id
  dtm_previous_snapshot_id :: "snapshot_id option"
  dtm_schema_status :: schema_status
  dtm_replication_mask :: mask

record applied_metadata =
  adm_destination_table_id :: string
  adm_snapshot_id :: snapshot_id
  adm_replication_mask :: mask

definition new_applying :: "string \<Rightarrow> snapshot_id \<Rightarrow> mask \<Rightarrow> destination_table_metadata" where
  "new_applying d s m = \<lparr> dtm_destination_table_id = d, dtm_snapshot_id = s,
     dtm_previous_snapshot_id = None, dtm_schema_status = Applying, dtm_replication_mask = m \<rparr>"

definition new_applied :: "string \<Rightarrow> snapshot_id \<Rightarrow> mask \<Rightarrow> destination_table_metadata" where
  "new_applied d s m = \<lparr> dtm_destination_table_id = d, dtm_snapshot_id = s,
     dtm_previous_snapshot_id = None, dtm_schema_status = Applied, dtm_replication_mask = m \<rparr>"

definition is_applying :: "destination_table_metadata \<Rightarrow> bool" where
  "is_applying d = (dtm_schema_status d = Applying)"

definition is_applied :: "destination_table_metadata \<Rightarrow> bool" where
  "is_applied d = (dtm_schema_status d = Applied)"

definition to_applied :: "destination_table_metadata \<Rightarrow> destination_table_metadata" where
  "to_applied d = d \<lparr> dtm_schema_status := Applied, dtm_previous_snapshot_id := None \<rparr>"

definition with_schema_change ::
    "snapshot_id \<Rightarrow> mask \<Rightarrow> schema_status \<Rightarrow> destination_table_metadata \<Rightarrow> destination_table_metadata" where
  "with_schema_change s m st d =
     d \<lparr> dtm_previous_snapshot_id := Some (dtm_snapshot_id d), dtm_snapshot_id := s,
        dtm_replication_mask := m, dtm_schema_status := st \<rparr>"

definition into_applied :: "destination_table_metadata \<Rightarrow> applied_metadata etl_result" where
  "into_applied d =
     (if \<not> is_applied d
      then Inl (etl_err InvalidState ''Destination table schema is not in applied state'')
      else Inr \<lparr> adm_destination_table_id = dtm_destination_table_id d,
                 adm_snapshot_id = dtm_snapshot_id d,
                 adm_replication_mask = dtm_replication_mask d \<rparr>)"

section \<open>The traits\<close>

record 's store_ops =
  so_get_state :: "'s \<Rightarrow> table_id \<Rightarrow> phase option etl_result"
  so_get_states :: "'s \<Rightarrow> (table_id, phase) btree_map etl_result"
  so_load_states :: "'s \<Rightarrow> nat etl_result \<times> 's"
  so_update_states :: "(table_id \<times> phase) list \<Rightarrow> 's \<Rightarrow> unit etl_result \<times> 's"
  so_rollback_state :: "table_id \<Rightarrow> 's \<Rightarrow> phase etl_result \<times> 's"
  so_get_progress :: "'s \<Rightarrow> worker_type \<Rightarrow> lsn option etl_result"
  so_upsert_progress :: "worker_type \<Rightarrow> lsn \<Rightarrow> 's \<Rightarrow> lsn etl_result \<times> 's"
  so_delete_progress :: "worker_type \<Rightarrow> 's \<Rightarrow> unit etl_result \<times> 's"
  so_load_metadata :: "'s \<Rightarrow> nat etl_result \<times> 's"
  so_get_metadata :: "'s \<Rightarrow> table_id \<Rightarrow> destination_table_metadata option etl_result"
  so_get_applied_metadata :: "'s \<Rightarrow> table_id \<Rightarrow> applied_metadata option etl_result"
  so_store_metadata :: "table_id \<Rightarrow> destination_table_metadata \<Rightarrow> 's \<Rightarrow> unit etl_result \<times> 's"
  so_load_schemas :: "'s \<Rightarrow> nat etl_result \<times> 's"
  so_get_schema :: "table_id \<Rightarrow> snapshot_id \<Rightarrow> 's \<Rightarrow> table_schema option etl_result \<times> 's"
  so_store_schema :: "table_schema \<Rightarrow> 's \<Rightarrow> table_schema etl_result \<times> 's"
  so_prune_schemas ::
    "(table_id \<Rightarrow> table_schema_retention option) \<Rightarrow> 's \<Rightarrow> 64 word etl_result \<times> 's"
  so_clear_copy_state :: "table_id \<Rightarrow> 's \<Rightarrow> unit etl_result \<times> 's"
  so_delete_pipeline_state :: "table_id \<Rightarrow> 's \<Rightarrow> unit etl_result \<times> 's"

text \<open>The provided method of the trait.\<close>

definition so_update_state ::
    "('s, 'x) store_ops_scheme \<Rightarrow> table_id \<Rightarrow> phase \<Rightarrow> 's \<Rightarrow> unit etl_result \<times> 's" where
  "so_update_state ops t p s = so_update_states ops [(t, p)] s"

section \<open>The contract\<close>

text \<open>
  \<open>phase_of\<close> and \<open>progress_of\<close> are what a reader of the store sees, \<open>stack_of\<close> is the
  persisted history of a table, newest first: an update pushes on it and a
  rollback pops it. An operation that fails leaves all of them alone; one that
  succeeds changes exactly what it names.
\<close>

locale state_store =
  fixes ops :: "'s store_ops"
    and inv :: "'s \<Rightarrow> bool"
    and phase_of :: "'s \<Rightarrow> table_id \<Rightarrow> phase option"
    and stack_of :: "'s \<Rightarrow> table_id \<Rightarrow> phase list"
    and progress_of :: "'s \<Rightarrow> worker_type \<Rightarrow> lsn option"
  assumes get_state: "inv s \<Longrightarrow> so_get_state ops s t = Inr (phase_of s t)"
    and update_inv: "inv s \<Longrightarrow> so_update_states ops us s = (r, s') \<Longrightarrow> inv s'"
    and update_phase: "inv s \<Longrightarrow> so_update_states ops us s = (r, s') \<Longrightarrow>
      phase_of s' = (if is_ok r then phase_of s ++ map_of (rev us) else phase_of s)"
    and update_progress: "inv s \<Longrightarrow> so_update_states ops us s = (r, s') \<Longrightarrow>
      progress_of s' = progress_of s"
    and rollback_inv: "inv s \<Longrightarrow> so_rollback_state ops t s = (rp, s') \<Longrightarrow> inv s'"
    and rollback_phase: "inv s \<Longrightarrow> so_rollback_state ops t s = (rp, s') \<Longrightarrow>
      phase_of s' = (case rp of Inl _ \<Rightarrow> phase_of s | Inr p \<Rightarrow> (phase_of s)(t \<mapsto> p))"
    and rollback_progress: "inv s \<Longrightarrow> so_rollback_state ops t s = (rp, s') \<Longrightarrow>
      progress_of s' = progress_of s"
    and phase_stack: "inv s \<Longrightarrow>
      map_option persisted (phase_of s t) = (case stack_of s t of [] \<Rightarrow> None | p # _ \<Rightarrow> Some p)"
    and update_stack: "inv s \<Longrightarrow> so_update_states ops us s = (r, s') \<Longrightarrow>
      stack_of s' t = (if is_ok r
        then rev (map (persisted \<circ> snd) (filter (\<lambda>u. fst u = t) us)) @ stack_of s t
        else stack_of s t)"
    and rollback_stack: "inv s \<Longrightarrow> so_rollback_state ops t s = (Inr p, s') \<Longrightarrow>
      \<exists>q rest. stack_of s t = q # persisted p # rest \<and> stack_of s' t = persisted p # rest"
    and rollback_stack_other: "inv s \<Longrightarrow> so_rollback_state ops t s = (rp, s') \<Longrightarrow>
      \<not> is_ok rp \<or> t' \<noteq> t \<Longrightarrow> stack_of s' t' = stack_of s t'"
    and rollback_empty: "inv s \<Longrightarrow> so_rollback_state ops t s = (Inr p, s') \<Longrightarrow>
      2 \<le> length (stack_of s t)"
    and get_progress: "inv s \<Longrightarrow> so_get_progress ops s w = Inr ol \<Longrightarrow> ol = progress_of s w"
    and upsert_inv: "inv s \<Longrightarrow> so_upsert_progress ops w l s = (rl, s') \<Longrightarrow> inv s'"
    and upsert_phase: "inv s \<Longrightarrow> so_upsert_progress ops w l s = (rl, s') \<Longrightarrow>
      phase_of s' = phase_of s"
    and upsert_progress: "inv s \<Longrightarrow> so_upsert_progress ops w l s = (rl, s') \<Longrightarrow>
      (case rl of Inl _ \<Rightarrow> progress_of s' = progress_of s
       | Inr stored \<Rightarrow> progress_of s' = (progress_of s)(w \<mapsto> stored) \<and>
           stored = (case progress_of s w of None \<Rightarrow> l | Some old \<Rightarrow> max old l))"
    and clear_inv: "inv s \<Longrightarrow> so_clear_copy_state ops t s = (r, s') \<Longrightarrow> inv s'"
    and clear_phase: "inv s \<Longrightarrow> so_clear_copy_state ops t s = (r, s') \<Longrightarrow>
      phase_of s' = phase_of s"
    and clear_progress: "inv s \<Longrightarrow> so_clear_copy_state ops t s = (r, s') \<Longrightarrow>
      progress_of s' = (if is_ok r then (progress_of s)(TableSync t := None) else progress_of s)"
    and remove_inv: "inv s \<Longrightarrow> so_delete_pipeline_state ops t s = (r, s') \<Longrightarrow> inv s'"
    and remove_phase: "inv s \<Longrightarrow> so_delete_pipeline_state ops t s = (r, s') \<Longrightarrow>
      phase_of s' = (if is_ok r then (phase_of s)(t := None) else phase_of s)"
begin

lemma update_one_phase:
  assumes "inv s" "so_update_state ops t p s = (Inr (), s')"
  shows "phase_of s' = (phase_of s)(t \<mapsto> p)"
  using update_phase [OF assms(1), of "[(t, p)]"] assms(2) by (simp add: so_update_state_def)

lemma update_one_phase_other:
  assumes "inv s" "so_update_state ops t p s = (r, s')" "t' \<noteq> t"
  shows "phase_of s' t' = phase_of s t'"
  using update_phase [OF assms(1), of "[(t, p)]"] assms(2,3) by (auto simp: so_update_state_def)

text \<open>Rolling back right after an update restores the phase before it.\<close>

lemma update_rollback:
  assumes "inv s" "phase_of s t = Some p" "so_update_state ops t q s = (Inr (), s')"
    "so_rollback_state ops t s' = (Inr p', s'')"
  shows "persisted p' = persisted p"
proof -
  have s': "inv s'" using update_inv assms(1,3) by (simp add: so_update_state_def)
  have "stack_of s' t = persisted q # stack_of s t"
    using update_stack [OF assms(1), of "[(t, q)]" "Inr ()" s' t] assms(3)
    by (simp add: so_update_state_def)
  moreover obtain x rest where "stack_of s' t = x # persisted p' # rest"
    using rollback_stack [OF s' assms(4)] by blast
  ultimately show ?thesis
    using phase_stack [OF assms(1), of t] assms(2) by (cases "stack_of s t") simp_all
qed

text \<open>Durable progress never moves back.\<close>

lemma upsert_progress_ge:
  assumes "inv s" "so_upsert_progress ops w l s = (Inr stored, s')"
  shows "l \<le> stored" "progress_of s w = Some old \<Longrightarrow> old \<le> stored" "progress_of s' w = Some stored"
  using upsert_progress [OF assms] by (auto split: option.splits)

lemma upsert_progress_mono:
  assumes "inv s" "so_upsert_progress ops w l s = (r, s')" "progress_of s w' = Some old"
  shows "\<exists>new. progress_of s' w' = Some new \<and> old \<le> new"
  using upsert_progress [OF assms(1,2)] assms(3) by (cases r; cases "w = w'") auto

end

text \<open>
  The part of the contract that concerns schemas and metadata: those operations leave
  the replication states and the durable progress alone, whatever their outcome.
\<close>

locale pipeline_store = state_store ops inv phase_of stack_of progress_of
  for ops :: "'s store_ops"
    and inv :: "'s \<Rightarrow> bool"
    and phase_of :: "'s \<Rightarrow> table_id \<Rightarrow> phase option"
    and stack_of :: "'s \<Rightarrow> table_id \<Rightarrow> phase list"
    and progress_of :: "'s \<Rightarrow> worker_type \<Rightarrow> lsn option" +
  assumes get_states: "inv s \<Longrightarrow> so_get_states ops s = Inr states \<Longrightarrow> map_of states = phase_of s"
    and get_schema_frame: "inv s \<Longrightarrow> so_get_schema ops t snap s = (rx, s') \<Longrightarrow>
      inv s' \<and> phase_of s' = phase_of s \<and> progress_of s' = progress_of s"
    and store_schema_frame: "inv s \<Longrightarrow> so_store_schema ops x s = (ry, s') \<Longrightarrow>
      inv s' \<and> phase_of s' = phase_of s \<and> progress_of s' = progress_of s"
    and prune_frame: "inv s \<Longrightarrow> so_prune_schemas ops rs s = (rn, s') \<Longrightarrow>
      inv s' \<and> phase_of s' = phase_of s \<and> progress_of s' = progress_of s"
    and store_metadata_frame: "inv s \<Longrightarrow> so_store_metadata ops t d s = (r, s') \<Longrightarrow>
      inv s' \<and> phase_of s' = phase_of s \<and> progress_of s' = progress_of s"

end
