(* ===== verification/Memory_Store.thy ===== *)
theory Memory_Store
  imports Store_Interface
begin

text \<open>
  The in-memory store, \<open>crates/etl/src/store/both/memory.rs\<close>: its state, every
  method of the store traits, and the interpretation of the store contract.
\<close>

section \<open>State and operations\<close>

record memory_store =
  mem_states :: "(table_id, phase) btree_map"
  mem_history :: "table_id \<Rightarrow> phase list option"
  mem_schemas :: snapshots
  mem_metadata :: "(table_id, destination_table_metadata) btree_map"
  mem_progress :: "worker_type \<Rightarrow> lsn option"

datatype cleanup_scope = CopyRestart | PipelineRemoval

definition mem_new :: memory_store where
  "mem_new = \<lparr> mem_states = [], mem_history = (\<lambda>_. None), mem_schemas = [], mem_metadata = [],
     mem_progress = (\<lambda>_. None) \<rparr>"

definition mem_delete_table_state_for_scope ::
    "table_id \<Rightarrow> cleanup_scope \<Rightarrow> memory_store \<Rightarrow> unit etl_result \<times> memory_store" where
  "mem_delete_table_state_for_scope t scope s =
     (let s1 = (if scope = PipelineRemoval
                then s \<lparr> mem_states := bt_remove t (mem_states s),
                         mem_history := (mem_history s)(t := None) \<rparr>
                else s)
      in (Inr (), s1 \<lparr> mem_schemas := remove_table t (mem_schemas s1),
                       mem_metadata := bt_remove t (mem_metadata s1),
                       mem_progress := (mem_progress s1)(TableSync t := None) \<rparr>))"

definition mem_get_state :: "memory_store \<Rightarrow> table_id \<Rightarrow> phase option etl_result" where
  "mem_get_state s t = Inr (bt_get (mem_states s) t)"

definition mem_get_states :: "memory_store \<Rightarrow> (table_id, phase) btree_map etl_result" where
  "mem_get_states s = Inr (mem_states s)"

definition mem_load_states :: "memory_store \<Rightarrow> nat etl_result \<times> memory_store" where
  "mem_load_states s = (Inr (length (mem_states s)), s)"

fun mem_update_loop :: "(table_id \<times> phase) list \<Rightarrow> memory_store \<Rightarrow> memory_store" where
  "mem_update_loop [] s = s"
| "mem_update_loop ((t, p) # us) s =
     (let s1 = (case bt_get (mem_states s) t of
                  Some current \<Rightarrow> s \<lparr> mem_history := (mem_history s)(t \<mapsto>
                      (case mem_history s t of None \<Rightarrow> [] | Some h \<Rightarrow> h) @ [current]) \<rparr>
                | None \<Rightarrow> s)
      in mem_update_loop us (s1 \<lparr> mem_states := bt_insert t p (mem_states s1) \<rparr>))"

definition mem_update_states ::
    "(table_id \<times> phase) list \<Rightarrow> memory_store \<Rightarrow> unit etl_result \<times> memory_store" where
  "mem_update_states us s = (Inr (), mem_update_loop us s)"

definition mem_rollback_state :: "table_id \<Rightarrow> memory_store \<Rightarrow> phase etl_result \<times> memory_store" where
  "mem_rollback_state t s = (case mem_history s t of
      None \<Rightarrow> (Inl (etl_err StateRollbackError ''No previous state available to roll back to''), s)
    | Some [] \<Rightarrow> (Inl (etl_err StateRollbackError ''No previous state available to roll back to''), s)
    | Some h \<Rightarrow> (Inr (last h),
        s \<lparr> mem_history := (mem_history s)(t \<mapsto> butlast h),
           mem_states := bt_insert t (last h) (mem_states s) \<rparr>))"

definition mem_get_progress :: "memory_store \<Rightarrow> worker_type \<Rightarrow> lsn option etl_result" where
  "mem_get_progress s w = Inr (mem_progress s w)"

definition mem_upsert_progress ::
    "worker_type \<Rightarrow> lsn \<Rightarrow> memory_store \<Rightarrow> lsn etl_result \<times> memory_store" where
  "mem_upsert_progress w l s =
     (let stored = (case mem_progress s w of
            Some old \<Rightarrow> if l > old then l else old
          | None \<Rightarrow> l)
      in (Inr stored, s \<lparr> mem_progress := (mem_progress s)(w \<mapsto> stored) \<rparr>))"

definition mem_delete_progress :: "worker_type \<Rightarrow> memory_store \<Rightarrow> unit etl_result \<times> memory_store" where
  "mem_delete_progress w s = (Inr (), s \<lparr> mem_progress := (mem_progress s)(w := None) \<rparr>)"

definition mem_get_metadata ::
    "memory_store \<Rightarrow> table_id \<Rightarrow> destination_table_metadata option etl_result" where
  "mem_get_metadata s t = Inr (bt_get (mem_metadata s) t)"

definition mem_get_applied_metadata ::
    "memory_store \<Rightarrow> table_id \<Rightarrow> applied_metadata option etl_result" where
  "mem_get_applied_metadata s t = (case bt_get (mem_metadata s) t of
      None \<Rightarrow> Inr None
    | Some d \<Rightarrow> res_bind (into_applied d) (\<lambda>a. Inr (Some a)))"

definition mem_store_metadata ::
    "table_id \<Rightarrow> destination_table_metadata \<Rightarrow> memory_store \<Rightarrow> unit etl_result \<times> memory_store" where
  "mem_store_metadata t d s = (Inr (), s \<lparr> mem_metadata := bt_insert t d (mem_metadata s) \<rparr>)"

definition mem_get_schema ::
    "table_id \<Rightarrow> snapshot_id \<Rightarrow> memory_store \<Rightarrow> table_schema option etl_result \<times> memory_store" where
  "mem_get_schema t snap s = (Inr (get_at_or_before (mem_schemas s) t snap), s)"

definition mem_get_schemas :: "memory_store \<Rightarrow> table_schema list etl_result" where
  "mem_get_schemas s = Inr (all_snapshots (mem_schemas s))"

definition mem_load_metadata :: "memory_store \<Rightarrow> nat etl_result" where
  "mem_load_metadata s = Inr (length (mem_metadata s))"

definition mem_load_schemas :: "memory_store \<Rightarrow> nat etl_result" where
  "mem_load_schemas s = Inr (total_snapshots_count (mem_schemas s))"

definition mem_store_schema :: "table_schema \<Rightarrow> memory_store \<Rightarrow> table_schema etl_result \<times> memory_store" where
  "mem_store_schema x s = (Inr x, s \<lparr> mem_schemas := snap_insert x (mem_schemas s) \<rparr>)"

definition mem_prune_schemas ::
    "(table_id \<Rightarrow> table_schema_retention option) \<Rightarrow> memory_store \<Rightarrow> 64 word etl_result \<times> memory_store" where
  "mem_prune_schemas rs s =
     (let (m, n) = prune rs (mem_schemas s) 0 in (Inr n, s \<lparr> mem_schemas := m \<rparr>))"

definition mem_clear_copy_state :: "table_id \<Rightarrow> memory_store \<Rightarrow> unit etl_result \<times> memory_store" where
  "mem_clear_copy_state t s = mem_delete_table_state_for_scope t CopyRestart s"

definition mem_delete_pipeline_state :: "table_id \<Rightarrow> memory_store \<Rightarrow> unit etl_result \<times> memory_store" where
  "mem_delete_pipeline_state t s = mem_delete_table_state_for_scope t PipelineRemoval s"

definition memory_store_ops :: "memory_store store_ops" where
  "memory_store_ops =
     \<lparr> so_get_state = mem_get_state,
       so_get_states = mem_get_states,
       so_load_states = mem_load_states,
       so_update_states = mem_update_states,
       so_rollback_state = mem_rollback_state,
       so_get_progress = mem_get_progress,
       so_upsert_progress = mem_upsert_progress,
       so_delete_progress = mem_delete_progress,
       so_load_metadata = (\<lambda>s. (mem_load_metadata s, s)),
       so_get_metadata = mem_get_metadata,
       so_get_applied_metadata = mem_get_applied_metadata,
       so_store_metadata = mem_store_metadata,
       so_load_schemas = (\<lambda>s. (mem_load_schemas s, s)),
       so_get_schema = mem_get_schema,
       so_store_schema = mem_store_schema,
       so_prune_schemas = mem_prune_schemas,
       so_clear_copy_state = mem_clear_copy_state,
       so_delete_pipeline_state = mem_delete_pipeline_state \<rparr>"

section \<open>Invariant and contract\<close>

definition mem_inv :: "memory_store \<Rightarrow> bool" where
  "mem_inv s \<longleftrightarrow> bt_ok (mem_states s) \<and> bt_ok (mem_metadata s) \<and> snapshots_ok (mem_schemas s) \<and>
     (\<forall>t. bt_get (mem_states s) t = None \<longrightarrow> mem_history s t \<in> {None, Some []})"

definition mem_phase_of :: "memory_store \<Rightarrow> table_id \<Rightarrow> phase option" where
  "mem_phase_of s = bt_get (mem_states s)"

definition mem_past :: "memory_store \<Rightarrow> table_id \<Rightarrow> phase list" where
  "mem_past s t = (case mem_history s t of None \<Rightarrow> [] | Some h \<Rightarrow> rev h)"

definition mem_stack_of :: "memory_store \<Rightarrow> table_id \<Rightarrow> phase list" where
  "mem_stack_of s t = (case bt_get (mem_states s) t of
      None \<Rightarrow> [] | Some p \<Rightarrow> map persisted (p # mem_past s t))"

lemmas mem_defs = mem_get_state_def mem_update_states_def mem_rollback_state_def
  mem_get_progress_def mem_upsert_progress_def mem_clear_copy_state_def
  mem_delete_pipeline_state_def mem_delete_table_state_for_scope_def

lemma mem_inv_progress [simp]: "mem_inv (s \<lparr> mem_progress := f \<rparr>) = mem_inv s"
  by (simp add: mem_inv_def)

lemma mem_inv_new: "mem_inv mem_new"
  by (simp add: mem_inv_def mem_new_def)

lemma mem_update_loop_frame [simp]:
  "mem_schemas (mem_update_loop us s) = mem_schemas s"
  "mem_metadata (mem_update_loop us s) = mem_metadata s"
  "mem_progress (mem_update_loop us s) = mem_progress s"
  by (induction us s rule: mem_update_loop.induct) (auto simp: Let_def split: option.split)

text \<open>The effect of one iteration of the update loop.\<close>

definition mem_push :: "table_id \<Rightarrow> phase \<Rightarrow> memory_store \<Rightarrow> memory_store" where
  "mem_push t p s = mem_update_loop [(t, p)] s"

lemma mem_update_loop_Cons: "mem_update_loop ((t, p) # us) s = mem_update_loop us (mem_push t p s)"
  by (simp add: mem_push_def Let_def)

lemma mem_push_states:
  "mem_states (mem_push t p s) = bt_insert t p (mem_states s)"
  by (simp add: mem_push_def Let_def split: option.split)

lemma mem_push_inv: "mem_inv s \<Longrightarrow> mem_inv (mem_push t p s)"
  by (auto simp: mem_inv_def mem_push_def Let_def bt_get_insert split: option.splits if_splits)

lemma mem_push_phase: "mem_inv s \<Longrightarrow> mem_phase_of (mem_push t p s) = (mem_phase_of s)(t \<mapsto> p)"
  by (simp add: mem_phase_of_def mem_push_states bt_get_insert mem_inv_def)

lemma mem_inv_history:
  assumes "mem_inv s" "bt_get (mem_states s) t = None" "mem_history s t = Some h"
  shows "h = []"
proof -
  have "mem_history s t \<in> {None, Some []}" using assms(1,2) by (simp add: mem_inv_def)
  with assms(3) show ?thesis by auto
qed

lemma mem_push_stack:
  assumes "mem_inv s"
  shows "mem_stack_of (mem_push t p s) t' =
     (if t' = t then persisted p # mem_stack_of s t else mem_stack_of s t')"
proof -
  have "bt_get (mem_states (mem_push t p s)) = (bt_get (mem_states s))(t \<mapsto> p)"
    using assms by (simp add: mem_push_states bt_get_insert mem_inv_def)
  moreover have "mem_past (mem_push t p s) t' =
      (if t' = t then (case bt_get (mem_states s) t of None \<Rightarrow> mem_past s t | Some q \<Rightarrow> q # mem_past s t)
       else mem_past s t')"
    by (auto simp: mem_past_def mem_push_def Let_def split: option.splits)
  moreover have "bt_get (mem_states s) t = None \<Longrightarrow> mem_past s t = []"
    using mem_inv_history [OF assms] by (auto simp: mem_past_def split: option.split)
  ultimately show ?thesis by (auto simp: mem_stack_of_def split: option.splits)
qed

lemma mem_update_loop_effect:
  assumes "mem_inv s"
  shows "mem_inv (mem_update_loop us s)"
    "mem_phase_of (mem_update_loop us s) = mem_phase_of s ++ map_of (rev us)"
    "mem_stack_of (mem_update_loop us s) t =
       rev (map (persisted \<circ> snd) (filter (\<lambda>u. fst u = t) us)) @ mem_stack_of s t"
proof -
  have "mem_inv (mem_update_loop us s) \<and>
      mem_phase_of (mem_update_loop us s) = mem_phase_of s ++ map_of (rev us) \<and>
      mem_stack_of (mem_update_loop us s) t =
       rev (map (persisted \<circ> snd) (filter (\<lambda>u. fst u = t) us)) @ mem_stack_of s t"
    using assms
  proof (induction us arbitrary: s)
    case (Cons u us)
    obtain t' p where u: "u = (t', p)" by fastforce
    note IH = Cons.IH [OF mem_push_inv [OF Cons.prems, of t' p]]
    show ?case
      using IH Cons.prems unfolding u mem_update_loop_Cons
      by (auto simp: mem_push_phase mem_push_stack fun_eq_iff map_add_def split: option.split)
  qed simp
  then show "mem_inv (mem_update_loop us s)"
    "mem_phase_of (mem_update_loop us s) = mem_phase_of s ++ map_of (rev us)"
    "mem_stack_of (mem_update_loop us s) t =
       rev (map (persisted \<circ> snd) (filter (\<lambda>u. fst u = t) us)) @ mem_stack_of s t"
    by auto
qed

lemma mem_rollback_Inr:
  assumes "mem_rollback_state t s = (Inr p, s')"
  obtains h where "mem_history s t = Some (h @ [p])"
    "s' = s \<lparr> mem_history := (mem_history s)(t \<mapsto> h), mem_states := bt_insert t p (mem_states s) \<rparr>"
proof -
  from assms obtain h where h: "mem_history s t = Some h" "h \<noteq> []" "p = last h"
    "s' = s \<lparr> mem_history := (mem_history s)(t \<mapsto> butlast h), mem_states := bt_insert t p (mem_states s) \<rparr>"
    by (auto simp: mem_rollback_state_def split: option.splits list.splits)
  with that [of "butlast h"] show thesis by simp
qed

lemma mem_rollback_Inl: "mem_rollback_state t s = (Inl e, s') \<Longrightarrow> s' = s"
  by (auto simp: mem_rollback_state_def split: option.splits list.splits)

lemma snapshots_ok_remove_table: "snapshots_ok m \<Longrightarrow> snapshots_ok (remove_table t m)"
  by (auto simp: snapshots_ok_def remove_table_def bt_remove_def bt_ok_filter)

lemma mem_delete_scope_inv:
  "mem_inv s \<Longrightarrow> mem_inv (snd (mem_delete_table_state_for_scope t scope s))"
  by (cases scope)
    (simp_all add: mem_inv_def mem_delete_table_state_for_scope_def Let_def snapshots_ok_remove_table)

lemma mem_rollback_effect:
  assumes "mem_inv s" "mem_rollback_state t s = (rp, s')"
  shows "mem_inv s'" "mem_progress s' = mem_progress s"
    "mem_phase_of s' = (case rp of Inl _ \<Rightarrow> mem_phase_of s | Inr p \<Rightarrow> (mem_phase_of s)(t \<mapsto> p))"
    "\<not> is_ok rp \<or> t' \<noteq> t \<Longrightarrow> mem_stack_of s' t' = mem_stack_of s t'"
proof -
  have ok: "bt_ok (mem_states s)" using assms(1) by (simp add: mem_inv_def)
  have "mem_inv s' \<and> mem_progress s' = mem_progress s \<and>
    mem_phase_of s' = (case rp of Inl _ \<Rightarrow> mem_phase_of s | Inr p \<Rightarrow> (mem_phase_of s)(t \<mapsto> p)) \<and>
    (\<not> is_ok rp \<or> t' \<noteq> t \<longrightarrow> mem_stack_of s' t' = mem_stack_of s t')"
  proof (cases rp)
    case (Inl e)
    with assms show ?thesis by (auto dest: mem_rollback_Inl)
  next
    case (Inr p)
    then obtain h where h: "mem_history s t = Some (h @ [p])"
      "s' = s \<lparr> mem_history := (mem_history s)(t \<mapsto> h), mem_states := bt_insert t p (mem_states s) \<rparr>"
      using assms(2) mem_rollback_Inr by blast
    with assms(1) ok Inr show ?thesis
      by (auto simp: mem_inv_def mem_phase_of_def mem_stack_of_def mem_past_def bt_get_insert
          split: option.split)
  qed
  then show "mem_inv s'" "mem_progress s' = mem_progress s"
    "mem_phase_of s' = (case rp of Inl _ \<Rightarrow> mem_phase_of s | Inr p \<Rightarrow> (mem_phase_of s)(t \<mapsto> p))"
    "\<not> is_ok rp \<or> t' \<noteq> t \<Longrightarrow> mem_stack_of s' t' = mem_stack_of s t'"
    by blast+
qed

interpretation mem: state_store memory_store_ops mem_inv mem_phase_of mem_stack_of mem_progress
proof
  fix s s' s'' :: memory_store and t t' w l p us r rp rl ol
  assume inv: "mem_inv s"
  then have ok: "bt_ok (mem_states s)" by (simp add: mem_inv_def)
  show "so_get_state memory_store_ops s t = Inr (mem_phase_of s t)"
    by (simp add: memory_store_ops_def mem_get_state_def mem_phase_of_def)
  show "so_get_progress memory_store_ops s w = Inr ol \<Longrightarrow> ol = mem_progress s w"
    by (simp add: memory_store_ops_def mem_get_progress_def)
  show "map_option persisted (mem_phase_of s t) = (case mem_stack_of s t of [] \<Rightarrow> None | p # _ \<Rightarrow> Some p)"
    by (simp add: mem_phase_of_def mem_stack_of_def split: option.split)
  {
    assume "so_update_states memory_store_ops us s = (r, s')"
    then have "r = Inr ()" "s' = mem_update_loop us s"
      by (auto simp: memory_store_ops_def mem_update_states_def)
    then show "mem_inv s'" "mem_progress s' = mem_progress s"
        "mem_phase_of s' = (if is_ok r then mem_phase_of s ++ map_of (rev us) else mem_phase_of s)"
        "mem_stack_of s' t = (if is_ok r
          then rev (map (persisted \<circ> snd) (filter (\<lambda>u. fst u = t) us)) @ mem_stack_of s t
          else mem_stack_of s t)"
      using mem_update_loop_effect [OF inv] by simp_all
  }
  {
    assume "so_rollback_state memory_store_ops t s = (rp, s')"
    then have rb: "mem_rollback_state t s = (rp, s')" by (simp add: memory_store_ops_def)
    show "mem_inv s'" "mem_progress s' = mem_progress s"
        "mem_phase_of s' = (case rp of Inl _ \<Rightarrow> mem_phase_of s | Inr p \<Rightarrow> (mem_phase_of s)(t \<mapsto> p))"
        "\<not> is_ok rp \<or> t' \<noteq> t \<Longrightarrow> mem_stack_of s' t' = mem_stack_of s t'"
      using mem_rollback_effect [OF inv rb] by simp_all
  }
  {
    assume "so_rollback_state memory_store_ops t s = (Inr p, s')"
    then obtain h where h: "mem_history s t = Some (h @ [p])"
      "s' = s \<lparr> mem_history := (mem_history s)(t \<mapsto> h), mem_states := bt_insert t p (mem_states s) \<rparr>"
      by (auto simp: memory_store_ops_def elim: mem_rollback_Inr)
    moreover obtain q where "bt_get (mem_states s) t = Some q"
      using mem_inv_history [OF inv _ h(1)] by (cases "bt_get (mem_states s) t") auto
    ultimately show "\<exists>q rest. mem_stack_of s t = q # persisted p # rest \<and> mem_stack_of s' t = persisted p # rest"
        "2 \<le> length (mem_stack_of s t)"
      using ok by (auto simp: mem_stack_of_def mem_past_def bt_get_insert)
  }
  {
    assume "so_upsert_progress memory_store_ops w l s = (rl, s')"
    then show "mem_inv s'" "mem_phase_of s' = mem_phase_of s"
        "case rl of Inl _ \<Rightarrow> mem_progress s' = mem_progress s
         | Inr stored \<Rightarrow> mem_progress s' = (mem_progress s)(w \<mapsto> stored) \<and>
             stored = (case mem_progress s w of None \<Rightarrow> l | Some old \<Rightarrow> max old l)"
      using inv by (auto simp: memory_store_ops_def mem_upsert_progress_def
          mem_phase_of_def max_def Let_def split: option.splits)
  }
  {
    assume "so_clear_copy_state memory_store_ops t s = (r, s')"
    then have del: "mem_delete_table_state_for_scope t CopyRestart s = (r, s')"
      by (simp add: memory_store_ops_def mem_clear_copy_state_def)
    show "mem_inv s'" using mem_delete_scope_inv [OF inv, of t CopyRestart] del by simp
    from del show "mem_phase_of s' = mem_phase_of s"
        "mem_progress s' = (if is_ok r then (mem_progress s)(TableSync t := None) else mem_progress s)"
      by (auto simp: mem_delete_table_state_for_scope_def Let_def mem_phase_of_def)
  }
  {
    assume "so_delete_pipeline_state memory_store_ops t s = (r, s')"
    then have del: "mem_delete_table_state_for_scope t PipelineRemoval s = (r, s')"
      by (simp add: memory_store_ops_def mem_delete_pipeline_state_def)
    show "mem_inv s'" using mem_delete_scope_inv [OF inv, of t PipelineRemoval] del by simp
    from del show "mem_phase_of s' = (if is_ok r then (mem_phase_of s)(t := None) else mem_phase_of s)"
      by (auto simp: mem_delete_table_state_for_scope_def Let_def mem_phase_of_def)
  }
qed

lemma mem_inv_side [simp]:
  "mem_inv s \<Longrightarrow> mem_inv (s \<lparr> mem_schemas := m \<rparr>) = snapshots_ok m"
  "mem_inv s \<Longrightarrow> mem_inv (s \<lparr> mem_metadata := d \<rparr>) = bt_ok d"
  unfolding mem_inv_def by simp_all

lemma mem_inv_parts: "mem_inv s \<Longrightarrow> snapshots_ok (mem_schemas s) \<and> bt_ok (mem_metadata s)"
  unfolding mem_inv_def by simp

interpretation mem_store: pipeline_store memory_store_ops mem_inv mem_phase_of mem_stack_of mem_progress
proof
  fix s s' :: memory_store and t snap x d rs states rx ry rn r
  assume inv: "mem_inv s"
  show "so_get_states memory_store_ops s = Inr states \<Longrightarrow> map_of states = mem_phase_of s"
    by (simp add: memory_store_ops_def mem_get_states_def mem_phase_of_def)
  show "so_get_schema memory_store_ops t snap s = (rx, s') \<Longrightarrow>
      mem_inv s' \<and> mem_phase_of s' = mem_phase_of s \<and> mem_progress s' = mem_progress s"
    using inv by (simp add: memory_store_ops_def mem_get_schema_def)
  show "so_store_schema memory_store_ops x s = (ry, s') \<Longrightarrow>
      mem_inv s' \<and> mem_phase_of s' = mem_phase_of s \<and> mem_progress s' = mem_progress s"
    using inv mem_inv_parts [OF inv]
    by (auto simp: memory_store_ops_def mem_store_schema_def mem_phase_of_def snapshots_ok_snap_insert)
  show "so_prune_schemas memory_store_ops rs s = (rn, s') \<Longrightarrow>
      mem_inv s' \<and> mem_phase_of s' = mem_phase_of s \<and> mem_progress s' = mem_progress s"
    using inv mem_inv_parts [OF inv] snapshots_ok_prune [of "mem_schemas s" rs 0]
    by (auto simp: memory_store_ops_def mem_prune_schemas_def mem_phase_of_def split: prod.splits)
  show "so_store_metadata memory_store_ops t d s = (r, s') \<Longrightarrow>
      mem_inv s' \<and> mem_phase_of s' = mem_phase_of s \<and> mem_progress s' = mem_progress s"
    using inv mem_inv_parts [OF inv]
    by (auto simp: memory_store_ops_def mem_store_metadata_def mem_phase_of_def)
qed

end
