(* ===== verification/Postgres_Tables.thy ===== *)
theory Postgres_Tables
  imports Store_Interface
begin

text \<open>
  The \<open>etl\<close> tables in the source database and the queries on them,
  \<open>crates/etl-postgres/src/replication/{state,progress,schema,destination_metadata}.rs\<close>,
  with the constraints of the migrations in
  \<open>crates/etl/migrations/postgres_store\<close>.

  A table is the list of its rows in insertion order, with the next value of its
  identity column where a query reads that column. A query that a constraint
  rejects returns \<open>SqlxDatabase\<close>. Timestamps of rows are not modelled: no query
  reads them.
\<close>

section \<open>\<open>etl.replication_state\<close>\<close>

record state_row =
  sr_id :: nat
  sr_pipeline :: pipeline_id
  sr_table :: table_id
  sr_state :: state_type
  sr_metadata :: "json option"
  sr_prev :: "nat option"
  sr_current :: bool

record state_table =
  st_rows :: "state_row list"
  st_next :: nat

definition is_current_row :: "pipeline_id \<Rightarrow> table_id \<Rightarrow> state_row \<Rightarrow> bool" where
  "is_current_row p t r \<longleftrightarrow> sr_pipeline r = p \<and> sr_table r = t \<and> sr_current r"

definition get_table_replication_state_rows :: "pipeline_id \<Rightarrow> state_table \<Rightarrow> state_row list" where
  "get_table_replication_state_rows p db =
     filter (\<lambda>r. sr_pipeline r = p \<and> sr_current r) (st_rows db)"

definition update_replication_state_raw ::
    "pipeline_id \<Rightarrow> table_id \<Rightarrow> state_type \<Rightarrow> json \<Rightarrow> state_table \<Rightarrow> (sqlx_error, state_table) result" where
  "update_replication_state_raw p t st m db =
     (let old = map sr_id (filter (is_current_row p t) (st_rows db));
          marked = map (\<lambda>r. if is_current_row p t r then r \<lparr> sr_current := False \<rparr> else r) (st_rows db);
          new = (\<lambda>prev. \<lparr> sr_id = st_next db, sr_pipeline = p, sr_table = t, sr_state = st,
                        sr_metadata = Some m, sr_prev = prev, sr_current = True \<rparr>)
      in case old of
           [] \<Rightarrow> Inr (db \<lparr> st_rows := marked @ [new None], st_next := Suc (st_next db) \<rparr>)
         | [i] \<Rightarrow> Inr (db \<lparr> st_rows := marked @ [new (Some i)], st_next := Suc (st_next db) \<rparr>)
         | _ \<Rightarrow> Inl SqlxDatabase)"

definition rollback_replication_state ::
    "pipeline_id \<Rightarrow> table_id \<Rightarrow> state_table \<Rightarrow> (sqlx_error, state_row option \<times> state_table) result" where
  "rollback_replication_state p t db = (case find (is_current_row p t) (st_rows db) of
      None \<Rightarrow> Inr (None, db)
    | Some cur \<Rightarrow> (case sr_prev cur of
          None \<Rightarrow> Inr (None, db)
        | Some prev_id \<Rightarrow>
            if list_ex (\<lambda>r. sr_prev r = Some (sr_id cur)) (st_rows db) then Inl SqlxDatabase
            else
              let rows1 = filter (\<lambda>r. sr_id r \<noteq> sr_id cur) (st_rows db);
                  rows2 = map (\<lambda>r. if sr_id r = prev_id then r \<lparr> sr_current := True \<rparr> else r) rows1
              in (case find (\<lambda>r. sr_id r = prev_id) rows2 of
                    None \<Rightarrow> Inl SqlxOther
                  | Some restored \<Rightarrow> Inr (Some restored, db \<lparr> st_rows := rows2 \<rparr>))))"

definition delete_replication_state_for_table :: "pipeline_id \<Rightarrow> table_id \<Rightarrow> state_table \<Rightarrow> state_table" where
  "delete_replication_state_for_table p t db =
     db \<lparr> st_rows := filter (\<lambda>r. \<not> (sr_pipeline r = p \<and> sr_table r = t)) (st_rows db) \<rparr>"

definition delete_replication_state_for_all_tables :: "pipeline_id \<Rightarrow> state_table \<Rightarrow> state_table" where
  "delete_replication_state_for_all_tables p db =
     db \<lparr> st_rows := filter (\<lambda>r. sr_pipeline r \<noteq> p) (st_rows db) \<rparr>"

definition reset_replication_state :: "pipeline_id \<Rightarrow> table_id \<Rightarrow> state_table \<Rightarrow> state_row \<times> state_table" where
  "reset_replication_state p t db =
     (let db1 = delete_replication_state_for_table p t db;
          row = \<lparr> sr_id = st_next db1, sr_pipeline = p, sr_table = t, sr_state = InitS,
                  sr_metadata = Some (JObject [(''type'', JString ''init'')]), sr_prev = None,
                  sr_current = True \<rparr>
      in (row, db1 \<lparr> st_rows := st_rows db1 @ [row], st_next := Suc (st_next db1) \<rparr>))"

definition get_pipeline_table_ids :: "pipeline_id \<Rightarrow> state_table \<Rightarrow> table_id list" where
  "get_pipeline_table_ids p db =
     remdups (map sr_table (filter (\<lambda>r. sr_pipeline r = p \<and> sr_current r) (st_rows db)))"

section \<open>\<open>etl.replication_progress\<close>\<close>

record progress_row =
  pr_pipeline :: pipeline_id
  pr_worker :: string
  pr_table :: "table_id option"
  pr_flush :: lsn

definition progress_key :: "pipeline_id \<Rightarrow> string \<Rightarrow> table_id option \<Rightarrow> progress_row \<Rightarrow> bool" where
  "progress_key p w t r \<longleftrightarrow> pr_pipeline r = p \<and> pr_worker r = w \<and> pr_table r = t"

definition sql_get_progress ::
    "pipeline_id \<Rightarrow> string \<Rightarrow> table_id option \<Rightarrow> progress_row list \<Rightarrow> lsn option" where
  "sql_get_progress p w t rows = map_option pr_flush (find (progress_key p w t) rows)"

definition sql_upsert_progress ::
    "pipeline_id \<Rightarrow> string \<Rightarrow> table_id option \<Rightarrow> lsn \<Rightarrow> progress_row list \<Rightarrow> lsn \<times> progress_row list" where
  "sql_upsert_progress p w t l rows = (case find (progress_key p w t) rows of
      None \<Rightarrow> (l, rows @ [\<lparr> pr_pipeline = p, pr_worker = w, pr_table = t, pr_flush = l \<rparr>])
    | Some r \<Rightarrow>
        let stored = (if l > pr_flush r then l else pr_flush r)
        in (stored, map (\<lambda>r. if progress_key p w t r then r \<lparr> pr_flush := stored \<rparr> else r) rows))"

definition sql_delete_progress ::
    "pipeline_id \<Rightarrow> string \<Rightarrow> table_id option \<Rightarrow> progress_row list \<Rightarrow> progress_row list" where
  "sql_delete_progress p w t rows = filter (\<lambda>r. \<not> progress_key p w t r) rows"

definition sql_delete_progress_for_table ::
    "pipeline_id \<Rightarrow> table_id \<Rightarrow> progress_row list \<Rightarrow> progress_row list" where
  "sql_delete_progress_for_table p t rows = sql_delete_progress p ''table_sync'' (Some t) rows"

section \<open>\<open>etl.table_schemas\<close> and \<open>etl.table_columns\<close>\<close>

record schema_row =
  tr_id :: nat
  tr_pipeline :: pipeline_id
  tr_table :: table_id
  tr_schema_name :: string
  tr_table_name :: string
  tr_snapshot :: snapshot_id

record column_row =
  tc_schema_id :: nat
  tc_name :: string
  tc_type :: string
  tc_modifier :: int
  tc_nullable :: bool
  tc_ordinal :: int
  tc_pk_ordinal :: "int option"

record schema_tables =
  stb_schemas :: "schema_row list"
  stb_columns :: "column_row list"
  stb_next :: nat

definition schema_key :: "pipeline_id \<Rightarrow> table_id \<Rightarrow> snapshot_id \<Rightarrow> schema_row \<Rightarrow> bool" where
  "schema_key p t s r \<longleftrightarrow> tr_pipeline r = p \<and> tr_table r = t \<and> tr_snapshot r = s"

text \<open>
  \<open>known_types\<close> lists the \<open>PgType\<close> constants of \<open>define_type_mappings!\<close>, whose
  string form is their own name; any other type is stored under a marker and read
  back as \<open>TEXT\<close>.
\<close>

definition postgres_type_to_string :: "string list \<Rightarrow> pg_type \<Rightarrow> string" where
  "postgres_type_to_string known ty =
     (if ty \<in> set known then ty else ''UNKNOWN('' @ ty @ '')'')"

definition string_to_postgres_type :: "string list \<Rightarrow> string \<Rightarrow> pg_type" where
  "string_to_postgres_type known s = (if s \<in> set known then s else ''TEXT'')"

definition column_to_row :: "string list \<Rightarrow> nat \<Rightarrow> column_schema \<Rightarrow> column_row" where
  "column_to_row known i c =
     \<lparr> tc_schema_id = i, tc_name = cs_name c, tc_type = postgres_type_to_string known (cs_typ c),
       tc_modifier = cs_modifier c, tc_nullable = cs_nullable c, tc_ordinal = cs_ordinal c,
       tc_pk_ordinal = cs_pk_ordinal c \<rparr>"

definition parse_column_schema :: "string list \<Rightarrow> column_row \<Rightarrow> column_schema" where
  "parse_column_schema known r =
     \<lparr> cs_name = tc_name r, cs_typ = string_to_postgres_type known (tc_type r),
       cs_modifier = tc_modifier r, cs_ordinal = tc_ordinal r, cs_pk_ordinal = tc_pk_ordinal r,
       cs_nullable = tc_nullable r \<rparr>"

definition sql_store_table_schema ::
    "string list \<Rightarrow> pipeline_id \<Rightarrow> table_schema \<Rightarrow> schema_tables \<Rightarrow> (sqlx_error, schema_tables) result" where
  "sql_store_table_schema known p x db =
     (let key = schema_key p (ts_id x) (ts_snapshot x);
          (i, schemas, next_id) = (case find key (stb_schemas db) of
              Some r \<Rightarrow> (tr_id r,
                map (\<lambda>r. if key r then r \<lparr> tr_schema_name := tn_schema (ts_name x),
                                           tr_table_name := tn_name (ts_name x) \<rparr> else r)
                    (stb_schemas db), stb_next db)
            | None \<Rightarrow> (stb_next db,
                stb_schemas db @ [\<lparr> tr_id = stb_next db, tr_pipeline = p, tr_table = ts_id x,
                   tr_schema_name = tn_schema (ts_name x), tr_table_name = tn_name (ts_name x),
                   tr_snapshot = ts_snapshot x \<rparr>], Suc (stb_next db)));
          columns = filter (\<lambda>c. tc_schema_id c \<noteq> i) (stb_columns db)
      in if distinct (map cs_name (ts_columns x)) \<and> distinct (map cs_ordinal (ts_columns x))
         then Inr \<lparr> stb_schemas = schemas,
                    stb_columns = columns @ map (column_to_row known i) (ts_columns x),
                    stb_next = next_id \<rparr>
         else Inl SqlxDatabase)"

definition schema_of_row :: "string list \<Rightarrow> schema_tables \<Rightarrow> schema_row \<Rightarrow> table_schema option" where
  "schema_of_row known db r =
     (let cols = sort_key tc_ordinal (filter (\<lambda>c. tc_schema_id c = tr_id r) (stb_columns db))
      in if cols = [] then None
         else Some (fold (\<lambda>c x. add_column_schema (parse_column_schema known c) x) cols
                (with_snapshot_id (tr_table r)
                   \<lparr> tn_schema = tr_schema_name r, tn_name = tr_table_name r \<rparr> [] (tr_snapshot r))))"

definition newest_schema_row :: "schema_row list \<Rightarrow> schema_row option" where
  "newest_schema_row rows = (case rows of
      [] \<Rightarrow> None
    | r # rs \<Rightarrow> Some (fold (\<lambda>a best. if tr_snapshot a > tr_snapshot best then a else best) rs r))"

definition load_table_schema_at_snapshot ::
    "string list \<Rightarrow> pipeline_id \<Rightarrow> table_id \<Rightarrow> snapshot_id \<Rightarrow> schema_tables \<Rightarrow> table_schema option" where
  "load_table_schema_at_snapshot known p t s db =
     Option.bind
       (newest_schema_row
          (filter (\<lambda>r. tr_pipeline r = p \<and> tr_table r = t \<and> tr_snapshot r \<le> s) (stb_schemas db)))
       (schema_of_row known db)"

definition load_table_schemas_at_snapshot ::
    "string list \<Rightarrow> pipeline_id \<Rightarrow> snapshot_id \<Rightarrow> schema_tables \<Rightarrow> table_schema list" where
  "load_table_schemas_at_snapshot known p s db =
     (let tables = remdups (map tr_table
            (filter (\<lambda>r. tr_pipeline r = p \<and> tr_snapshot r \<le> s) (stb_schemas db)))
      in filter_map (\<lambda>t. load_table_schema_at_snapshot known p t s db) tables)"

definition load_table_schemas :: "string list \<Rightarrow> pipeline_id \<Rightarrow> schema_tables \<Rightarrow> table_schema list" where
  "load_table_schemas known p db = load_table_schemas_at_snapshot known p snapshot_max db"

definition delete_schema_rows :: "(schema_row \<Rightarrow> bool) \<Rightarrow> schema_tables \<Rightarrow> schema_tables" where
  "delete_schema_rows P db =
     (let gone = map tr_id (filter P (stb_schemas db))
      in db \<lparr> stb_schemas := filter (\<lambda>r. \<not> P r) (stb_schemas db),
             stb_columns := filter (\<lambda>c. tc_schema_id c \<notin> set gone) (stb_columns db) \<rparr>)"

definition delete_table_schema_for_table :: "pipeline_id \<Rightarrow> table_id \<Rightarrow> schema_tables \<Rightarrow> schema_tables" where
  "delete_table_schema_for_table p t db =
     delete_schema_rows (\<lambda>r. tr_pipeline r = p \<and> tr_table r = t) db"

definition delete_table_schemas_for_all_tables :: "pipeline_id \<Rightarrow> schema_tables \<Rightarrow> schema_tables" where
  "delete_table_schemas_for_all_tables p db = delete_schema_rows (\<lambda>r. tr_pipeline r = p) db"

definition retained_snapshot ::
    "pipeline_id \<Rightarrow> table_id \<Rightarrow> lsn \<Rightarrow> schema_row list \<Rightarrow> snapshot_id option" where
  "retained_snapshot p t l rows =
     map_option tr_snapshot
       (newest_schema_row (filter (\<lambda>r. tr_pipeline r = p \<and> tr_table r = t \<and> tr_snapshot r \<le> l) rows))"

definition obsolete_row ::
    "pipeline_id \<Rightarrow> (table_id \<Rightarrow> lsn option) \<Rightarrow> schema_row list \<Rightarrow> schema_row \<Rightarrow> bool" where
  "obsolete_row p retentions rows r \<longleftrightarrow> tr_pipeline r = p \<and>
     (case retentions (tr_table r) of
        None \<Rightarrow> False
      | Some l \<Rightarrow> (case retained_snapshot p (tr_table r) l rows of
            None \<Rightarrow> False
          | Some keep \<Rightarrow> tr_snapshot r < keep))"

definition delete_obsolete_table_schema_versions ::
    "pipeline_id \<Rightarrow> (table_id \<Rightarrow> lsn option) \<Rightarrow> schema_tables \<Rightarrow> nat \<times> schema_tables" where
  "delete_obsolete_table_schema_versions p retentions db =
     (let P = obsolete_row p retentions (stb_schemas db)
      in (length (filter P (stb_schemas db)), delete_schema_rows P db))"

section \<open>\<open>etl.destination_tables_metadata\<close>\<close>

type_synonym metadata_rows = "((pipeline_id \<times> table_id) \<times> destination_table_metadata) list"

definition sql_store_metadata ::
    "pipeline_id \<Rightarrow> table_id \<Rightarrow> destination_table_metadata \<Rightarrow> metadata_rows \<Rightarrow> metadata_rows" where
  "sql_store_metadata p t d rows = AList.update (p, t) d rows"

definition sql_load_metadata ::
    "pipeline_id \<Rightarrow> metadata_rows \<Rightarrow> (table_id \<times> destination_table_metadata) list" where
  "sql_load_metadata p rows =
     map (\<lambda>((_, t), d). (t, d)) (filter (\<lambda>((p', _), _). p' = p) rows)"

definition sql_delete_metadata :: "pipeline_id \<Rightarrow> table_id \<Rightarrow> metadata_rows \<Rightarrow> metadata_rows" where
  "sql_delete_metadata p t rows = filter (\<lambda>(k, _). k \<noteq> (p, t)) rows"

section \<open>The history of a table as a stack\<close>

text \<open>
  In a well-formed table the rows of one source table, in insertion order, form a
  chain: each row's \<open>prev\<close> is the row before it and only the last row is current.
  Storing a state pushes on that chain, rolling back pops it.
\<close>

definition rows_of :: "pipeline_id \<Rightarrow> table_id \<Rightarrow> state_table \<Rightarrow> state_row list" where
  "rows_of p t db = filter (\<lambda>r. sr_pipeline r = p \<and> sr_table r = t) (st_rows db)"

fun linked :: "nat option \<Rightarrow> state_row list \<Rightarrow> bool" where
  "linked prev [] \<longleftrightarrow> True"
| "linked prev (r # rs) \<longleftrightarrow>
     sr_prev r = prev \<and> sr_current r = (rs = []) \<and> linked (Some (sr_id r)) rs"

definition state_table_ok :: "state_table \<Rightarrow> bool" where
  "state_table_ok db \<longleftrightarrow> distinct (map sr_id (st_rows db)) \<and>
     (\<forall>r \<in> set (st_rows db). sr_id r < st_next db) \<and> (\<forall>p t. linked None (rows_of p t db))"

definition state_stack :: "pipeline_id \<Rightarrow> table_id \<Rightarrow> state_table \<Rightarrow> json option list" where
  "state_stack p t db = rev (map sr_metadata (rows_of p t db))"

subsection \<open>Linked rows\<close>

lemma linked_find: "linked prev rs \<Longrightarrow> find sr_current rs = (if rs = [] then None else Some (last rs))"
  by (induction rs arbitrary: prev) auto

lemma linked_filter: "linked prev rs \<Longrightarrow> filter sr_current rs = (if rs = [] then [] else [last rs])"
  by (induction rs arbitrary: prev) auto

lemma linked_push:
  assumes "linked prev rs" "\<And>r. sr_id (f r) = sr_id r" "\<And>r. sr_prev (f r) = sr_prev r"
    "\<And>r. r \<in> set rs \<Longrightarrow> \<not> sr_current (f r)"
    "sr_prev new = (if rs = [] then prev else Some (sr_id (last rs)))" "sr_current new"
  shows "linked prev (map f rs @ [new])"
  using assms by (induction rs arbitrary: prev) auto

lemma linked_pop:
  assumes "linked prev (rs @ [b, c])"
  shows "linked prev (rs @ [b \<lparr> sr_current := True \<rparr>])" "sr_prev c = Some (sr_id b)"
  using assms by (induction rs arbitrary: prev) auto

lemma linked_prev:
  "linked prev rs \<Longrightarrow> r \<in> set rs \<Longrightarrow> sr_prev r = Some i \<Longrightarrow>
   prev = Some i \<or> i \<in> sr_id ` set (butlast rs)"
proof (induction rs arbitrary: prev)
  case (Cons a rs)
  then show ?case by (cases "r = a"; cases "rs = []") force+
qed simp

subsection \<open>Queries on a well-formed table\<close>

lemma find_current: "find (is_current_row p t) (st_rows db) = find sr_current (rows_of p t db)"
proof -
  have "find (is_current_row p t) xs = find sr_current (filter (\<lambda>r. sr_pipeline r = p \<and> sr_table r = t) xs)" for xs
    by (induction xs) (auto simp: is_current_row_def)
  then show ?thesis by (simp add: rows_of_def)
qed

lemma filter_current: "filter (is_current_row p t) (st_rows db) = filter sr_current (rows_of p t db)"
  by (auto simp: rows_of_def is_current_row_def intro!: filter_cong)

definition mark_old :: "pipeline_id \<Rightarrow> table_id \<Rightarrow> state_row \<Rightarrow> state_row" where
  "mark_old p t r = (if is_current_row p t r then r \<lparr> sr_current := False \<rparr> else r)"

lemma mark_old_simps [simp]:
  "sr_id (mark_old p t r) = sr_id r" "sr_prev (mark_old p t r) = sr_prev r"
  "sr_metadata (mark_old p t r) = sr_metadata r" "sr_pipeline (mark_old p t r) = sr_pipeline r"
  "sr_table (mark_old p t r) = sr_table r"
  "sr_current (mark_old p t r) \<longleftrightarrow> sr_current r \<and> \<not> (sr_pipeline r = p \<and> sr_table r = t)"
  by (auto simp: mark_old_def is_current_row_def)

definition pushed_row ::
    "pipeline_id \<Rightarrow> table_id \<Rightarrow> state_type \<Rightarrow> json \<Rightarrow> state_table \<Rightarrow> state_row" where
  "pushed_row p t st m db = \<lparr> sr_id = st_next db, sr_pipeline = p, sr_table = t, sr_state = st,
     sr_metadata = Some m,
     sr_prev = (if rows_of p t db = [] then None else Some (sr_id (last (rows_of p t db)))),
     sr_current = True \<rparr>"

lemma update_replication_state_raw_eq:
  assumes "state_table_ok db"
  shows "update_replication_state_raw p t st m db =
     Inr (db \<lparr> st_rows := map (mark_old p t) (st_rows db) @ [pushed_row p t st m db],
              st_next := Suc (st_next db) \<rparr>)"
proof -
  have "linked None (rows_of p t db)" using assms by (simp add: state_table_ok_def)
  note cur = linked_filter [OF this]
  show ?thesis
    by (auto simp: update_replication_state_raw_def Let_def filter_current cur pushed_row_def
        mark_old_def cong: map_cong)
qed

lemma rows_of_update:
  assumes "state_table_ok db" "update_replication_state_raw p t st m db = Inr db'"
  shows "rows_of p' t' db' = (if (p', t') = (p, t)
     then map (mark_old p t) (rows_of p t db) @ [pushed_row p t st m db] else rows_of p' t' db)"
proof -
  have db': "db' = db \<lparr> st_rows := map (mark_old p t) (st_rows db) @ [pushed_row p t st m db],
              st_next := Suc (st_next db) \<rparr>"
    using assms by (simp add: update_replication_state_raw_eq)
  have "map (mark_old p t) (filter (\<lambda>r. sr_pipeline r = p' \<and> sr_table r = t') xs) =
        filter (\<lambda>r. sr_pipeline r = p' \<and> sr_table r = t') xs" if "(p', t') \<noteq> (p, t)" for xs
    using that by (intro map_idI) (auto simp: mark_old_def is_current_row_def)
  then show ?thesis
    by (auto simp: db' rows_of_def filter_map o_def pushed_row_def)
qed

lemma state_table_ok_update:
  assumes ok: "state_table_ok db" and upd: "update_replication_state_raw p t st m db = Inr db'"
  shows "state_table_ok db'"
proof -
  have db': "st_rows db' = map (mark_old p t) (st_rows db) @ [pushed_row p t st m db]"
      "st_next db' = Suc (st_next db)"
    using upd by (auto simp: update_replication_state_raw_eq [OF ok])
  have "linked None (map (mark_old p t) (rows_of p t db) @ [pushed_row p t st m db])"
    using ok by (intro linked_push) (auto simp: state_table_ok_def pushed_row_def rows_of_def)
  then have "linked None (rows_of p' t' db')" for p' t'
    using ok by (simp add: rows_of_update [OF ok upd] state_table_ok_def)
  moreover have "distinct (map sr_id (st_rows db'))"
    using ok by (force simp: db' state_table_ok_def pushed_row_def o_def)
  moreover have "\<forall>r \<in> set (st_rows db'). sr_id r < st_next db'"
    using ok by (auto simp: db' state_table_ok_def pushed_row_def less_Suc_eq)
  ultimately show ?thesis by (simp add: state_table_ok_def)
qed

lemma state_stack_update:
  assumes "state_table_ok db" "update_replication_state_raw p t st m db = Inr db'"
  shows "state_stack p' t' db' =
     (if (p', t') = (p, t) then Some m # state_stack p t db else state_stack p' t' db)"
  by (simp add: state_stack_def rows_of_update [OF assms] o_def pushed_row_def)

lemma id_eq_imp_eq:
  "state_table_ok db \<Longrightarrow> a \<in> set (st_rows db) \<Longrightarrow> b \<in> set (st_rows db) \<Longrightarrow> sr_id a = sr_id b \<Longrightarrow> a = b"
  by (auto simp: state_table_ok_def distinct_map dest: inj_onD)

lemma last_row_unreferenced:
  assumes ok: "state_table_ok db" and rs: "rows_of p t db = rs @ [c]" and r: "r \<in> set (st_rows db)"
  shows "sr_prev r \<noteq> Some (sr_id c)"
proof
  assume prev: "sr_prev r = Some (sr_id c)"
  let ?q = "rows_of (sr_pipeline r) (sr_table r) db"
  have "linked None ?q" using ok by (simp add: state_table_ok_def)
  moreover have "r \<in> set ?q" using r by (simp add: rows_of_def)
  ultimately have "sr_id c \<in> sr_id ` set (butlast ?q)" using linked_prev prev by fastforce
  then obtain b where b: "b \<in> set (butlast ?q)" "sr_id b = sr_id c" by force
  have c: "c \<in> set (rows_of p t db)" using rs by simp
  have "b \<in> set (st_rows db)" "c \<in> set (st_rows db)"
    using b(1) c by (auto simp: rows_of_def dest: in_set_butlastD)
  with b(2) ok have "b = c" by (metis id_eq_imp_eq)
  with b(1) c have "rows_of p t db = ?q"
    by (auto simp: rows_of_def dest!: in_set_butlastD)
  with rs b(1) \<open>b = c\<close> have "c \<in> set rs" by simp
  moreover have "distinct (rows_of p t db)"
    using ok by (auto simp: state_table_ok_def rows_of_def distinct_map)
  ultimately show False using rs by simp
qed

lemma rollback_none:
  assumes "state_table_ok db" "length (state_stack p t db) \<le> 1"
  shows "rollback_replication_state p t db = Inr (None, db)"
proof -
  have lk: "linked None (rows_of p t db)" using assms(1) by (simp add: state_table_ok_def)
  have len: "length (rows_of p t db) \<le> 1" using assms(2) by (simp add: state_stack_def)
  show ?thesis
  proof (cases "rows_of p t db")
    case Nil
    then show ?thesis by (simp add: rollback_replication_state_def find_current)
  next
    case (Cons r rs)
    with len lk show ?thesis by (simp add: rollback_replication_state_def find_current)
  qed
qed

definition popped_rows :: "state_row \<Rightarrow> state_row \<Rightarrow> state_row list \<Rightarrow> state_row list" where
  "popped_rows b c rows = map (\<lambda>r. if sr_id r = sr_id b then r \<lparr> sr_current := True \<rparr> else r)
     (filter (\<lambda>r. sr_id r \<noteq> sr_id c) rows)"

lemma popped_rows_id:
  "(\<And>r. r \<in> set rows \<Longrightarrow> sr_id r \<noteq> sr_id b \<and> sr_id r \<noteq> sr_id c) \<Longrightarrow> popped_rows b c rows = rows"
  by (induction rows) (auto simp: popped_rows_def)

lemma popped_rows_append: "popped_rows b c (xs @ ys) = popped_rows b c xs @ popped_rows b c ys"
  by (simp add: popped_rows_def)

lemma rollback_some:
  assumes ok: "state_table_ok db" and rs: "rows_of p t db = rs @ [b, c]"
  shows "rollback_replication_state p t db =
     Inr (Some (b \<lparr> sr_current := True \<rparr>), db \<lparr> st_rows := popped_rows b c (st_rows db) \<rparr>)"
proof -
  have lk: "linked None (rs @ [b, c])" using ok rs by (metis state_table_ok_def)
  have cur: "find (is_current_row p t) (st_rows db) = Some c"
    using linked_find [OF lk] rs by (simp add: find_current)
  have fk: "\<not> list_ex (\<lambda>r. sr_prev r = Some (sr_id c)) (st_rows db)"
    using last_row_unreferenced [OF ok, of p t "rs @ [b]" c] rs by (auto simp: list_ex_iff)
  have bc: "b \<in> set (st_rows db)" "c \<in> set (st_rows db)" "b \<noteq> c"
  proof -
    have "b \<in> set (rows_of p t db)" "c \<in> set (rows_of p t db)" using rs by simp_all
    then show "b \<in> set (st_rows db)" "c \<in> set (st_rows db)" by (simp_all add: rows_of_def)
    have "distinct (rows_of p t db)"
      using ok by (auto simp: state_table_ok_def rows_of_def distinct_map)
    with rs show "b \<noteq> c" by auto
  qed
  then have "sr_id b \<noteq> sr_id c" using id_eq_imp_eq [OF ok] by blast
  then have "find (\<lambda>r. sr_id r = sr_id b) (popped_rows b c rows) = Some (b \<lparr> sr_current := True \<rparr>)"
    if "b \<in> set rows" "\<And>r. r \<in> set rows \<Longrightarrow> sr_id r = sr_id b \<Longrightarrow> r = b" for rows
    using that by (induction rows) (auto simp: popped_rows_def)
  from this [of "st_rows db"] have "find (\<lambda>r. sr_id r = sr_id b) (popped_rows b c (st_rows db)) =
      Some (b \<lparr> sr_current := True \<rparr>)"
    using bc(1) id_eq_imp_eq [OF ok] by blast
  with cur fk linked_pop(2) [OF lk] show ?thesis
    by (simp add: rollback_replication_state_def Let_def popped_rows_def)
qed

lemma rows_of_popped:
  assumes ok: "state_table_ok db" and rs: "rows_of p t db = rs @ [b, c]"
  shows "rows_of p' t' (db \<lparr> st_rows := popped_rows b c (st_rows db) \<rparr>) =
     (if (p', t') = (p, t) then rs @ [b \<lparr> sr_current := True \<rparr>] else rows_of p' t' db)"
proof -
  let ?key = "\<lambda>r. sr_pipeline r = p' \<and> sr_table r = t'"
  have bc: "b \<in> set (rows_of p t db)" "c \<in> set (rows_of p t db)" using rs by simp_all
  have "filter ?key (popped_rows b c rows) = popped_rows b c (filter ?key rows)" for rows
    by (induction rows) (auto simp: popped_rows_def)
  then have eq: "rows_of p' t' (db \<lparr> st_rows := popped_rows b c (st_rows db) \<rparr>) =
      popped_rows b c (rows_of p' t' db)"
    by (simp add: rows_of_def)
  show ?thesis
  proof (cases "(p', t') = (p, t)")
    case True
    have "distinct (map sr_id (rows_of p t db))"
      using ok by (simp add: distinct_map_filter rows_of_def state_table_ok_def)
    then have "distinct (map sr_id (rs @ [b, c]))" by (simp only: rs)
    then have "sr_id b \<noteq> sr_id c" "popped_rows b c rs = rs"
      by (auto simp: image_iff intro!: popped_rows_id)
    then have "popped_rows b c (rs @ [b, c]) = rs @ [b \<lparr> sr_current := True \<rparr>]"
      by (simp add: popped_rows_append) (simp add: popped_rows_def)
    with True eq rs show ?thesis by simp
  next
    case False
    have "sr_id r \<noteq> sr_id b \<and> sr_id r \<noteq> sr_id c" if "r \<in> set (rows_of p' t' db)" for r
      using that bc False id_eq_imp_eq [OF ok, of r b] id_eq_imp_eq [OF ok, of r c]
      by (auto simp: rows_of_def)
    then have "popped_rows b c (rows_of p' t' db) = rows_of p' t' db" by (rule popped_rows_id)
    with False eq show ?thesis by auto
  qed
qed

lemma state_table_ok_popped:
  assumes ok: "state_table_ok db" and rs: "rows_of p t db = rs @ [b, c]"
  shows "state_table_ok (db \<lparr> st_rows := popped_rows b c (st_rows db) \<rparr>)"
proof -
  have "linked None (rs @ [b, c])" using ok rs by (metis state_table_ok_def)
  then have "linked None (rs @ [b \<lparr> sr_current := True \<rparr>])" by (rule linked_pop(1))
  then have "linked None (rows_of p' t' (db \<lparr> st_rows := popped_rows b c (st_rows db) \<rparr>))" for p' t'
    using ok by (simp add: rows_of_popped [OF ok rs] state_table_ok_def)
  moreover have ids: "map sr_id (popped_rows b c rows) = map sr_id (filter (\<lambda>r. sr_id r \<noteq> sr_id c) rows)" for rows
    by (induction rows) (auto simp: popped_rows_def)
  have "distinct (map sr_id (popped_rows b c (st_rows db)))"
    using ok by (simp add: ids state_table_ok_def distinct_map_filter)
  moreover have "sr_id r < st_next db" if "r \<in> set (popped_rows b c (st_rows db))" for r
    using that ok by (auto simp: popped_rows_def state_table_ok_def)
  ultimately show ?thesis by (simp add: state_table_ok_def)
qed

lemma state_stack_rollback:
  assumes ok: "state_table_ok db" and rb: "rollback_replication_state p t db = Inr (Some r, db')"
  shows "state_table_ok db'"
    and "\<exists>m rest. state_stack p t db = m # sr_metadata r # rest \<and> state_stack p t db' = sr_metadata r # rest"
    and "(p', t') \<noteq> (p, t) \<Longrightarrow> state_stack p' t' db' = state_stack p' t' db"
proof -
  have "\<not> length (state_stack p t db) \<le> 1" using rollback_none [OF ok] rb by fastforce
  then obtain rs b c where rs: "rows_of p t db = rs @ [b, c]"
    by (cases "rows_of p t db" rule: rev_cases; cases "butlast (rows_of p t db)" rule: rev_cases)
      (auto simp: state_stack_def)
  note * = rollback_some [OF ok rs] rows_of_popped [OF ok rs]
  show "state_table_ok db'" using state_table_ok_popped [OF ok rs] *(1) rb by simp
  show "\<exists>m rest. state_stack p t db = m # sr_metadata r # rest \<and> state_stack p t db' = sr_metadata r # rest"
    using * rb rs by (auto simp: state_stack_def)
  show "(p', t') \<noteq> (p, t) \<Longrightarrow> state_stack p' t' db' = state_stack p' t' db"
    using * rb by (auto simp: state_stack_def)
qed

section \<open>Durable progress\<close>

lemma find_map_same:
  "(\<And>r. P (f r) = P r) \<Longrightarrow> find P (map f rows) = map_option f (find P rows)"
  by (induction rows) auto

lemma sql_get_upsert_progress:
  assumes "sql_upsert_progress p w t l rows = (stored, rows')"
  shows "stored = (case sql_get_progress p w t rows of None \<Rightarrow> l | Some old \<Rightarrow> max old l)"
    and "sql_get_progress p' w' t' rows' =
      (if (p', w', t') = (p, w, t) then Some stored else sql_get_progress p' w' t' rows)"
proof -
  show "stored = (case sql_get_progress p w t rows of None \<Rightarrow> l | Some old \<Rightarrow> max old l)"
    using assms by (auto simp: sql_upsert_progress_def sql_get_progress_def max_def Let_def
        split: option.splits if_splits)
  let ?f = "\<lambda>r. if progress_key p w t r then r \<lparr> pr_flush := stored \<rparr> else r"
  have "find (progress_key p' w' t') (map ?f rows) = map_option ?f (find (progress_key p' w' t') rows)"
    by (rule find_map_same) (simp add: progress_key_def)
  moreover have "find (progress_key p' w' t') rows = Some r \<Longrightarrow> progress_key p' w' t' r" for r
    using find_eq_Some_in by fast
  ultimately show "sql_get_progress p' w' t' rows' =
      (if (p', w', t') = (p, w, t) then Some stored else sql_get_progress p' w' t' rows)"
    using assms
    by (cases "find (progress_key p w t) rows"; cases "find (progress_key p' w' t') rows")
      (auto simp: sql_upsert_progress_def sql_get_progress_def find_append Let_def progress_key_def)
qed

lemma sql_get_delete_progress:
  "sql_get_progress p' w' t' (sql_delete_progress p w t rows) =
     (if (p', w', t') = (p, w, t) then None else sql_get_progress p' w' t' rows)"
proof -
  have same: "find P (filter (\<lambda>r. \<not> P r) rows) = None" for P :: "progress_row \<Rightarrow> bool"
    by (induction rows) auto
  have other: "find P (filter (\<lambda>r. \<not> Q r) rows) = find P rows" if "\<And>r. P r \<Longrightarrow> \<not> Q r"
    for P Q :: "progress_row \<Rightarrow> bool"
    using that by (induction rows) auto
  have "find (progress_key p' w' t') (filter (\<lambda>r. \<not> progress_key p w t r) rows) =
      (if (p', w', t') = (p, w, t) then None else find (progress_key p' w' t') rows)"
    using same [of "progress_key p w t"] other [of "progress_key p' w' t'" "progress_key p w t"]
    by (auto simp: progress_key_def)
  then show ?thesis by (simp add: sql_get_progress_def sql_delete_progress_def)
qed

section \<open>Stored schema versions\<close>

definition db_version ::
    "string list \<Rightarrow> pipeline_id \<Rightarrow> schema_tables \<Rightarrow> table_id \<Rightarrow> snapshot_id \<Rightarrow> table_schema option" where
  "db_version known p db t s = Option.bind (find (schema_key p t s) (stb_schemas db)) (schema_of_row known db)"

definition schema_tables_ok :: "schema_tables \<Rightarrow> bool" where
  "schema_tables_ok db \<longleftrightarrow>
     distinct (map (\<lambda>r. (tr_pipeline r, tr_table r, tr_snapshot r)) (stb_schemas db)) \<and>
     distinct (map tr_id (stb_schemas db)) \<and>
     (\<forall>r \<in> set (stb_schemas db). tr_id r < stb_next db \<and>
        (\<exists>c \<in> set (stb_columns db). tc_schema_id c = tr_id r)) \<and>
     (\<forall>c \<in> set (stb_columns db). tc_schema_id c < stb_next db)"

lemma fold_add_column:
  "fold (\<lambda>c x. add_column_schema (f c) x) cols x = x \<lparr> ts_columns := ts_columns x @ map f cols \<rparr>"
  by (induction cols arbitrary: x) (simp_all add: add_column_schema_def)

lemma schema_of_row_eq:
  "schema_of_row known db r =
     (let cols = sort_key tc_ordinal (filter (\<lambda>c. tc_schema_id c = tr_id r) (stb_columns db))
      in if cols = [] then None
         else Some \<lparr> ts_id = tr_table r,
           ts_name = \<lparr> tn_schema = tr_schema_name r, tn_name = tr_table_name r \<rparr>,
           ts_columns = map (parse_column_schema known) cols, ts_snapshot = tr_snapshot r \<rparr>)"
  by (simp add: schema_of_row_def fold_add_column with_snapshot_id_def Let_def)

lemma newest_schema_row_Some:
  assumes "rows \<noteq> []"
  obtains r where "newest_schema_row rows = Some r" "r \<in> set rows"
    "\<And>a. a \<in> set rows \<Longrightarrow> tr_snapshot a \<le> tr_snapshot r"
proof -
  let ?f = "\<lambda>a best. if tr_snapshot a > tr_snapshot best then a else best"
  have fold: "fold ?f rs r \<in> set (r # rs) \<and>
      (\<forall>a \<in> set (r # rs). tr_snapshot a \<le> tr_snapshot (fold ?f rs r))" for r rs
  proof (induction rs arbitrary: r)
    case (Cons a rs)
    let ?b = "?f a r"
    have "tr_snapshot a \<le> tr_snapshot ?b" "tr_snapshot r \<le> tr_snapshot ?b" "?b \<in> {a, r}" by auto
    moreover have "tr_snapshot ?b \<le> tr_snapshot (fold ?f rs ?b)" using Cons.IH [of ?b] by simp
    ultimately have "tr_snapshot a \<le> tr_snapshot (fold ?f rs ?b)"
        "tr_snapshot r \<le> tr_snapshot (fold ?f rs ?b)" by (blast intro: order.trans)+
    with Cons.IH [of ?b] \<open>?b \<in> {a, r}\<close> show ?case by auto
  qed simp
  from assms obtain r rs where "rows = r # rs" by (cases rows) auto
  with fold [of rs r] that [of "fold ?f rs r"] show thesis
    by (auto simp: newest_schema_row_def)
qed

lemma newest_schema_row_None: "newest_schema_row rows = None \<longleftrightarrow> rows = []"
  by (simp add: newest_schema_row_def split: list.split)

lemma find_schema_key_iff:
  assumes "schema_tables_ok db"
  shows "find (schema_key p t s) (stb_schemas db) = Some r \<longleftrightarrow>
     r \<in> set (stb_schemas db) \<and> schema_key p t s r"
proof -
  have "distinct (map (\<lambda>r. (tr_pipeline r, tr_table r, tr_snapshot r)) rows) \<Longrightarrow>
      find (schema_key p t s) rows = Some r \<longleftrightarrow> r \<in> set rows \<and> schema_key p t s r" for rows
    by (induction rows) (auto simp: schema_key_def)
  then show ?thesis using assms by (simp add: schema_tables_ok_def)
qed

lemma sort_key_Nil_iff: "sort_key f xs = [] \<longleftrightarrow> xs = []"
  by (metis length_0_conv length_sort)

lemma schema_of_row_ok:
  assumes "schema_tables_ok db" "r \<in> set (stb_schemas db)"
  obtains x where "schema_of_row known db r = Some x" "ts_snapshot x = tr_snapshot r" "ts_id x = tr_table r"
proof -
  have "filter (\<lambda>c. tc_schema_id c = tr_id r) (stb_columns db) \<noteq> []"
    using assms by (auto simp: schema_tables_ok_def filter_empty_conv)
  with that show thesis by (simp add: schema_of_row_eq Let_def sort_key_Nil_iff)
qed

lemma db_version_Some_iff:
  assumes "schema_tables_ok db"
  shows "db_version known p db t s = Some x \<longleftrightarrow>
     (\<exists>r \<in> set (stb_schemas db). schema_key p t s r \<and> schema_of_row known db r = Some x)"
  by (auto simp: db_version_def bind_eq_Some_conv find_schema_key_iff [OF assms])

lemma db_version_None_iff:
  assumes "schema_tables_ok db"
  shows "db_version known p db t s = None \<longleftrightarrow> (\<forall>r \<in> set (stb_schemas db). \<not> schema_key p t s r)"
proof (cases "find (schema_key p t s) (stb_schemas db)")
  case None
  moreover from this have "\<forall>r \<in> set (stb_schemas db). \<not> schema_key p t s r" by (simp add: find_None_iff)
  ultimately show ?thesis by (simp add: db_version_def)
next
  case (Some r)
  then have r: "r \<in> set (stb_schemas db)" "schema_key p t s r" using find_eq_Some_in by fast+
  obtain x where "schema_of_row known db r = Some x" using schema_of_row_ok [OF assms r(1)] .
  with Some r show ?thesis by (auto simp: db_version_def)
qed

lemma load_eq_newest_version:
  assumes ok: "schema_tables_ok db"
  shows "load_table_schema_at_snapshot known p t s db =
     Option.bind (newest_schema_row
       (filter (\<lambda>r. tr_pipeline r = p \<and> tr_table r = t \<and> tr_snapshot r \<le> s) (stb_schemas db)))
       (\<lambda>r. db_version known p db t (tr_snapshot r))"
proof -
  let ?rows = "filter (\<lambda>r. tr_pipeline r = p \<and> tr_table r = t \<and> tr_snapshot r \<le> s) (stb_schemas db)"
  have "db_version known p db t (tr_snapshot r) = schema_of_row known db r" if "newest_schema_row ?rows = Some r" for r
  proof -
    from that have "?rows \<noteq> []" by (auto simp: newest_schema_row_def)
    then obtain r' where "newest_schema_row ?rows = Some r'" "r' \<in> set ?rows"
      by (rule newest_schema_row_Some)
    with that have "r \<in> set ?rows" by simp
    then have "find (schema_key p t (tr_snapshot r)) (stb_schemas db) = Some r"
      by (simp add: find_schema_key_iff [OF ok] schema_key_def)
    then show ?thesis by (simp add: db_version_def)
  qed
  then show ?thesis
    by (cases "newest_schema_row ?rows") (simp_all add: load_table_schema_at_snapshot_def)
qed

interpretation db: version_lookup schema_tables_ok "db_version known p"
    "\<lambda>db t s. load_table_schema_at_snapshot known p t s db" for known p
proof
  fix db t s x
  assume ok: "schema_tables_ok db"
  let ?rows = "filter (\<lambda>r. tr_pipeline r = p \<and> tr_table r = t \<and> tr_snapshot r \<le> s) (stb_schemas db)"
  have snap: "db_version known p db t s' = Some y \<Longrightarrow> ts_snapshot y = s'" for s' y
    using ok by (auto simp: db_version_Some_iff schema_key_def schema_of_row_eq Let_def split: if_splits)
  then show "db_version known p db t s = Some x \<Longrightarrow> ts_snapshot x = s" .
  have row: "db_version known p db t s' \<noteq> None \<and> s' \<le> s \<longleftrightarrow> (\<exists>r \<in> set ?rows. tr_snapshot r = s')" for s'
    using ok by (auto simp: db_version_None_iff schema_key_def)
  show "load_table_schema_at_snapshot known p t s db = None \<longleftrightarrow> (\<forall>s' \<le> s. db_version known p db t s' = None)"
  proof (cases "?rows = []")
    case True
    then have "\<forall>s' \<le> s. db_version known p db t s' = None" using row by auto
    with True show ?thesis by (simp add: load_eq_newest_version [OF ok] newest_schema_row_def)
  next
    case False
    then obtain r where r: "newest_schema_row ?rows = Some r" "r \<in> set ?rows"
      by (rule newest_schema_row_Some)
    then show ?thesis using row [of "tr_snapshot r"] by (auto simp: load_eq_newest_version [OF ok])
  qed
  show "load_table_schema_at_snapshot known p t s db = Some x \<longleftrightarrow>
      db_version known p db t (ts_snapshot x) = Some x \<and> ts_snapshot x \<le> s \<and>
      (\<forall>s'. db_version known p db t s' \<noteq> None \<longrightarrow> s' \<le> s \<longrightarrow> s' \<le> ts_snapshot x)"
  proof (cases "?rows = []")
    case True
    then have "\<not> (db_version known p db t (ts_snapshot x) = Some x \<and> ts_snapshot x \<le> s)"
      using row [of "ts_snapshot x"] by auto
    with True show ?thesis by (auto simp: load_eq_newest_version [OF ok] newest_schema_row_def)
  next
    case False
    then obtain r where r: "newest_schema_row ?rows = Some r" "r \<in> set ?rows"
        "\<And>a. a \<in> set ?rows \<Longrightarrow> tr_snapshot a \<le> tr_snapshot r"
      by (rule newest_schema_row_Some) blast
    from r(2) row obtain y where y: "db_version known p db t (tr_snapshot r) = Some y" by blast
    note sy = snap [OF y]
    have load: "load_table_schema_at_snapshot known p t s db = Some y"
      using r(1) y by (simp add: load_eq_newest_version [OF ok])
    have max: "s' \<le> ts_snapshot y" if "db_version known p db t s' \<noteq> None" "s' \<le> s" for s'
      using that row [of s'] r(3) sy by auto
    have le: "ts_snapshot y \<le> s" using r(2) sy by simp
    show ?thesis
    proof
      assume "load_table_schema_at_snapshot known p t s db = Some x"
      with load y sy le max show "db_version known p db t (ts_snapshot x) = Some x \<and> ts_snapshot x \<le> s \<and>
          (\<forall>s'. db_version known p db t s' \<noteq> None \<longrightarrow> s' \<le> s \<longrightarrow> s' \<le> ts_snapshot x)"
        by auto
    next
      assume x: "db_version known p db t (ts_snapshot x) = Some x \<and> ts_snapshot x \<le> s \<and>
          (\<forall>s'. db_version known p db t s' \<noteq> None \<longrightarrow> s' \<le> s \<longrightarrow> s' \<le> ts_snapshot x)"
      then have "ts_snapshot x \<le> ts_snapshot y" using max by auto
      moreover have "ts_snapshot y \<le> ts_snapshot x" using x y sy le by auto
      ultimately have eq: "ts_snapshot x = ts_snapshot y" by (rule antisym)
      from x have "db_version known p db t (ts_snapshot x) = Some x" by blast
      with y have "x = y" unfolding eq sy by simp
      with load show "load_table_schema_at_snapshot known p t s db = Some x" by blast
    qed
  qed
qed

subsection \<open>Storing a version\<close>

text \<open>
  What a stored schema reads back as: columns in ordinal order, types outside the
  type mapping as \<open>TEXT\<close>.
\<close>

definition stored_form :: "string list \<Rightarrow> table_schema \<Rightarrow> table_schema" where
  "stored_form known x = x \<lparr> ts_columns :=
     map (\<lambda>c. c \<lparr> cs_typ := string_to_postgres_type known (postgres_type_to_string known (cs_typ c)) \<rparr>)
       (sort_key cs_ordinal (ts_columns x)) \<rparr>"

lemma parse_column_to_row:
  "parse_column_schema known (column_to_row known i c) =
     c \<lparr> cs_typ := string_to_postgres_type known (postgres_type_to_string known (cs_typ c)) \<rparr>"
  by (simp add: parse_column_schema_def column_to_row_def)

lemma stored_form_id:
  assumes "sorted (map cs_ordinal (ts_columns x))" "\<forall>c \<in> set (ts_columns x). cs_typ c \<in> set known"
  shows "stored_form known x = x"
proof -
  have "sort_key cs_ordinal (ts_columns x) = ts_columns x"
    using assms(1) by (rule sort_key_id_if_sorted)
  moreover have "map (\<lambda>c. c \<lparr> cs_typ := string_to_postgres_type known (postgres_type_to_string known (cs_typ c)) \<rparr>)
      (ts_columns x) = ts_columns x"
    using assms(2) by (intro map_idI) (auto simp: string_to_postgres_type_def postgres_type_to_string_def)
  ultimately show ?thesis by (simp add: stored_form_def)
qed

lemma sort_key_map: "sort_key f (map g xs) = map g (sort_key (\<lambda>x. f (g x)) xs)"
proof (induction xs)
  case (Cons x xs)
  have "insort_key f (g x) (map g ys) = map g (insort_key (\<lambda>x. f (g x)) x ys)" for ys
    by (induction ys) auto
  with Cons show ?case by simp
qed simp

definition put_schema_row :: "pipeline_id \<Rightarrow> table_schema \<Rightarrow> schema_tables \<Rightarrow> nat \<times> schema_row list \<times> nat" where
  "put_schema_row p x db =
     (let key = schema_key p (ts_id x) (ts_snapshot x) in
      case find key (stb_schemas db) of
        Some r \<Rightarrow> (tr_id r,
          map (\<lambda>r. if key r then r \<lparr> tr_schema_name := tn_schema (ts_name x),
                                     tr_table_name := tn_name (ts_name x) \<rparr> else r)
              (stb_schemas db), stb_next db)
      | None \<Rightarrow> (stb_next db,
          stb_schemas db @ [\<lparr> tr_id = stb_next db, tr_pipeline = p, tr_table = ts_id x,
             tr_schema_name = tn_schema (ts_name x), tr_table_name = tn_name (ts_name x),
             tr_snapshot = ts_snapshot x \<rparr>], Suc (stb_next db)))"

lemma sql_store_table_schema_Inr:
  assumes "sql_store_table_schema known p x db = Inr db'"
  obtains i rows n where "put_schema_row p x db = (i, rows, n)"
    "db' = \<lparr> stb_schemas = rows,
      stb_columns = filter (\<lambda>c. tc_schema_id c \<noteq> i) (stb_columns db) @ map (column_to_row known i) (ts_columns x),
      stb_next = n \<rparr>"
  using assms that
  by (auto simp: sql_store_table_schema_def put_schema_row_def Let_def split: option.splits if_splits)

definition put_ok :: "pipeline_id \<Rightarrow> table_schema \<Rightarrow> schema_tables \<Rightarrow> nat \<Rightarrow> schema_row list \<Rightarrow> nat \<Rightarrow> bool" where
  "put_ok p x db i rows n \<longleftrightarrow>
     (\<exists>r \<in> set rows. tr_id r = i \<and> schema_key p (ts_id x) (ts_snapshot x) r \<and>
        tr_schema_name r = tn_schema (ts_name x) \<and> tr_table_name r = tn_name (ts_name x)) \<and>
     (\<forall>r. \<not> schema_key p (ts_id x) (ts_snapshot x) r \<longrightarrow> r \<in> set rows \<longleftrightarrow> r \<in> set (stb_schemas db)) \<and>
     distinct (map (\<lambda>r. (tr_pipeline r, tr_table r, tr_snapshot r)) rows) \<and>
     distinct (map tr_id rows) \<and> (\<forall>r \<in> set rows. tr_id r < n) \<and> i < n \<and> stb_next db \<le> n"

lemma put_ok_new:
  assumes ok: "schema_tables_ok db" and put: "put_schema_row p x db = (i, rows, n)"
    and None: "find (schema_key p (ts_id x) (ts_snapshot x)) (stb_schemas db) = None"
  shows "put_ok p x db i rows n"
proof -
  have no: "\<forall>r \<in> set (stb_schemas db). \<not> schema_key p (ts_id x) (ts_snapshot x) r"
    using None by (simp add: find_None_iff)
  show ?thesis using put None no ok [unfolded schema_tables_ok_def]
    by (auto simp: put_ok_def put_schema_row_def schema_key_def less_Suc_eq) fastforce+
qed

lemma put_ok_existing:
  assumes ok: "schema_tables_ok db" and put: "put_schema_row p x db = (i, rows, n)"
    and Some: "find (schema_key p (ts_id x) (ts_snapshot x)) (stb_schemas db) = Some r0"
  shows "put_ok p x db i rows n"
proof -
  let ?key = "schema_key p (ts_id x) (ts_snapshot x)"
  let ?f = "\<lambda>r. if ?key r then r \<lparr> tr_schema_name := tn_schema (ts_name x),
      tr_table_name := tn_name (ts_name x) \<rparr> else r"
  have keys: "map (\<lambda>r. (tr_pipeline r, tr_table r, tr_snapshot r)) (map ?f rs) =
      map (\<lambda>r. (tr_pipeline r, tr_table r, tr_snapshot r)) rs" "map tr_id (map ?f rs) = map tr_id rs" for rs
    by (induction rs) auto
  have key_f: "?key (?f r) = ?key r" for r by (simp add: schema_key_def)
  have r0: "r0 \<in> set (stb_schemas db)" "?key r0" using Some find_eq_Some_in by fast+
  have rows: "rows = map ?f (stb_schemas db)" "i = tr_id r0" "n = stb_next db"
    using put Some by (auto simp: put_schema_row_def)
  have "?f r0 \<in> set rows" using r0 rows by simp
  moreover have "tr_id (?f r0) = i" "?key (?f r0)" "tr_schema_name (?f r0) = tn_schema (ts_name x)"
      "tr_table_name (?f r0) = tn_name (ts_name x)"
    using r0(2) key_f [of r0] by (simp_all add: rows(2))
  moreover have "\<not> ?key r \<longrightarrow> r \<in> set rows \<longleftrightarrow> r \<in> set (stb_schemas db)" for r
  proof (intro impI iffI)
    assume nk: "\<not> ?key r"
    show "r \<in> set rows" if "r \<in> set (stb_schemas db)"
      using nk that by (auto simp: rows(1) image_iff intro!: bexI [of _ r])
    assume "r \<in> set rows"
    then obtain q where q: "q \<in> set (stb_schemas db)" "r = ?f q" unfolding rows(1) by auto
    then have "\<not> ?key q" using nk key_f by blast
    with q show "r \<in> set (stb_schemas db)" by simp
  qed
  moreover have "distinct (map tr_id rows)" "\<forall>r \<in> set rows. tr_id r < n" "i < n"
      "distinct (map (\<lambda>r. (tr_pipeline r, tr_table r, tr_snapshot r)) rows)"
    using ok [unfolded schema_tables_ok_def] r0(1) unfolding rows by (auto simp only: keys) (auto simp: rows(1))
  ultimately show ?thesis unfolding put_ok_def rows(3) by blast
qed

lemma put_schema_row_facts:
  assumes ok: "schema_tables_ok db" and put: "put_schema_row p x db = (i, rows, n)"
  shows "\<exists>r \<in> set rows. tr_id r = i \<and> schema_key p (ts_id x) (ts_snapshot x) r \<and>
           tr_schema_name r = tn_schema (ts_name x) \<and> tr_table_name r = tn_name (ts_name x)"
    and "\<not> schema_key p (ts_id x) (ts_snapshot x) r \<Longrightarrow>
           r \<in> set rows \<longleftrightarrow> r \<in> set (stb_schemas db)"
    and "r \<in> set rows \<Longrightarrow> \<not> schema_key p (ts_id x) (ts_snapshot x) r \<Longrightarrow> tr_id r \<noteq> i"
    and "distinct (map (\<lambda>r. (tr_pipeline r, tr_table r, tr_snapshot r)) rows)" "distinct (map tr_id rows)"
    and "r \<in> set rows \<Longrightarrow> tr_id r < n" "i < n" "stb_next db \<le> n"
proof -
  have "put_ok p x db i rows n"
    using put_ok_new [OF assms] put_ok_existing [OF assms]
    by (cases "find (schema_key p (ts_id x) (ts_snapshot x)) (stb_schemas db)") auto
  then show "\<exists>r \<in> set rows. tr_id r = i \<and> schema_key p (ts_id x) (ts_snapshot x) r \<and>
        tr_schema_name r = tn_schema (ts_name x) \<and> tr_table_name r = tn_name (ts_name x)"
      "\<not> schema_key p (ts_id x) (ts_snapshot x) r \<Longrightarrow> r \<in> set rows \<longleftrightarrow> r \<in> set (stb_schemas db)"
      "distinct (map (\<lambda>r. (tr_pipeline r, tr_table r, tr_snapshot r)) rows)" "distinct (map tr_id rows)"
      "r \<in> set rows \<Longrightarrow> tr_id r < n" "i < n" "stb_next db \<le> n"
    unfolding put_ok_def by blast+
  then show "r \<in> set rows \<Longrightarrow> \<not> schema_key p (ts_id x) (ts_snapshot x) r \<Longrightarrow> tr_id r \<noteq> i"
    by (auto simp: distinct_map dest: inj_onD)
qed

lemma sql_store_ok:
  assumes ok: "schema_tables_ok db" and st: "sql_store_table_schema known p x db = Inr db'"
    and ne: "ts_columns x \<noteq> []"
  shows "schema_tables_ok db'"
proof -
  obtain i rows n where put: "put_schema_row p x db = (i, rows, n)"
    and db': "db' = \<lparr> stb_schemas = rows,
      stb_columns = filter (\<lambda>c. tc_schema_id c \<noteq> i) (stb_columns db) @ map (column_to_row known i) (ts_columns x),
      stb_next = n \<rparr>"
    using sql_store_table_schema_Inr [OF st] .
  note facts = put_schema_row_facts [OF ok put]
  let ?key = "schema_key p (ts_id x) (ts_snapshot x)"
  have "\<exists>c \<in> set (stb_columns db'). tc_schema_id c = tr_id r" if r: "r \<in> set rows" for r
  proof (cases "tr_id r = i")
    case True
    obtain c where "c \<in> set (ts_columns x)" using ne by (cases "ts_columns x") auto
    then have "column_to_row known i c \<in> set (stb_columns db')" by (simp add: db')
    with True show ?thesis by (intro bexI) (simp_all add: column_to_row_def)
  next
    case False
    then have "\<not> ?key r"
      using r facts(1,4) unfolding schema_key_def distinct_map inj_on_def by fastforce
    then have "r \<in> set (stb_schemas db)" using facts(2) r by blast
    then obtain c where "c \<in> set (stb_columns db)" "tc_schema_id c = tr_id r"
      using ok by (auto simp: schema_tables_ok_def)
    with False show ?thesis by (auto simp: db')
  qed
  moreover have "tc_schema_id c < n" if "c \<in> set (stb_columns db')" for c
    using that facts(7,8) ok by (auto simp: db' schema_tables_ok_def column_to_row_def)
  ultimately show ?thesis
    using facts(4,5,6) by (simp add: schema_tables_ok_def db')
qed

lemma db_version_store:
  assumes ok: "schema_tables_ok db" and st: "sql_store_table_schema known p x db = Inr db'"
    and ne: "ts_columns x \<noteq> []"
  shows "db_version known p' db' t s =
     (if (p', t, s) = (p, ts_id x, ts_snapshot x) then Some (stored_form known x)
      else db_version known p' db t s)"
proof -
  obtain i rows n where put: "put_schema_row p x db = (i, rows, n)"
    and db': "db' = \<lparr> stb_schemas = rows,
      stb_columns = filter (\<lambda>c. tc_schema_id c \<noteq> i) (stb_columns db) @ map (column_to_row known i) (ts_columns x),
      stb_next = n \<rparr>"
    using sql_store_table_schema_Inr [OF st] .
  note facts = put_schema_row_facts [OF ok put] and ok' = sql_store_ok [OF assms]
  let ?key = "schema_key p (ts_id x) (ts_snapshot x)"
  have cols: "filter (\<lambda>c. tc_schema_id c = j) (map (column_to_row known i) cs) =
      (if j = i then map (column_to_row known i) cs else [])" for j cs
    by (induction cs) (auto simp: column_to_row_def)
  show ?thesis
  proof (cases "(p', t, s) = (p, ts_id x, ts_snapshot x)")
    case True
    obtain r where r: "r \<in> set rows" "tr_id r = i" "?key r"
        "tr_schema_name r = tn_schema (ts_name x)" "tr_table_name r = tn_name (ts_name x)"
      using facts(1) by blast
    have "filter (\<lambda>c. tc_schema_id c = i) (stb_columns db') = map (column_to_row known i) (ts_columns x)"
      by (simp add: db' cols)
    with r ne have "schema_of_row known db' r = Some (stored_form known x)"
      by (simp add: schema_of_row_eq Let_def sort_key_map sort_key_Nil_iff stored_form_def o_def
          schema_key_def parse_column_to_row) (simp add: column_to_row_def)
    moreover have "r \<in> set (stb_schemas db')" using r(1) by (simp add: db')
    ultimately have "db_version known p db' (ts_id x) (ts_snapshot x) = Some (stored_form known x)"
      using r(3) by (auto simp: db_version_Some_iff [OF ok'])
    with True show ?thesis by simp
  next
    case False
    then have other: "schema_key p' t s r \<Longrightarrow> \<not> ?key r" for r by (auto simp: schema_key_def)
    have "schema_of_row known db' r = schema_of_row known db r" if "r \<in> set rows" "schema_key p' t s r" for r
    proof -
      have "tr_id r \<noteq> i" using facts(3) that other by blast
      then have "filter (\<lambda>c. tc_schema_id c = tr_id r) (stb_columns db') =
          filter (\<lambda>c. tc_schema_id c = tr_id r) (stb_columns db)"
        by (auto simp: db' cols intro!: filter_cong)
      then show ?thesis by (simp add: schema_of_row_eq)
    qed
    then have "db_version known p' db' t s = Some y \<longleftrightarrow> db_version known p' db t s = Some y" for y
      using facts(2) other unfolding db_version_Some_iff [OF ok'] db_version_Some_iff [OF ok]
      by (auto simp: db')
    then have "db_version known p' db' t s = db_version known p' db t s" by (metis not_None_eq)
    with False show ?thesis by auto
  qed
qed

subsection \<open>Deleting versions\<close>

lemma delete_schema_rows_keeps_columns:
  assumes ok: "schema_tables_ok db" and r: "r \<in> set (stb_schemas db)" "\<not> P r"
  shows "filter (\<lambda>c. tc_schema_id c = tr_id r) (stb_columns (delete_schema_rows P db)) =
         filter (\<lambda>c. tc_schema_id c = tr_id r) (stb_columns db)"
proof -
  have "tr_id q \<noteq> tr_id r" if "q \<in> set (stb_schemas db)" "P q" for q
    using ok r that by (auto simp: schema_tables_ok_def distinct_map dest: inj_onD)
  then show ?thesis
    by (auto simp: delete_schema_rows_def Let_def intro!: filter_cong)
qed

lemma delete_schema_rows_ok:
  assumes ok: "schema_tables_ok db"
  shows "schema_tables_ok (delete_schema_rows P db)"
proof -
  have "\<exists>c \<in> set (stb_columns (delete_schema_rows P db)). tc_schema_id c = tr_id r"
    if r: "r \<in> set (stb_schemas db)" "\<not> P r" for r
  proof -
    have "filter (\<lambda>c. tc_schema_id c = tr_id r) (stb_columns db) \<noteq> []"
      using ok r(1) by (auto simp: schema_tables_ok_def filter_empty_conv)
    then have "filter (\<lambda>c. tc_schema_id c = tr_id r) (stb_columns (delete_schema_rows P db)) \<noteq> []"
      by (simp only: delete_schema_rows_keeps_columns [of db r P, OF ok r] not_False_eq_True)
    then show ?thesis by (auto simp: filter_empty_conv)
  qed
  with ok show ?thesis
    by (auto simp: schema_tables_ok_def distinct_map_filter) (auto simp: delete_schema_rows_def Let_def distinct_map_filter)
qed

lemma db_version_delete:
  assumes ok: "schema_tables_ok db"
  shows "db_version known p (delete_schema_rows P db) t s =
     (if \<exists>r \<in> set (stb_schemas db). schema_key p t s r \<and> P r then None else db_version known p db t s)"
proof -
  note ok' = delete_schema_rows_ok [OF ok, of P]
  have rows: "stb_schemas (delete_schema_rows P db) = filter (\<lambda>r. \<not> P r) (stb_schemas db)"
    by (simp add: delete_schema_rows_def Let_def)
  have same: "schema_of_row known (delete_schema_rows P db) r = schema_of_row known db r"
    if "r \<in> set (stb_schemas db)" "\<not> P r" for r
    by (simp add: schema_of_row_eq delete_schema_rows_keeps_columns [of db r P, OF ok that])
  have uniq: "r = q" if "r \<in> set (stb_schemas db)" "q \<in> set (stb_schemas db)"
      "schema_key p t s r" "schema_key p t s q" for r q
    using that ok by (auto simp: schema_tables_ok_def schema_key_def distinct_map dest!: inj_onD)
  show ?thesis
  proof (cases "\<exists>r \<in> set (stb_schemas db). schema_key p t s r \<and> P r")
    case True
    then have "db_version known p (delete_schema_rows P db) t s = None"
      using uniq by (auto simp: db_version_None_iff [OF ok'] rows)
    with True show ?thesis by simp
  next
    case False
    have "db_version known p (delete_schema_rows P db) t s = Some x \<longleftrightarrow> db_version known p db t s = Some x" for x
      using False same unfolding db_version_Some_iff [OF ok'] db_version_Some_iff [OF ok] rows by auto
    then have "db_version known p (delete_schema_rows P db) t s = db_version known p db t s"
      by (metis not_None_eq)
    with False show ?thesis by auto
  qed
qed

lemma retained_snapshot_eq:
  assumes ok: "schema_tables_ok db"
  shows "retained_snapshot p t l (stb_schemas db) =
     map_option ts_snapshot (load_table_schema_at_snapshot known p t l db)"
proof (cases "filter (\<lambda>r. tr_pipeline r = p \<and> tr_table r = t \<and> tr_snapshot r \<le> l) (stb_schemas db) = []")
  case True
  then show ?thesis
    by (simp add: retained_snapshot_def load_table_schema_at_snapshot_def newest_schema_row_def)
next
  case False
  then obtain r where r: "newest_schema_row (filter (\<lambda>r. tr_pipeline r = p \<and> tr_table r = t \<and> tr_snapshot r \<le> l)
      (stb_schemas db)) = Some r" "r \<in> set (stb_schemas db)"
    using newest_schema_row_Some [OF False] by auto
  obtain x where "schema_of_row known db r = Some x" "ts_snapshot x = tr_snapshot r"
    using schema_of_row_ok [OF ok r(2)] .
  with r show ?thesis by (simp add: retained_snapshot_def load_table_schema_at_snapshot_def)
qed

lemma load_after_delete_obsolete:
  assumes ok: "schema_tables_ok db" and "retentions t = Some l" "l \<le> s"
  shows "load_table_schema_at_snapshot known p t s (snd (delete_obsolete_table_schema_versions p retentions db)) =
         load_table_schema_at_snapshot known p t s db"
proof -
  let ?P = "obsolete_row p retentions (stb_schemas db)"
  have eq: "snd (delete_obsolete_table_schema_versions p retentions db) = delete_schema_rows ?P db"
    by (simp add: delete_obsolete_table_schema_versions_def Let_def)
  have P: "(\<exists>r \<in> set (stb_schemas db). schema_key p t s' r \<and> ?P r) \<longleftrightarrow>
      (\<exists>r \<in> set (stb_schemas db). schema_key p t s' r) \<and>
      (\<exists>x. load_table_schema_at_snapshot known p t l db = Some x \<and> s' < ts_snapshot x)" for s'
    using assms(2) retained_snapshot_eq [OF ok, of p t l known]
    by (cases "load_table_schema_at_snapshot known p t l db")
      (auto simp: obsolete_row_def schema_key_def)
  show ?thesis unfolding eq
    using assms(3) ok delete_schema_rows_ok [OF ok]
    by (intro db.lookup_after_drop [where r = l])
      (auto simp: db_version_delete [OF ok] P split: if_splits)
qed

end
