(* ===== verification/Postgres_Store.thy ===== *)
theory Postgres_Store
  imports Memory_Store Postgres_Tables
begin

text \<open>
  The Postgres-backed store, \<open>crates/etl/src/store/both/postgres.rs\<close>: the
  \<open>etl\<close> tables of the source database behind an in-memory cache.

  \<open>pd_up\<close> says whether the database answers. Every operation that opens a
  connection or a transaction fails while it does not, and leaves database and
  cache alone; a transaction is applied as a whole or not at all. Two arguments
  stand for code of other crates: \<open>c\<close>, the text forms of an LSN and a timestamp,
  and \<open>known\<close>, the constants of \<open>PgType\<close> listed in \<open>define_type_mappings!\<close>.
\<close>

section \<open>State\<close>

record pg_database =
  pd_up :: bool
  pd_states :: state_table
  pd_progress :: "progress_row list"
  pd_schemas :: schema_tables
  pd_metadata :: metadata_rows

record pg_cache =
  pc_phase_counts :: "string \<Rightarrow> 64 word option"
  pc_states :: "(table_id, phase) btree_map"
  pc_schemas :: snapshots
  pc_metadata :: "(table_id, destination_table_metadata) btree_map"

record postgres_store =
  pg_pipeline :: pipeline_id
  pg_db :: pg_database
  pg_cache :: pg_cache

definition max_cached_schemas_per_table :: nat where
  "max_cached_schemas_per_table = 2"

definition pg_new :: "pipeline_id \<Rightarrow> pg_database \<Rightarrow> postgres_store" where
  "pg_new p db = \<lparr> pg_pipeline = p, pg_db = db,
     pg_cache = \<lparr> pc_phase_counts = (\<lambda>_. None), pc_states = [], pc_schemas = [], pc_metadata = [] \<rparr> \<rparr>"

definition unavailable :: etl_error where
  "unavailable = from_sqlx_error SqlxIo []"

section \<open>The cache\<close>

fun count_phases :: "phase list \<Rightarrow> (string \<Rightarrow> 64 word option) \<Rightarrow> string \<Rightarrow> 64 word option" where
  "count_phases [] counts = counts"
| "count_phases (p # ps) counts =
     (let k = as_static_str (as_type p);
          n = (case counts k of None \<Rightarrow> 0 | Some n \<Rightarrow> n)
      in count_phases ps (counts(k \<mapsto> n + 1)))"

definition init_phase_counts :: "(table_id, phase) btree_map \<Rightarrow> pg_cache \<Rightarrow> pg_cache" where
  "init_phase_counts states ca = ca \<lparr> pc_phase_counts := count_phases (map snd states) (\<lambda>_. None) \<rparr>"

definition decrement_phase :: "phase \<Rightarrow> (string \<Rightarrow> 64 word option) \<Rightarrow> string \<Rightarrow> 64 word option" where
  "decrement_phase p counts =
     (let k = as_static_str (as_type p) in
      case counts k of None \<Rightarrow> counts | Some n \<Rightarrow> counts(k \<mapsto> saturating_sub n 1))"

definition set_table_state :: "table_id \<Rightarrow> phase \<Rightarrow> pg_cache \<Rightarrow> pg_cache" where
  "set_table_state t p ca =
     (let counts1 = (case bt_get (pc_states ca) t of
            Some old \<Rightarrow> decrement_phase old (pc_phase_counts ca)
          | None \<Rightarrow> pc_phase_counts ca);
          k = as_static_str (as_type p);
          n = (case counts1 k of None \<Rightarrow> 0 | Some n \<Rightarrow> n)
      in ca \<lparr> pc_phase_counts := counts1(k \<mapsto> saturating_add n 1),
             pc_states := bt_insert t p (pc_states ca) \<rparr>)"

definition remove_table_state :: "table_id \<Rightarrow> pg_cache \<Rightarrow> pg_cache" where
  "remove_table_state t ca = (case bt_get (pc_states ca) t of
      None \<Rightarrow> ca
    | Some old \<Rightarrow> ca \<lparr> pc_states := bt_remove t (pc_states ca),
                      pc_phase_counts := decrement_phase old (pc_phase_counts ca) \<rparr>)"

section \<open>Replication state\<close>

definition pg_get_state :: "postgres_store \<Rightarrow> table_id \<Rightarrow> phase option etl_result" where
  "pg_get_state s t = Inr (bt_get (pc_states (pg_cache s)) t)"

definition pg_get_states :: "postgres_store \<Rightarrow> (table_id, phase) btree_map etl_result" where
  "pg_get_states s = Inr (pc_states (pg_cache s))"

fun parse_state_rows ::
    "text_codec \<Rightarrow> state_row list \<Rightarrow> (table_id, phase) btree_map \<Rightarrow> (table_id, phase) btree_map etl_result" where
  "parse_state_rows c [] acc = Inr acc"
| "parse_state_rows c (r # rs) acc =
     res_bind (from_state_row c (sr_metadata r)) (\<lambda>p. parse_state_rows c rs (bt_insert (sr_table r) p acc))"

definition pg_load_states :: "text_codec \<Rightarrow> postgres_store \<Rightarrow> nat etl_result \<times> postgres_store" where
  "pg_load_states c s =
     (if \<not> pd_up (pg_db s) then (Inl unavailable, s)
      else (case parse_state_rows c
                   (get_table_replication_state_rows (pg_pipeline s) (pd_states (pg_db s))) [] of
          Inl e \<Rightarrow> (Inl e, s)
        | Inr states \<Rightarrow> (Inr (length states),
            s \<lparr> pg_cache := (init_phase_counts states (pg_cache s)) \<lparr> pc_states := states \<rparr> \<rparr>)))"

fun update_rows ::
    "pipeline_id \<Rightarrow> (table_id \<times> state_type \<times> json) list \<Rightarrow> state_table \<Rightarrow> (sqlx_error, state_table) result" where
  "update_rows p [] db = Inr db"
| "update_rows p ((t, st, m) # us) db =
     res_bind (update_replication_state_raw p t st m db) (update_rows p us)"

definition pg_update_states ::
    "text_codec \<Rightarrow> (table_id \<times> phase) list \<Rightarrow> postgres_store \<Rightarrow> unit etl_result \<times> postgres_store" where
  "pg_update_states c us s =
     (case res_map (\<lambda>(t, p). res_bind (to_storage_format c p) (\<lambda>sm. Inr (t, sm))) us of
        Inl e \<Rightarrow> (Inl e, s)
      | Inr db_updates \<Rightarrow>
          if \<not> pd_up (pg_db s) then (Inl unavailable, s)
          else (case update_rows (pg_pipeline s) db_updates (pd_states (pg_db s)) of
              Inl e \<Rightarrow> (Inl (from_sqlx_error e []), s)
            | Inr states \<Rightarrow> (Inr (),
                s \<lparr> pg_db := (pg_db s) \<lparr> pd_states := states \<rparr>,
                   pg_cache := fold (\<lambda>(t, p) ca. set_table_state t p ca) us (pg_cache s) \<rparr>)))"

definition pg_rollback_state ::
    "text_codec \<Rightarrow> table_id \<Rightarrow> postgres_store \<Rightarrow> phase etl_result \<times> postgres_store" where
  "pg_rollback_state c t s =
     (if \<not> pd_up (pg_db s) then (Inl unavailable, s)
      else (case rollback_replication_state (pg_pipeline s) t (pd_states (pg_db s)) of
          Inl e \<Rightarrow> (Inl (from_sqlx_error e []), s)
        | Inr (None, _) \<Rightarrow> (Inl (Single StateRollbackError ''Previous table state not found''
              (Some ''No previous state available to roll back to for this table'')), s)
        | Inr (Some row, states) \<Rightarrow> (case from_state_row c (sr_metadata row) of
              Inl e \<Rightarrow> (Inl e, s)
            | Inr p \<Rightarrow> (Inr p, s \<lparr> pg_db := (pg_db s) \<lparr> pd_states := states \<rparr>,
                                 pg_cache := set_table_state t p (pg_cache s) \<rparr>))))"

section \<open>Durable progress\<close>

definition pg_get_progress :: "postgres_store \<Rightarrow> worker_type \<Rightarrow> lsn option etl_result" where
  "pg_get_progress s w =
     (if \<not> pd_up (pg_db s) then Inl (etl_err SourceQueryFailed ''Replication progress loading failed'')
      else Inr (sql_get_progress (pg_pipeline s) (worker_type_str w) (progress_table_id w)
                  (pd_progress (pg_db s))))"

definition pg_upsert_progress ::
    "worker_type \<Rightarrow> lsn \<Rightarrow> postgres_store \<Rightarrow> lsn etl_result \<times> postgres_store" where
  "pg_upsert_progress w l s =
     (if \<not> pd_up (pg_db s) then (Inl (etl_err SourceQueryFailed ''Replication progress storage failed''), s)
      else let (stored, rows) = sql_upsert_progress (pg_pipeline s) (worker_type_str w)
                  (progress_table_id w) l (pd_progress (pg_db s))
           in (Inr stored, s \<lparr> pg_db := (pg_db s) \<lparr> pd_progress := rows \<rparr> \<rparr>))"

definition pg_delete_progress :: "worker_type \<Rightarrow> postgres_store \<Rightarrow> unit etl_result \<times> postgres_store" where
  "pg_delete_progress w s =
     (if \<not> pd_up (pg_db s) then (Inl (etl_err SourceQueryFailed ''Replication progress deletion failed''), s)
      else (Inr (), s \<lparr> pg_db := (pg_db s) \<lparr> pd_progress :=
              sql_delete_progress (pg_pipeline s) (worker_type_str w) (progress_table_id w)
                (pd_progress (pg_db s)) \<rparr> \<rparr>))"

section \<open>Destination metadata\<close>

definition pg_get_metadata ::
    "postgres_store \<Rightarrow> table_id \<Rightarrow> destination_table_metadata option etl_result" where
  "pg_get_metadata s t = Inr (bt_get (pc_metadata (pg_cache s)) t)"

definition pg_get_applied_metadata ::
    "postgres_store \<Rightarrow> table_id \<Rightarrow> applied_metadata option etl_result" where
  "pg_get_applied_metadata s t = (case bt_get (pc_metadata (pg_cache s)) t of
      None \<Rightarrow> Inr None
    | Some d \<Rightarrow> res_bind (into_applied d) (\<lambda>a. Inr (Some a)))"

definition pg_load_metadata :: "postgres_store \<Rightarrow> nat etl_result \<times> postgres_store" where
  "pg_load_metadata s =
     (if \<not> pd_up (pg_db s)
      then (Inl (etl_err SourceQueryFailed ''Destination tables metadata loading failed''), s)
      else let m = fold (\<lambda>(t, d) m. bt_insert t d m)
                     (sql_load_metadata (pg_pipeline s) (pd_metadata (pg_db s))) []
           in (Inr (length m), s \<lparr> pg_cache := (pg_cache s) \<lparr> pc_metadata := m \<rparr> \<rparr>))"

definition pg_store_metadata ::
    "table_id \<Rightarrow> destination_table_metadata \<Rightarrow> postgres_store \<Rightarrow> unit etl_result \<times> postgres_store" where
  "pg_store_metadata t d s =
     (if \<not> pd_up (pg_db s)
      then (Inl (etl_err SourceQueryFailed ''Destination table metadata storage failed''), s)
      else (Inr (), s \<lparr> pg_db := (pg_db s) \<lparr> pd_metadata :=
                          sql_store_metadata (pg_pipeline s) t d (pd_metadata (pg_db s)) \<rparr>,
                       pg_cache := (pg_cache s) \<lparr> pc_metadata :=
                          bt_insert t d (pc_metadata (pg_cache s)) \<rparr> \<rparr>))"

section \<open>Schemas\<close>

definition pg_get_schema ::
    "string list \<Rightarrow> table_id \<Rightarrow> snapshot_id \<Rightarrow> postgres_store
     \<Rightarrow> table_schema option etl_result \<times> postgres_store" where
  "pg_get_schema known t snap s =
     (case get_at_or_before (pc_schemas (pg_cache s)) t snap of
        Some x \<Rightarrow> (Inr (Some x), s)
      | None \<Rightarrow>
          if \<not> pd_up (pg_db s) then (Inl (etl_err SourceQueryFailed ''Table schema loading failed''), s)
          else (case load_table_schema_at_snapshot known (pg_pipeline s) t snap (pd_schemas (pg_db s)) of
              None \<Rightarrow> (Inr None, s)
            | Some x \<Rightarrow> (Inr (Some x),
                s \<lparr> pg_cache := (pg_cache s) \<lparr> pc_schemas :=
                  insert_with_eviction x max_cached_schemas_per_table (pc_schemas (pg_cache s)) \<rparr> \<rparr>)))"

definition pg_get_schemas :: "postgres_store \<Rightarrow> table_schema list etl_result" where
  "pg_get_schemas s = Inr (all_snapshots (pc_schemas (pg_cache s)))"

definition pg_load_schemas :: "string list \<Rightarrow> postgres_store \<Rightarrow> nat etl_result \<times> postgres_store" where
  "pg_load_schemas known s =
     (if \<not> pd_up (pg_db s) then (Inl (etl_err SourceQueryFailed ''Table schemas loading failed''), s)
      else let xs = load_table_schemas known (pg_pipeline s) (pd_schemas (pg_db s))
           in (Inr (length xs),
               s \<lparr> pg_cache := (pg_cache s) \<lparr> pc_schemas := replace_all xs (pc_schemas (pg_cache s)) \<rparr> \<rparr>))"

definition pg_store_schema ::
    "string list \<Rightarrow> table_schema \<Rightarrow> postgres_store \<Rightarrow> table_schema etl_result \<times> postgres_store" where
  "pg_store_schema known x s =
     (if \<not> pd_up (pg_db s) then (Inl (etl_err SourceQueryFailed ''Table schema storage failed''), s)
      else (case sql_store_table_schema known (pg_pipeline s) x (pd_schemas (pg_db s)) of
          Inl e \<Rightarrow> (Inl (etl_err SourceQueryFailed ''Table schema storage failed''), s)
        | Inr tables \<Rightarrow> (Inr x,
            s \<lparr> pg_db := (pg_db s) \<lparr> pd_schemas := tables \<rparr>,
               pg_cache := (pg_cache s) \<lparr> pc_schemas :=
                 insert_with_eviction x max_cached_schemas_per_table (pc_schemas (pg_cache s)) \<rparr> \<rparr>)))"

definition pg_prune_schemas ::
    "(table_id \<Rightarrow> table_schema_retention option) \<Rightarrow> postgres_store \<Rightarrow> 64 word etl_result \<times> postgres_store" where
  "pg_prune_schemas rs s =
     (if \<not> pd_up (pg_db s)
      then (Inl (etl_err SourceQueryFailed ''Obsolete table schema deletion failed''), s)
      else let (deleted, tables) = delete_obsolete_table_schema_versions (pg_pipeline s)
                 (\<lambda>t. map_option to_lsn (rs t)) (pd_schemas (pg_db s));
               (cached, _) = prune rs (pc_schemas (pg_cache s)) 0
           in (Inr (of_nat deleted),
               s \<lparr> pg_db := (pg_db s) \<lparr> pd_schemas := tables \<rparr>,
                  pg_cache := (pg_cache s) \<lparr> pc_schemas := cached \<rparr> \<rparr>))"

section \<open>Table lifecycle\<close>

definition pg_delete_table_state_for_scope ::
    "table_id \<Rightarrow> cleanup_scope \<Rightarrow> postgres_store \<Rightarrow> unit etl_result \<times> postgres_store" where
  "pg_delete_table_state_for_scope t scope s =
     (if \<not> pd_up (pg_db s) then (Inl unavailable, s)
      else let db = pg_db s; p = pg_pipeline s;
               states = (if scope = PipelineRemoval
                         then delete_replication_state_for_table p t (pd_states db) else pd_states db);
               db' = db \<lparr> pd_metadata := sql_delete_metadata p t (pd_metadata db),
                          pd_schemas := delete_table_schema_for_table p t (pd_schemas db),
                          pd_states := states,
                          pd_progress := sql_delete_progress_for_table p t (pd_progress db) \<rparr>;
               ca = (if scope = PipelineRemoval then remove_table_state t (pg_cache s) else pg_cache s)
           in (Inr (), s \<lparr> pg_db := db',
                 pg_cache := ca \<lparr> pc_schemas := remove_table t (pc_schemas ca),
                                  pc_metadata := bt_remove t (pc_metadata ca) \<rparr> \<rparr>))"

definition pg_clear_copy_state :: "table_id \<Rightarrow> postgres_store \<Rightarrow> unit etl_result \<times> postgres_store" where
  "pg_clear_copy_state t s = pg_delete_table_state_for_scope t CopyRestart s"

definition pg_delete_pipeline_state :: "table_id \<Rightarrow> postgres_store \<Rightarrow> unit etl_result \<times> postgres_store" where
  "pg_delete_pipeline_state t s = pg_delete_table_state_for_scope t PipelineRemoval s"

definition postgres_store_ops :: "text_codec \<Rightarrow> string list \<Rightarrow> postgres_store store_ops" where
  "postgres_store_ops c known =
     \<lparr> so_get_state = pg_get_state,
       so_get_states = pg_get_states,
       so_load_states = pg_load_states c,
       so_update_states = pg_update_states c,
       so_rollback_state = pg_rollback_state c,
       so_get_progress = pg_get_progress,
       so_upsert_progress = pg_upsert_progress,
       so_delete_progress = pg_delete_progress,
       so_load_metadata = pg_load_metadata,
       so_get_metadata = pg_get_metadata,
       so_get_applied_metadata = pg_get_applied_metadata,
       so_store_metadata = pg_store_metadata,
       so_load_schemas = pg_load_schemas known,
       so_get_schema = pg_get_schema known,
       so_store_schema = pg_store_schema known,
       so_prune_schemas = pg_prune_schemas,
       so_clear_copy_state = pg_clear_copy_state,
       so_delete_pipeline_state = pg_delete_pipeline_state \<rparr>"

section \<open>The store contract\<close>

text \<open>
  \<open>pg_inv\<close> holds once the replication states have been loaded: the rows of the
  pipeline are chained and decode, and the cache agrees with the current rows.
\<close>

definition decode_phase :: "text_codec \<Rightarrow> json option \<Rightarrow> phase" where
  "decode_phase c m = (case from_state_row c m of Inr p \<Rightarrow> p | Inl _ \<Rightarrow> Init)"

definition pg_stack_of :: "text_codec \<Rightarrow> postgres_store \<Rightarrow> table_id \<Rightarrow> phase list" where
  "pg_stack_of c s t = map (decode_phase c) (state_stack (pg_pipeline s) t (pd_states (pg_db s)))"

definition pg_phase_of :: "postgres_store \<Rightarrow> table_id \<Rightarrow> phase option" where
  "pg_phase_of s = bt_get (pc_states (pg_cache s))"

definition pg_progress_of :: "postgres_store \<Rightarrow> worker_type \<Rightarrow> lsn option" where
  "pg_progress_of s w = sql_get_progress (pg_pipeline s) (worker_type_str w) (progress_table_id w)
     (pd_progress (pg_db s))"

definition well_encoded :: "text_codec \<Rightarrow> json option \<Rightarrow> bool" where
  "well_encoded c m \<longleftrightarrow> (\<exists>p. storable p \<and> m = Some (phase_json c p))"

definition states_db_inv :: "text_codec \<Rightarrow> pipeline_id \<Rightarrow> state_table \<Rightarrow> bool" where
  "states_db_inv c p db \<longleftrightarrow> codec_ok c \<and> state_table_ok db \<and>
     (\<forall>t. \<forall>m \<in> set (state_stack p t db). well_encoded c m)"

definition pg_inv :: "text_codec \<Rightarrow> postgres_store \<Rightarrow> bool" where
  "pg_inv c s \<longleftrightarrow> states_db_inv c (pg_pipeline s) (pd_states (pg_db s)) \<and>
     bt_ok (pc_states (pg_cache s)) \<and>
     (\<forall>t. map_option persisted (pg_phase_of s t) =
          (case pg_stack_of c s t of [] \<Rightarrow> None | p # _ \<Rightarrow> Some p))"

lemma pg_invD:
  assumes "pg_inv c s"
  shows "codec_ok c" "bt_ok (pc_states (pg_cache s))" "state_table_ok (pd_states (pg_db s))"
    "m \<in> set (state_stack (pg_pipeline s) t (pd_states (pg_db s))) \<Longrightarrow> well_encoded c m"
    "map_option persisted (pg_phase_of s t) = (case pg_stack_of c s t of [] \<Rightarrow> None | p # _ \<Rightarrow> Some p)"
  using assms unfolding pg_inv_def states_db_inv_def by blast+

lemma from_state_row_json: "codec_ok c \<Longrightarrow> from_state_row c (Some (phase_json c p)) = Inr (persisted p)"
  by (simp add: from_state_row_def json_phase_json)

lemma decode_phase_json [simp]: "codec_ok c \<Longrightarrow> decode_phase c (Some (phase_json c p)) = persisted p"
  by (simp add: decode_phase_def from_state_row_json)

lemma storage_updates:
  assumes "res_map (\<lambda>(t, p). res_bind (to_storage_format c p) (\<lambda>sm. Inr (t, sm))) us = Inr ds"
  shows "\<forall>u \<in> set us. storable (snd u)"
    and "map (\<lambda>(t, st, m). (t, m)) ds = map (\<lambda>(t, p). (t, phase_json c p)) us"
proof -
  have "(\<forall>u \<in> set us. storable (snd u)) \<and>
      map (\<lambda>(t, st, m). (t, m)) ds = map (\<lambda>(t, p). (t, phase_json c p)) us"
    using assms
  proof (induction us arbitrary: ds)
    case (Cons u us)
    obtain t p where u: "u = (t, p)" by fastforce
    obtain y ds' where y: "res_bind (to_storage_format c p) (\<lambda>sm. Inr (t, sm)) = Inr y"
      "res_map (\<lambda>(t, p). res_bind (to_storage_format c p) (\<lambda>sm. Inr (t, sm))) us = Inr ds'"
      "ds = y # ds'"
      using Cons.prems unfolding u by (rule res_map_ConsE) simp
    from y(1) obtain st m where x: "to_storage_format c p = Inr (st, m)" "y = (t, st, m)"
      by (auto simp: res_bind_eq_Inr_iff)
    from x y(3) Cons.IH [OF y(2)] u show ?case
      using to_storage_format_ok_iff [of c p] to_storage_format_metadata [of c p] by simp
  qed simp
  then show "\<forall>u \<in> set us. storable (snd u)"
    "map (\<lambda>(t, st, m). (t, m)) ds = map (\<lambda>(t, p). (t, phase_json c p)) us" by auto
qed

lemma update_rows_effect:
  assumes "state_table_ok db"
  shows "\<exists>db'. update_rows p us db = Inr db' \<and> state_table_ok db' \<and>
    (\<forall>p' t. state_stack p' t db' =
       (if p' = p then rev (map (Some \<circ> snd) (filter (\<lambda>u. fst u = t) (map (\<lambda>(t, st, m). (t, m)) us))) else [])
       @ state_stack p' t db)"
  using assms
proof (induction us arbitrary: db)
  case (Cons u us)
  obtain t st m where u: "u = (t, st, m)" by (cases u) auto
  obtain db1 where db1: "update_replication_state_raw p t st m db = Inr db1"
    using update_replication_state_raw_eq [OF Cons.prems] by blast
  note step = state_table_ok_update [OF Cons.prems db1] state_stack_update [OF Cons.prems db1]
  from Cons.IH [OF step(1)] show ?case by (auto simp: u db1 step(2))
qed simp

lemma set_table_state_states [simp]:
  "pc_states (set_table_state t p ca) = bt_insert t p (pc_states ca)"
  "pc_schemas (set_table_state t p ca) = pc_schemas ca"
  "pc_metadata (set_table_state t p ca) = pc_metadata ca"
  by (simp_all add: set_table_state_def Let_def)

lemma fold_set_table_state:
  assumes "bt_ok (pc_states ca)"
  shows "bt_ok (pc_states (fold (\<lambda>(t, p) ca. set_table_state t p ca) us ca)) \<and>
    bt_get (pc_states (fold (\<lambda>(t, p) ca. set_table_state t p ca) us ca)) = bt_get (pc_states ca) ++ map_of (rev us)"
  using assms
proof (induction us arbitrary: ca)
  case (Cons u us)
  obtain t p where u: "u = (t, p)" by fastforce
  from Cons.IH [of "set_table_state t p ca"] Cons.prems show ?case
    by (simp add: u bt_get_insert fun_eq_iff map_add_def split: option.split)
qed simp

lemma pg_update_states_cases:
  assumes inv: "pg_inv c s" and upd: "pg_update_states c us s = (r, s')"
  obtains e where "r = Inl e" "s' = s"
  | states where "r = Inr ()" "\<forall>u \<in> set us. storable (snd u)" "state_table_ok states"
      "\<And>p' t. state_stack p' t states = (if p' = pg_pipeline s
          then rev (map (Some \<circ> phase_json c \<circ> snd) (filter (\<lambda>u. fst u = t) us)) else [])
        @ state_stack p' t (pd_states (pg_db s))"
      "s' = s \<lparr> pg_db := (pg_db s) \<lparr> pd_states := states \<rparr>,
               pg_cache := fold (\<lambda>(t, p) ca. set_table_state t p ca) us (pg_cache s) \<rparr>"
proof (cases "res_map (\<lambda>(t, p). res_bind (to_storage_format c p) (\<lambda>sm. Inr (t, sm))) us")
  case (Inl e)
  with upd have "r = Inl e" "s' = s" by (simp_all add: pg_update_states_def)
  with that(1) show ?thesis by simp
next
  case (Inr ds)
  show ?thesis
  proof (cases "pd_up (pg_db s)")
    case False
    with upd Inr have "r = Inl unavailable" "s' = s" by (simp_all add: pg_update_states_def)
    with that(1) show ?thesis by simp
  next
    case True
    have "state_table_ok (pd_states (pg_db s))" using inv by (simp add: pg_inv_def states_db_inv_def)
    then obtain states where st: "update_rows (pg_pipeline s) ds (pd_states (pg_db s)) = Inr states"
      "state_table_ok states"
      "\<And>p' t. state_stack p' t states = (if p' = pg_pipeline s
        then rev (map (Some \<circ> snd) (filter (\<lambda>u. fst u = t) (map (\<lambda>(t, st, m). (t, m)) ds))) else [])
        @ state_stack p' t (pd_states (pg_db s))"
      using update_rows_effect by blast
    have "map (Some \<circ> snd) (filter (\<lambda>u. fst u = t) (map (\<lambda>(t, p). (t, phase_json c p)) vs)) =
        map (Some \<circ> phase_json c \<circ> snd) (filter (\<lambda>u. fst u = t) vs)" for t and vs :: "(table_id \<times> phase) list"
      by (induction vs) auto
    then have stack: "state_stack p' t states = (if p' = pg_pipeline s
        then rev (map (Some \<circ> phase_json c \<circ> snd) (filter (\<lambda>u. fst u = t) us)) else [])
        @ state_stack p' t (pd_states (pg_db s))" for p' t
      using st(3) storage_updates(2) [OF Inr] by simp
    have r: "r = Inr ()" "s' = s \<lparr> pg_db := (pg_db s) \<lparr> pd_states := states \<rparr>,
        pg_cache := fold (\<lambda>(t, p) ca. set_table_state t p ca) us (pg_cache s) \<rparr>"
      using upd by (simp_all add: pg_update_states_def Inr True st(1))
    show ?thesis by (rule that(2) [OF r(1) storage_updates(1) [OF Inr] st(2) stack r(2)])
  qed
qed

lemma map_of_rev_filter:
  "map_of (rev us) t = (case rev (filter (\<lambda>u. fst u = t) us) of [] \<Rightarrow> None | u # _ \<Rightarrow> Some (snd u))"
proof -
  have "map_of vs t = (case filter (\<lambda>u. fst u = t) vs of [] \<Rightarrow> None | u # _ \<Rightarrow> Some (snd u))" for vs
    by (induction vs) auto
  then show ?thesis by (simp add: rev_filter)
qed

lemma pg_update_effect:
  assumes inv: "pg_inv c s" and upd: "pg_update_states c us s = (r, s')"
  shows "pg_inv c s'" "pg_progress_of s' = pg_progress_of s"
    "pg_phase_of s' = (if is_ok r then pg_phase_of s ++ map_of (rev us) else pg_phase_of s)"
    "pg_stack_of c s' t = (if is_ok r
       then rev (map (persisted \<circ> snd) (filter (\<lambda>u. fst u = t) us)) @ pg_stack_of c s t
       else pg_stack_of c s t)"
proof -
  note codec = pg_invD(1) [OF inv] and bt = pg_invD(2) [OF inv]
    and enc = pg_invD(4) [OF inv] and agree = pg_invD(5) [OF inv]
  from inv upd have "pg_inv c s' \<and> pg_progress_of s' = pg_progress_of s \<and>
    pg_phase_of s' = (if is_ok r then pg_phase_of s ++ map_of (rev us) else pg_phase_of s) \<and>
    (\<forall>t. pg_stack_of c s' t = (if is_ok r
       then rev (map (persisted \<circ> snd) (filter (\<lambda>u. fst u = t) us)) @ pg_stack_of c s t
       else pg_stack_of c s t))"
  proof (cases rule: pg_update_states_cases)
    case (1 e)
    with inv show ?thesis by simp
  next
    case (2 states)
    have stack: "pg_stack_of c s' t =
        rev (map (persisted \<circ> snd) (filter (\<lambda>u. fst u = t) us)) @ pg_stack_of c s t" for t
      using codec 2(4) [of "pg_pipeline s" t] by (simp add: pg_stack_of_def 2(5) rev_map)
    have phase: "pg_phase_of s' = pg_phase_of s ++ map_of (rev us)"
      using fold_set_table_state [OF bt] by (simp add: pg_phase_of_def 2(5))
    have "map_option persisted (pg_phase_of s' t) = (case pg_stack_of c s' t of [] \<Rightarrow> None | p # _ \<Rightarrow> Some p)" for t
      using agree [of t]
      by (cases "rev (filter (\<lambda>u. fst u = t) us)")
        (simp_all add: stack phase map_add_def map_of_rev_filter rev_map)
    moreover have "well_encoded c m" if "m \<in> set (state_stack (pg_pipeline s) t states)" for m t
      using that 2(2) enc by (auto simp: 2(4) well_encoded_def)
    moreover have "bt_ok (pc_states (pg_cache s'))"
      using fold_set_table_state [OF bt] by (simp add: 2(5))
    ultimately have "pg_inv c s'"
      using codec 2(3) by (simp add: pg_inv_def states_db_inv_def 2(5))
    with stack phase show ?thesis by (simp add: 2(1)) (simp add: 2(5) pg_progress_of_def fun_eq_iff)
  qed
  then show "pg_inv c s'" "pg_progress_of s' = pg_progress_of s"
    "pg_phase_of s' = (if is_ok r then pg_phase_of s ++ map_of (rev us) else pg_phase_of s)"
    "pg_stack_of c s' t = (if is_ok r
       then rev (map (persisted \<circ> snd) (filter (\<lambda>u. fst u = t) us)) @ pg_stack_of c s t
       else pg_stack_of c s t)" by auto
qed

lemma pg_rollback_cases:
  assumes "pg_rollback_state c t s = (r, s')"
  obtains e where "r = Inl e" "s' = s"
  | p row states where "r = Inr p" "from_state_row c (sr_metadata row) = Inr p"
      "rollback_replication_state (pg_pipeline s) t (pd_states (pg_db s)) = Inr (Some row, states)"
      "s' = s \<lparr> pg_db := (pg_db s) \<lparr> pd_states := states \<rparr>, pg_cache := set_table_state t p (pg_cache s) \<rparr>"
proof (cases "pd_up (pg_db s)")
  case False
  then show ?thesis using assms that(1) [of unavailable] by (simp add: pg_rollback_state_def)
next
  case up: True
  show ?thesis
  proof (cases "rollback_replication_state (pg_pipeline s) t (pd_states (pg_db s))")
    case (Inl e)
    then show ?thesis using assms up that(1) by (auto simp: pg_rollback_state_def)
  next
    case rb: (Inr x)
    then obtain row states where x: "x = (row, states)" by fastforce
    show ?thesis
    proof (cases row)
      case None
      then show ?thesis using assms up rb x that(1) by (auto simp: pg_rollback_state_def)
    next
      case row: (Some y)
      show ?thesis
      proof (cases "from_state_row c (sr_metadata y)")
        case (Inl e)
        have "r = Inl e" "s' = s" using assms by (simp_all add: pg_rollback_state_def up rb x row Inl rb)
        then show ?thesis by (rule that(1))
      next
        case p: (Inr p)
        have "r = Inr p" "s' = s \<lparr> pg_db := (pg_db s) \<lparr> pd_states := states \<rparr>, pg_cache := set_table_state t p (pg_cache s) \<rparr>"
          using assms by (simp_all add: pg_rollback_state_def up rb x row p)
        then show ?thesis using that(2) p rb [unfolded x row] by blast
      qed
    qed
  qed
qed

lemma pg_rollback_effect:
  assumes inv: "pg_inv c s" and rb: "pg_rollback_state c t s = (Inr p, s')"
  shows "pg_inv c s'" "pg_progress_of s' = pg_progress_of s" "pg_phase_of s' = (pg_phase_of s)(t \<mapsto> p)"
    "\<exists>q rest. pg_stack_of c s t = q # persisted p # rest \<and> pg_stack_of c s' t = persisted p # rest"
    "t' \<noteq> t \<Longrightarrow> pg_stack_of c s' t' = pg_stack_of c s t'"
proof -
  obtain row states where
    row: "from_state_row c (sr_metadata row) = Inr p"
      "rollback_replication_state (pg_pipeline s) t (pd_states (pg_db s)) = Inr (Some row, states)" and
    s': "s' = s \<lparr> pg_db := (pg_db s) \<lparr> pd_states := states \<rparr>, pg_cache := set_table_state t p (pg_cache s) \<rparr>"
    using rb by (cases rule: pg_rollback_cases) auto
  note codec = pg_invD(1) [OF inv] and bt = pg_invD(2) [OF inv] and ok = pg_invD(3) [OF inv]
    and enc = pg_invD(4) [OF inv] and agree = pg_invD(5) [OF inv]
  note pop = state_stack_rollback [OF ok row(2)]
  obtain m rest where stack: "state_stack (pg_pipeline s) t (pd_states (pg_db s)) = m # sr_metadata row # rest"
    "state_stack (pg_pipeline s) t states = sr_metadata row # rest" using pop(2) by blast
  have "well_encoded c (sr_metadata row)" using enc [of "sr_metadata row" t] stack(1) by simp
  then have p: "persisted p = p" "decode_phase c (sr_metadata row) = p"
    using row(1) codec by (auto simp: well_encoded_def from_state_row_json decode_phase_def)
  show phase: "pg_phase_of s' = (pg_phase_of s)(t \<mapsto> p)" using bt by (simp add: pg_phase_of_def s' bt_get_insert)
  show other: "pg_stack_of c s' t' = pg_stack_of c s t'" if "t' \<noteq> t" for t'
    using pop(3) [of "pg_pipeline s" t'] that by (simp add: pg_stack_of_def s')
  show "\<exists>q rest. pg_stack_of c s t = q # persisted p # rest \<and> pg_stack_of c s' t = persisted p # rest"
    using stack p by (simp add: pg_stack_of_def s')
  have "map_option persisted (pg_phase_of s' t') = (case pg_stack_of c s' t' of [] \<Rightarrow> None | p # _ \<Rightarrow> Some p)" for t'
    using agree [of t'] other [of t'] stack p by (cases "t' = t") (simp_all add: phase, simp add: pg_stack_of_def s')
  moreover have "well_encoded c m" if "m \<in> set (state_stack (pg_pipeline s) t' states)" for m t'
    using that enc [of m t'] stack pop(3) [of "pg_pipeline s" t'] by (cases "t' = t") auto
  ultimately show "pg_inv c s'" using codec bt pop(1) by (simp add: pg_inv_def states_db_inv_def s')
  show "pg_progress_of s' = pg_progress_of s" by (simp add: fun_eq_iff pg_progress_of_def s')
qed

lemma state_stack_delete:
  "state_stack p' t' (delete_replication_state_for_table p t db) =
     (if (p', t') = (p, t) then [] else state_stack p' t' db)"
  "state_table_ok db \<Longrightarrow> state_table_ok (delete_replication_state_for_table p t db)"
proof -
  have rows: "rows_of p' t' (delete_replication_state_for_table p t db) =
      (if (p', t') = (p, t) then [] else rows_of p' t' db)" for p' t'
    by (auto simp: rows_of_def delete_replication_state_for_table_def filter_empty_conv intro: filter_cong)
  then show "state_stack p' t' (delete_replication_state_for_table p t db) =
      (if (p', t') = (p, t) then [] else state_stack p' t' db)" by (simp add: state_stack_def)
  assume "state_table_ok db"
  moreover from this have "linked None (rows_of p' t' (delete_replication_state_for_table p t db))" for p' t'
    by (simp add: rows state_table_ok_def)
  ultimately show "state_table_ok (delete_replication_state_for_table p t db)"
    by (simp add: state_table_ok_def) (simp add: delete_replication_state_for_table_def distinct_map_filter)
qed

lemma remove_table_state_states [simp]:
  assumes "bt_ok (pc_states ca)"
  shows "bt_ok (pc_states (remove_table_state t ca))"
    "bt_get (pc_states (remove_table_state t ca)) = (bt_get (pc_states ca))(t := None)"
  using assms by (auto simp: remove_table_state_def bt_get_remove fun_eq_iff split: option.splits)

lemma worker_key_eq: "(worker_type_str w = ''table_sync'' \<and> progress_table_id w = Some t) \<longleftrightarrow> w = TableSync t"
  by (cases w) auto

lemma worker_key_inj:
  "worker_type_str w = worker_type_str w' \<and> progress_table_id w = progress_table_id w' \<longleftrightarrow> w = w'"
  by (cases w; cases w') auto

lemma pg_delete_effect:
  assumes inv: "pg_inv c s" and del: "pg_delete_table_state_for_scope t scope s = (Inr (), s')"
  shows "pg_inv c s'"
    "pg_phase_of s' = (if scope = PipelineRemoval then (pg_phase_of s)(t := None) else pg_phase_of s)"
    "pg_progress_of s' = (pg_progress_of s)(TableSync t := None)"
proof -
  have up: "pd_up (pg_db s)" using del by (auto simp: pg_delete_table_state_for_scope_def split: if_splits)
  let ?states = "if scope = PipelineRemoval
    then delete_replication_state_for_table (pg_pipeline s) t (pd_states (pg_db s)) else pd_states (pg_db s)"
  have s': "pg_pipeline s' = pg_pipeline s" "pd_states (pg_db s') = ?states"
    "pc_states (pg_cache s') = (if scope = PipelineRemoval
       then pc_states (remove_table_state t (pg_cache s)) else pc_states (pg_cache s))"
    "pd_progress (pg_db s') = sql_delete_progress_for_table (pg_pipeline s) t (pd_progress (pg_db s))"
    using del by (auto simp: pg_delete_table_state_for_scope_def up Let_def)
  note bt = pg_invD(2) [OF inv]
  show phase: "pg_phase_of s' = (if scope = PipelineRemoval then (pg_phase_of s)(t := None) else pg_phase_of s)"
    using bt by (simp add: pg_phase_of_def s')
  have stack: "state_stack (pg_pipeline s) t' (pd_states (pg_db s')) =
      (if scope = PipelineRemoval \<and> t' = t then [] else state_stack (pg_pipeline s) t' (pd_states (pg_db s)))" for t'
    by (simp add: s' state_stack_delete)
  have "map_option persisted (pg_phase_of s' t') = (case pg_stack_of c s' t' of [] \<Rightarrow> None | p # _ \<Rightarrow> Some p)" for t'
    using pg_invD(5) [OF inv, of t'] by (simp add: phase pg_stack_of_def s'(1) stack)
  moreover have "state_table_ok (pd_states (pg_db s'))"
    using pg_invD(3) [OF inv] by (simp add: s' state_stack_delete)
  ultimately show "pg_inv c s'"
    using pg_invD(1,4) [OF inv] bt by (simp add: pg_inv_def states_db_inv_def s'(1,3) stack)
  show "pg_progress_of s' = (pg_progress_of s)(TableSync t := None)"
    using worker_key_eq
    by (auto simp: fun_eq_iff pg_progress_of_def s' sql_delete_progress_for_table_def sql_get_delete_progress)
qed

lemma pg_delete_cases:
  assumes "pg_delete_table_state_for_scope t scope s = (r, s')"
  obtains "r = Inl unavailable" "s' = s" | "r = Inr ()"
  using assms by (cases "pd_up (pg_db s)") (auto simp: pg_delete_table_state_for_scope_def Let_def)

lemma pg_upsert_effect:
  assumes inv: "pg_inv c s" and ups: "pg_upsert_progress w l s = (r, s')"
  shows "pg_inv c s'" "pg_phase_of s' = pg_phase_of s"
    "case r of Inl _ \<Rightarrow> pg_progress_of s' = pg_progress_of s
     | Inr stored \<Rightarrow> pg_progress_of s' = (pg_progress_of s)(w \<mapsto> stored) \<and>
         stored = (case pg_progress_of s w of None \<Rightarrow> l | Some old \<Rightarrow> max old l)"
proof -
  have s': "pg_pipeline s' = pg_pipeline s" "pd_states (pg_db s') = pd_states (pg_db s)" "pg_cache s' = pg_cache s"
    using ups by (auto simp: pg_upsert_progress_def split: if_splits prod.splits)
  then show "pg_phase_of s' = pg_phase_of s" by (simp add: pg_phase_of_def)
  with inv s' show "pg_inv c s'" by (simp add: pg_inv_def pg_stack_of_def)
  show "case r of Inl _ \<Rightarrow> pg_progress_of s' = pg_progress_of s
     | Inr stored \<Rightarrow> pg_progress_of s' = (pg_progress_of s)(w \<mapsto> stored) \<and>
         stored = (case pg_progress_of s w of None \<Rightarrow> l | Some old \<Rightarrow> max old l)"
  proof (cases r)
    case (Inr stored)
    then obtain rows where u: "sql_upsert_progress (pg_pipeline s) (worker_type_str w) (progress_table_id w) l
        (pd_progress (pg_db s)) = (stored, rows)" "pd_progress (pg_db s') = rows"
      using ups by (auto simp: pg_upsert_progress_def split: if_splits prod.splits)
    show ?thesis using sql_get_upsert_progress [OF u(1)] worker_key_inj
      by (auto simp: Inr pg_progress_of_def fun_eq_iff s' u(2))
  qed (use ups in \<open>auto simp: pg_upsert_progress_def split: if_splits prod.splits\<close>)
qed

interpretation pg: state_store "postgres_store_ops c known" "pg_inv c" pg_phase_of "pg_stack_of c" pg_progress_of
  for c known
proof
  fix s s' s'' :: postgres_store and t t' w l p us r rp rl ol
  assume inv: "pg_inv c s"
  show "so_get_state (postgres_store_ops c known) s t = Inr (pg_phase_of s t)"
    by (simp add: postgres_store_ops_def pg_get_state_def pg_phase_of_def)
  show "so_get_progress (postgres_store_ops c known) s w = Inr ol \<Longrightarrow> ol = pg_progress_of s w"
    by (auto simp: postgres_store_ops_def pg_get_progress_def pg_progress_of_def split: if_splits)
  show "map_option persisted (pg_phase_of s t) = (case pg_stack_of c s t of [] \<Rightarrow> None | p # _ \<Rightarrow> Some p)"
    by (rule pg_invD(5) [OF inv])
  {
    assume "so_update_states (postgres_store_ops c known) us s = (r, s')"
    then have "pg_update_states c us s = (r, s')" by (simp add: postgres_store_ops_def)
    from pg_update_effect [OF inv this] show "pg_inv c s'" "pg_progress_of s' = pg_progress_of s"
        "pg_phase_of s' = (if is_ok r then pg_phase_of s ++ map_of (rev us) else pg_phase_of s)"
        "pg_stack_of c s' t = (if is_ok r
          then rev (map (persisted \<circ> snd) (filter (\<lambda>u. fst u = t) us)) @ pg_stack_of c s t
          else pg_stack_of c s t)" by blast+
  }
  {
    assume "so_rollback_state (postgres_store_ops c known) t s = (rp, s')"
    then have rb: "pg_rollback_state c t s = (rp, s')" by (simp add: postgres_store_ops_def)
    from rb consider e where "rp = Inl e" "s' = s" | q where "rp = Inr q"
      by (cases rule: pg_rollback_cases)
    note cases = this
    show "pg_inv c s'" "pg_progress_of s' = pg_progress_of s"
        "pg_phase_of s' = (case rp of Inl _ \<Rightarrow> pg_phase_of s | Inr p \<Rightarrow> (pg_phase_of s)(t \<mapsto> p))"
        "\<not> is_ok rp \<or> t' \<noteq> t \<Longrightarrow> pg_stack_of c s' t' = pg_stack_of c s t'"
      using cases inv rb pg_rollback_effect [OF inv] by (cases; simp)+
  }
  {
    assume "so_rollback_state (postgres_store_ops c known) t s = (Inr p, s')"
    then have rb: "pg_rollback_state c t s = (Inr p, s')" by (simp add: postgres_store_ops_def)
    from pg_rollback_effect(4) [OF inv rb]
    show "\<exists>q rest. pg_stack_of c s t = q # persisted p # rest \<and> pg_stack_of c s' t = persisted p # rest"
      "2 \<le> length (pg_stack_of c s t)" by auto
  }
  {
    assume "so_upsert_progress (postgres_store_ops c known) w l s = (rl, s')"
    then have "pg_upsert_progress w l s = (rl, s')" by (simp add: postgres_store_ops_def)
    from pg_upsert_effect [OF inv this] show "pg_inv c s'" "pg_phase_of s' = pg_phase_of s"
      "case rl of Inl _ \<Rightarrow> pg_progress_of s' = pg_progress_of s
       | Inr stored \<Rightarrow> pg_progress_of s' = (pg_progress_of s)(w \<mapsto> stored) \<and>
         stored = (case pg_progress_of s w of None \<Rightarrow> l | Some old \<Rightarrow> max old l)" by blast+
  }
  {
    assume "so_clear_copy_state (postgres_store_ops c known) t s = (r, s')"
    then have del: "pg_delete_table_state_for_scope t CopyRestart s = (r, s')"
      by (simp add: postgres_store_ops_def pg_clear_copy_state_def)
    show "pg_inv c s'" "pg_phase_of s' = pg_phase_of s"
      "pg_progress_of s' = (if is_ok r then (pg_progress_of s)(TableSync t := None) else pg_progress_of s)"
      using del inv pg_delete_effect [OF inv, of t CopyRestart s']
      by (cases rule: pg_delete_cases, simp, simp)+
  }
  {
    assume "so_delete_pipeline_state (postgres_store_ops c known) t s = (r, s')"
    then have del: "pg_delete_table_state_for_scope t PipelineRemoval s = (r, s')"
      by (simp add: postgres_store_ops_def pg_delete_pipeline_state_def)
    show "pg_inv c s'" "pg_phase_of s' = (if is_ok r then (pg_phase_of s)(t := None) else pg_phase_of s)"
      using del inv pg_delete_effect [OF inv, of t PipelineRemoval s']
      by (cases rule: pg_delete_cases, simp, simp)+
  }
qed

lemma pg_inv_frame:
  assumes "pg_inv c s" "pg_pipeline s' = pg_pipeline s" "pd_states (pg_db s') = pd_states (pg_db s)"
    "pd_progress (pg_db s') = pd_progress (pg_db s)" "pc_states (pg_cache s') = pc_states (pg_cache s)"
  shows "pg_inv c s' \<and> pg_phase_of s' = pg_phase_of s \<and> pg_progress_of s' = pg_progress_of s"
  using assms unfolding pg_inv_def pg_phase_of_def pg_stack_of_def
  by (simp add: fun_eq_iff pg_progress_of_def)

interpretation pg_store: pipeline_store "postgres_store_ops c known" "pg_inv c" pg_phase_of "pg_stack_of c" pg_progress_of
  for c known
proof
  fix s s' :: postgres_store and t snap x d rs states rx ry rn r
  assume inv: "pg_inv c s"
  show "so_get_states (postgres_store_ops c known) s = Inr states \<Longrightarrow> map_of states = pg_phase_of s"
    by (simp add: postgres_store_ops_def pg_get_states_def pg_phase_of_def)
  show "so_get_schema (postgres_store_ops c known) t snap s = (rx, s') \<Longrightarrow>
      pg_inv c s' \<and> pg_phase_of s' = pg_phase_of s \<and> pg_progress_of s' = pg_progress_of s"
    by (rule pg_inv_frame [OF inv])
      (auto simp: postgres_store_ops_def pg_get_schema_def split: option.splits if_splits)
  show "so_store_schema (postgres_store_ops c known) x s = (ry, s') \<Longrightarrow>
      pg_inv c s' \<and> pg_phase_of s' = pg_phase_of s \<and> pg_progress_of s' = pg_progress_of s"
    by (rule pg_inv_frame [OF inv])
      (auto simp: postgres_store_ops_def pg_store_schema_def split: sum.splits if_splits)
  show "so_prune_schemas (postgres_store_ops c known) rs s = (rn, s') \<Longrightarrow>
      pg_inv c s' \<and> pg_phase_of s' = pg_phase_of s \<and> pg_progress_of s' = pg_progress_of s"
    by (rule pg_inv_frame [OF inv])
      (auto simp: postgres_store_ops_def pg_prune_schemas_def split: prod.splits if_splits)
  show "so_store_metadata (postgres_store_ops c known) t d s = (r, s') \<Longrightarrow>
      pg_inv c s' \<and> pg_phase_of s' = pg_phase_of s \<and> pg_progress_of s' = pg_progress_of s"
    by (rule pg_inv_frame [OF inv])
      (auto simp: postgres_store_ops_def pg_store_metadata_def split: if_splits)
qed

section \<open>Loading after a restart\<close>

lemma parse_state_rows_ok:
  assumes "\<And>r. r \<in> set rs \<Longrightarrow> from_state_row c (sr_metadata r) = Inr (g r)" "bt_ok acc"
  shows "\<exists>m. parse_state_rows c rs acc = Inr m \<and> bt_ok m \<and>
    (\<forall>t. bt_get m t = (case rev (filter (\<lambda>r. sr_table r = t) rs) of
        [] \<Rightarrow> bt_get acc t | r # _ \<Rightarrow> Some (g r)))"
  using assms
proof (induction rs arbitrary: acc)
  case (Cons r rs)
  from Cons.IH [of "bt_insert (sr_table r) (g r) acc"] Cons.prems
  obtain m where m: "parse_state_rows c rs (bt_insert (sr_table r) (g r) acc) = Inr m" "bt_ok m"
    "\<And>t. bt_get m t = (case rev (filter (\<lambda>r. sr_table r = t) rs) of
        [] \<Rightarrow> bt_get (bt_insert (sr_table r) (g r) acc) t | r # _ \<Rightarrow> Some (g r))" by auto
  have "bt_get m t = (case rev (filter (\<lambda>r. sr_table r = t) (r # rs)) of
        [] \<Rightarrow> bt_get acc t | r # _ \<Rightarrow> Some (g r))" for t
    using Cons.prems(2) by (cases "rev (filter (\<lambda>r. sr_table r = t) rs)") (auto simp: m(3) bt_get_insert)
  with m(1,2) Cons.prems(1) [of r] show ?case by simp
qed simp

lemma current_rows_of_table:
  assumes "state_table_ok db"
  shows "filter (\<lambda>r. sr_table r = t) (get_table_replication_state_rows p db) =
     (if rows_of p t db = [] then [] else [last (rows_of p t db)])"
proof -
  have "filter (\<lambda>r. sr_table r = t) (get_table_replication_state_rows p db) = filter sr_current (rows_of p t db)"
    by (auto simp: get_table_replication_state_rows_def rows_of_def intro: filter_cong)
  then show ?thesis using assms linked_filter [of None "rows_of p t db"] by (simp add: state_table_ok_def)
qed

text \<open>Loading makes the cache agree with the current rows, whatever it held before.\<close>

lemma pg_load_states_effect:
  assumes db: "states_db_inv c (pg_pipeline s) (pd_states (pg_db s))" and up: "pd_up (pg_db s)"
  obtains n s' where "pg_load_states c s = (Inr n, s')" "pg_inv c s'" "pg_pipeline s' = pg_pipeline s"
    "pg_db s' = pg_db s"
    "\<And>t. pg_phase_of s' t = (case pg_stack_of c s t of [] \<Rightarrow> None | p # _ \<Rightarrow> Some p)"
proof -
  let ?p = "pg_pipeline s" and ?db = "pd_states (pg_db s)"
  let ?rs = "get_table_replication_state_rows ?p ?db"
  have ok: "state_table_ok ?db" and codec: "codec_ok c"
    and enc: "\<And>t m. m \<in> set (state_stack ?p t ?db) \<Longrightarrow> well_encoded c m"
    using db unfolding states_db_inv_def by blast+
  have dec: "from_state_row c (sr_metadata r) = Inr (decode_phase c (sr_metadata r))" if "r \<in> set ?rs" for r
  proof -
    have "sr_metadata r \<in> set (state_stack ?p (sr_table r) ?db)"
      using that by (auto simp: get_table_replication_state_rows_def state_stack_def rows_of_def)
    from enc [OF this] codec show ?thesis by (auto simp: well_encoded_def from_state_row_json)
  qed
  from parse_state_rows_ok [of ?rs c "\<lambda>r. decode_phase c (sr_metadata r)" "[]", OF dec]
  obtain m where m: "parse_state_rows c ?rs [] = Inr m" "bt_ok m"
    "\<And>t. bt_get m t = (case rev (filter (\<lambda>r. sr_table r = t) ?rs) of
        [] \<Rightarrow> bt_get [] t | r # _ \<Rightarrow> Some (decode_phase c (sr_metadata r)))" by auto
  define s' where "s' = s \<lparr> pg_cache := (init_phase_counts m (pg_cache s)) \<lparr> pc_states := m \<rparr> \<rparr>"
  have load: "pg_load_states c s = (Inr (length m), s')" by (simp add: pg_load_states_def up m(1) s'_def)
  have phase: "pg_phase_of s' t = (case pg_stack_of c s t of [] \<Rightarrow> None | p # _ \<Rightarrow> Some p)" for t
    by (cases "rows_of ?p t ?db" rule: rev_cases)
      (simp_all add: pg_phase_of_def s'_def m(3) current_rows_of_table [OF ok] pg_stack_of_def state_stack_def)
  have stack: "pg_stack_of c s' = pg_stack_of c s" by (simp add: fun_eq_iff pg_stack_of_def s'_def)
  have idem: "persisted p = p" if "p \<in> set (pg_stack_of c s t)" for p t
  proof -
    from that obtain x where "x \<in> set (state_stack ?p t ?db)" "p = decode_phase c x" by (auto simp: pg_stack_of_def)
    with enc [of x t] codec show ?thesis by (auto simp: well_encoded_def)
  qed
  have "map_option persisted (pg_phase_of s' t) = (case pg_stack_of c s' t of [] \<Rightarrow> None | p # _ \<Rightarrow> Some p)" for t
    using idem [of _ t] by (simp add: phase stack split: list.split)
  then have "pg_inv c s'" using db m(2) by (simp add: pg_inv_def s'_def)
  with that [OF load] phase show ?thesis by (simp add: s'_def)
qed

section \<open>Phase counters\<close>

definition phase_count :: "string \<Rightarrow> (table_id, phase) btree_map \<Rightarrow> nat" where
  "phase_count k m = length (filter (\<lambda>u. as_static_str (as_type (snd u)) = k) m)"

definition counts_ok :: "pg_cache \<Rightarrow> bool" where
  "counts_ok ca \<longleftrightarrow> bt_ok (pc_states ca) \<and>
     (\<forall>k. unat (case pc_phase_counts ca k of None \<Rightarrow> 0 | Some n \<Rightarrow> n) = phase_count k (pc_states ca))"

lemma bt_get_fresh:
  fixes k k' :: "'k::linorder"
  shows "\<forall>x \<in> set m. k' < fst x \<Longrightarrow> k \<le> k' \<Longrightarrow> bt_get m k = None"
  by (induction m) auto

abbreviation in_phase :: "string \<Rightarrow> phase option \<Rightarrow> nat" where
  "in_phase k q \<equiv> (case q of None \<Rightarrow> 0 | Some p \<Rightarrow> of_bool (as_static_str (as_type p) = k))"

lemma phase_count_Cons [simp]: "phase_count k ((t, p) # m) = in_phase k (Some p) + phase_count k m"
  by (simp add: phase_count_def)

lemma phase_count_insert:
  "bt_ok m \<Longrightarrow> phase_count k (bt_insert t p m) + in_phase k (bt_get m t) = phase_count k m + in_phase k (Some p)"
proof (induction t p m rule: bt_insert.induct)
  case (1 t p)
  then show ?case by (simp add: phase_count_def)
next
  case (2 t p t' p' m)
  then show ?case using bt_get_fresh [of m t' t] by (auto simp: bt_ok_Cons)
qed

lemma phase_count_remove:
  "bt_ok m \<Longrightarrow> phase_count k (bt_remove t m) + in_phase k (bt_get m t) = phase_count k m"
proof (induction m)
  case (Cons x m)
  obtain t' p where x: "x = (t', p)" by fastforce
  have "bt_remove t m = m" if "bt_get m t = None"
    using that by (auto simp: bt_remove_def map_of_eq_None_iff rev_image_eqI intro!: filter_True)
  then show ?case using Cons x bt_get_fresh [of m t' t]
    by (cases "t' = t") (auto simp: bt_ok_Cons bt_remove_def)
qed (simp add: bt_remove_def)

lemma bt_length_bound:
  fixes m :: "(table_id, 'v) btree_map"
  assumes "bt_ok m"
  shows "length m \<le> 2 ^ 32"
proof -
  have "length m = card (fst ` set m)"
    using distinct_card [OF bt_ok_distinct [OF assms]] by simp
  also have "\<dots> \<le> card (UNIV :: table_id set)" by (intro card_mono) auto
  finally show ?thesis by (simp add: card_word)
qed

lemma phase_count_bound:
  assumes "bt_ok m"
  shows "phase_count k m \<le> 2 ^ 32"
proof -
  have "length m \<le> 2 ^ 32" by (rule bt_length_bound [OF assms])
  then show ?thesis unfolding phase_count_def using length_filter_le le_trans by blast
qed

lemma unat_inc:
  fixes n :: "64 word"
  assumes "unat n \<le> 2 ^ 32"
  shows "unat (n + 1) = unat n + 1" "unat (saturating_add n 1) = unat n + 1"
  using assms by (simp_all add: unat_saturating_add unat_word_ariths)

lemma unat_dec_phase:
  "unat (case decrement_phase p counts k of None \<Rightarrow> 0 | Some n \<Rightarrow> n) =
     unat (case counts k of None \<Rightarrow> 0 | Some n \<Rightarrow> n) - in_phase k (Some p)"
  by (auto simp: decrement_phase_def Let_def unat_saturating_sub split: option.split)

lemma counts_ok_set:
  assumes ok: "counts_ok ca"
  shows "counts_ok (set_table_state t p ca)"
proof -
  let ?m = "pc_states ca" and ?k = "as_static_str (as_type p)"
  let ?n = "\<lambda>c k. unat (case c k of None \<Rightarrow> (0 :: 64 word) | Some n \<Rightarrow> n)"
  let ?c1 = "case bt_get ?m t of Some old \<Rightarrow> decrement_phase old (pc_phase_counts ca) | None \<Rightarrow> pc_phase_counts ca"
  have bt: "bt_ok ?m" and cnt: "\<And>k. ?n (pc_phase_counts ca) k = phase_count k ?m"
    using ok unfolding counts_ok_def by blast+
  have c1: "?n ?c1 k = phase_count k ?m - in_phase k (bt_get ?m t)" for k
    by (cases "bt_get ?m t") (simp_all add: unat_dec_phase cnt)
  moreover have "in_phase k (bt_get ?m t) \<le> phase_count k ?m" for k
    using phase_count_remove [OF bt, of k t] by linarith
  ultimately have count: "?n ?c1 k + in_phase k (Some p) = phase_count k (bt_insert t p ?m)" for k
    using phase_count_insert [OF bt, of k t p] by simp
  have "?n ?c1 ?k \<le> 2 ^ 32" using c1 [of ?k] phase_count_bound [OF bt, of ?k] by linarith
  then have "?n (pc_phase_counts (set_table_state t p ca)) k = ?n ?c1 k + in_phase k (Some p)" for k
    by (auto simp: set_table_state_def Let_def unat_inc)
  with count bt show ?thesis by (simp add: counts_ok_def)
qed

lemma counts_ok_remove:
  assumes ok: "counts_ok ca"
  shows "counts_ok (remove_table_state t ca)"
proof (cases "bt_get (pc_states ca) t")
  case None
  then show ?thesis using ok by (simp add: remove_table_state_def)
next
  case (Some old)
  have bt: "bt_ok (pc_states ca)" using ok by (simp add: counts_ok_def)
  have "unat (case decrement_phase old (pc_phase_counts ca) k of None \<Rightarrow> 0 | Some n \<Rightarrow> n) =
      phase_count k (bt_remove t (pc_states ca))" for k
    using ok phase_count_remove [OF bt, of k t] Some by (simp add: unat_dec_phase counts_ok_def)
  with bt show ?thesis by (simp add: counts_ok_def remove_table_state_def Some)
qed

lemma count_phases_eq:
  assumes "unat (case counts k of None \<Rightarrow> 0 | Some n \<Rightarrow> n) + length ps \<le> 2 ^ 32"
  shows "unat (case count_phases ps counts k of None \<Rightarrow> 0 | Some n \<Rightarrow> n) =
    unat (case counts k of None \<Rightarrow> 0 | Some n \<Rightarrow> n) + length (filter (\<lambda>p. as_static_str (as_type p) = k) ps)"
  using assms
proof (induction ps arbitrary: counts)
  case (Cons p ps)
  let ?k = "as_static_str (as_type p)"
  let ?n = "case counts ?k of None \<Rightarrow> 0 | Some n \<Rightarrow> n"
  let ?counts = "counts(?k \<mapsto> ?n + 1)"
  have eq: "unat (case ?counts k of None \<Rightarrow> 0 | Some n \<Rightarrow> n) =
      unat (case counts k of None \<Rightarrow> 0 | Some n \<Rightarrow> n) + of_bool (?k = k)"
  proof (cases "?k = k")
    case True
    with Cons.prems have "unat ?n \<le> 2 ^ 32" by simp
    with True show ?thesis by (auto simp: unat_inc)
  qed simp
  with Cons.prems have "unat (case ?counts k of None \<Rightarrow> 0 | Some n \<Rightarrow> n) + length ps \<le> 2 ^ 32" by auto
  note IH = Cons.IH [of ?counts, OF this]
  have "count_phases (p # ps) counts = count_phases ps ?counts" by (simp add: Let_def)
  then show ?case unfolding IH eq by (simp only: IH eq) auto
qed simp

lemma counts_ok_init:
  assumes "bt_ok m"
  shows "counts_ok ((init_phase_counts m ca) \<lparr> pc_states := m \<rparr>)"
proof -
  have "length m \<le> 2 ^ 32" by (rule bt_length_bound [OF assms])
  then have "unat (case count_phases (map snd m) (\<lambda>_. None) k of None \<Rightarrow> 0 | Some n \<Rightarrow> n) = phase_count k m" for k
    using count_phases_eq [of "\<lambda>_. None" k "map snd m"]
    by (simp add: phase_count_def filter_map comp_def)
  with assms show ?thesis by (simp add: counts_ok_def init_phase_counts_def)
qed

section \<open>Properties\<close>

lemma pg_inv_new: "codec_ok c \<Longrightarrow> pg_inv c (pg_new p \<lparr> pd_up = True,
    pd_states = \<lparr> st_rows = [], st_next = 0 \<rparr>, pd_progress = [], pd_schemas = ts, pd_metadata = md \<rparr>)"
  by (simp add: pg_inv_def states_db_inv_def pg_new_def pg_phase_of_def pg_stack_of_def
      state_table_ok_def state_stack_def rows_of_def)

text \<open>
  C12. A restarted pipeline that loads its replication states from the database
  sees, for every table, the phase the stopped process saw, up to the in-memory
  source error of an errored phase; the load succeeds whenever the database is
  reachable, durable progress is the same, and the phase counters are exact.
\<close>

theorem reload_restores_phases:
  assumes inv: "pg_inv c s" and up: "pd_up (pg_db s)"
  shows "\<exists>n s'. pg_load_states c (pg_new (pg_pipeline s) (pg_db s)) = (Inr n, s') \<and> pg_inv c s' \<and>
    (\<forall>t. pg_phase_of s' t = map_option persisted (pg_phase_of s t)) \<and>
    pg_progress_of s' = pg_progress_of s \<and> counts_ok (pg_cache s')"
proof -
  let ?s = "pg_new (pg_pipeline s) (pg_db s)"
  have new: "pg_pipeline ?s = pg_pipeline s" "pg_db ?s = pg_db s" by (simp_all add: pg_new_def)
  have "states_db_inv c (pg_pipeline ?s) (pd_states (pg_db ?s))" using inv by (simp add: pg_inv_def new)
  from this obtain n s' where s': "pg_load_states c ?s = (Inr n, s')" "pg_inv c s'" "pg_pipeline s' = pg_pipeline ?s"
    "pg_db s' = pg_db ?s" "\<And>t. pg_phase_of s' t = (case pg_stack_of c ?s t of [] \<Rightarrow> None | p # _ \<Rightarrow> Some p)"
    by (rule pg_load_states_effect) (simp_all add: new up)
  have "pg_phase_of s' t = map_option persisted (pg_phase_of s t)" for t
    using pg_invD(5) [OF inv, of t] by (simp add: s'(5) pg_stack_of_def new)
  moreover have "pg_progress_of s' = pg_progress_of s" by (simp add: fun_eq_iff pg_progress_of_def s' new)
  moreover have "counts_ok (pg_cache s')"
    using s'(1) pg_invD(2) [OF s'(2)] counts_ok_init
    by (auto simp: pg_load_states_def new up split: sum.splits)
  ultimately show ?thesis using s'(1,2) by blast
qed

theorem reload_restores_phases_witness:
  "\<exists>s n s'. pg_phase_of s 7 = Some (SyncDone 40) \<and>
     pg_load_states unary_codec (pg_new (pg_pipeline s) (pg_db s)) = (Inr n, s') \<and>
     pg_phase_of s' 7 = Some (SyncDone 40)"
proof -
  define s0 where "s0 = pg_new 1 \<lparr> pd_up = True, pd_states = \<lparr> st_rows = [], st_next = 0 \<rparr>, pd_progress = [],
    pd_schemas = \<lparr> stb_schemas = [], stb_columns = [], stb_next = 0 \<rparr>, pd_metadata = [] \<rparr>"
  define s where "s = snd (pg_update_states unary_codec [(7, SyncDone 40)] s0)"
  obtain r where upd: "pg_update_states unary_codec [(7, SyncDone 40)] s0 = (r, s)" by (metis prod.collapse s_def)
  have "pg_inv unary_codec s0" unfolding s0_def by (rule pg_inv_new [OF unary_codec_ok])
  note s = pg_update_effect(1) [OF this upd]
  have "pd_up (pg_db s)" "pg_phase_of s 7 = Some (SyncDone 40)"
    by (simp_all add: s_def s0_def pg_update_states_def to_storage_format_def pg_new_def pg_phase_of_def
        update_replication_state_raw_def)
  with reload_restores_phases [OF s] show ?thesis by fastforce
qed

end
