(* ===== verification/Apply_Start.thy ===== *)
theory Apply_Start
  imports Source_Client Copy_Partitions Effects Memory_Store Postgres_Store
begin

text \<open>
  The apply worker around its loop, \<open>etl/src/workers/apply.rs\<close>: where it starts reading the
  replication stream, what it does when its slot was invalidated, and how often it is
  restarted after an error. The state is the store and the source database.
\<close>

section \<open>State\<close>

record ('s, 'w) pipeline_world =
  pw_store :: 's
  pw_source :: 'w

definition on_store :: "('s \<Rightarrow> 'a etl_result \<times> 's) \<Rightarrow> (('s, 'w) pipeline_world, 'a) action" where
  "on_store f = act_on pw_store (\<lambda>s p. p \<lparr> pw_store := s \<rparr>) (act_call f)"

definition on_source :: "('w \<Rightarrow> 'a etl_result \<times> 'w) \<Rightarrow> (('s, 'w) pipeline_world, 'a) action" where
  "on_source f = act_on pw_source (\<lambda>s p. p \<lparr> pw_source := s \<rparr>) (act_call f)"

definition ask_store :: "('s \<Rightarrow> 'a etl_result) \<Rightarrow> (('s, 'w) pipeline_world, 'a) action" where
  "ask_store f p = (failable (f (pw_store p)), p)"

definition ask_source :: "('w \<Rightarrow> 'a etl_result) \<Rightarrow> (('s, 'w) pipeline_world, 'a) action" where
  "ask_source f p = (failable (f (pw_source p)), p)"

text \<open>The result of an action that may fail, as a value: what \<open>if let Err(err) = \<dots>\<close> looks at.\<close>

definition act_catch :: "('s, 'a) action \<Rightarrow> ('s, 'a etl_result) action" where
  "act_catch m s = (case m s of
       (Inr x, s') \<Rightarrow> (Inr (Inr x), s')
     | (Inl (Failed e), s') \<Rightarrow> (Inr (Inl e), s')
     | (Inl Blocked, s') \<Rightarrow> (Inl Blocked, s'))"

definition from_slot_error :: "slot_error \<Rightarrow> etl_error" where
  "from_slot_error e = (case e of
       InvalidSlotNameLength n \<Rightarrow> Single ValidationError ''Replication slot name exceeds maximum length'' (Some n)
     | InvalidSlotName n \<Rightarrow> Single ValidationError ''Replication slot name is invalid'' (Some n))"

definition slot_name_result :: "etl_replication_slot \<Rightarrow> string etl_result" where
  "slot_name_result slot = (case name_of_slot slot of Inl e \<Rightarrow> Inl (from_slot_error e) | Inr n \<Rightarrow> Inr n)"

section \<open>The start position\<close>

datatype invalidated_slot_behavior = BehaviorError | BehaviorRecreate

definition validate_tables_in_init_state :: "'s store_ops \<Rightarrow> (('s, 'w) pipeline_world, unit) action" where
  "validate_tables_in_init_state ops =
     act_bind (ask_store (so_get_states ops)) (\<lambda>states.
       if filter (\<lambda>x. as_type (snd x) \<noteq> InitT) states = [] then act_return ()
       else act_fail (etl_err InvalidState ''Cannot create apply worker slot when tables are not in Init state''))"

definition handle_invalidated_slot ::
    "'s store_ops \<Rightarrow> 'w source \<Rightarrow> string \<Rightarrow> invalidated_slot_behavior \<Rightarrow> (('s, 'w) pipeline_world, lsn) action" where
  "handle_invalidated_slot ops src slot_name behavior =
     (case behavior of
        BehaviorError \<Rightarrow> act_fail (etl_err ReplicationSlotInvalidated ''Replication slot has been invalidated'')
      | BehaviorRecreate \<Rightarrow>
          act_bind (ask_store (so_get_states ops)) (\<lambda>states.
          act_bind (on_store (so_update_states ops (map (\<lambda>x. (fst x, Init)) states))) (\<lambda>_.
          act_bind (on_store (so_delete_progress ops Apply)) (\<lambda>_.
          act_bind (on_source (delete_slot_if_exists src slot_name)) (\<lambda>_.
          act_bind (on_source (create_slot src slot_name)) (\<lambda>created.
          act_return (csr_consistent_point created)))))))"

definition get_start_lsn ::
    "'s store_ops \<Rightarrow> 'w source \<Rightarrow> pipeline_id \<Rightarrow> invalidated_slot_behavior \<Rightarrow> (('s, 'w) pipeline_world, lsn) action" where
  "get_start_lsn ops src p behavior =
     act_bind (act_try (slot_name_result (for_apply_worker p))) (\<lambda>slot_name.
     act_bind (on_source (get_or_create_slot src slot_name)) (\<lambda>slot.
     case slot of
       GetSlot _ \<Rightarrow>
         act_bind (ask_source (get_slot_state src slot_name)) (\<lambda>state.
         if state = SlotInvalidated then handle_invalidated_slot ops src slot_name behavior
         else act_bind (ask_store (\<lambda>s. so_get_progress ops s Apply)) (\<lambda>durable.
           act_return (case durable of
               Some d \<Rightarrow> max d (get_slot_start_lsn slot)
             | None \<Rightarrow> get_slot_start_lsn slot)))
     | CreateSlot _ \<Rightarrow>
         act_bind (act_catch (validate_tables_in_init_state ops)) (\<lambda>valid.
         case valid of
           Inl err \<Rightarrow> act_bind (on_source (delete_slot_if_exists src slot_name)) (\<lambda>_. act_fail err)
         | Inr _ \<Rightarrow>
             act_bind (act_catch (on_store (so_delete_progress ops Apply))) (\<lambda>deleted.
             case deleted of
               Inl err \<Rightarrow> act_bind (on_source (delete_slot_if_exists src slot_name)) (\<lambda>_. act_fail err)
             | Inr _ \<Rightarrow> act_return (get_slot_start_lsn slot)))))"

section \<open>Retries\<close>

record apply_retry_config =
  arc_delay_ms :: nat
  arc_max_attempts :: "32 word"

text \<open>\<open>shutdown\<close> says whether shutdown was requested while waiting for the retry.\<close>

definition handle_apply_worker_error ::
    "apply_retry_config \<Rightarrow> bool \<Rightarrow> 32 word \<Rightarrow> etl_error \<Rightarrow> bool etl_result \<times> 32 word" where
  "handle_apply_worker_error cfg shutdown attempts err =
     (if \<not> should_retry (build_error_handling_policy err) then (Inl err, attempts)
      else if arc_max_attempts cfg \<le> attempts then (Inl err, attempts)
      else (Inr shutdown, saturating_add attempts 1))"

text \<open>
  The retry loop. \<open>runs i\<close> is the \<open>i\<close>-th run of the worker, with its effect on the state and
  whether shutdown is requested while the loop waits after it.
\<close>

fun guarded_run_apply_worker ::
    "apply_retry_config \<Rightarrow> (nat \<Rightarrow> ('x \<Rightarrow> unit etl_result \<times> 'x) \<times> bool) \<Rightarrow> nat \<Rightarrow> nat \<Rightarrow> 32 word \<Rightarrow> 'x
     \<Rightarrow> (unit etl_result \<times> 'x) option" where
  "guarded_run_apply_worker cfg runs i 0 attempts x = None"
| "guarded_run_apply_worker cfg runs i (Suc fuel) attempts x =
     (case fst (runs i) x of
        (Inr _, x') \<Rightarrow> Some (Inr (), x')
      | (Inl err, x') \<Rightarrow>
          (case handle_apply_worker_error cfg (snd (runs i)) attempts err of
             (Inl e, _) \<Rightarrow> Some (Inl e, x')
           | (Inr True, _) \<Rightarrow> Some (Inr (), x')
           | (Inr False, attempts') \<Rightarrow> guarded_run_apply_worker cfg runs (Suc i) fuel attempts' x'))"

section \<open>Laws\<close>

lemma on_store_Inr [simp]:
  "on_store f p = (Inr x, p') \<longleftrightarrow> (\<exists>s. f (pw_store p) = (Inr x, s) \<and> p' = p \<lparr> pw_store := s \<rparr>)"
  by (auto simp: on_store_def act_on_def act_call_def split: prod.splits)

lemma on_source_Inr [simp]:
  "on_source f p = (Inr x, p') \<longleftrightarrow> (\<exists>s. f (pw_source p) = (Inr x, s) \<and> p' = p \<lparr> pw_source := s \<rparr>)"
  by (auto simp: on_source_def act_on_def act_call_def split: prod.splits)

lemma ask_Inr [simp]:
  "ask_store f p = (Inr x, p') \<longleftrightarrow> f (pw_store p) = Inr x \<and> p' = p"
  "ask_source g p = (Inr x, p') \<longleftrightarrow> g (pw_source p) = Inr x \<and> p' = p"
  by (auto simp: ask_store_def ask_source_def)

lemma act_catch_Inr:
  "act_catch m s = (Inr r, s') \<longleftrightarrow>
     (case r of Inr x \<Rightarrow> m s = (Inr x, s') | Inl e \<Rightarrow> m s = (Inl (Failed e), s'))"
  by (auto simp: act_catch_def split: prod.splits sum.splits stop.splits)

lemma not_Inl_unit: "\<forall>e. x \<noteq> Inl e \<Longrightarrow> x = Inr ()"
  by (cases x) simp_all

lemma all_Init:
  assumes "filter (\<lambda>x. as_type (snd x) \<noteq> InitT) states = []" "map_of states t = Some ph"
  shows "ph = Init"
proof -
  have "(t, ph) \<in> set states" using assms(2) by (rule map_of_SomeD)
  then have "as_type ph = InitT" using assms(1) by (force simp: filter_empty_conv)
  then show ?thesis by (cases ph) simp_all
qed

lemma reset_Init:
  assumes "(map_of states ++ map_of (rev (map (\<lambda>x. (fst x, Init)) states))) t = Some ph"
  shows "ph = Init"
proof -
  have "ph = Init" if "map_of (rev (map (\<lambda>x. (fst x, Init)) states)) t = Some ph"
    using map_of_SomeD [OF that] by auto
  moreover have "map_of states t = None" if "map_of (rev (map (\<lambda>x. (fst x, Init)) states)) t = None"
    using that by (auto simp: map_of_eq_None_iff image_image)
  ultimately show ?thesis using assms by (auto simp: map_add_Some_iff)
qed

section \<open>The position is safe\<close>

text \<open>A start on a new slot, from which everything is copied again.\<close>

definition fresh_start ::
    "('s \<Rightarrow> bool) \<Rightarrow> ('s \<Rightarrow> table_id \<Rightarrow> phase option) \<Rightarrow> ('s \<Rightarrow> worker_type \<Rightarrow> lsn option)
     \<Rightarrow> 'w source \<Rightarrow> string \<Rightarrow> lsn \<Rightarrow> ('s, 'w) pipeline_world \<Rightarrow> bool" where
  "fresh_start sinv phase_of progress_of src name l p \<longleftrightarrow>
     sinv (pw_store p) \<and> progress_of (pw_store p) Apply = None \<and>
     (\<forall>t ph. phase_of (pw_store p) t = Some ph \<longrightarrow> ph = Init) \<and>
     (\<exists>w. create_slot src name w = (Inr \<lparr> csr_consistent_point = l \<rparr>, pw_source p))"

locale resettable_store = pipeline_store ops inv phase_of stack_of progress_of
  for ops :: "'s store_ops"
    and inv :: "'s \<Rightarrow> bool"
    and phase_of :: "'s \<Rightarrow> table_id \<Rightarrow> phase option"
    and stack_of :: "'s \<Rightarrow> table_id \<Rightarrow> phase list"
    and progress_of :: "'s \<Rightarrow> worker_type \<Rightarrow> lsn option" +
  assumes delete_progress_frame: "inv s \<Longrightarrow> so_delete_progress ops w s = (r, s') \<Longrightarrow>
      inv s' \<and> phase_of s' = phase_of s \<and>
      progress_of s' = (if is_ok r then (progress_of s)(w := None) else progress_of s)"
begin

lemma recreate_fresh:
  assumes "inv (pw_store p)" "handle_invalidated_slot ops src name b p = (Inr l, p')"
  shows "fresh_start inv phase_of progress_of src name l p'"
proof -
  obtain states s1 s2 w1 c w2 where
    st: "so_get_states ops (pw_store p) = Inr states"
      "so_update_states ops (map (\<lambda>x. (fst x, Init)) states) (pw_store p) = (Inr (), s1)"
      "so_delete_progress ops Apply s1 = (Inr (), s2)"
      "create_slot src name w1 = (Inr c, w2)" "l = csr_consistent_point c"
      "pw_store p' = s2" "pw_source p' = w2"
    using assms(2) by (cases b) (auto simp: handle_invalidated_slot_def act_bind_eq_Inr act_stop)
  have s1: "inv s1" "phase_of s1 = phase_of (pw_store p) ++ map_of (rev (map (\<lambda>x. (fst x, Init)) states))"
    using update_inv [OF assms(1) st(2)] update_phase [OF assms(1) st(2)] by simp_all
  have s2: "inv s2" "phase_of s2 = phase_of s1" "progress_of s2 Apply = None"
    using delete_progress_frame [OF s1(1) st(3)] by simp_all
  have "map_of states = phase_of (pw_store p)" using get_states [OF assms(1) st(1)] .
  then show ?thesis using s2 s1(2) reset_Init [of states] st(4-7) unfolding fresh_start_def by (cases c) auto
qed

lemma start_effect:
  assumes "inv (pw_store p)" "get_start_lsn ops src pid b p = (Inr l, p')"
  shows "(\<exists>name. slot_name_result (for_apply_worker pid) = Inr name \<and>
     (fresh_start inv phase_of progress_of src name l p' \<or>
      p' = p \<and> (\<exists>c. get_slot src name (pw_source p) = Inr c \<and>
        get_slot_state src name (pw_source p) = Inr SlotValid \<and>
        l = (case progress_of (pw_store p) Apply of
               None \<Rightarrow> gsr_confirmed_flush_lsn c | Some d \<Rightarrow> max d (gsr_confirmed_flush_lsn c)))))"
proof -
  obtain name slot w1 where name: "slot_name_result (for_apply_worker pid) = Inr name"
    and slot: "get_or_create_slot src name (pw_source p) = (Inr slot, w1)"
    using assms(2) by (auto simp: get_start_lsn_def act_bind_eq_Inr act_try_def)
  let ?p1 = "p \<lparr> pw_source := w1 \<rparr>"
  show ?thesis
  proof (cases slot)
    case (GetSlot c)
    then have c: "get_slot src name (pw_source p) = Inr c" "w1 = pw_source p"
      using slot by (auto simp: get_or_create_slot_def split: sum.splits if_splits prod.splits)
    then have p1: "?p1 = p" by simp
    obtain st where st: "get_slot_state src name (pw_source p) = Inr st"
      using assms(2) name slot GetSlot c(2) by (auto simp: get_start_lsn_def act_bind_eq_Inr act_try_def)
    show ?thesis
    proof (cases st)
      case SlotInvalidated
      then have "handle_invalidated_slot ops src name b p = (Inr l, p')"
        using assms(2) name slot GetSlot c(2) st by (auto simp: get_start_lsn_def act_bind_eq_Inr act_try_def)
      then show ?thesis using recreate_fresh [OF assms(1)] name by blast
    next
      case SlotValid
      then obtain d where "so_get_progress ops (pw_store p) Apply = Inr d" "p' = p"
          "l = (case d of Some d \<Rightarrow> max d (gsr_confirmed_flush_lsn c) | None \<Rightarrow> gsr_confirmed_flush_lsn c)"
        using assms(2) name slot GetSlot c(2) st by (auto simp: get_start_lsn_def act_bind_eq_Inr act_try_def act_stop
            cong: option.case_cong)
      then show ?thesis using get_progress [OF assms(1)] c(1) st SlotValid name by (auto split: option.splits)
    qed
  next
    case (CreateSlot c)
    then have c: "create_slot src name (pw_source p) = (Inr c, w1)"
      using slot by (auto simp: get_or_create_slot_def split: sum.splits if_splits prod.splits)
    obtain states s2 where st: "so_get_states ops (pw_store p) = Inr states"
        "filter (\<lambda>x. as_type (snd x) \<noteq> InitT) states = []" "so_delete_progress ops Apply (pw_store p) = (Inr (), s2)"
        "p' = ?p1 \<lparr> pw_store := s2 \<rparr>" "l = csr_consistent_point c"
      using assms(2) name slot CreateSlot
      by (auto simp: get_start_lsn_def validate_tables_in_init_state_def act_bind_eq_Inr act_try_def act_catch_Inr act_stop
          split: sum.splits if_splits dest!: not_Inl_unit)
    have "map_of states = phase_of (pw_store p)" using get_states [OF assms(1) st(1)] .
    then have "fresh_start inv phase_of progress_of src name l p'"
      using delete_progress_frame [OF assms(1) st(3)] all_Init [OF st(2)] st(4,5) c unfolding fresh_start_def by (cases c) auto
    then show ?thesis using name by blast
  qed
qed

lemma start_at_or_past_progress:
  assumes "inv (pw_store p)" "get_start_lsn ops src pid b p = (Inr l, p')"
  shows "inv (pw_store p')" "progress_of (pw_store p') Apply = Some d \<Longrightarrow> d \<le> l"
  using start_effect [OF assms] assms(1) by (auto simp: fresh_start_def split: option.splits)

end

interpretation mem_reset: resettable_store memory_store_ops mem_inv mem_phase_of mem_stack_of mem_progress
  by unfold_locales (auto simp: memory_store_ops_def mem_delete_progress_def mem_inv_def mem_phase_of_def)

lemma pg_delete_progress_frame:
  assumes "pg_inv c s" "pg_delete_progress w s = (r, s')"
  shows "pg_inv c s' \<and> pg_phase_of s' = pg_phase_of s \<and>
      pg_progress_of s' = (if is_ok r then (pg_progress_of s)(w := None) else pg_progress_of s)"
proof (cases "pd_up (pg_db s)")
  case True
  then show ?thesis using assms
    by (auto simp: pg_delete_progress_def pg_inv_def pg_phase_of_def pg_stack_of_def pg_progress_of_def fun_eq_iff
        sql_get_delete_progress dest: worker_key_inj [THEN iffD1, OF conjI])
qed (use assms in \<open>auto simp: pg_delete_progress_def\<close>)

interpretation pg_reset: resettable_store "postgres_store_ops c known" "pg_inv c" pg_phase_of "pg_stack_of c" pg_progress_of
  by unfold_locales (rule pg_delete_progress_frame, assumption, simp add: postgres_store_ops_def)

section \<open>Properties\<close>

text \<open>
  C7. The apply worker starts at a safe position. On the Postgres store, when a start
  position is found, either the existing and valid slot is resumed, nothing has changed, and
  the position is the later of the durable progress and the position the slot confirmed;
  or a new slot was created at that position, every table is in phase Init, and no durable
  progress of an older slot is left.
\<close>

theorem start_position_safe:
  assumes "pg_inv c (pw_store p)" "get_start_lsn (postgres_store_ops c known) src pid b p = (Inr l, p')"
  shows "\<exists>name. name_of_slot (ApplySlot pid) = Inr name \<and>
     (fresh_start (pg_inv c) pg_phase_of pg_progress_of src name l p' \<or>
      p' = p \<and> (\<exists>x. get_slot src name (pw_source p) = Inr x \<and>
        get_slot_state src name (pw_source p) = Inr SlotValid \<and>
        l = (case pg_progress_of (pw_store p) Apply of
               None \<Rightarrow> gsr_confirmed_flush_lsn x | Some d \<Rightarrow> max d (gsr_confirmed_flush_lsn x))))"
proof -
  obtain name where "slot_name_result (for_apply_worker pid) = Inr name"
    and rest: "fresh_start (pg_inv c) pg_phase_of pg_progress_of src name l p' \<or>
      p' = p \<and> (\<exists>x. get_slot src name (pw_source p) = Inr x \<and>
        get_slot_state src name (pw_source p) = Inr SlotValid \<and>
        l = (case pg_progress_of (pw_store p) Apply of
               None \<Rightarrow> gsr_confirmed_flush_lsn x | Some d \<Rightarrow> max d (gsr_confirmed_flush_lsn x)))"
    using pg_reset.start_effect [OF assms] by blast
  then have "name_of_slot (ApplySlot pid) = Inr name"
    by (auto simp: slot_name_result_def for_apply_worker_def split: sum.splits)
  then show ?thesis using rest by blast
qed

definition down_then_up :: postgres_store where
  "down_then_up = pg_new 1 \<lparr> pd_up = True, pd_states = \<lparr> st_rows = [], st_next = 0 \<rparr>, pd_progress = [],
     pd_schemas = \<lparr> stb_schemas = [], stb_columns = [], stb_next = 0 \<rparr>, pd_metadata = [] \<rparr>"

definition one_slot_source :: "unit source" where
  "one_slot_source = empty_source \<lparr>
     src_slot_rows := \<lambda>_ _. Inr [\<lparr> sr_confirmed_flush_lsn = Some ''0/28'', sr_wal_status = Some ''reserved'' \<rparr>],
     src_parse_lsn := \<lambda>_. Some 40 \<rparr>"

theorem start_position_safe_witness:
  "get_start_lsn (postgres_store_ops unary_codec []) one_slot_source 1 BehaviorError
     \<lparr> pw_store = down_then_up, pw_source = () \<rparr> = (Inr 40, \<lparr> pw_store = down_then_up, pw_source = () \<rparr>) \<and>
   pg_progress_of down_then_up Apply = None"
proof -
  let ?p = "\<lparr> pw_store = down_then_up, pw_source = () \<rparr>"
  have run: "get_start_lsn (postgres_store_ops unary_codec []) one_slot_source 1 BehaviorError ?p = (Inr 40, ?p)"
    by (simp add: get_start_lsn_def slot_name_result_def for_apply_worker_def name_of_slot_simps act_bind_def act_try_def
        on_source_def act_on_def act_call_def get_or_create_slot_def get_slot_def one_slot_source_def source_reply_def
        get_row_value_def ask_source_def get_slot_state_def ask_store_def postgres_store_ops_def pg_get_progress_def
        down_then_up_def pg_new_def sql_get_progress_def act_stop)
  have "pg_inv unary_codec down_then_up" by (simp add: down_then_up_def pg_inv_new [OF unary_codec_ok])
  then show ?thesis
    using start_position_safe [OF _ run] run by (auto simp: fresh_start_def down_then_up_def pg_new_def pg_progress_of_def sql_get_progress_def)
qed

text \<open>
  C32. The retry loop of the apply worker ends: whatever its runs do, it returns after at most
  one run more than the configured number of attempts, and it returns an error only if the
  last run failed with that error.
\<close>

theorem apply_retries_end:
  "\<exists>r x'. guarded_run_apply_worker cfg runs i (Suc (unat (arc_max_attempts cfg))) 0 x = Some (r, x') \<and>
     (\<forall>e. r = Inl e \<longrightarrow> (\<exists>j y. fst (runs j) y = (Inl e, x')))"
proof -
  have "\<exists>r x'. guarded_run_apply_worker cfg runs i (Suc fuel) attempts x = Some (r, x') \<and>
      (\<forall>e. r = Inl e \<longrightarrow> (\<exists>j y. fst (runs j) y = (Inl e, x')))"
    if "unat (arc_max_attempts cfg) \<le> unat attempts + fuel" for fuel attempts i x
    using that
  proof (induction fuel arbitrary: attempts i x)
    case 0
    then show ?case
      by (auto simp: handle_apply_worker_error_def word_le_nat_alt split: prod.splits sum.splits bool.splits)
  next
    case (Suc fuel)
    obtain r x1 where run: "fst (runs i) x = (r, x1)" by fastforce
    show ?case
    proof (cases "\<exists>e. r = Inl e \<and> should_retry (build_error_handling_policy e) \<and> attempts < arc_max_attempts cfg \<and> \<not> snd (runs i)")
      case True
      then obtain e where e: "r = Inl e" "should_retry (build_error_handling_policy e)" "attempts < arc_max_attempts cfg"
        "\<not> snd (runs i)" by blast
      have left: "(arc_max_attempts cfg \<le> attempts) = False" using e(3) by simp
      have "unat (saturating_add attempts 1) = Suc (unat attempts)"
        using unat_bound [of "arc_max_attempts cfg"] e(3) by (simp add: unat_saturating_add word_less_nat_alt)
      then show ?thesis
        using Suc.IH [of "saturating_add attempts 1" "Suc i" x1] Suc.prems run e
        by (simp add: handle_apply_worker_error_def left)
    next
      case False
      then show ?thesis using run
        by (cases r) (auto simp: handle_apply_worker_error_def not_le)
    qed
  qed
  from this [of 0 "unat (arc_max_attempts cfg)" i x] show ?thesis by simp
qed

definition always_failing :: "(unit \<Rightarrow> unit etl_result \<times> unit) \<times> bool" where
  "always_failing = (\<lambda>x. (Inl (etl_err SourceConnectionFailed ''down''), x), False)"

theorem apply_retries_end_witness:
  "guarded_run_apply_worker \<lparr> arc_delay_ms = 10, arc_max_attempts = 1 \<rparr> (\<lambda>_. always_failing) 0 2 0 () =
     Some (Inl (etl_err SourceConnectionFailed ''down''), ())"
proof -
  let ?cfg = "\<lparr> arc_delay_ms = 10, arc_max_attempts = 1 \<rparr>"
  have step: "handle_apply_worker_error ?cfg False 0 (etl_err SourceConnectionFailed ''down'') = (Inr False, 1)"
      "handle_apply_worker_error ?cfg False 1 (etl_err SourceConnectionFailed ''down'') =
         (Inl (etl_err SourceConnectionFailed ''down''), 1)"
    by (simp_all add: handle_apply_worker_error_def build_error_handling_policy_def should_retry_def saturating_add_def)
  have "guarded_run_apply_worker ?cfg (\<lambda>_. always_failing) 0 2 0 () = Some (Inl (etl_err SourceConnectionFailed ''down''), ())"
    by (simp add: numeral_2_eq_2 always_failing_def step)
  then show ?thesis using apply_retries_end [of ?cfg "\<lambda>_. always_failing" 0 "()"] by simp
qed

definition undroppable_source :: "bool source" where
  "undroppable_source = empty_source \<lparr>
     src_slot_rows := \<lambda>_ exists. Inr (if exists then [\<lparr> sr_confirmed_flush_lsn = Some ''0/28'', sr_wal_status = Some ''reserved'' \<rparr>] else []),
     src_create_slot := \<lambda>_ _ _. (Inr [Some ''0/28''], True),
     src_drop_slot := \<lambda>_ exists. (None, exists),
     src_parse_lsn := \<lambda>_. Some 40 \<rparr>"

definition synced_store :: memory_store where
  "synced_store = snd (mem_update_states [(7, Ready)] mem_new)"

text \<open>
  When the new slot cannot be dropped after the check of the table phases failed, the next
  start skips the check: with a table that was already synchronised, the first start fails
  because the slot cannot be dropped, and the second one succeeds on the new slot although
  the changes between the two slots were never read.
\<close>

lemma failed_cleanup_skips_validation:
  "let start = get_start_lsn memory_store_ops undroppable_source 1 BehaviorError;
       (r1, p1) = start \<lparr> pw_store = synced_store, pw_source = False \<rparr>;
       (r2, p2) = start p1
   in \<not> is_ok r1 \<and> r2 = Inr 40 \<and> mem_phase_of (pw_store p2) 7 = Some Ready"
proof -
  have st: "mem_get_states synced_store = Inr [(7, Ready)]" "mem_phase_of synced_store 7 = Some Ready"
    "mem_get_progress synced_store Apply = Inr None"
    by code_simp+
  show ?thesis
    by (simp add: get_start_lsn_def slot_name_result_def for_apply_worker_def name_of_slot_simps act_bind_def act_try_def
        on_source_def act_on_def act_call_def get_or_create_slot_def get_slot_def undroppable_source_def source_reply_def
        get_row_value_def ask_source_def get_slot_state_def ask_store_def memory_store_ops_def st act_stop create_slot_def
        create_slot_internal_def slot_not_found_def act_catch_def validate_tables_in_init_state_def
        delete_slot_if_exists_def delete_slot_internal_def)
qed

end
