(* ===== verification/Async_Result.thy ===== *)
theory Async_Result
  imports Etl_Error
begin

text \<open>
  Completion handles of destination writes, \<open>etl/src/destination/async_result.rs\<close>: a
  one-shot channel whose sender is given to the destination and whose receiver keeps
  metadata for the loop. \<open>ar_sender\<close> says that the sender still exists, \<open>ar_slot\<close> is the
  value in the channel, \<open>ar_metadata\<close> the metadata not yet taken.
\<close>

record ('a, 'm) async_result =
  ar_sender :: bool
  ar_slot :: "'a etl_result option"
  ar_metadata :: "'m option"

definition async_new :: "'m \<Rightarrow> ('a, 'm) async_result" where
  "async_new m = \<lparr> ar_sender = True, ar_slot = None, ar_metadata = Some m \<rparr>"

text \<open>Sending consumes the sender; a sender dropped without sending reports an error.\<close>

definition async_send :: "'a etl_result \<Rightarrow> ('a, 'm) async_result \<Rightarrow> ('a, 'm) async_result" where
  "async_send r a = (if ar_sender a then a \<lparr> ar_sender := False, ar_slot := Some r \<rparr> else a)"

definition async_drop :: "('a, 'm) async_result \<Rightarrow> ('a, 'm) async_result" where
  "async_drop a = (if ar_sender a
     then a \<lparr> ar_sender := False,
              ar_slot := Some (Inl (etl_err DestinationError ''Async result dropped without sending'')) \<rparr>
     else a)"

definition async_poll ::
    "('a, 'm) async_result \<Rightarrow> ('m option \<times> 'a etl_result) option \<times> ('a, 'm) async_result" where
  "async_poll a = (case ar_slot a of
      Some r \<Rightarrow> (Some (ar_metadata a, r), a \<lparr> ar_metadata := None \<rparr>)
    | None \<Rightarrow>
        if ar_sender a then (None, a)
        else (Some (ar_metadata a,
                Inl (etl_err DestinationError ''Async result channel closed before sending'')),
              a \<lparr> ar_metadata := None \<rparr>))"

section \<open>Lemmas\<close>

lemma async_poll_new [simp]: "async_poll (async_new m) = (None, async_new m)"
  by (simp add: async_poll_def async_new_def)

lemma async_poll_sent [simp]:
  "fst (async_poll (async_send r (async_new m))) = Some (Some m, r)"
  by (simp add: async_poll_def async_new_def async_send_def)

lemma async_send_once [simp]:
  "async_send r' (async_send r a) = async_send r a" "async_drop (async_send r a) = async_send r a"
  by (simp_all add: async_send_def async_drop_def)

lemma async_metadata_kept [simp]:
  "ar_metadata (async_send r a) = ar_metadata a" "ar_metadata (async_drop a) = ar_metadata a"
  by (simp_all add: async_send_def async_drop_def)

lemma async_poll_metadata: "fst (async_poll a) = Some (m, r) \<Longrightarrow> m = ar_metadata a"
  by (auto simp: async_poll_def split: option.splits if_splits)

text \<open>
  A destination write is completed exactly as the destination said: the loop sees
  nothing before the handle is used, then the value sent first together with the metadata
  of the batch, and a handle that is dropped unused completes with a destination error,
  so a lost handle never looks like a success.
\<close>

theorem async_result_completes:
  "fst (async_poll (async_new m)) = None \<and>
   fst (async_poll (async_send r' (async_send r (async_new m)))) = Some (Some m, r) \<and>
   fst (async_poll (async_drop (async_send r (async_new m)))) = Some (Some m, r) \<and>
   (\<exists>e. fst (async_poll (async_drop (async_new m))) = Some (Some m, Inl e) \<and>
        fst (async_poll (async_send r (async_drop (async_new m)))) = Some (Some m, Inl e) \<and>
        kind e = DestinationError)"
  by (simp add: async_poll_def async_new_def async_send_def async_drop_def etl_err_def)

end
