(* ===== verification/Status_Updates.thy ===== *)
theory Status_Updates
  imports Etl_Error
begin

text \<open>
  Standby status updates, \<open>EventsStream\<close> of \<open>etl/src/replication/stream.rs\<close>. The
  stream remembers what it reported last and never reports a smaller position;
  \<open>es_sent\<close> is the sequence of messages handed to the connection, newest first.
  The clock and the outcome of the network write are arguments.
\<close>

type_synonym instant = nat

datatype status_update_type = KeepAliveUpdate | PeriodicKeepAlive | ShutdownFlush

datatype status_update_result = Sent | Skipped

fun request_reply :: "status_update_type \<Rightarrow> bool" where
  "request_reply KeepAliveUpdate = False"
| "request_reply PeriodicKeepAlive = True"
| "request_reply ShutdownFlush = True"

record standby_status_update =
  su_write :: lsn
  su_flush :: lsn
  su_apply :: lsn
  su_reply :: bool

record events_stream =
  es_last_update :: "instant option"
  es_last_write :: "lsn option"
  es_last_flush :: "lsn option"
  es_sent :: "standby_status_update list"

definition status_update_interval :: nat where
  "status_update_interval = 100"

definition es_wrap :: events_stream where
  "es_wrap = \<lparr> es_last_update = None, es_last_write = None, es_last_flush = None, es_sent = [] \<rparr>"

text \<open>A position below the last reported one is replaced by the last reported one.\<close>

definition not_below :: "lsn option \<Rightarrow> lsn \<Rightarrow> lsn" where
  "not_below prev l = (case prev of None \<Rightarrow> l | Some x \<Rightarrow> if l < x then x else l)"

definition es_send_status_update ::
    "instant \<Rightarrow> unit etl_result \<Rightarrow> lsn \<Rightarrow> lsn \<Rightarrow> bool \<Rightarrow> status_update_type \<Rightarrow> events_stream
     \<Rightarrow> status_update_result etl_result \<times> events_stream" where
  "es_send_status_update now net write0 flush0 force ty es =
     (let write = not_below (es_last_write es) write0;
          flush = not_below (es_last_flush es) flush0;
          skip = (\<not> force \<and> (case (es_last_update es, es_last_flush es) of
                     (Some u, Some f) \<Rightarrow> flush = f \<and> now - u < status_update_interval
                   | _ \<Rightarrow> False))
      in if skip then (Inr Skipped, es)
         else (case net of
             Inl e \<Rightarrow> (Inl e, es)
           | Inr _ \<Rightarrow> (Inr Sent,
               es \<lparr> es_last_update := Some now, es_last_write := Some write, es_last_flush := Some flush,
                    es_sent := \<lparr> su_write = write, su_flush = flush, su_apply = flush,
                                 su_reply = request_reply ty \<rparr> # es_sent es \<rparr>)))"

section \<open>Lemmas\<close>

text \<open>
  \<open>sent_ok\<close>: the reported positions never go back, the flush position never passes the
  write position, and the stream remembers the last report.
\<close>

definition sent_ok :: "events_stream \<Rightarrow> bool" where
  "sent_ok es \<longleftrightarrow>
     sorted_wrt (\<lambda>new old. su_write old \<le> su_write new \<and> su_flush old \<le> su_flush new) (es_sent es) \<and>
     (\<forall>u \<in> set (es_sent es). su_flush u \<le> su_write u \<and> su_apply u = su_flush u) \<and>
     (case es_sent es of
        [] \<Rightarrow> es_last_write es = None \<and> es_last_flush es = None
      | u # _ \<Rightarrow> es_last_write es = Some (su_write u) \<and> es_last_flush es = Some (su_flush u))"

lemma sent_ok_wrap [simp]: "sent_ok es_wrap"
  by (simp add: sent_ok_def es_wrap_def)

lemma not_below_ge: "l \<le> not_below prev l" "prev = Some x \<Longrightarrow> x \<le> not_below prev l"
  by (auto simp: not_below_def split: option.split)

lemma sent_ok_send:
  assumes ok: "sent_ok es" and le: "flush \<le> write"
    and send: "es_send_status_update now net write flush force ty es = (r, es')"
  shows "sent_ok es'"
proof (cases "es' = es")
  case False
  let ?w = "not_below (es_last_write es) write" and ?f = "not_below (es_last_flush es) flush"
  have es': "es' = es \<lparr> es_last_update := Some now, es_last_write := Some ?w, es_last_flush := Some ?f,
      es_sent := \<lparr> su_write = ?w, su_flush = ?f, su_apply = ?f, su_reply = request_reply ty \<rparr> # es_sent es \<rparr>"
    using send False by (auto simp: es_send_status_update_def Let_def split: if_splits sum.splits)
  show ?thesis
  proof (cases "es_sent es")
    case Nil
    with ok le show ?thesis by (simp add: sent_ok_def es' not_below_def)
  next
    case (Cons u us)
    with ok have last: "es_last_write es = Some (su_write u)" "es_last_flush es = Some (su_flush u)"
      and u: "su_flush u \<le> su_write u"
      and us: "\<forall>x \<in> set us. su_write x \<le> su_write u \<and> su_flush x \<le> su_flush u"
      by (simp_all add: sent_ok_def)
    have "?f \<le> ?w" using le u by (auto simp: not_below_def last)
    moreover have "su_write u \<le> ?w" "su_flush u \<le> ?f" by (auto simp: not_below_def last)
    ultimately show ?thesis using ok us Cons by (fastforce simp: sent_ok_def es')
  qed
qed (use ok in simp)

lemma send_forced:
  "es_send_status_update now net w f True ty es = (r, es') \<Longrightarrow> is_ok net \<Longrightarrow> r = Inr Sent"
  by (cases net) (auto simp: es_send_status_update_def Let_def)

lemma send_skipped:
  "es_send_status_update now net w f force ty es = (Inr Skipped, es') \<Longrightarrow> es' = es \<and> \<not> force"
  by (auto simp: es_send_status_update_def Let_def split: if_splits sum.splits)

end
