(* ===== verification/Apply_State.thy ===== *)
theory Apply_State
  imports Event_Decoding Async_Result Status_Updates Schema_Snapshots
begin

text \<open>
  The mutable state of the apply loop, \<open>ApplyLoopState\<close> of
  \<open>etl/src/replication/apply.rs\<close>, with its exit intents, its progress tracking and one
  function per method. The clock is an argument of the methods that read it. A
  background schema cleanup task is recorded with the retentions it was spawned with.
\<close>

section \<open>Exit intents and results\<close>

datatype apply_loop_result = LoopPaused | LoopCompleted

datatype exit_intent = ExitPause | ExitComplete

fun exit_merge :: "exit_intent \<Rightarrow> exit_intent \<Rightarrow> exit_intent" where
  "exit_merge ExitComplete _ = ExitComplete"
| "exit_merge _ ExitComplete = ExitComplete"
| "exit_merge ExitPause ExitPause = ExitPause"

fun to_result :: "exit_intent \<Rightarrow> apply_loop_result" where
  "to_result ExitPause = LoopPaused"
| "to_result ExitComplete = LoopCompleted"

datatype shutdown_state = NoShutdown | DrainingForShutdown

definition is_requested :: "shutdown_state \<Rightarrow> bool" where
  "is_requested st \<longleftrightarrow> st \<noteq> NoShutdown"

section \<open>Replication progress\<close>

record replication_progress =
  rp_received :: lsn
  rp_flush :: lsn

definition update_last_received_lsn :: "lsn \<Rightarrow> replication_progress \<Rightarrow> replication_progress" where
  "update_last_received_lsn l p = (if l \<le> rp_received p then p else p \<lparr> rp_received := l \<rparr>)"

definition update_last_flush_lsn :: "lsn \<Rightarrow> replication_progress \<Rightarrow> replication_progress" where
  "update_last_flush_lsn l p = (if l \<le> rp_flush p then p else p \<lparr> rp_flush := l \<rparr>)"

record handle_message_result =
  hr_event :: "event option"
  hr_end_lsn :: "lsn option"
  hr_end_batch :: bool

definition no_event :: handle_message_result where
  "no_event = \<lparr> hr_event = None, hr_end_lsn = None, hr_end_batch = False \<rparr>"

definition return_event :: "event \<Rightarrow> handle_message_result" where
  "return_event e = \<lparr> hr_event = Some e, hr_end_lsn = None, hr_end_batch = False \<rparr>"

section \<open>The loop state\<close>

record flush_metadata =
  fm_commit_end :: "lsn option"
  fm_items :: nat
  fm_dispatched_at :: instant

record apply_loop_state =
  ls_last_commit_end :: "lsn option"
  ls_remote_final :: "lsn option"
  ls_progress :: replication_progress
  ls_batch :: "event list"
  ls_batch_bytes :: usize
  ls_tx_begin_ts :: "instant option"
  ls_tx_events :: "64 word"
  ls_next_ordinal :: "64 word"
  ls_shutdown :: shutdown_state
  ls_flush_deadline :: "instant option"
  ls_keep_alive_deadline :: instant
  ls_pending_flush :: "(unit, flush_metadata) async_result option"
  ls_exit_intent :: "exit_intent option"
  ls_paused :: bool
  ls_bootstrap :: snapshot_id
  ls_slot_name :: string
  ls_cleanup_deadline :: "instant option"
  ls_cleanup_task :: "(table_id \<times> table_schema_retention) list option"

definition schema_cleanup_interval :: nat where
  "schema_cleanup_interval = 3600000"

definition ls_new ::
    "instant \<Rightarrow> replication_progress \<Rightarrow> nat \<Rightarrow> snapshot_id \<Rightarrow> string \<Rightarrow> apply_loop_state" where
  "ls_new now progress keep_alive bootstrap slot =
     \<lparr> ls_last_commit_end = None, ls_remote_final = None, ls_progress = progress,
       ls_batch = [], ls_batch_bytes = 0, ls_tx_begin_ts = None, ls_tx_events = 0,
       ls_next_ordinal = 0, ls_shutdown = NoShutdown, ls_flush_deadline = None,
       ls_keep_alive_deadline = now + keep_alive, ls_pending_flush = None,
       ls_exit_intent = None, ls_paused = False, ls_bootstrap = bootstrap,
       ls_slot_name = slot, ls_cleanup_deadline = Some (now + schema_cleanup_interval),
       ls_cleanup_task = None \<rparr>"

text \<open>\<open>size_hint\<close> is the estimate of \<open>Event::size_hint\<close>.\<close>

definition add_event_to_batch :: "(event \<Rightarrow> usize) \<Rightarrow> event \<Rightarrow> apply_loop_state \<Rightarrow> apply_loop_state" where
  "add_event_to_batch size_hint e st =
     st \<lparr> ls_batch_bytes := saturating_add (ls_batch_bytes st) (size_hint e),
          ls_batch := ls_batch st @ [e] \<rparr>"

definition take_events_batch :: "apply_loop_state \<Rightarrow> (event list \<times> usize) \<times> apply_loop_state" where
  "take_events_batch st =
     ((ls_batch st, ls_batch_bytes st), st \<lparr> ls_batch := [], ls_batch_bytes := 0 \<rparr>)"

definition set_flush_deadline_if_needed :: "instant \<Rightarrow> nat \<Rightarrow> apply_loop_state \<Rightarrow> apply_loop_state" where
  "set_flush_deadline_if_needed now fill st =
     (if ls_flush_deadline st \<noteq> None then st else st \<lparr> ls_flush_deadline := Some (now + fill) \<rparr>)"

definition reset_flush_deadline :: "apply_loop_state \<Rightarrow> apply_loop_state" where
  "reset_flush_deadline st = st \<lparr> ls_flush_deadline := None \<rparr>"

definition reset_keep_alive_deadline :: "instant \<Rightarrow> nat \<Rightarrow> apply_loop_state \<Rightarrow> apply_loop_state" where
  "reset_keep_alive_deadline now d st = st \<lparr> ls_keep_alive_deadline := now + d \<rparr>"

definition update_last_commit_end_lsn :: "lsn option \<Rightarrow> apply_loop_state \<Rightarrow> apply_loop_state" where
  "update_last_commit_end_lsn end_lsn st = (case (ls_last_commit_end st, end_lsn) of
      (None, Some e) \<Rightarrow> st \<lparr> ls_last_commit_end := Some e \<rparr>
    | (Some old, Some e) \<Rightarrow> if e > old then st \<lparr> ls_last_commit_end := Some e \<rparr> else st
    | (_, None) \<Rightarrow> st)"

definition last_received_lsn :: "apply_loop_state \<Rightarrow> lsn" where
  "last_received_lsn st = rp_received (ls_progress st)"

definition handling_transaction :: "apply_loop_state \<Rightarrow> bool" where
  "handling_transaction st \<longleftrightarrow> ls_remote_final st \<noteq> None"

definition has_pending_batch :: "apply_loop_state \<Rightarrow> bool" where
  "has_pending_batch st \<longleftrightarrow> ls_batch st \<noteq> []"

definition has_pending_flush_result :: "apply_loop_state \<Rightarrow> bool" where
  "has_pending_flush_result st \<longleftrightarrow> ls_pending_flush st \<noteq> None"

definition has_unresolved_batch_work :: "apply_loop_state \<Rightarrow> bool" where
  "has_unresolved_batch_work st \<longleftrightarrow> has_pending_batch st \<or> has_pending_flush_result st"

definition is_idle :: "apply_loop_state \<Rightarrow> bool" where
  "is_idle st \<longleftrightarrow> \<not> handling_transaction st \<and> \<not> has_unresolved_batch_work st"

definition effective_flush_lsn :: "apply_loop_state \<Rightarrow> lsn" where
  "effective_flush_lsn st =
     (if is_idle st then rp_received (ls_progress st) else rp_flush (ls_progress st))"

definition try_start_schema_cleanup :: "instant \<Rightarrow> apply_loop_state \<Rightarrow> bool \<times> apply_loop_state" where
  "try_start_schema_cleanup now st = (case ls_cleanup_deadline st of
      None \<Rightarrow> (False, st)
    | Some d \<Rightarrow> if now < d then (False, st) else (True, st \<lparr> ls_cleanup_deadline := None \<rparr>))"

text \<open>\<open>SchemaCleanupRun::finish\<close> and \<open>reset_schema_cleanup_deadline\<close> write the same deadline.\<close>

definition finish_cleanup_run :: "instant \<Rightarrow> apply_loop_state \<Rightarrow> apply_loop_state" where
  "finish_cleanup_run now st = st \<lparr> ls_cleanup_deadline := Some (now + schema_cleanup_interval) \<rparr>"

definition reset_tx_ordinal :: "apply_loop_state \<Rightarrow> apply_loop_state" where
  "reset_tx_ordinal st = st \<lparr> ls_next_ordinal := 0 \<rparr>"

definition next_tx_ordinal :: "apply_loop_state \<Rightarrow> 64 word \<times> apply_loop_state" where
  "next_tx_ordinal st =
     (ls_next_ordinal st,
      st \<lparr> ls_next_ordinal := (case checked_add (ls_next_ordinal st) 1 of
             Some n \<Rightarrow> n | None \<Rightarrow> ls_next_ordinal st) \<rparr>)"

definition record_exit_intent :: "exit_intent option \<Rightarrow> apply_loop_state \<Rightarrow> apply_loop_state" where
  "record_exit_intent i st = (case i of
      None \<Rightarrow> st
    | Some x \<Rightarrow> st \<lparr> ls_exit_intent := Some (case ls_exit_intent st of
          Some current \<Rightarrow> exit_merge current x | None \<Rightarrow> x) \<rparr>)"

definition can_process_messages :: "apply_loop_state \<Rightarrow> bool" where
  "can_process_messages st \<longleftrightarrow> ls_exit_intent st = None \<and> \<not> ls_paused st"

definition can_wait_for_deadline :: "apply_loop_state \<Rightarrow> bool" where
  "can_wait_for_deadline st \<longleftrightarrow> \<not> ls_paused st \<and> has_pending_batch st"

definition pause_processing :: "apply_loop_state \<Rightarrow> apply_loop_state" where
  "pause_processing st = st \<lparr> ls_paused := True \<rparr>"

definition resume_processing :: "apply_loop_state \<Rightarrow> bool \<times> apply_loop_state" where
  "resume_processing st = (ls_paused st, st \<lparr> ls_paused := False, ls_pending_flush := None \<rparr>)"

definition exit_result :: "apply_loop_state \<Rightarrow> apply_loop_result option" where
  "exit_result st = map_option to_result (ls_exit_intent st)"

section \<open>Lemmas\<close>

text \<open>Exit intents are ordered; merging takes the stronger one.\<close>

fun intent_rank :: "exit_intent option \<Rightarrow> nat" where
  "intent_rank None = 0"
| "intent_rank (Some ExitPause) = 1"
| "intent_rank (Some ExitComplete) = 2"

lemma intent_rank_merge: "intent_rank (Some (exit_merge a b)) = max (intent_rank (Some a)) (intent_rank (Some b))"
  by (cases a; cases b) auto

lemma intent_rank_record:
  "intent_rank (ls_exit_intent (record_exit_intent i st)) = max (intent_rank (ls_exit_intent st)) (intent_rank i)"
proof (cases i)
  case (Some x)
  then show ?thesis
    using intent_rank_merge by (cases "ls_exit_intent st") (auto simp: record_exit_intent_def)
qed (simp add: record_exit_intent_def)

lemma progress_received [simp]:
  "rp_received (update_last_received_lsn l p) = max l (rp_received p)"
  "rp_flush (update_last_received_lsn l p) = rp_flush p"
  "rp_flush (update_last_flush_lsn l p) = max l (rp_flush p)"
  "rp_received (update_last_flush_lsn l p) = rp_received p"
  by (auto simp: update_last_received_lsn_def update_last_flush_lsn_def max_def)

lemma update_last_commit_end:
  "ls_last_commit_end (update_last_commit_end_lsn e st) = (case e of
      None \<Rightarrow> ls_last_commit_end st
    | Some x \<Rightarrow> Some (case ls_last_commit_end st of None \<Rightarrow> x | Some y \<Rightarrow> max x y))"
  by (auto simp: update_last_commit_end_lsn_def max_def split: option.split)

lemma batch_bytes_bounded:
  "unat (ls_batch_bytes (add_event_to_batch f e st)) = min (unat (ls_batch_bytes st) + unat (f e)) (2 ^ 64 - 1)"
  by (simp add: add_event_to_batch_def unat_saturating_add)

end
