(* ===== verification/Table_Cache.thy ===== *)
theory Table_Cache
  imports Schema Etl_Error
begin

text \<open>
  The shared per-table protocol state of \<open>etl/src/replication/table_cache.rs\<close> and
  the two lookups of \<open>etl/src/replication/apply.rs\<close> that read it while decoding
  (\<open>get_table_schema_for_relation\<close>, \<open>get_replicated_table_schema\<close>). A table is
  either waiting for a relation message at a known snapshot or ready to decode.
\<close>

section \<open>Shared table state\<close>

datatype shared_table_state =
    WaitingForRelation snapshot_id
  | CacheReady replicated_table_schema

fun shared_snapshot_id :: "shared_table_state \<Rightarrow> snapshot_id" where
  "shared_snapshot_id (WaitingForRelation s) = s"
| "shared_snapshot_id (CacheReady r) = ts_snapshot (rts_schema r)"

fun shared_replicated_schema :: "shared_table_state \<Rightarrow> replicated_table_schema option" where
  "shared_replicated_schema (WaitingForRelation s) = None"
| "shared_replicated_schema (CacheReady r) = Some r"

section \<open>The cache\<close>

type_synonym table_cache = "(table_id \<times> shared_table_state) list"

definition cache_new :: table_cache where
  "cache_new = []"

definition cache_get :: "table_cache \<Rightarrow> table_id \<Rightarrow> shared_table_state option" where
  "cache_get c t = map_of c t"

definition active_table_ids :: "table_cache \<Rightarrow> table_id list" where
  "active_table_ids c = map fst c"

fun cache_upsert :: "table_id \<Rightarrow> shared_table_state \<Rightarrow> table_cache \<Rightarrow> table_cache" where
  "cache_upsert t st [] = [(t, st)]"
| "cache_upsert t st ((t', st') # c) =
     (if t = t' then (t, st) # c else (t', st') # cache_upsert t st c)"

definition note_waiting_for_relation :: "table_id \<Rightarrow> snapshot_id \<Rightarrow> table_cache \<Rightarrow> table_cache" where
  "note_waiting_for_relation t s c = cache_upsert t (WaitingForRelation s) c"

definition note_ready :: "table_id \<Rightarrow> replicated_table_schema \<Rightarrow> table_cache \<Rightarrow> table_cache" where
  "note_ready t r c = cache_upsert t (CacheReady r) c"

definition cache_remove_table :: "table_id \<Rightarrow> table_cache \<Rightarrow> table_cache" where
  "cache_remove_table t c = filter (\<lambda>(t', _). t' \<noteq> t) c"

section \<open>Lookups of the decoder\<close>

definition get_replicated_table_schema :: "table_id \<Rightarrow> table_cache \<Rightarrow> replicated_table_schema etl_result" where
  "get_replicated_table_schema t c = (case cache_get c t of
      None \<Rightarrow> Inl (etl_err InvalidState ''Missing shared table state'')
    | Some st \<Rightarrow> (case shared_replicated_schema st of
          None \<Rightarrow> Inl (etl_err InvalidState ''Waiting for relation state cannot decode row event'')
        | Some r \<Rightarrow> Inr r))"

text \<open>The part of \<open>get_table_schema_for_relation\<close> that checks the schema the store returned.\<close>

definition check_schema_for_relation ::
    "snapshot_id \<Rightarrow> bool \<Rightarrow> table_schema option \<Rightarrow> table_schema etl_result" where
  "check_schema_for_relation snap bootstrap found = (case found of
      None \<Rightarrow> Inl (etl_err MissingTableSchema ''Table schema not found'')
    | Some x \<Rightarrow>
        if bootstrap then
          if ts_snapshot x > snap
          then Inl (etl_err InvalidState ''Bootstrap table schema snapshot exceeded requested snapshot'')
          else Inr x
        else if ts_snapshot x \<noteq> snap
        then Inl (etl_err InvalidState ''Table schema snapshot mismatch'')
        else Inr x)"

section \<open>Lemmas\<close>

lemma cache_get_upsert: "cache_get (cache_upsert t st c) t' = (if t' = t then Some st else cache_get c t')"
  by (induction t st c rule: cache_upsert.induct) (auto simp: cache_get_def)

lemma cache_get_remove: "cache_get (cache_remove_table t c) t' = (if t' = t then None else cache_get c t')"
  by (induction c) (auto simp: cache_get_def cache_remove_table_def)

lemma cache_get_notes [simp]:
  "cache_get (note_waiting_for_relation t s c) t' = (if t' = t then Some (WaitingForRelation s) else cache_get c t')"
  "cache_get (note_ready t r c) t' = (if t' = t then Some (CacheReady r) else cache_get c t')"
  by (simp_all add: note_waiting_for_relation_def note_ready_def cache_get_upsert)

lemma set_active_table_ids: "t \<in> set (active_table_ids c) \<longleftrightarrow> cache_get c t \<noteq> None"
  by (auto simp: active_table_ids_def cache_get_def map_of_eq_None_iff)

lemma distinct_active_upsert:
  "distinct (active_table_ids c) \<Longrightarrow> distinct (active_table_ids (cache_upsert t st c))"
  by (induction t st c rule: cache_upsert.induct)
    (auto simp: active_table_ids_def, metis (no_types, lifting) cache_get_def cache_get_upsert
      domI domIff map_of_eq_None_iff fst_conv image_eqI list.set_map)

lemma get_replicated_table_schema_ok_iff:
  "get_replicated_table_schema t c = Inr r \<longleftrightarrow> cache_get c t = Some (CacheReady r)"
proof (cases "cache_get c t")
  case (Some st)
  then show ?thesis by (cases st) (auto simp: get_replicated_table_schema_def)
qed (simp add: get_replicated_table_schema_def)

lemma check_schema_for_relation_ok_iff:
  "check_schema_for_relation snap b found = Inr x \<longleftrightarrow>
     found = Some x \<and> (if b then ts_snapshot x \<le> snap else ts_snapshot x = snap)"
  by (auto simp: check_schema_for_relation_def not_le split: option.splits)

end
