(* ===== verification/Worker_State.thy ===== *)
theory Worker_State
  imports Store_Interface
begin

text \<open>
  The state a table sync worker shares with the apply worker
  (\<open>TableSyncWorkerState\<close> of \<open>etl/src/workers/table_sync.rs\<close>) and the error
  handling around the worker: the retry decision, the persisted error, the sleep,
  the rollback and the bounded retry loop. The clock, what other tasks do while
  this one sleeps and the outcome of each run of the worker are arguments.
\<close>

section \<open>Worker state\<close>

record worker_state =
  ws_table :: table_id
  ws_phase :: phase
  ws_retry_attempts :: "32 word"

datatype worker_result = WorkerCompleted | WorkerShutdown | WorkerErrored

definition ws_new :: "table_id \<Rightarrow> phase \<Rightarrow> worker_state" where
  "ws_new t p = \<lparr> ws_table = t, ws_phase = p, ws_retry_attempts = 0 \<rparr>"

definition ws_set :: "phase \<Rightarrow> worker_state \<Rightarrow> worker_state" where
  "ws_set p ws = ws \<lparr> ws_phase := p \<rparr>"

definition increment_retry_attempts :: "worker_state \<Rightarrow> worker_state" where
  "increment_retry_attempts ws = ws \<lparr> ws_retry_attempts := saturating_add (ws_retry_attempts ws) 1 \<rparr>"

definition reset_retry_attempts :: "worker_state \<Rightarrow> worker_state" where
  "reset_retry_attempts ws = ws \<lparr> ws_retry_attempts := 0 \<rparr>"

definition set_and_store ::
    "'s store_ops \<Rightarrow> phase \<Rightarrow> worker_state \<Rightarrow> 's \<Rightarrow> unit etl_result \<times> worker_state \<times> 's" where
  "set_and_store ops p ws s =
     (let ws1 = ws_set p ws in
      if should_store (as_type p)
      then (case so_update_state ops (ws_table ws1) p s of (r, s1) \<Rightarrow> (r, ws1, s1))
      else (Inr (), ws1, s))"

definition ws_rollback :: "'s store_ops \<Rightarrow> worker_state \<Rightarrow> 's \<Rightarrow> unit etl_result \<times> worker_state \<times> 's" where
  "ws_rollback ops ws s = (case so_rollback_state ops (ws_table ws) s of
      (Inl e, s1) \<Rightarrow> (Inl e, ws, s1)
    | (Inr p, s1) \<Rightarrow> (Inr (), ws_set p ws, s1))"

section \<open>Waiting for a phase\<close>

text \<open>
  The waiter looks at the state under the lock, and otherwise sleeps until a
  shutdown or a phase change wakes it; \<open>wakes\<close> are the wake-ups in order, each
  phase change with what the waiter then finds. A shutdown wins over a change.
\<close>

datatype 'w wake = ShutdownWake | PhaseWake 'w

datatype 'w wait_result = WaitReached 'w | WaitShutdown 'w | StillWaiting

fun wait_for_phase_type :: "('w \<Rightarrow> phase) \<Rightarrow> phase_type list \<Rightarrow> 'w \<Rightarrow> 'w wake list \<Rightarrow> 'w wait_result" where
  "wait_for_phase_type phase_in targets w wakes =
     (if as_type (phase_in w) \<in> set targets then WaitReached w
      else case wakes of
          [] \<Rightarrow> StillWaiting
        | ShutdownWake # _ \<Rightarrow> WaitShutdown w
        | PhaseWake w' # wakes' \<Rightarrow> wait_for_phase_type phase_in targets w' wakes')"

declare wait_for_phase_type.simps [simp del]

section \<open>Error handling\<close>

record retry_config =
  rc_delay_ms :: "64 word"
  rc_max_attempts :: "32 word"

record 's retry_env =
  re_disp :: "etl_error \<Rightarrow> string"
  re_now :: timestamp
  re_after_store :: timestamp
  re_shutdown :: bool
  re_others :: "'s \<Rightarrow> 's"

definition retry_policy_for :: "retry_config \<Rightarrow> timestamp \<Rightarrow> error_handling_policy \<Rightarrow> retry_policy" where
  "retry_policy_for cfg now policy = (case policy_directive policy of
      Timed \<Rightarrow> retry_in now (sint (rc_delay_ms cfg))
    | Manual \<Rightarrow> ManualRetry
    | NoRetryDirective \<Rightarrow> NoRetry)"

definition attempts_exhausted :: "retry_config \<Rightarrow> error_handling_policy \<Rightarrow> worker_state \<Rightarrow> bool" where
  "attempts_exhausted cfg policy ws \<longleftrightarrow> should_retry policy \<and> ws_retry_attempts ws \<ge> rc_max_attempts cfg"

definition handle_table_sync_worker_error ::
    "'s store_ops \<Rightarrow> retry_config \<Rightarrow> 's retry_env \<Rightarrow> etl_error \<Rightarrow> worker_state \<Rightarrow> 's
     \<Rightarrow> worker_result option etl_result \<times> worker_state \<times> 's" where
  "handle_table_sync_worker_error ops cfg env err ws s =
     (let policy = build_error_handling_policy err;
          rp0 = retry_policy_for cfg (re_now env) policy;
          te0 = from_error_policy (re_disp env) (ws_table ws) err policy rp0;
          exhausted = attempts_exhausted cfg policy ws;
          te = (if exhausted then with_retry_policy ManualRetry te0 else te0);
          rp = (if exhausted then tre_retry_policy te else rp0)
      in case set_and_store ops (phase_of_error te) ws s of
           (Inl e, ws1, s1) \<Rightarrow> (Inl e, ws1, s1)
         | (Inr _, ws1, s1) \<Rightarrow> (case rp of
               TimedRetry next_retry \<Rightarrow>
                 let sleeping = re_after_store env < next_retry;
                     s2 = (if sleeping then re_others env s1 else s1)
                 in if sleeping \<and> re_shutdown env
                    then (Inr (Some WorkerShutdown), reset_retry_attempts ws1, s2)
                    else (case ws_rollback ops (increment_retry_attempts ws1) s2 of
                        (Inl e, ws3, s3) \<Rightarrow> (Inl e, ws3, s3)
                      | (Inr _, ws3, s3) \<Rightarrow> (Inr None, ws3, s3))
             | _ \<Rightarrow> (Inr (Some WorkerErrored), reset_retry_attempts ws1, s1)))"

section \<open>The retry loop\<close>

text \<open>
  One run of the worker is a function of the shared state and the store; run \<open>i\<close>
  comes with the environment of its error handling. The loop is cut after \<open>fuel\<close>
  runs (\<open>None\<close>).
\<close>

type_synonym 's worker_run = "worker_state \<Rightarrow> 's \<Rightarrow> worker_result etl_result \<times> worker_state \<times> 's"

fun guarded_run_table_sync_worker ::
    "'s store_ops \<Rightarrow> retry_config \<Rightarrow> (nat \<Rightarrow> 's worker_run \<times> 's retry_env) \<Rightarrow> nat \<Rightarrow> nat \<Rightarrow> worker_state \<Rightarrow> 's
     \<Rightarrow> (worker_result etl_result \<times> worker_state \<times> 's) option" where
  "guarded_run_table_sync_worker ops cfg runs i 0 ws s = None"
| "guarded_run_table_sync_worker ops cfg runs i (Suc fuel) ws s =
     (case fst (runs i) ws s of
        (Inr r, ws1, s1) \<Rightarrow> Some (Inr r, reset_retry_attempts ws1, s1)
      | (Inl err, ws1, s1) \<Rightarrow> (case handle_table_sync_worker_error ops cfg (snd (runs i)) err ws1 s1 of
            (Inl e, ws2, s2) \<Rightarrow> Some (Inl e, ws2, s2)
          | (Inr (Some r), ws2, s2) \<Rightarrow> Some (Inr r, ws2, s2)
          | (Inr None, ws2, s2) \<Rightarrow> guarded_run_table_sync_worker ops cfg runs (Suc i) fuel ws2 s2))"

text \<open>A panic is turned into an error and handled the same way; a retry cannot follow it.\<close>

definition panic_error :: "string \<Rightarrow> etl_error" where
  "panic_error msg = Single TableSyncWorkerPanic ''Table sync worker panicked'' (Some msg)"

definition run_panicked ::
    "'s store_ops \<Rightarrow> retry_config \<Rightarrow> 's retry_env \<Rightarrow> string \<Rightarrow> worker_state \<Rightarrow> 's
     \<Rightarrow> worker_result etl_result \<times> worker_state \<times> 's" where
  "run_panicked ops cfg env msg ws s =
     (case handle_table_sync_worker_error ops cfg env (panic_error msg) ws s of
        (r, ws1, s1) \<Rightarrow> (res_bind r (ok_or (etl_err InvalidState
           ''Table sync worker panic requested retry after unwinding'')), ws1, s1))"

section \<open>Lemmas\<close>

lemma ws_simps [simp]:
  "ws_table (ws_set p ws) = ws_table ws" "ws_phase (ws_set p ws) = p"
  "ws_retry_attempts (ws_set p ws) = ws_retry_attempts ws"
  "ws_table (increment_retry_attempts ws) = ws_table ws" "ws_phase (increment_retry_attempts ws) = ws_phase ws"
  "ws_table (reset_retry_attempts ws) = ws_table ws" "ws_phase (reset_retry_attempts ws) = ws_phase ws"
  "ws_retry_attempts (reset_retry_attempts ws) = 0"
  by (simp_all add: ws_set_def increment_retry_attempts_def reset_retry_attempts_def)

lemma set_and_store_state:
  "set_and_store ops p ws s = (r, ws', s') \<Longrightarrow> ws' = ws_set p ws"
  by (auto simp: set_and_store_def Let_def split: if_splits prod.splits)

lemma wait_reached:
  "wait_for_phase_type phase_in targets w wakes = WaitReached w' \<Longrightarrow> as_type (phase_in w') \<in> set targets"
proof (induction wakes arbitrary: w)
  case Nil
  then show ?case by (subst (asm) wait_for_phase_type.simps) (auto split: if_splits)
next
  case (Cons x wakes)
  then show ?case
    by (subst (asm) wait_for_phase_type.simps) (auto split: if_splits wake.splits)
qed

text \<open>A waiter that is never woken by a shutdown sees the first target phase, no phase change is lost.\<close>

lemma wait_finds_first:
  assumes "as_type (phase_in w) \<notin> set targets"
    and "\<forall>v \<in> set vs. as_type (phase_in v) \<notin> set targets" "as_type (phase_in w') \<in> set targets"
  shows "wait_for_phase_type phase_in targets w (map PhaseWake vs @ PhaseWake w' # rest) = WaitReached w'"
  using assms
proof (induction vs arbitrary: w)
  case Nil
  then show ?case by (simp add: wait_for_phase_type.simps [of _ _ w] wait_for_phase_type.simps [of _ _ w'])
next
  case (Cons v vs)
  then show ?case by (simp add: wait_for_phase_type.simps [of _ _ w])
qed

text \<open>A retry is granted only to a timed error with attempts left, and uses one up.\<close>

lemma retry_granted:
  assumes "handle_table_sync_worker_error ops cfg env err ws s = (Inr None, ws', s')"
  shows "\<not> attempts_exhausted cfg (build_error_handling_policy err) ws"
    "\<exists>n. retry_policy_for cfg (re_now env) (build_error_handling_policy err) = TimedRetry n"
proof -
  let ?policy = "build_error_handling_policy err"
  let ?rp0 = "retry_policy_for cfg (re_now env) ?policy"
  let ?te0 = "from_error_policy (re_disp env) (ws_table ws) err ?policy ?rp0"
  let ?te = "if attempts_exhausted cfg ?policy ws then with_retry_policy ManualRetry ?te0 else ?te0"
  obtain r1 ws1 s1 where st: "set_and_store ops (phase_of_error ?te) ws s = (r1, ws1, s1)"
    using prod_cases3 by blast
  show fresh: "\<not> attempts_exhausted cfg ?policy ws"
  proof
    assume "attempts_exhausted cfg ?policy ws"
    with assms st show False
      by (cases r1) (simp_all add: handle_table_sync_worker_error_def Let_def with_retry_policy_def)
  qed
  then show "\<exists>n. ?rp0 = TimedRetry n"
    using assms st by (cases ?rp0; cases r1) (auto simp: handle_table_sync_worker_error_def Let_def)
qed

lemma retry_stepsE:
  assumes "handle_table_sync_worker_error ops cfg env err ws s = (Inr None, ws', s')"
  obtains e ws1 s1 s2 where "set_and_store ops e ws s = (Inr (), ws1, s1)" "storable e"
    "s2 = s1 \<or> s2 = re_others env s1" "ws_rollback ops (increment_retry_attempts ws1) s2 = (Inr (), ws', s')"
proof -
  let ?policy = "build_error_handling_policy err"
  let ?rp0 = "retry_policy_for cfg (re_now env) ?policy"
  let ?e = "phase_of_error (from_error_policy (re_disp env) (ws_table ws) err ?policy ?rp0)"
  note fresh = retry_granted(1) [OF assms]
  obtain n where n: "?rp0 = TimedRetry n" using retry_granted(2) [OF assms] by blast
  obtain r1 ws1 s1 where st: "set_and_store ops ?e ws s = (r1, ws1, s1)" using prod_cases3 by blast
  have r1: "r1 = Inr ()" using assms st fresh by (cases r1) (auto simp: handle_table_sync_worker_error_def Let_def)
  define s2 where "s2 = (if re_after_store env < n then re_others env s1 else s1)"
  have "ws_rollback ops (increment_retry_attempts ws1) s2 = (Inr (), ws', s')"
    using assms st [unfolded r1] fresh
    by (auto simp: handle_table_sync_worker_error_def Let_def n s2_def split: if_splits prod.splits sum.splits)
  moreover have "storable ?e" "s2 = s1 \<or> s2 = re_others env s1" by (simp_all add: phase_of_error_def s2_def)
  ultimately show ?thesis using that [OF st [unfolded r1]] by blast
qed

lemma retry_uses_attempt:
  assumes "handle_table_sync_worker_error ops cfg env err ws s = (Inr None, ws', s')"
  shows "should_retry (build_error_handling_policy err)" "ws_retry_attempts ws < rc_max_attempts cfg"
    "unat (ws_retry_attempts ws') = Suc (unat (ws_retry_attempts ws))" "ws_table ws' = ws_table ws"
proof -
  from retry_granted(2) [OF assms] show retry: "should_retry (build_error_handling_policy err)"
    by (cases "policy_directive (build_error_handling_policy err)")
      (simp_all add: retry_policy_for_def should_retry_def)
  with retry_granted(1) [OF assms] show lt: "ws_retry_attempts ws < rc_max_attempts cfg"
    by (simp add: attempts_exhausted_def not_le)
  obtain e ws1 s1 s2 where st: "set_and_store ops e ws s = (Inr (), ws1, s1)"
    and rb: "ws_rollback ops (increment_retry_attempts ws1) s2 = (Inr (), ws', s')"
    using assms by (rule retry_stepsE)
  have att: "ws_retry_attempts ws' = saturating_add (ws_retry_attempts ws) 1" "ws_table ws' = ws_table ws"
    using rb set_and_store_state [OF st]
    by (auto simp: ws_rollback_def increment_retry_attempts_def split: prod.splits sum.splits)
  then show "ws_table ws' = ws_table ws" by simp
  have "unat (ws_retry_attempts ws) < unat (rc_max_attempts cfg)" using lt by (simp add: word_less_nat_alt)
  moreover have "unat (rc_max_attempts cfg) < 2 ^ 32" using unat_bound [of "rc_max_attempts cfg"] by simp
  ultimately show "unat (ws_retry_attempts ws') = Suc (unat (ws_retry_attempts ws))"
    by (simp add: att unat_saturating_add)
qed

lemma guarded_run_returns:
  assumes "\<And>i ws s r ws' s'. fst (runs i) ws s = (r, ws', s') \<Longrightarrow> ws_retry_attempts ws' = ws_retry_attempts ws"
  shows "\<exists>out. guarded_run_table_sync_worker ops cfg runs i
    (Suc (unat (rc_max_attempts cfg) - unat (ws_retry_attempts ws))) ws s = Some out"
proof (induction "unat (rc_max_attempts cfg) - unat (ws_retry_attempts ws)" arbitrary: i ws s)
  case 0
  obtain r ws1 s1 where run: "fst (runs i) ws s = (r, ws1, s1)" using prod_cases3 by blast
  obtain r2 ws2 s2 where "\<And>e. r = Inl e \<Longrightarrow> handle_table_sync_worker_error ops cfg (snd (runs i)) e ws1 s1 = (r2, ws2, s2)"
    by (cases r) (auto intro: prod_cases3)
  moreover have "\<not> ws_retry_attempts ws1 < rc_max_attempts cfg"
    using 0 assms [OF run] by (simp add: word_less_nat_alt)
  ultimately have "r = Inl e \<Longrightarrow> handle_table_sync_worker_error ops cfg (snd (runs i)) e ws1 s1 = (r2, ws2, s2) \<and>
      r2 \<noteq> Inr None" for e
    using retry_uses_attempt(2) [of ops cfg "snd (runs i)" e ws1 s1] by blast
  then show ?case using run by (cases r; cases r2) (auto split: option.split)
next
  case (Suc n)
  obtain r ws1 s1 where run: "fst (runs i) ws s = (r, ws1, s1)" using prod_cases3 by blast
  have att: "ws_retry_attempts ws1 = ws_retry_attempts ws" by (rule assms [OF run])
  show ?case
  proof (cases r)
    case (Inl e)
    obtain r2 ws2 s2 where h: "handle_table_sync_worker_error ops cfg (snd (runs i)) e ws1 s1 = (r2, ws2, s2)"
      using prod_cases3 by blast
    show ?thesis
    proof (cases "r2 = Inr None")
      case True
      then have "n = unat (rc_max_attempts cfg) - unat (ws_retry_attempts ws2)"
        using retry_uses_attempt(3) h att Suc.hyps(2) by force
      from Suc.hyps(1) [OF this, of "Suc i" s2] show ?thesis
        using True run h Inl Suc.hyps(2) \<open>n = _\<close> by (simp flip: Suc.hyps(2))
    next
      case False
      then show ?thesis using run h Inl by (cases r2) (auto split: option.split)
    qed
  qed (use run in simp)
qed

lemma panic_never_retries:
  "handle_table_sync_worker_error ops cfg env (panic_error msg) ws s \<noteq> (Inr None, ws', s')"
  using retry_uses_attempt(1) [of ops cfg env "panic_error msg" ws s ws' s']
  by (auto simp: build_error_handling_policy_def panic_error_def should_retry_def)

section \<open>Over any store\<close>

context state_store
begin

lemma set_and_store_inv: "inv s \<Longrightarrow> set_and_store ops p ws s = (r, ws', s') \<Longrightarrow> inv s'"
  using update_inv by (auto simp: set_and_store_def so_update_state_def Let_def split: if_splits prod.splits)

lemma set_and_store_phase:
  assumes "inv s" "set_and_store ops p ws s = (r, ws', s')"
  shows "phase_of s' = (if storable p \<and> is_ok r then (phase_of s)(ws_table ws \<mapsto> p) else phase_of s)"
  using assms update_phase [OF assms(1), of "[(ws_table ws, p)]"]
  by (auto simp: set_and_store_def so_update_state_def Let_def split: if_splits prod.splits)

lemma set_and_store_stack:
  assumes "inv s" "set_and_store ops p ws s = (r, ws', s')"
  shows "stack_of s' t = (if storable p \<and> is_ok r \<and> t = ws_table ws then persisted p # stack_of s t else stack_of s t)"
  using assms update_stack [OF assms(1), of "[(ws_table ws, p)]"]
  by (auto simp: set_and_store_def so_update_state_def Let_def split: if_splits prod.splits)

lemma set_and_store_progress:
  assumes "inv s" "set_and_store ops p ws s = (r, ws', s')"
  shows "progress_of s' = progress_of s"
  using assms update_progress [OF assms(1), of "[(ws_table ws, p)]"]
  by (auto simp: set_and_store_def so_update_state_def Let_def split: if_splits prod.splits)

text \<open>
  A granted retry pushes the error on the table's history and pops it again: the
  history, and so the phase the next run starts from, are what they were.
\<close>

lemma retry_restores:
  assumes "inv s" "handle_table_sync_worker_error ops cfg env err ws s = (Inr None, ws', s')"
    and others: "\<And>s. inv s \<Longrightarrow> inv (re_others env s) \<and>
       stack_of (re_others env s) (ws_table ws) = stack_of s (ws_table ws)"
  shows "inv s'" "stack_of s' (ws_table ws) = stack_of s (ws_table ws)"
    "phase_of s (ws_table ws) = Some q \<Longrightarrow> persisted (ws_phase ws') = persisted q"
proof -
  let ?t = "ws_table ws"
  obtain e1 ws1 s1 s2 where st: "set_and_store ops e1 ws s = (Inr (), ws1, s1)" "storable e1"
    and s2: "s2 = s1 \<or> s2 = re_others env s1"
    and rb: "ws_rollback ops (increment_retry_attempts ws1) s2 = (Inr (), ws', s')"
    using assms(2) by (rule retry_stepsE)
  have inv1: "inv s1" using set_and_store_inv [OF assms(1) st(1)] .
  have stack1: "stack_of s1 ?t = persisted e1 # stack_of s ?t"
    using set_and_store_stack [OF assms(1) st(1)] st(2) by simp
  have inv2: "inv s2" and stack2: "stack_of s2 ?t = persisted e1 # stack_of s ?t"
    using s2 inv1 stack1 others [OF inv1] by auto
  have ws1: "ws1 = ws_set e1 ws" using st(1) by (rule set_and_store_state)
  obtain p where p: "so_rollback_state ops ?t s2 = (Inr p, s')" "ws' = ws_set p (increment_retry_attempts ws1)"
    using rb by (auto simp: ws_rollback_def ws1 split: prod.splits sum.splits)
  show "inv s'" using rollback_inv [OF inv2 p(1)] .
  obtain x rest where pop: "stack_of s2 ?t = x # persisted p # rest" "stack_of s' ?t = persisted p # rest"
    using rollback_stack [OF inv2 p(1)] by blast
  with stack2 show "stack_of s' ?t = stack_of s ?t" by simp
  show "persisted (ws_phase ws') = persisted q" if "phase_of s ?t = Some q"
  proof -
    have "stack_of s ?t = persisted p # rest" using stack2 pop(1) by simp
    then show ?thesis using phase_stack [OF assms(1), of ?t] that by (simp add: p(2))
  qed
qed

end

end
