(* ===== verification/Worker_Pool.thy ===== *)
theory Worker_Pool
  imports Worker_State
begin

text \<open>
  The pool of table sync workers, \<open>etl/src/workers/pool.rs\<close>. A handle points to the
  worker's run and to the state it shares; \<open>wp_running\<close> are the runs whose task has
  not ended, \<open>wp_tasks\<close> the runs whose task has not been joined. Tasks end on their
  own (\<open>pool_task_end\<close>), the other operations are calls.
\<close>

type_synonym worker_id = "table_id \<times> 64 word"

record worker_handle =
  wh_run :: "64 word"
  wh_state :: worker_state

record worker_pool =
  wp_next_run :: "64 word"
  wp_tasks :: "worker_id list"
  wp_running :: "worker_id list"
  wp_workers :: "table_id \<Rightarrow> worker_handle option"

datatype join_result =
    Joined worker_id "worker_result etl_result"
  | JoinCancelled worker_id
  | JoinPanicked worker_id

definition pool_new :: worker_pool where
  "pool_new = \<lparr> wp_next_run = 0, wp_tasks = [], wp_running = [], wp_workers = (\<lambda>_. None) \<rparr>"

definition handle_is_finished :: "worker_pool \<Rightarrow> table_id \<Rightarrow> worker_handle \<Rightarrow> bool" where
  "handle_is_finished pl t h \<longleftrightarrow> (t, wh_run h) \<notin> set (wp_running pl)"

definition pool_spawn :: "table_id \<Rightarrow> worker_state \<Rightarrow> worker_pool \<Rightarrow> worker_pool" where
  "pool_spawn t st pl =
     (if (case wp_workers pl t of None \<Rightarrow> False | Some h \<Rightarrow> \<not> handle_is_finished pl t h) then pl
      else let run = wp_next_run pl in
        pl \<lparr> wp_next_run := run + 1, wp_tasks := wp_tasks pl @ [(t, run)],
             wp_running := wp_running pl @ [(t, run)],
             wp_workers := (wp_workers pl)(t \<mapsto> \<lparr> wh_run = run, wh_state = st \<rparr>) \<rparr>)"

definition get_active_worker_state :: "table_id \<Rightarrow> worker_pool \<Rightarrow> worker_state option" where
  "get_active_worker_state t pl = (case wp_workers pl t of
      None \<Rightarrow> None
    | Some h \<Rightarrow> if handle_is_finished pl t h then None else Some (wh_state h))"

text \<open>Writing through the state handle of an active worker.\<close>

definition put_worker_state :: "table_id \<Rightarrow> worker_state \<Rightarrow> worker_pool \<Rightarrow> worker_pool" where
  "put_worker_state t ws pl = (case wp_workers pl t of
      None \<Rightarrow> pl
    | Some h \<Rightarrow> pl \<lparr> wp_workers := (wp_workers pl)(t \<mapsto> h \<lparr> wh_state := ws \<rparr>) \<rparr>)"

definition pool_task_end :: "worker_id \<Rightarrow> worker_pool \<Rightarrow> worker_pool" where
  "pool_task_end w pl = pl \<lparr> wp_running := filter (\<lambda>x. x \<noteq> w) (wp_running pl) \<rparr>"

fun joined_id :: "join_result \<Rightarrow> worker_id" where
  "joined_id (Joined w _) = w"
| "joined_id (JoinCancelled w) = w"
| "joined_id (JoinPanicked w) = w"

fun pool_join :: "join_result \<Rightarrow> worker_pool \<Rightarrow> etl_error list \<times> worker_pool" where
  "pool_join j pl =
     (let pl1 = pool_task_end (joined_id j) (pl \<lparr> wp_tasks := filter (\<lambda>x. x \<noteq> joined_id j) (wp_tasks pl) \<rparr>)
      in case j of
           Joined (t, run) r \<Rightarrow>
             (let pl2 = (case wp_workers pl1 t of
                    None \<Rightarrow> pl1
                  | Some h \<Rightarrow> if wh_run h = run then pl1 \<lparr> wp_workers := (wp_workers pl1)(t := None) \<rparr> else pl1)
              in (case r of Inl e \<Rightarrow> [e] | Inr _ \<Rightarrow> [], pl2))
         | JoinCancelled _ \<Rightarrow> ([], pl1)
         | JoinPanicked _ \<Rightarrow> ([etl_err TableSyncWorkerPanic ''Table sync worker panicked''], pl1))"

declare pool_join.simps [simp del]

fun pool_drain :: "join_result list \<Rightarrow> worker_pool \<Rightarrow> etl_error list \<times> worker_pool" where
  "pool_drain [] pl = ([], pl)"
| "pool_drain (j # js) pl =
     (let (es, pl1) = pool_join j pl; (es', pl2) = pool_drain js pl1 in (es @ es', pl2))"

definition wait_all :: "join_result list \<Rightarrow> worker_pool \<Rightarrow> unit etl_result \<times> worker_pool" where
  "wait_all js pl = (let (es, pl') = pool_drain js pl
     in (if es = [] then Inr () else Inl (from_errors es), pl'))"

section \<open>Invariant\<close>

text \<open>
  Run identifiers are fresh, every task that has not ended is waiting to be joined,
  and the handle of a table points to its running task: so a table has at most one.
\<close>

definition pool_ok :: "worker_pool \<Rightarrow> bool" where
  "pool_ok pl \<longleftrightarrow>
     (\<forall>w \<in> set (wp_tasks pl). snd w < wp_next_run pl) \<and>
     distinct (wp_tasks pl) \<and> set (wp_running pl) \<subseteq> set (wp_tasks pl) \<and> distinct (wp_running pl) \<and>
     (\<forall>w \<in> set (wp_running pl). map_option wh_run (wp_workers pl (fst w)) = Some (snd w))"

definition running_tables :: "worker_pool \<Rightarrow> table_id list" where
  "running_tables pl = map fst (wp_running pl)"

lemma pool_ok_new [simp]: "pool_ok pool_new"
  by (simp add: pool_ok_def pool_new_def)

lemma pool_ok_handle:
  "pool_ok pl \<Longrightarrow> (t, run) \<in> set (wp_running pl) \<Longrightarrow> map_option wh_run (wp_workers pl t) = Some run"
  unfolding pool_ok_def by fastforce

lemma pool_ok_distinct_tables:
  assumes "pool_ok pl"
  shows "distinct (running_tables pl)"
proof -
  have "inj_on fst (set (wp_running pl))"
  proof (rule inj_onI)
    fix v w assume vw: "v \<in> set (wp_running pl)" "w \<in> set (wp_running pl)" "fst v = fst w"
    have "map_option wh_run (wp_workers pl (fst v)) = Some (snd v)"
      "map_option wh_run (wp_workers pl (fst w)) = Some (snd w)"
      using pool_ok_handle [OF assms] vw(1,2) by simp_all
    with vw(3) show "v = w" by (simp add: prod_eq_iff)
  qed
  then show ?thesis using assms by (simp add: running_tables_def distinct_map pool_ok_def)
qed

lemma active_iff_running:
  assumes "pool_ok pl"
  shows "get_active_worker_state t pl \<noteq> None \<longleftrightarrow> t \<in> set (running_tables pl)"
proof
  assume "get_active_worker_state t pl \<noteq> None"
  then show "t \<in> set (running_tables pl)"
    by (force simp: get_active_worker_state_def handle_is_finished_def running_tables_def
        split: option.splits if_splits)
next
  assume "t \<in> set (running_tables pl)"
  then obtain run where "(t, run) \<in> set (wp_running pl)" by (auto simp: running_tables_def)
  with pool_ok_handle [OF assms this] show "get_active_worker_state t pl \<noteq> None"
    by (auto simp: get_active_worker_state_def handle_is_finished_def)
qed

lemma pool_ok_spawn:
  assumes ok: "pool_ok pl" and room: "wp_next_run pl < - 1"
  shows "pool_ok (pool_spawn t st pl)"
proof (cases "get_active_worker_state t pl = None")
  case False
  then show ?thesis using ok
    by (auto simp: pool_spawn_def get_active_worker_state_def split: option.splits if_splits)
next
  case True
  let ?run = "wp_next_run pl"
  let ?pl = "pl \<lparr> wp_next_run := ?run + 1, wp_tasks := wp_tasks pl @ [(t, ?run)],
      wp_running := wp_running pl @ [(t, ?run)],
      wp_workers := (wp_workers pl)(t \<mapsto> \<lparr> wh_run = ?run, wh_state = st \<rparr>) \<rparr>"
  have spawn: "pool_spawn t st pl = ?pl"
    using True by (auto simp: pool_spawn_def get_active_worker_state_def Let_def split: option.splits if_splits)
  have lt: "?run < ?run + 1" using room by (simp add: word_less_nat_alt unat_word_ariths
      unsigned_minus_1_eq_mask mask_eq_exp_minus_1)
  have "t \<notin> set (running_tables pl)" using active_iff_running [OF ok, of t] True by simp
  then have other: "t' \<noteq> t" if "(t', run) \<in> set (wp_running pl)" for t' run
    using that by (force simp: running_tables_def)
  have tasks: "\<forall>w \<in> set (wp_tasks pl). snd w < ?run" and sub: "set (wp_running pl) \<subseteq> set (wp_tasks pl)"
    using ok by (simp_all add: pool_ok_def)
  have fresh: "(t, ?run) \<notin> set (wp_tasks pl)" using tasks by force
  have "\<forall>w \<in> set (wp_tasks pl). snd w < ?run + 1" using tasks lt by (meson order_less_trans)
  moreover have "\<forall>w \<in> set (wp_running pl). map_option wh_run (wp_workers ?pl (fst w)) = Some (snd w)"
    using ok other by (fastforce simp: pool_ok_def)
  ultimately show ?thesis
    using ok lt fresh sub unfolding spawn by (auto simp: pool_ok_def)
qed

lemma pool_ok_end:
  assumes "pool_ok pl"
  shows "pool_ok (pool_task_end w pl)"
  using assms by (auto simp: pool_ok_def pool_task_end_def)

lemma pool_ok_put:
  assumes "pool_ok pl"
  shows "pool_ok (put_worker_state t ws pl)"
proof (cases "wp_workers pl t")
  case (Some h)
  have "map_option wh_run (wp_workers (put_worker_state t ws pl) t') = map_option wh_run (wp_workers pl t')" for t'
    by (simp add: put_worker_state_def Some)
  with assms Some show ?thesis by (simp add: pool_ok_def put_worker_state_def)
qed (use assms in \<open>simp add: put_worker_state_def\<close>)

lemma pool_ok_join:
  assumes ok: "pool_ok pl"
  shows "pool_ok (snd (pool_join j pl))"
proof -
  define pl1 where "pl1 = pool_task_end (joined_id j) (pl \<lparr> wp_tasks := filter (\<lambda>x. x \<noteq> joined_id j) (wp_tasks pl) \<rparr>)"
  have ok1: "pool_ok pl1" using ok by (auto simp: pl1_def pool_ok_def pool_task_end_def)
  have gone: "joined_id j \<notin> set (wp_running pl1)" by (simp add: pl1_def pool_task_end_def)
  have "pool_ok (pl1 \<lparr> wp_workers := (wp_workers pl1)(t := None) \<rparr>)"
    if "wp_workers pl1 t = Some h" "(t, wh_run h) \<notin> set (wp_running pl1)" for t h
    using ok1 that by (fastforce simp: pool_ok_def)
  note removed = this
  have eq: "snd (pool_join j pl) = (case j of
      Joined (t, run) r \<Rightarrow> (case wp_workers pl1 t of
          None \<Rightarrow> pl1
        | Some h \<Rightarrow> if wh_run h = run then pl1 \<lparr> wp_workers := (wp_workers pl1)(t := None) \<rparr> else pl1)
    | _ \<Rightarrow> pl1)"
    unfolding pl1_def pool_join.simps Let_def by (simp split: join_result.split prod.split)
  show ?thesis
  proof (cases j)
    case (Joined w r)
    obtain t run where "w = (t, run)" by fastforce
    with Joined gone removed [of t] ok1 show ?thesis
      unfolding eq by (cases "wp_workers pl1 t") simp_all
  next
    case (JoinCancelled w)
    with ok1 show ?thesis unfolding eq by simp
  next
    case (JoinPanicked w)
    with ok1 show ?thesis unfolding eq by simp
  qed
qed

end
