(* ===== verification/Apply_Sync.thy ===== *)
theory Apply_Sync
  imports Effects Apply_State Table_Cache Worker_Pool
begin

text \<open>
  How the apply loop coordinates with table synchronisation: the modules
  \<open>apply_worker\<close> and \<open>table_sync_worker\<close> of \<open>etl/src/replication/apply.rs\<close>. \<open>shared\<close> is
  what the workers of a pipeline share: the store, the pool of table sync workers with
  their states, and the table cache. While the apply worker waits for a table sync
  worker, the others go on; \<open>waits t sh\<close> are the wake-ups of a wait for table \<open>t\<close> that
  begins in \<open>sh\<close>, each with the shared state found then.
\<close>

record 's shared =
  sh_store :: 's
  sh_pool :: worker_pool
  sh_cache :: table_cache

type_synonym 's waits = "table_id \<Rightarrow> 's shared \<Rightarrow> 's shared wake list"

section \<open>Ownership of a table\<close>

fun is_phase_ready_for_changes :: "phase \<Rightarrow> lsn \<Rightarrow> bool" where
  "is_phase_ready_for_changes Ready remote_final = True"
| "is_phase_ready_for_changes (SyncDone l) remote_final = (l \<le> remote_final)"
| "is_phase_ready_for_changes _ remote_final = False"

definition apply_should_apply_changes ::
    "'s store_ops \<Rightarrow> table_id \<Rightarrow> lsn \<Rightarrow> 's shared \<Rightarrow> bool etl_result" where
  "apply_should_apply_changes ops t remote_final sh =
     (case get_active_worker_state t (sh_pool sh) of
        Some ws \<Rightarrow> Inr (is_phase_ready_for_changes (ws_phase ws) remote_final)
      | None \<Rightarrow> res_bind (so_get_state ops (sh_store sh) t) (\<lambda>p. case p of
            None \<Rightarrow> Inr False
          | Some ph \<Rightarrow> Inr (is_phase_ready_for_changes ph remote_final)))"

definition sync_should_apply_changes :: "table_id \<Rightarrow> table_id \<Rightarrow> bool" where
  "sync_should_apply_changes own t = (own = t)"

definition get_syncing_tables :: "'s store_ops \<Rightarrow> 's \<Rightarrow> (table_id \<times> phase) list etl_result" where
  "get_syncing_tables ops s =
     res_bind (so_get_states ops s) (\<lambda>states. Inr (filter (\<lambda>(_, p). \<not> is_done (as_type p)) states))"

section \<open>Steps of the apply worker\<close>

definition worker_phase :: "table_id \<Rightarrow> 's shared \<Rightarrow> phase option" where
  "worker_phase t sh = map_option (ws_phase \<circ> wh_state) (wp_workers (sh_pool sh) t)"

text \<open>\<open>set_and_store\<close> on the state a worker shares through the pool.\<close>

definition store_worker_phase ::
    "'s store_ops \<Rightarrow> worker_state \<Rightarrow> phase \<Rightarrow> ('s shared, unit) action" where
  "store_worker_phase ops ws p sh = (case set_and_store ops p ws (sh_store sh) of
      (r, ws', s') \<Rightarrow> (failable r,
        sh \<lparr> sh_store := s', sh_pool := put_worker_state (ws_table ws) ws' (sh_pool sh) \<rparr>))"

definition wait_for_table_sync_worker_catchup ::
    "'s waits \<Rightarrow> table_id \<Rightarrow> ('s shared, exit_intent option) action" where
  "wait_for_table_sync_worker_catchup waits t sh =
     (case wait_for_phase_type (\<lambda>sh. case worker_phase t sh of None \<Rightarrow> Init | Some p \<Rightarrow> p)
            [SyncDoneT, ErroredT] sh (waits t sh) of
        WaitReached sh' \<Rightarrow> (Inr None, sh')
      | WaitShutdown sh' \<Rightarrow> (Inr (Some ExitPause), sh')
      | StillWaiting \<Rightarrow> (Inl Blocked, sh))"

definition spawn_into_pool :: "'s store_ops \<Rightarrow> table_id \<Rightarrow> 's shared \<Rightarrow> unit etl_result \<times> 's shared" where
  "spawn_into_pool ops t sh = (case so_get_state ops (sh_store sh) t of
      Inl e \<Rightarrow> (Inl e, sh)
    | Inr None \<Rightarrow> (Inl (etl_err InvalidState ''Table replication state not found''), sh)
    | Inr (Some p) \<Rightarrow> (Inr (), sh \<lparr> sh_pool := pool_spawn t (ws_new t p) (sh_pool sh) \<rparr>))"

text \<open>A worker that cannot be started is logged; the loop goes on.\<close>

definition start_table_sync_worker :: "'s store_ops \<Rightarrow> table_id \<Rightarrow> ('s shared, unit) action" where
  "start_table_sync_worker ops t sh = (Inr (), snd (spawn_into_pool ops t sh))"

definition store_phase :: "'s store_ops \<Rightarrow> table_id \<Rightarrow> phase \<Rightarrow> ('s shared, unit) action" where
  "store_phase ops t p =
     act_on sh_store (\<lambda>s sh. sh \<lparr> sh_store := s \<rparr>) (act_call (so_update_state ops t p))"

definition enter_catchup ::
    "'s store_ops \<Rightarrow> 's waits \<Rightarrow> table_id \<Rightarrow> worker_state \<Rightarrow> lsn \<Rightarrow> lsn
     \<Rightarrow> ('s shared, exit_intent option) action" where
  "enter_catchup ops waits t ws snapshot_lsn current_lsn =
     act_bind (store_worker_phase ops ws (Catchup (max snapshot_lsn current_lsn))) (\<lambda>_.
       wait_for_table_sync_worker_catchup waits t)"

definition process_single_after_commit ::
    "'s store_ops \<Rightarrow> 's waits \<Rightarrow> lsn \<Rightarrow> table_id \<times> phase \<Rightarrow> ('s shared, exit_intent option) action" where
  "process_single_after_commit ops waits current_lsn tp =
     (case tp of (t, stored) \<Rightarrow>
       act_bind (act_get (\<lambda>sh. get_active_worker_state t (sh_pool sh))) (\<lambda>worker. case worker of
           Some ws \<Rightarrow> (case ws_phase ws of
               SyncWait snapshot_lsn \<Rightarrow> enter_catchup ops waits t ws snapshot_lsn current_lsn
             | Catchup _ \<Rightarrow> wait_for_table_sync_worker_catchup waits t
             | _ \<Rightarrow> act_return None)
         | None \<Rightarrow> (case stored of
               SyncDone _ \<Rightarrow> act_return None
             | _ \<Rightarrow> act_bind (start_table_sync_worker ops t) (\<lambda>_. act_return None))))"

definition apply_after_commit ::
    "'s store_ops \<Rightarrow> 's waits \<Rightarrow> lsn \<Rightarrow> ('s shared, exit_intent option) action" where
  "apply_after_commit ops waits current_lsn =
     act_bind (\<lambda>sh. act_try (get_syncing_tables ops (sh_store sh)) sh)
       (act_until (process_single_after_commit ops waits current_lsn))"

definition process_single_after_flush ::
    "'s store_ops \<Rightarrow> lsn \<Rightarrow> table_id \<times> phase \<Rightarrow> ('s shared, unit) action" where
  "process_single_after_flush ops current_lsn tp =
     (case tp of (t, stored) \<Rightarrow>
       act_bind (act_get (\<lambda>sh. get_active_worker_state t (sh_pool sh))) (\<lambda>worker. case worker of
           Some ws \<Rightarrow> (case ws_phase ws of
               SyncDone sync_done \<Rightarrow> act_when (current_lsn \<ge> sync_done) (store_phase ops t Ready)
             | _ \<Rightarrow> act_return ())
         | None \<Rightarrow> (case stored of
               SyncDone sync_done \<Rightarrow> act_when (current_lsn \<ge> sync_done) (store_phase ops t Ready)
             | _ \<Rightarrow> start_table_sync_worker ops t)))"

definition apply_after_flush :: "'s store_ops \<Rightarrow> lsn \<Rightarrow> ('s shared, unit) action" where
  "apply_after_flush ops current_lsn =
     act_bind (\<lambda>sh. act_try (get_syncing_tables ops (sh_store sh)) sh)
       (act_each (process_single_after_flush ops current_lsn))"

definition process_single_when_idle ::
    "'s store_ops \<Rightarrow> 's waits \<Rightarrow> lsn \<Rightarrow> table_id \<times> phase \<Rightarrow> ('s shared, exit_intent option) action" where
  "process_single_when_idle ops waits current_lsn tp =
     (case tp of (t, stored) \<Rightarrow>
       act_bind (act_get (\<lambda>sh. get_active_worker_state t (sh_pool sh))) (\<lambda>worker. case worker of
           Some ws \<Rightarrow> (case ws_phase ws of
               SyncWait snapshot_lsn \<Rightarrow> enter_catchup ops waits t ws snapshot_lsn current_lsn
             | SyncDone sync_done \<Rightarrow>
                 act_bind (act_when (current_lsn \<ge> sync_done) (store_phase ops t Ready)) (\<lambda>_. act_return None)
             | Catchup _ \<Rightarrow> wait_for_table_sync_worker_catchup waits t
             | _ \<Rightarrow> act_return None)
         | None \<Rightarrow> (case stored of
               SyncDone sync_done \<Rightarrow>
                 act_bind (act_when (current_lsn \<ge> sync_done) (store_phase ops t Ready)) (\<lambda>_. act_return None)
             | _ \<Rightarrow> act_bind (start_table_sync_worker ops t) (\<lambda>_. act_return None))))"

definition apply_when_idle ::
    "'s store_ops \<Rightarrow> 's waits \<Rightarrow> lsn \<Rightarrow> ('s shared, exit_intent option) action" where
  "apply_when_idle ops waits current_lsn =
     act_bind (\<lambda>sh. act_try (get_syncing_tables ops (sh_store sh)) sh)
       (act_until (process_single_when_idle ops waits current_lsn))"

section \<open>Steps of a table sync worker\<close>

definition sync_after_commit :: "table_id \<Rightarrow> lsn \<Rightarrow> 's shared \<Rightarrow> exit_intent option" where
  "sync_after_commit own current_lsn sh = (case worker_phase own sh of
      Some (Catchup catchup) \<Rightarrow> if current_lsn \<ge> catchup then Some ExitComplete else None
    | _ \<Rightarrow> None)"

definition try_complete_catchup ::
    "'s store_ops \<Rightarrow> table_id \<Rightarrow> lsn \<Rightarrow> ('s shared, exit_intent option) action" where
  "try_complete_catchup ops own current_lsn =
     act_bind (act_get (\<lambda>sh. map_option wh_state (wp_workers (sh_pool sh) own))) (\<lambda>worker. case worker of
         Some ws \<Rightarrow> (case ws_phase ws of
             Catchup catchup \<Rightarrow>
               if current_lsn \<ge> catchup
               then act_bind (store_worker_phase ops ws (SyncDone current_lsn)) (\<lambda>_. act_return (Some ExitComplete))
               else act_return None
           | _ \<Rightarrow> act_return None)
       | None \<Rightarrow> act_return None)"

end
