(* ===== verification/Apply_Loop.thy ===== *)
theory Apply_Loop
  imports Apply_Sync
begin

text \<open>
  The apply loop, \<open>ApplyLoop\<close> of \<open>etl/src/replication/apply.rs\<close>, one action per method.
  A \<open>loop_config\<close> holds what does not change, a \<open>loop_env\<close> what the outside world does
  during one iteration: the clock, what is ready when the selection of the loop wakes up,
  and the outcome of the calls that leave the process. The loop keeps, next to its
  state and its stream, three lists that only record history: every event it
  put in a batch, the events handed to the destination, and the events the destination
  acknowledged.
\<close>

section \<open>Messages, configuration and environment\<close>

datatype logical_message =
    LBegin begin_body
  | LCommit commit_body
  | LRelation relation_body
  | LInsert insert_body
  | LUpdate update_body
  | LDelete delete_body
  | LTruncate truncate_body
  | LOrigin
  | LType
  | LMessage "string option" "string option"
  | LOther

datatype replication_message =
    XLogData lsn lsn logical_message
  | PrimaryKeepAlive lsn "8 word"
  | OtherMessage

datatype connection_update = ConnRunning | ConnTerminated | ConnErrored string

record 's loop_config =
  lc_ops :: "'s store_ops"
  lc_worker :: worker_type
  lc_max_fill :: nat
  lc_keep_alive :: nat
  lc_size_hint :: "event \<Rightarrow> usize"
  lc_parsers :: text_parsers
  lc_type_of_oid :: "oid \<Rightarrow> pg_type option"
  lc_parse_ddl :: "string \<Rightarrow> schema_change_message etl_result"

record 's loop_env =
  le_now :: instant
  le_shutdown :: bool
  le_connection :: "(unit + connection_update) option"
  le_message :: "replication_message etl_result option option"
  le_closed :: bool
  le_net :: "unit etl_result"
  le_write :: "unit etl_result"
  le_budget :: usize
  le_cleanup_joined :: "bool option"
  le_waits :: "'s waits"
  le_waits_before :: "'s waits"
  le_waits_after :: "'s waits"

record 's apply_loop =
  al_state :: apply_loop_state
  al_stream :: events_stream
  al_shared :: "'s shared"
  al_produced :: "event list"
  al_unacked :: "event list"
  al_acked :: "event list"

definition st_modify :: "(apply_loop_state \<Rightarrow> apply_loop_state) \<Rightarrow> ('s apply_loop, unit) action" where
  "st_modify f = act_modify (\<lambda>lp. lp \<lparr> al_state := f (al_state lp) \<rparr>)"

definition st_take :: "(apply_loop_state \<Rightarrow> 'a \<times> apply_loop_state) \<Rightarrow> ('s apply_loop, 'a) action" where
  "st_take f lp = (case f (al_state lp) of (x, st) \<Rightarrow> (Inr x, lp \<lparr> al_state := st \<rparr>))"

definition on_shared :: "('s shared, 'a) action \<Rightarrow> ('s apply_loop, 'a) action" where
  "on_shared = act_on al_shared (\<lambda>sh lp. lp \<lparr> al_shared := sh \<rparr>)"

definition on_store :: "('s \<Rightarrow> 'a etl_result \<times> 's) \<Rightarrow> ('s apply_loop, 'a) action" where
  "on_store f = on_shared (act_on sh_store (\<lambda>s sh. sh \<lparr> sh_store := s \<rparr>) (act_call f))"

definition on_cache :: "(table_cache \<Rightarrow> table_cache) \<Rightarrow> ('s apply_loop, unit) action" where
  "on_cache f = on_shared (act_modify (\<lambda>sh. sh \<lparr> sh_cache := f (sh_cache sh) \<rparr>))"

section \<open>Ownership\<close>

definition worker_should_apply_changes ::
    "'s loop_config \<Rightarrow> table_id \<Rightarrow> lsn \<Rightarrow> 's shared \<Rightarrow> bool etl_result" where
  "worker_should_apply_changes cfg t remote_final sh = (case lc_worker cfg of
      Apply \<Rightarrow> apply_should_apply_changes (lc_ops cfg) t remote_final sh
    | TableSync own \<Rightarrow> Inr (sync_should_apply_changes own t))"

definition should_apply_changes ::
    "'s loop_config \<Rightarrow> table_id \<Rightarrow> lsn \<Rightarrow> ('s apply_loop, bool) action" where
  "should_apply_changes cfg t remote_final lp =
     (failable (worker_should_apply_changes cfg t remote_final (al_shared lp)), lp)"

section \<open>Schema cleanup\<close>

definition table_retention :: "lsn \<Rightarrow> destination_table_metadata \<Rightarrow> table_schema_retention" where
  "table_retention durable d =
     (let retained = min (case dtm_previous_snapshot_id d of None \<Rightarrow> dtm_snapshot_id d | Some p \<Rightarrow> p)
                         (dtm_snapshot_id d)
      in if durable \<le> retained then RetainDurableFlush durable else RetainSnapshot retained)"

fun retentions_of ::
    "'s loop_config \<Rightarrow> lsn \<Rightarrow> 's shared \<Rightarrow> table_id list \<Rightarrow> (table_id \<times> table_schema_retention) list
     \<Rightarrow> (table_id \<times> table_schema_retention) list etl_result" where
  "retentions_of cfg durable sh [] acc = Inr acc"
| "retentions_of cfg durable sh (t # ts) acc =
     res_bind (worker_should_apply_changes cfg t durable sh) (\<lambda>owned.
       if \<not> owned then retentions_of cfg durable sh ts acc
       else res_bind (so_get_metadata (lc_ops cfg) (sh_store sh) t) (\<lambda>metadata. case metadata of
           None \<Rightarrow> retentions_of cfg durable sh ts acc
         | Some d \<Rightarrow> retentions_of cfg durable sh ts (AList.update t (table_retention durable d) acc)))"

definition get_table_schema_retentions ::
    "'s loop_config \<Rightarrow> lsn \<Rightarrow> 's shared \<Rightarrow> (table_id \<times> table_schema_retention) list etl_result" where
  "get_table_schema_retentions cfg durable sh =
     retentions_of cfg durable sh (active_table_ids (sh_cache sh)) []"

text \<open>A cleanup task that could not be joined is scheduled again.\<close>

definition handle_schema_cleanup_task_result :: "instant \<Rightarrow> bool \<Rightarrow> apply_loop_state \<Rightarrow> apply_loop_state" where
  "handle_schema_cleanup_task_result now joined st = (if joined then st else finish_cleanup_run now st)"

definition collect_finished_schema_cleanup_task :: "'s loop_env \<Rightarrow> apply_loop_state \<Rightarrow> apply_loop_state" where
  "collect_finished_schema_cleanup_task env st = (case (ls_cleanup_task st, le_cleanup_joined env) of
      (Some _, Some joined) \<Rightarrow>
        handle_schema_cleanup_task_result (le_now env) joined (st \<lparr> ls_cleanup_task := None \<rparr>)
    | _ \<Rightarrow> st)"

definition spawn_schema_cleanup ::
    "'s loop_config \<Rightarrow> 's loop_env \<Rightarrow> 's shared \<Rightarrow> apply_loop_state \<Rightarrow> apply_loop_state" where
  "spawn_schema_cleanup cfg env sh st =
     (let st1 = collect_finished_schema_cleanup_task env st in
      if ls_cleanup_task st1 \<noteq> None then st1
      else case try_start_schema_cleanup (le_now env) st1 of
          (False, st2) \<Rightarrow> st2
        | (True, st2) \<Rightarrow> (case so_get_progress (lc_ops cfg) (sh_store sh) (lc_worker cfg) of
              Inr (Some durable) \<Rightarrow> (case get_table_schema_retentions cfg durable sh of
                  Inl _ \<Rightarrow> finish_cleanup_run (le_now env) st2
                | Inr retentions \<Rightarrow>
                    if retentions = [] then finish_cleanup_run (le_now env) st2
                    else st2 \<lparr> ls_cleanup_task := Some retentions \<rparr>)
            | _ \<Rightarrow> finish_cleanup_run (le_now env) st2))"

definition maybe_spawn_schema_cleanup :: "'s loop_config \<Rightarrow> 's loop_env \<Rightarrow> ('s apply_loop, unit) action" where
  "maybe_spawn_schema_cleanup cfg env =
     act_modify (\<lambda>lp. lp \<lparr> al_state := spawn_schema_cleanup cfg env (al_shared lp) (al_state lp) \<rparr>)"

text \<open>The background task: prune with the frozen retentions, then schedule the next run.\<close>

definition run_schema_cleanup_task ::
    "'s loop_config \<Rightarrow> instant \<Rightarrow> 's apply_loop \<Rightarrow> 's apply_loop" where
  "run_schema_cleanup_task cfg now lp = (case ls_cleanup_task (al_state lp) of
      None \<Rightarrow> lp
    | Some retentions \<Rightarrow>
        lp \<lparr> al_shared := (al_shared lp)
               \<lparr> sh_store := snd (so_prune_schemas (lc_ops cfg) (map_of retentions) (sh_store (al_shared lp))) \<rparr>,
             al_state := finish_cleanup_run now (al_state lp) \<rparr>)"

section \<open>Status updates and flushes\<close>

definition send_status_update ::
    "'s loop_config \<Rightarrow> 's loop_env \<Rightarrow> lsn \<Rightarrow> bool \<Rightarrow> status_update_type \<Rightarrow> ('s apply_loop, unit) action" where
  "send_status_update cfg env flush_lsn force ty =
     act_bind (\<lambda>lp. case es_send_status_update (le_now env) (le_net env)
            (last_received_lsn (al_state lp)) flush_lsn force ty (al_stream lp) of
          (r, es) \<Rightarrow> (failable r, lp \<lparr> al_stream := es \<rparr>))
       (\<lambda>r. case r of Sent \<Rightarrow> maybe_spawn_schema_cleanup cfg env | Skipped \<Rightarrow> act_return ())"

definition send_effective_status ::
    "'s loop_config \<Rightarrow> 's loop_env \<Rightarrow> bool \<Rightarrow> status_update_type \<Rightarrow> ('s apply_loop, unit) action" where
  "send_effective_status cfg env force ty =
     act_bind (act_get (\<lambda>lp. effective_flush_lsn (al_state lp)))
       (\<lambda>l. send_status_update cfg env l force ty)"

text \<open>\<open>destination.write_events\<close>: the batch is handed over; the call itself may be refused.\<close>

definition write_events :: "'s loop_env \<Rightarrow> event list \<Rightarrow> ('s apply_loop, unit) action" where
  "write_events env batch lp =
     (failable (le_write env), lp \<lparr> al_unacked := al_unacked lp @ batch \<rparr>)"

definition flush_batch :: "'s loop_env \<Rightarrow> ('s apply_loop, unit) action" where
  "flush_batch env =
     act_bind (act_get al_state) (\<lambda>st.
       if \<not> has_pending_batch st then act_return ()
       else if has_pending_flush_result st then st_modify pause_processing
       else act_bind (st_take take_events_batch) (\<lambda>(batch, _).
         act_bind (st_take (\<lambda>st. (ls_last_commit_end st, st \<lparr> ls_last_commit_end := None \<rparr>))) (\<lambda>commit_end.
           act_bind (write_events env batch) (\<lambda>_.
             act_bind (st_modify (\<lambda>st. st \<lparr> ls_pending_flush :=
                 Some (async_new \<lparr> fm_commit_end = commit_end, fm_items = length batch,
                                   fm_dispatched_at = le_now env \<rparr>) \<rparr>)) (\<lambda>_.
               st_modify reset_flush_deadline)))))"

section \<open>Table synchronisation hooks\<close>

definition process_syncing_tables_after_commit_event ::
    "'s loop_config \<Rightarrow> 's loop_env \<Rightarrow> lsn \<Rightarrow> ('s apply_loop, bool) action" where
  "process_syncing_tables_after_commit_event cfg env l =
     act_bind (case lc_worker cfg of
         Apply \<Rightarrow> on_shared (apply_after_commit (lc_ops cfg) (le_waits env) l)
       | TableSync own \<Rightarrow> act_get (\<lambda>lp. sync_after_commit own l (al_shared lp)))
     (\<lambda>intent. act_bind (st_modify (record_exit_intent intent)) (\<lambda>_. act_return (intent \<noteq> None)))"

definition process_syncing_tables_after_flush ::
    "'s loop_config \<Rightarrow> lsn \<Rightarrow> ('s apply_loop, unit) action" where
  "process_syncing_tables_after_flush cfg commit_end =
     act_bind (on_store (so_upsert_progress (lc_ops cfg) (lc_worker cfg) commit_end)) (\<lambda>durable.
       act_bind (st_modify (\<lambda>st. st \<lparr> ls_progress := update_last_flush_lsn durable (ls_progress st) \<rparr>)) (\<lambda>_.
         act_bind (act_get (\<lambda>lp. rp_flush (ls_progress (al_state lp)))) (\<lambda>current.
           act_bind (case lc_worker cfg of
               Apply \<Rightarrow> act_bind (on_shared (apply_after_flush (lc_ops cfg) current)) (\<lambda>_. act_return None)
             | TableSync own \<Rightarrow> on_shared (try_complete_catchup (lc_ops cfg) own current))
           (\<lambda>intent. st_modify (record_exit_intent intent)))))"

definition process_syncing_tables_when_idle ::
    "'s loop_config \<Rightarrow> 's waits \<Rightarrow> ('s apply_loop, unit) action" where
  "process_syncing_tables_when_idle cfg waits =
     act_bind (act_get al_state) (\<lambda>st.
       if \<not> is_idle st then act_return ()
       else let current = effective_flush_lsn st in
         act_bind (case lc_worker cfg of
             Apply \<Rightarrow> on_shared (apply_when_idle (lc_ops cfg) waits current)
           | TableSync own \<Rightarrow> on_shared (try_complete_catchup (lc_ops cfg) own current))
         (\<lambda>intent. st_modify (record_exit_intent intent)))"

definition maybe_process_syncing_tables_when_idle ::
    "'s loop_config \<Rightarrow> 's waits \<Rightarrow> ('s apply_loop, unit) action" where
  "maybe_process_syncing_tables_when_idle cfg waits =
     act_bind (act_get (\<lambda>lp. ls_exit_intent (al_state lp))) (\<lambda>intent.
       if intent \<noteq> None then act_return () else process_syncing_tables_when_idle cfg waits)"

section \<open>Message handlers\<close>

fun from_schema_error :: "schema_error \<Rightarrow> etl_error" where
  "from_schema_error (UnknownReplicatedColumns cs) = etl_err CorruptedTableSchema
     ''Received columns during replication that are not in the stored table schema''"
| "from_schema_error (InvalidSnapshotId l) = etl_err CorruptedTableSchema ''Invalid snapshot id''"

definition schema_try :: "(schema_error, 'a) result \<Rightarrow> ('s, 'a) action" where
  "schema_try r = act_try (case r of Inl e \<Rightarrow> Inl (from_schema_error e) | Inr x \<Rightarrow> Inr x)"

definition io_try :: "'a option \<Rightarrow> ('s, 'a) action" where
  "io_try r = act_try (ok_or (etl_err IoError ''I/O operation failed'') r)"

text \<open>The guard that opens most handlers: there must be a transaction.\<close>

definition in_transaction :: "(lsn \<Rightarrow> ('s apply_loop, 'a) action) \<Rightarrow> ('s apply_loop, 'a) action" where
  "in_transaction f = act_bind (act_get (\<lambda>lp. ls_remote_final (al_state lp))) (\<lambda>r. case r of
      None \<Rightarrow> act_fail (etl_err InvalidState ''Invalid transaction state'')
    | Some remote_final \<Rightarrow> f remote_final)"

definition ddl_message_prefix :: string where
  "ddl_message_prefix = ''supabase_etl_ddl''"

definition handle_message ::
    "'s loop_config \<Rightarrow> lsn \<Rightarrow> string option \<Rightarrow> string option \<Rightarrow> ('s apply_loop, handle_message_result) action" where
  "handle_message cfg start_lsn pre content =
     act_bind (io_try pre) (\<lambda>pre.
       if pre \<noteq> ddl_message_prefix then act_return no_event
       else in_transaction (\<lambda>remote_final.
         act_bind (io_try content) (\<lambda>content.
           act_bind (act_try (lc_parse_ddl cfg content)) (\<lambda>m.
             let t = message_table_id m in
             act_bind (should_apply_changes cfg t remote_final) (\<lambda>owned.
               if \<not> owned then act_return no_event
               else act_bind (on_store (so_store_schema (lc_ops cfg)
                        (into_table_schema (lc_type_of_oid cfg) start_lsn m))) (\<lambda>_.
                 act_bind (on_cache (note_waiting_for_relation t start_lsn)) (\<lambda>_.
                   act_return no_event)))))))"

definition handle_begin_message ::
    "'s loop_env \<Rightarrow> lsn \<Rightarrow> begin_body \<Rightarrow> ('s apply_loop, handle_message_result) action" where
  "handle_begin_message env start_lsn body =
     (let final_lsn = bb_final_lsn body in
      act_bind (st_modify (\<lambda>st. reset_tx_ordinal
          (st \<lparr> ls_remote_final := Some final_lsn, ls_tx_begin_ts := Some (le_now env), ls_tx_events := 0 \<rparr>))) (\<lambda>_.
        act_bind (st_take next_tx_ordinal) (\<lambda>tx_ordinal.
          act_return (return_event
            (EvBegin (parse_event_from_begin_message start_lsn final_lsn tx_ordinal body))))))"

definition handle_commit_message ::
    "'s loop_config \<Rightarrow> 's loop_env \<Rightarrow> lsn \<Rightarrow> commit_body \<Rightarrow> ('s apply_loop, handle_message_result) action" where
  "handle_commit_message cfg env start_lsn body =
     act_bind (st_take (\<lambda>st. (ls_remote_final st, st \<lparr> ls_remote_final := None \<rparr>))) (\<lambda>r. case r of
         None \<Rightarrow> act_fail (etl_err InvalidState ''Invalid transaction state'')
       | Some remote_final \<Rightarrow>
           let commit_lsn = cb_commit_lsn body; end_lsn = cb_end_lsn body in
           if commit_lsn \<noteq> remote_final then act_fail (etl_err ValidationError ''Invalid commit LSN'')
           else act_bind (st_modify (\<lambda>st. if ls_tx_begin_ts st \<noteq> None
                    then st \<lparr> ls_tx_begin_ts := None, ls_tx_events := 0 \<rparr> else st)) (\<lambda>_.
             act_bind (process_syncing_tables_after_commit_event cfg env end_lsn) (\<lambda>end_batch.
               act_bind (st_take next_tx_ordinal) (\<lambda>tx_ordinal.
                 act_return \<lparr> hr_event = Some (EvCommit
                     (parse_event_from_commit_message start_lsn commit_lsn tx_ordinal body)),
                   hr_end_lsn = Some end_lsn, hr_end_batch = end_batch \<rparr>))))"

definition handle_relation_message ::
    "'s loop_config \<Rightarrow> lsn \<Rightarrow> relation_body \<Rightarrow> ('s apply_loop, handle_message_result) action" where
  "handle_relation_message cfg start_lsn body = in_transaction (\<lambda>remote_final.
     let t = rb_rel_id body in
     act_bind (st_take next_tx_ordinal) (\<lambda>tx_ordinal.
       act_bind (should_apply_changes cfg t remote_final) (\<lambda>owned.
         if \<not> owned then act_return no_event
         else act_bind (act_try (parse_replicated_column_names body)) (\<lambda>replicated.
           act_bind (act_try (parse_replica_identity_column_names body)) (\<lambda>identity.
             act_bind (act_get (\<lambda>lp. cache_get (sh_cache (al_shared lp)) t)) (\<lambda>cached.
               act_bind (act_get (\<lambda>lp. case cached of
                   None \<Rightarrow> ls_bootstrap (al_state lp) | Some c \<Rightarrow> shared_snapshot_id c)) (\<lambda>snap.
                 act_bind (on_store (so_get_schema (lc_ops cfg) t snap)) (\<lambda>found.
                   act_bind (act_try (check_schema_for_relation snap (cached = None) found)) (\<lambda>schema.
                     act_bind (schema_try (mask_try_build schema replicated)) (\<lambda>rm.
                       act_bind (schema_try (identity_try_build schema identity)) (\<lambda>im.
                         let r = from_masks schema rm im in
                         act_bind (on_cache (note_ready t r)) (\<lambda>_.
                           act_return (return_event (EvRelation
                             \<lparr> ep_start = start_lsn, ep_commit = remote_final, ep_ordinal = tx_ordinal,
                               rel_schema = r \<rparr>))))))))))))))"

text \<open>Inserts, updates and deletes differ in the decoder and in the event.\<close>

definition handle_row_message ::
    "'s loop_config \<Rightarrow> table_id \<Rightarrow> (replicated_table_schema \<Rightarrow> lsn \<Rightarrow> 64 word \<Rightarrow> event etl_result)
     \<Rightarrow> ('s apply_loop, handle_message_result) action" where
  "handle_row_message cfg t parse = in_transaction (\<lambda>remote_final.
     act_bind (st_take next_tx_ordinal) (\<lambda>tx_ordinal.
       act_bind (should_apply_changes cfg t remote_final) (\<lambda>owned.
         if \<not> owned then act_return no_event
         else act_bind (\<lambda>lp. act_try (get_replicated_table_schema t (sh_cache (al_shared lp))) lp) (\<lambda>r.
           act_bind (act_try (parse r remote_final tx_ordinal)) (\<lambda>e. act_return (return_event e))))))"

definition handle_insert_message ::
    "'s loop_config \<Rightarrow> lsn \<Rightarrow> insert_body \<Rightarrow> ('s apply_loop, handle_message_result) action" where
  "handle_insert_message cfg start_lsn body =
     handle_row_message cfg (ib_rel_id body) (\<lambda>r remote_final tx_ordinal.
       res_bind (parse_event_from_insert_message (lc_parsers cfg) r start_lsn remote_final tx_ordinal body)
         (Inr \<circ> EvInsert))"

definition handle_update_message ::
    "'s loop_config \<Rightarrow> lsn \<Rightarrow> update_body \<Rightarrow> ('s apply_loop, handle_message_result) action" where
  "handle_update_message cfg start_lsn body =
     handle_row_message cfg (ub_rel_id body) (\<lambda>r remote_final tx_ordinal.
       res_bind (parse_event_from_update_message (lc_parsers cfg) r start_lsn remote_final tx_ordinal body)
         (Inr \<circ> EvUpdate))"

definition handle_delete_message ::
    "'s loop_config \<Rightarrow> lsn \<Rightarrow> delete_body \<Rightarrow> ('s apply_loop, handle_message_result) action" where
  "handle_delete_message cfg start_lsn body =
     handle_row_message cfg (db_rel_id body) (\<lambda>r remote_final tx_ordinal.
       res_bind (parse_event_from_delete_message (lc_parsers cfg) r start_lsn remote_final tx_ordinal body)
         (Inr \<circ> EvDelete))"

fun truncated_tables ::
    "'s loop_config \<Rightarrow> lsn \<Rightarrow> 's shared \<Rightarrow> table_id list \<Rightarrow> replicated_table_schema list etl_result" where
  "truncated_tables cfg remote_final sh [] = Inr []"
| "truncated_tables cfg remote_final sh (t # ts) =
     res_bind (worker_should_apply_changes cfg t remote_final sh) (\<lambda>owned.
       if owned then res_bind (get_replicated_table_schema t (sh_cache sh)) (\<lambda>r.
         res_bind (truncated_tables cfg remote_final sh ts) (\<lambda>rs. Inr (r # rs)))
       else truncated_tables cfg remote_final sh ts)"

definition handle_truncate_message ::
    "'s loop_config \<Rightarrow> lsn \<Rightarrow> truncate_body \<Rightarrow> ('s apply_loop, handle_message_result) action" where
  "handle_truncate_message cfg start_lsn body = in_transaction (\<lambda>remote_final.
     act_bind (st_take next_tx_ordinal) (\<lambda>tx_ordinal.
       act_bind (\<lambda>lp. act_try (truncated_tables cfg remote_final (al_shared lp) (tb_rel_ids body)) lp) (\<lambda>tables.
         if tables = [] then act_return no_event
         else act_return (return_event (EvTruncate
           (parse_event_from_truncate_message start_lsn remote_final tx_ordinal body tables))))))"

definition handle_logical_replication_message ::
    "'s loop_config \<Rightarrow> 's loop_env \<Rightarrow> lsn \<Rightarrow> logical_message \<Rightarrow> ('s apply_loop, handle_message_result) action" where
  "handle_logical_replication_message cfg env start_lsn message =
     act_bind (st_modify (\<lambda>st. st \<lparr> ls_tx_events := ls_tx_events st + 1 \<rparr>)) (\<lambda>_. case message of
         LBegin b \<Rightarrow> handle_begin_message env start_lsn b
       | LCommit b \<Rightarrow> handle_commit_message cfg env start_lsn b
       | LRelation b \<Rightarrow> handle_relation_message cfg start_lsn b
       | LInsert b \<Rightarrow> handle_insert_message cfg start_lsn b
       | LUpdate b \<Rightarrow> handle_update_message cfg start_lsn b
       | LDelete b \<Rightarrow> handle_delete_message cfg start_lsn b
       | LTruncate b \<Rightarrow> handle_truncate_message cfg start_lsn b
       | LMessage pre content \<Rightarrow> handle_message cfg start_lsn pre content
       | _ \<Rightarrow> act_return no_event)"

definition handle_replication_message ::
    "'s loop_config \<Rightarrow> 's loop_env \<Rightarrow> replication_message \<Rightarrow> ('s apply_loop, handle_message_result) action" where
  "handle_replication_message cfg env message = (case message of
      XLogData start_lsn end_lsn data \<Rightarrow>
        act_bind (st_modify (\<lambda>st. st \<lparr> ls_progress :=
            update_last_received_lsn end_lsn (update_last_received_lsn start_lsn (ls_progress st)) \<rparr>)) (\<lambda>_.
          handle_logical_replication_message cfg env start_lsn data)
    | PrimaryKeepAlive end_lsn reply \<Rightarrow>
        act_bind (st_modify (\<lambda>st. st \<lparr> ls_progress := update_last_received_lsn end_lsn (ls_progress st) \<rparr>)) (\<lambda>_.
          act_bind (send_effective_status cfg env (reply = 1) KeepAliveUpdate) (\<lambda>_.
            act_bind (st_modify (reset_keep_alive_deadline (le_now env) (lc_keep_alive cfg))) (\<lambda>_.
              act_return no_event)))
    | OtherMessage \<Rightarrow> act_return no_event)"

definition add_event :: "'s loop_config \<Rightarrow> event \<Rightarrow> ('s apply_loop, unit) action" where
  "add_event cfg e = act_modify (\<lambda>lp. lp \<lparr> al_state := add_event_to_batch (lc_size_hint cfg) e (al_state lp),
     al_produced := al_produced lp @ [e] \<rparr>)"

definition handle_replication_message_and_flush ::
    "'s loop_config \<Rightarrow> 's loop_env \<Rightarrow> replication_message \<Rightarrow> ('s apply_loop, unit) action" where
  "handle_replication_message_and_flush cfg env message =
     act_bind (handle_replication_message cfg env message) (\<lambda>result.
       act_bind (case hr_event result of
           None \<Rightarrow> act_return ()
         | Some e \<Rightarrow> act_bind (add_event cfg e) (\<lambda>_.
             act_bind (st_modify (update_last_commit_end_lsn (hr_end_lsn result))) (\<lambda>_.
               st_modify (set_flush_deadline_if_needed (le_now env) (lc_max_fill cfg))))) (\<lambda>_.
         act_bind (act_get (\<lambda>lp. ls_batch_bytes (al_state lp) \<ge> le_budget env)) (\<lambda>size_reached.
           act_when (size_reached \<or> hr_end_batch result) (flush_batch env))))"

definition build_stream_ended_error :: "bool \<Rightarrow> etl_error" where
  "build_stream_ended_error conn_closed = etl_err SourceConnectionFailed
     (if conn_closed then ''PostgreSQL connection has been closed during the apply loop''
      else ''Replication stream ended unexpectedly during the apply loop'')"

definition handle_stream_message ::
    "'s loop_config \<Rightarrow> 's loop_env \<Rightarrow> replication_message etl_result option \<Rightarrow> ('s apply_loop, unit) action" where
  "handle_stream_message cfg env maybe_message = (case maybe_message of
      None \<Rightarrow> act_fail (build_stream_ended_error (le_closed env))
    | Some message \<Rightarrow> act_bind (act_try message) (handle_replication_message_and_flush cfg env))"

section \<open>Flush results\<close>

definition acknowledge :: "('s apply_loop, unit) action" where
  "acknowledge = act_modify (\<lambda>lp. lp \<lparr> al_acked := al_acked lp @ al_unacked lp, al_unacked := [] \<rparr>)"

definition handle_flush_result ::
    "'s loop_config \<Rightarrow> 's loop_env \<Rightarrow> flush_metadata option \<times> unit etl_result \<Rightarrow> ('s apply_loop, unit) action" where
  "handle_flush_result cfg env completed = (case completed of (metadata, result) \<Rightarrow>
     act_bind (st_take resume_processing) (\<lambda>paused.
       act_bind (act_try result) (\<lambda>_.
         act_bind acknowledge (\<lambda>_.
           act_bind (case metadata of
               None \<Rightarrow> act_return ()
             | Some m \<Rightarrow> (case fm_commit_end m of
                   None \<Rightarrow> act_return ()
                 | Some commit_end \<Rightarrow> process_syncing_tables_after_flush cfg commit_end)) (\<lambda>_.
             act_when paused (flush_batch env))))))"

section \<open>Shutdown\<close>

definition initiate_graceful_shutdown ::
    "'s loop_config \<Rightarrow> 's loop_env \<Rightarrow> ('s apply_loop, unit) action" where
  "initiate_graceful_shutdown cfg env =
     act_bind (send_effective_status cfg env True ShutdownFlush) (\<lambda>_.
       st_modify (\<lambda>st. st \<lparr> ls_shutdown := NoShutdown \<rparr>))"

definition handle_shutdown_signal :: "'s loop_config \<Rightarrow> 's loop_env \<Rightarrow> ('s apply_loop, unit) action" where
  "handle_shutdown_signal cfg env =
     act_bind (act_get (\<lambda>lp. is_requested (ls_shutdown (al_state lp)))) (\<lambda>requested.
       if requested then act_return ()
       else act_bind (st_modify (record_exit_intent (Some ExitPause))) (\<lambda>_.
         act_bind (act_get (\<lambda>lp. has_unresolved_batch_work (al_state lp))) (\<lambda>unresolved.
           if unresolved then st_modify (\<lambda>st. st \<lparr> ls_shutdown := DrainingForShutdown \<rparr>)
           else initiate_graceful_shutdown cfg env)))"

definition handle_connection_update :: "unit + connection_update \<Rightarrow> unit etl_result" where
  "handle_connection_update changed = (case changed of
      Inl _ \<Rightarrow> Inl (etl_err SourceConnectionFailed ''PostgreSQL connection updates ended during the apply loop'')
    | Inr ConnRunning \<Rightarrow> Inr ()
    | Inr ConnTerminated \<Rightarrow>
        Inl (etl_err SourceConnectionFailed ''PostgreSQL connection terminated during the apply loop'')
    | Inr (ConnErrored e) \<Rightarrow>
        Inl (Single SourceConnectionFailed ''PostgreSQL connection errored during the apply loop'' (Some e)))"

definition finish_shutdown :: "apply_loop_state \<Rightarrow> apply_loop_result" where
  "finish_shutdown st = (case exit_result st of None \<Rightarrow> LoopPaused | Some r \<Rightarrow> r)"

definition try_finish_active_iteration :: "apply_loop_state \<Rightarrow> apply_loop_result option" where
  "try_finish_active_iteration st =
     (if is_requested (ls_shutdown st) \<or> has_unresolved_batch_work st then None else exit_result st)"

section \<open>Iterations\<close>

text \<open>
  The biased selection: the first branch that is ready and enabled, in the order of the
  source. \<open>None\<close> is a selection that has not woken up.
\<close>

datatype branch =
    BrShutdown
  | BrConnection "unit + connection_update"
  | BrFlushResult "flush_metadata option \<times> unit etl_result"
  | BrFlushDeadline
  | BrMessage "replication_message etl_result option"
  | BrKeepAlive

definition flush_ready :: "apply_loop_state \<Rightarrow> (flush_metadata option \<times> unit etl_result) option" where
  "flush_ready st = (case ls_pending_flush st of None \<Rightarrow> None | Some a \<Rightarrow> fst (async_poll a))"

definition flush_deadline_ready :: "instant \<Rightarrow> apply_loop_state \<Rightarrow> bool" where
  "flush_deadline_ready now st \<longleftrightarrow> can_wait_for_deadline st \<and>
     (case ls_flush_deadline st of None \<Rightarrow> False | Some d \<Rightarrow> d \<le> now)"

definition select_draining :: "'s loop_env \<Rightarrow> apply_loop_state \<Rightarrow> branch option" where
  "select_draining env st = (case le_connection env of
      Some c \<Rightarrow> Some (BrConnection c)
    | None \<Rightarrow> (case flush_ready st of
          Some c \<Rightarrow> Some (BrFlushResult c)
        | None \<Rightarrow>
            if flush_deadline_ready (le_now env) st then Some BrFlushDeadline
            else if ls_keep_alive_deadline st \<le> le_now env then Some BrKeepAlive
            else None))"

definition select_active :: "'s loop_env \<Rightarrow> apply_loop_state \<Rightarrow> branch option" where
  "select_active env st =
     (if le_shutdown env then Some BrShutdown
      else case le_connection env of
          Some c \<Rightarrow> Some (BrConnection c)
        | None \<Rightarrow> (case flush_ready st of
              Some c \<Rightarrow> Some (BrFlushResult c)
            | None \<Rightarrow>
                if flush_deadline_ready (le_now env) st then Some BrFlushDeadline
                else case (if can_process_messages st then le_message env else None) of
                    Some m \<Rightarrow> Some (BrMessage m)
                  | None \<Rightarrow> if ls_keep_alive_deadline st \<le> le_now env then Some BrKeepAlive else None))"

definition send_periodic_keep_alive :: "'s loop_config \<Rightarrow> 's loop_env \<Rightarrow> ('s apply_loop, unit) action" where
  "send_periodic_keep_alive cfg env =
     act_bind (send_effective_status cfg env True PeriodicKeepAlive) (\<lambda>_.
       st_modify (reset_keep_alive_deadline (le_now env) (lc_keep_alive cfg)))"

fun handle_branch :: "'s loop_config \<Rightarrow> 's loop_env \<Rightarrow> branch \<Rightarrow> ('s apply_loop, unit) action" where
  "handle_branch cfg env BrShutdown = handle_shutdown_signal cfg env"
| "handle_branch cfg env (BrConnection c) = act_try (handle_connection_update c)"
| "handle_branch cfg env (BrFlushResult c) = handle_flush_result cfg env c"
| "handle_branch cfg env BrFlushDeadline = flush_batch env"
| "handle_branch cfg env (BrMessage m) = handle_stream_message cfg env m"
| "handle_branch cfg env BrKeepAlive = send_periodic_keep_alive cfg env"

definition blocked :: "('s, 'a) action" where
  "blocked s = (Inl Blocked, s)"

definition run_active_iteration ::
    "'s loop_config \<Rightarrow> 's loop_env \<Rightarrow> ('s apply_loop, apply_loop_result option) action" where
  "run_active_iteration cfg env =
     act_bind (maybe_process_syncing_tables_when_idle cfg (le_waits_before env)) (\<lambda>_.
       act_bind (act_get (\<lambda>lp. try_finish_active_iteration (al_state lp))) (\<lambda>finished.
         if finished \<noteq> None then act_return finished
         else act_bind (act_get (\<lambda>lp. select_active env (al_state lp))) (\<lambda>br. case br of
             None \<Rightarrow> blocked
           | Some b \<Rightarrow> act_bind (handle_branch cfg env b) (\<lambda>_.
               act_bind (maybe_process_syncing_tables_when_idle cfg (le_waits_after env)) (\<lambda>_.
                 act_get (\<lambda>lp. try_finish_active_iteration (al_state lp)))))))"

definition finish_if_drained ::
    "'s loop_config \<Rightarrow> 's loop_env \<Rightarrow> ('s apply_loop, apply_loop_result option) action
     \<Rightarrow> ('s apply_loop, apply_loop_result option) action" where
  "finish_if_drained cfg env otherwise =
     act_bind (act_get (\<lambda>lp. has_unresolved_batch_work (al_state lp))) (\<lambda>unresolved.
       if unresolved then otherwise
       else act_bind (initiate_graceful_shutdown cfg env) (\<lambda>_.
         act_get (\<lambda>lp. Some (finish_shutdown (al_state lp)))))"

definition run_draining_shutdown_iteration ::
    "'s loop_config \<Rightarrow> 's loop_env \<Rightarrow> ('s apply_loop, apply_loop_result option) action" where
  "run_draining_shutdown_iteration cfg env =
     finish_if_drained cfg env
       (act_bind (act_get (\<lambda>lp. select_draining env (al_state lp))) (\<lambda>br. case br of
           None \<Rightarrow> blocked
         | Some b \<Rightarrow> act_bind (handle_branch cfg env b) (\<lambda>_.
             act_bind (maybe_process_syncing_tables_when_idle cfg (le_waits_after env)) (\<lambda>_.
               finish_if_drained cfg env (act_return None)))))"

definition run_iteration ::
    "'s loop_config \<Rightarrow> 's loop_env \<Rightarrow> ('s apply_loop, apply_loop_result option) action" where
  "run_iteration cfg env lp = (case ls_shutdown (al_state lp) of
      NoShutdown \<Rightarrow> run_active_iteration cfg env lp
    | DrainingForShutdown \<Rightarrow> run_draining_shutdown_iteration cfg env lp)"

definition start_loop ::
    "'s loop_config \<Rightarrow> instant \<Rightarrow> lsn \<Rightarrow> string \<Rightarrow> 's shared \<Rightarrow> 's apply_loop" where
  "start_loop cfg now start_lsn slot sh =
     \<lparr> al_state = ls_new now \<lparr> rp_received = start_lsn, rp_flush = start_lsn \<rparr> (lc_keep_alive cfg) start_lsn slot,
       al_stream = es_wrap, al_shared = sh, al_produced = [], al_unacked = [], al_acked = [] \<rparr>"

definition drain_schema_cleanup_task :: "instant \<Rightarrow> bool \<Rightarrow> apply_loop_state \<Rightarrow> apply_loop_state" where
  "drain_schema_cleanup_task now joined st = (if ls_cleanup_task st = None then st
     else handle_schema_cleanup_task_result now joined (st \<lparr> ls_cleanup_task := None \<rparr>))"

text \<open>The loop over a sequence of iterations; \<open>None\<close> when it has not ended after them.\<close>

fun run_loop ::
    "'s loop_config \<Rightarrow> 's loop_env list \<Rightarrow> 's apply_loop \<Rightarrow> (stop, apply_loop_result) result option \<times> 's apply_loop" where
  "run_loop cfg [] lp = (None, lp)"
| "run_loop cfg (env # envs) lp = (case run_iteration cfg env lp of
      (Inl e, lp') \<Rightarrow> (Some (Inl e), lp')
    | (Inr (Some r), lp') \<Rightarrow> (Some (Inr r), lp')
    | (Inr None, lp') \<Rightarrow> run_loop cfg envs lp')"

text \<open>Before the loop returns, the cleanup task is awaited.\<close>

definition run_with_teardown ::
    "'s loop_config \<Rightarrow> instant \<Rightarrow> bool \<Rightarrow> 's loop_env list \<Rightarrow> 's apply_loop
     \<Rightarrow> (stop, apply_loop_result) result option \<times> 's apply_loop" where
  "run_with_teardown cfg now joined envs lp = (case run_loop cfg envs lp of
      (None, lp') \<Rightarrow> (None, lp')
    | (Some r, lp') \<Rightarrow> (Some r, lp' \<lparr> al_state := drain_schema_cleanup_task now joined (al_state lp') \<rparr>))"

end
