(* ===== verification/Apply_Invariant.thy ===== *)
theory Apply_Invariant
  imports Apply_Loop
begin

text \<open>
  The invariants of the apply loop. \<open>safe\<close> holds in every state the loop can be in,
  also after it failed: the events are accounted for, no position is confirmed (as durable
  progress or towards Postgres) before the commits up to it are acknowledged, and the
  sequence keys of the events grow. \<open>running\<close> holds while the loop has not failed: at
  most one batch is in flight, and a paused loop waits for exactly that batch.
\<close>

section \<open>Commit positions and keys\<close>

fun commit_end_of :: "event \<Rightarrow> lsn option" where
  "commit_end_of (EvCommit e) = Some (ce_end e)"
| "commit_end_of _ = None"

definition ends :: "event list \<Rightarrow> lsn list" where
  "ends es = filter_map commit_end_of es"

definition keys_of :: "event list \<Rightarrow> event_sequence_key list" where
  "keys_of es = filter_map event_key es"

definition key_less :: "event_sequence_key \<Rightarrow> event_sequence_key \<Rightarrow> bool" where
  "key_less a b \<longleftrightarrow> sk_commit a < sk_commit b \<or> sk_commit a = sk_commit b \<and> sk_ordinal a < sk_ordinal b"

definition last_opt :: "'a list \<Rightarrow> 'a option" where
  "last_opt xs = (if xs = [] then None else Some (last xs))"

lemma filter_map_append [simp]: "filter_map f (xs @ ys) = filter_map f xs @ filter_map f ys"
  by (induction xs) (auto split: option.split)

lemma ends_simps [simp]:
  "ends [] = []" "ends (xs @ ys) = ends xs @ ends ys"
  "ends [e] = (case commit_end_of e of None \<Rightarrow> [] | Some x \<Rightarrow> [x])"
  by (simp_all add: ends_def split: option.split)

lemma keys_of_simps [simp]:
  "keys_of [] = []" "keys_of (xs @ ys) = keys_of xs @ keys_of ys"
  "keys_of [e] = (case event_key e of None \<Rightarrow> [] | Some k \<Rightarrow> [k])"
  by (simp_all add: keys_of_def split: option.split)

lemma last_opt_simps [simp]:
  "last_opt [] = None" "last_opt (xs @ [x]) = Some x" "last_opt xs = None \<longleftrightarrow> xs = []"
  by (simp_all add: last_opt_def)

lemma last_opt_in: "last_opt xs = Some x \<Longrightarrow> x \<in> set xs"
  by (auto simp: last_opt_def split: if_splits)

lemma key_less_trans: "key_less a b \<Longrightarrow> key_less b c \<Longrightarrow> key_less a c"
  by (auto simp: key_less_def)

section \<open>The invariants\<close>

text \<open>The position up to which the loop has told anybody that it is done.\<close>

definition floor_lsn :: "'s apply_loop \<Rightarrow> lsn" where
  "floor_lsn lp = max (rp_flush (ls_progress (al_state lp)))
     (case es_last_flush (al_stream lp) of None \<Rightarrow> 0 | Some f \<Rightarrow> f)"

definition safe :: "('s \<Rightarrow> bool) \<Rightarrow> ('s \<Rightarrow> lsn option) \<Rightarrow> 's apply_loop \<Rightarrow> bool" where
  "safe sinv progress lp \<longleftrightarrow>
     sinv (sh_store (al_shared lp)) \<and>
     al_acked lp @ al_unacked lp @ ls_batch (al_state lp) = al_produced lp \<and>
     (\<forall>x \<in> set (ends (al_unacked lp @ ls_batch (al_state lp))). floor_lsn lp < x) \<and>
     sorted_wrt (<) (ends (al_produced lp)) \<and>
     sorted_wrt key_less (keys_of (al_produced lp)) \<and>
     floor_lsn lp \<le> last_received_lsn (al_state lp) \<and>
     (\<forall>x \<in> set (ends (al_produced lp)). x \<le> last_received_lsn (al_state lp)) \<and>
     (\<forall>d. progress (sh_store (al_shared lp)) = Some d \<longrightarrow> d \<le> rp_flush (ls_progress (al_state lp))) \<and>
     sent_ok (al_stream lp)"

text \<open>A position above everything produced and confirmed, with the next ordinal of its transaction.\<close>

definition tx_bound :: "lsn \<Rightarrow> 's apply_loop \<Rightarrow> bool" where
  "tx_bound l lp \<longleftrightarrow> floor_lsn lp \<le> l \<and> (\<forall>x \<in> set (ends (al_produced lp)). x \<le> l) \<and>
     (\<forall>k \<in> set (keys_of (al_produced lp)).
        key_less k \<lparr> sk_commit = l, sk_ordinal = ls_next_ordinal (al_state lp) \<rparr>)"

definition tx_ok :: "'s apply_loop \<Rightarrow> bool" where
  "tx_ok lp \<longleftrightarrow> (case ls_remote_final (al_state lp) of
      None \<Rightarrow> \<forall>k \<in> set (keys_of (al_produced lp)). sk_commit k < last_received_lsn (al_state lp)
    | Some l \<Rightarrow> tx_bound l lp)"

definition batch_state_ok :: "event list \<Rightarrow> apply_loop_state \<Rightarrow> bool" where
  "batch_state_ok unacked st \<longleftrightarrow>
     (case ls_pending_flush st of
        None \<Rightarrow> unacked = [] \<and> \<not> ls_paused st
      | Some a \<Rightarrow> \<exists>m. ar_metadata a = Some m \<and> fm_commit_end m = last_opt (ends unacked)) \<and>
     ls_last_commit_end st = last_opt (ends (ls_batch st)) \<and>
     (ls_paused st \<longrightarrow> ls_batch st \<noteq> []) \<and>
     (ls_batch st \<noteq> [] \<longrightarrow> ls_flush_deadline st \<noteq> None)"

definition batch_ok :: "'s apply_loop \<Rightarrow> bool" where
  "batch_ok lp \<longleftrightarrow> batch_state_ok (al_unacked lp) (al_state lp)"

definition running :: "('s \<Rightarrow> bool) \<Rightarrow> ('s \<Rightarrow> lsn option) \<Rightarrow> 's apply_loop \<Rightarrow> bool" where
  "running sinv progress lp \<longleftrightarrow> safe sinv progress lp \<and> tx_ok lp \<and> batch_ok lp"

lemma running_safe: "running sinv progress lp \<Longrightarrow> safe sinv progress lp"
  by (simp add: running_def)

lemma safe_start:
  assumes "sinv (sh_store sh)" and "\<And>d. progress (sh_store sh) = Some d \<Longrightarrow> d \<le> start_lsn"
  shows "running sinv progress (start_loop cfg now start_lsn slot sh)"
  using assms by (auto simp: running_def safe_def tx_ok_def batch_ok_def batch_state_ok_def start_loop_def ls_new_def es_wrap_def
      floor_lsn_def last_received_lsn_def sent_ok_wrap [unfolded es_wrap_def])

section \<open>Rules for the parts of the loop\<close>

lemma hoare_st_modify:
  "(\<And>lp. P lp \<Longrightarrow> Q () (lp \<lparr> al_state := f (al_state lp) \<rparr>)) \<Longrightarrow> hoare P (st_modify f) Q E"
  unfolding st_modify_def by (rule hoare_modify)

lemma hoare_st_take:
  "(\<And>lp x st. P lp \<Longrightarrow> f (al_state lp) = (x, st) \<Longrightarrow> Q x (lp \<lparr> al_state := st \<rparr>)) \<Longrightarrow> hoare P (st_take f) Q E"
  unfolding hoare_def st_take_def by (auto split: prod.splits)

text \<open>
  \<open>steady\<close>: a predicate on the loop that does not depend on deadlines, counters, exit
  intents and cleanup tasks, and on the shared state only through the store invariant and
  the durable progress of the worker.
\<close>

definition view :: "apply_loop_state \<Rightarrow> lsn option \<times> lsn option \<times> replication_progress \<times> event list \<times>
    64 word \<times> instant option \<times> (unit, flush_metadata) async_result option \<times> bool" where
  "view st = (ls_last_commit_end st, ls_remote_final st, ls_progress st, ls_batch st, ls_next_ordinal st,
     ls_flush_deadline st, ls_pending_flush st, ls_paused st)"

definition steady :: "('s \<Rightarrow> bool) \<Rightarrow> ('s \<Rightarrow> lsn option) \<Rightarrow> ('s apply_loop \<Rightarrow> bool) \<Rightarrow> bool" where
  "steady sinv progress P \<longleftrightarrow> (\<forall>lp lp'. P lp \<longrightarrow> view (al_state lp') = view (al_state lp) \<longrightarrow>
     al_stream lp' = al_stream lp \<longrightarrow> al_produced lp' = al_produced lp \<longrightarrow> al_unacked lp' = al_unacked lp \<longrightarrow>
     al_acked lp' = al_acked lp \<longrightarrow> sinv (sh_store (al_shared lp')) \<longrightarrow>
     progress (sh_store (al_shared lp')) = progress (sh_store (al_shared lp)) \<longrightarrow> P lp')"

lemma steadyD:
  assumes "steady sinv progress P" "P lp" "view st = view (al_state lp)" "sinv (sh_store sh)"
    "progress (sh_store sh) = progress (sh_store (al_shared lp))"
  shows "P (lp \<lparr> al_state := st, al_shared := sh \<rparr>)"
  using assms unfolding steady_def by (elim allE [where x = lp] allE [where x = "lp \<lparr> al_state := st, al_shared := sh \<rparr>"]) simp

lemma steady_safe [simp]: "steady sinv progress (safe sinv progress)"
  unfolding steady_def view_def safe_def floor_lsn_def last_received_lsn_def by simp

lemma steady_tx_bound [simp]: "steady sinv progress (tx_bound l)"
  unfolding steady_def view_def tx_bound_def floor_lsn_def by simp

lemma batch_state_ok_view: "view st' = view st \<Longrightarrow> batch_state_ok u st' = batch_state_ok u st"
  by (simp add: view_def batch_state_ok_def cong: option.case_cong)

lemma steady_conj [simp]:
  "steady sinv progress P \<Longrightarrow> steady sinv progress Q \<Longrightarrow> steady sinv progress (\<lambda>lp. P lp \<and> Q lp)"
  unfolding steady_def by blast

lemma steady_running [simp]: "steady sinv progress (running sinv progress)"
proof -
  have tx: "steady sinv progress tx_ok"
    unfolding steady_def tx_ok_def tx_bound_def view_def floor_lsn_def last_received_lsn_def
    by (simp cong: option.case_cong)
  have batch: "steady sinv progress batch_ok"
    unfolding steady_def batch_ok_def using batch_state_ok_view by metis
  have "running sinv progress = (\<lambda>lp. safe sinv progress lp \<and> tx_ok lp \<and> batch_ok lp)"
    by (simp add: running_def fun_eq_iff)
  then show ?thesis using steady_conj [OF steady_safe steady_conj [OF tx batch]] by simp
qed

definition shared_kept :: "('s \<Rightarrow> bool) \<Rightarrow> ('s \<Rightarrow> lsn option) \<Rightarrow> lsn option \<Rightarrow> 's shared \<Rightarrow> bool" where
  "shared_kept sinv progress d sh \<longleftrightarrow> sinv (sh_store sh) \<and> progress (sh_store sh) = d"

lemma hoare_on_shared:
  assumes m: "\<And>d. keeps (shared_kept sinv progress d) m" and P: "steady sinv progress P"
    and safe: "\<And>lp. P lp \<Longrightarrow> safe sinv progress lp"
  shows "hoare P (on_shared m) (\<lambda>_. P) (safe sinv progress)"
  unfolding hoare_def
proof (intro allI impI)
  fix lp r lp'
  assume p: "P lp" and eq: "on_shared m lp = (r, lp')"
  obtain r' sh where sh: "m (al_shared lp) = (r', sh)" by (cases "m (al_shared lp)")
  have lp': "r = r'" "lp' = lp \<lparr> al_state := al_state lp, al_shared := sh \<rparr>"
    using eq sh by (simp_all add: on_shared_def act_on_def)
  have "shared_kept sinv progress (progress (sh_store (al_shared lp))) (al_shared lp)"
    using safe [OF p] by (simp add: shared_kept_def safe_def)
  then have "shared_kept sinv progress (progress (sh_store (al_shared lp))) sh"
    using hoareD [OF m] sh by (cases r') blast+
  then have "P lp'" unfolding lp' by (intro steadyD [OF P p]) (simp_all add: shared_kept_def)
  then show "case r of Inl _ \<Rightarrow> safe sinv progress lp' | Inr x \<Rightarrow> P lp'" using safe by (simp split: sum.split)
qed

lemma hoare_st_steady:
  assumes "\<And>st. view (f st) = view st" and P: "steady sinv progress P"
    and safe: "\<And>lp. P lp \<Longrightarrow> safe sinv progress lp"
  shows "hoare P (st_modify f) (\<lambda>_. P) E"
proof (rule hoare_st_modify)
  fix lp assume p: "P lp"
  have "P (lp \<lparr> al_state := f (al_state lp), al_shared := al_shared lp \<rparr>)"
    by (rule steadyD [OF P p assms(1)]) (use safe [OF p] in \<open>simp_all add: safe_def\<close>)
  then show "P (lp \<lparr> al_state := f (al_state lp) \<rparr>)" by simp
qed

lemma view_simps [simp]:
  "view (record_exit_intent i st) = view st"
  "view (reset_keep_alive_deadline now d st) = view st"
  "view (finish_cleanup_run now st) = view st"
  "view (collect_finished_schema_cleanup_task env st) = view st"
  "view (st \<lparr> ls_tx_events := n \<rparr>) = view st" "view (st \<lparr> ls_tx_begin_ts := ts \<rparr>) = view st"
  "view (st \<lparr> ls_shutdown := sd \<rparr>) = view st" "view (st \<lparr> ls_cleanup_task := task \<rparr>) = view st"
  "view (st \<lparr> ls_cleanup_deadline := dl \<rparr>) = view st"
  by (simp_all add: view_def record_exit_intent_def reset_keep_alive_deadline_def finish_cleanup_run_def
      collect_finished_schema_cleanup_task_def handle_schema_cleanup_task_result_def split: option.split prod.split)

lemma view_spawn_cleanup [simp]: "view (spawn_schema_cleanup cfg env sh st) = view st"
proof -
  have start: "view (snd (try_start_schema_cleanup now st')) = view st'" for now st'
    by (simp add: try_start_schema_cleanup_def split: option.split)
  obtain b st2 where st2: "try_start_schema_cleanup (le_now env) (collect_finished_schema_cleanup_task env st) = (b, st2)"
    by (cases "try_start_schema_cleanup (le_now env) (collect_finished_schema_cleanup_task env st)")
  have "view st2 = view st" using start [of "le_now env" "collect_finished_schema_cleanup_task env st"] st2 by simp
  then show ?thesis
    by (simp add: spawn_schema_cleanup_def Let_def st2 split: bool.split sum.split option.split)
qed

section \<open>Status updates\<close>

lemma not_below_eq: "not_below None l = l" "not_below (Some x) l = max x l"
  by (auto simp: not_below_def max_def)

lemma es_last_flush_send:
  assumes "es_send_status_update now net write flush force ty es = (r, es')"
  shows "es_last_flush es' = es_last_flush es \<or> es_last_flush es' = Some (not_below (es_last_flush es) flush)"
  using assms by (auto simp: es_send_status_update_def Let_def split: if_splits sum.splits)

text \<open>Reporting the effective position confirms nothing that is not acknowledged.\<close>

lemma send_keeps_running:
  assumes run: "running sinv progress lp"
    and send: "es_send_status_update now net (last_received_lsn (al_state lp))
       (effective_flush_lsn (al_state lp)) force ty (al_stream lp) = (r, es)"
  shows "running sinv progress (lp \<lparr> al_stream := es \<rparr>)"
proof -
  let ?st = "al_state lp" and ?lp = "lp \<lparr> al_stream := es \<rparr>"
  have safe: "safe sinv progress lp" and tx: "tx_ok lp" and batch: "batch_ok lp"
    using run by (simp_all add: running_def)
  have le: "effective_flush_lsn ?st \<le> last_received_lsn ?st"
    using safe by (auto simp: effective_flush_lsn_def safe_def floor_lsn_def last_received_lsn_def)
  have sent: "sent_ok es" using sent_ok_send [OF _ le send] safe by (simp add: safe_def)
  have "(case es_last_flush es of None \<Rightarrow> 0 | Some f \<Rightarrow> f) \<le>
      max (case es_last_flush (al_stream lp) of None \<Rightarrow> 0 | Some f \<Rightarrow> f) (effective_flush_lsn ?st)"
    using es_last_flush_send [OF send] by (cases "es_last_flush (al_stream lp)") (auto simp: not_below_eq)
  then have floor: "floor_lsn ?lp \<le> max (floor_lsn lp) (effective_flush_lsn ?st)"
    by (auto simp: floor_lsn_def le_max_iff_disj)
  show ?thesis
  proof (cases "is_idle ?st")
    case True
    then have "al_unacked lp = []" "ls_batch ?st = []" "ls_remote_final ?st = None"
      using batch by (auto simp: is_idle_def handling_transaction_def has_unresolved_batch_work_def
          has_pending_batch_def has_pending_flush_result_def batch_ok_def batch_state_ok_def)
    moreover have "floor_lsn ?lp \<le> last_received_lsn ?st"
      using order_trans [OF floor] le safe by (simp add: safe_def)
    ultimately show ?thesis using safe tx batch sent
      by (simp add: running_def safe_def tx_ok_def batch_ok_def cong: option.case_cong)
  next
    case False
    then have "floor_lsn ?lp \<le> floor_lsn lp"
      using floor by (simp add: effective_flush_lsn_def) (auto simp: floor_lsn_def)
    then have "floor_lsn lp < x \<Longrightarrow> floor_lsn ?lp < x" "floor_lsn lp \<le> x \<Longrightarrow> floor_lsn ?lp \<le> x" for x
      by (auto intro: le_less_trans order_trans)
    then show ?thesis using safe tx batch sent
      by (cases "ls_remote_final ?st") (simp_all add: running_def safe_def tx_ok_def tx_bound_def batch_ok_def)
  qed
qed

lemma hoare_send_effective:
  "hoare (running sinv progress) (send_effective_status cfg env force ty) (\<lambda>_. running sinv progress) (safe sinv progress)"
proof -
  have send: "hoare (\<lambda>lp. running sinv progress lp \<and> l = effective_flush_lsn (al_state lp))
      (\<lambda>lp. case es_send_status_update (le_now env) (le_net env) (last_received_lsn (al_state lp)) l force ty
              (al_stream lp) of (r, es) \<Rightarrow> (failable r, lp \<lparr> al_stream := es \<rparr>))
      (\<lambda>_. running sinv progress) (safe sinv progress)" for l
    unfolding hoare_def using send_keeps_running running_safe
    by (fastforce split: prod.splits sum.splits)
  have cleanup: "hoare (running sinv progress) (maybe_spawn_schema_cleanup cfg env) (\<lambda>_. running sinv progress) E" for E
    unfolding maybe_spawn_schema_cleanup_def
  proof (rule hoare_modify)
    fix lp assume run: "running sinv progress lp"
    have "running sinv progress (lp \<lparr> al_state := spawn_schema_cleanup cfg env (al_shared lp) (al_state lp),
        al_shared := al_shared lp \<rparr>)"
      by (rule steadyD [OF steady_running run]) (use run in \<open>simp_all add: running_def safe_def\<close>)
    then show "running sinv progress (lp \<lparr> al_state := spawn_schema_cleanup cfg env (al_shared lp) (al_state lp) \<rparr>)"
      by simp
  qed
  show ?thesis
    unfolding send_effective_status_def send_status_update_def
    by (rule hoare_bind [OF hoare_get hoare_bind [OF send]])
      (auto intro: hoare_return cleanup split: status_update_result.split)
qed

section \<open>Flushing a batch\<close>

text \<open>Handing the batch over moves it from the loop to the destination.\<close>

definition flushed :: "instant \<Rightarrow> 's apply_loop \<Rightarrow> 's apply_loop" where
  "flushed now lp = lp \<lparr> al_unacked := al_unacked lp @ ls_batch (al_state lp),
     al_state := (al_state lp) \<lparr> ls_batch := [], ls_batch_bytes := 0, ls_last_commit_end := None,
       ls_pending_flush := Some (async_new \<lparr> fm_commit_end = ls_last_commit_end (al_state lp),
         fm_items = length (ls_batch (al_state lp)), fm_dispatched_at = now \<rparr>), ls_flush_deadline := None \<rparr> \<rparr>"

lemma flush_batch_eq:
  "flush_batch env lp =
     (if \<not> has_pending_batch (al_state lp) then (Inr (), lp)
      else if has_pending_flush_result (al_state lp) then (Inr (), lp \<lparr> al_state := pause_processing (al_state lp) \<rparr>)
      else (case le_write env of
          Inl e \<Rightarrow> (Inl (Failed e), lp \<lparr> al_unacked := al_unacked lp @ ls_batch (al_state lp),
             al_state := (al_state lp) \<lparr> ls_batch := [], ls_batch_bytes := 0, ls_last_commit_end := None \<rparr> \<rparr>)
        | Inr _ \<Rightarrow> (Inr (), flushed (le_now env) lp)))"
  by (simp add: flush_batch_def st_modify_def st_take_def take_events_batch_def write_events_def act_bind_def
      act_stop reset_flush_deadline_def flushed_def failable_def split: sum.split)

lemma safe_flushed: "safe sinv progress lp \<Longrightarrow> safe sinv progress (flushed now lp)"
  by (simp add: safe_def flushed_def floor_lsn_def last_received_lsn_def)

lemma running_flushed:
  assumes "running sinv progress lp" "ls_pending_flush (al_state lp) = None"
  shows "running sinv progress (flushed now lp)"
proof -
  have safe: "safe sinv progress (flushed now lp)" by (rule safe_flushed [OF running_safe [OF assms(1)]])
  have "batch_state_ok (al_unacked lp) (al_state lp)" using assms(1) by (simp add: running_def batch_ok_def)
  then have "batch_ok (flushed now lp)" using assms(2)
    by (simp add: batch_ok_def batch_state_ok_def flushed_def async_new_def)
  moreover have "tx_ok (flushed now lp)"
    using assms(1) by (simp add: running_def tx_ok_def tx_bound_def flushed_def floor_lsn_def last_received_lsn_def
        cong: option.case_cong)
  ultimately show ?thesis using safe by (simp add: running_def)
qed

lemma hoare_flush_batch:
  "hoare (running sinv progress) (flush_batch env) (\<lambda>_. running sinv progress) (safe sinv progress)"
  unfolding hoare_def
proof (intro allI impI)
  fix lp r lp'
  assume run: "running sinv progress lp" and eq: "flush_batch env lp = (r, lp')"
  consider (none) "\<not> has_pending_batch (al_state lp)"
    | (wait) "has_pending_batch (al_state lp)" "has_pending_flush_result (al_state lp)"
    | (dispatch) "has_pending_batch (al_state lp)" "\<not> has_pending_flush_result (al_state lp)" by blast
  then show "case r of Inl _ \<Rightarrow> safe sinv progress lp' | Inr x \<Rightarrow> running sinv progress lp'"
  proof cases
    case none
    then show ?thesis using run eq by (auto simp: flush_batch_eq)
  next
    case wait
    then have r: "r = Inr ()" "lp' = lp \<lparr> al_state := pause_processing (al_state lp) \<rparr>"
      using eq by (simp_all add: flush_batch_eq)
    have "running sinv progress lp'"
      using run wait unfolding r
      by (auto simp: running_def safe_def tx_ok_def tx_bound_def batch_ok_def batch_state_ok_def pause_processing_def
          floor_lsn_def last_received_lsn_def has_pending_batch_def has_pending_flush_result_def
          cong: option.case_cong)
    then show ?thesis by (simp add: r)
  next
    case dispatch
    then show ?thesis
    proof (cases "le_write env")
      case (Inl e)
      then have r: "r = Inl (Failed e)" using eq dispatch by (simp add: flush_batch_eq)
      have "safe sinv progress lp'"
        using run eq dispatch Inl by (auto simp: flush_batch_eq running_def safe_def floor_lsn_def last_received_lsn_def)
      then show ?thesis by (simp add: r)
    next
      case (Inr u)
      then have "r = Inr ()" "lp' = flushed (le_now env) lp" using eq dispatch by (simp_all add: flush_batch_eq)
      then show ?thesis
        using running_flushed [OF run] dispatch(2) by (simp add: has_pending_flush_result_def)
    qed
  qed
qed

section \<open>Table synchronisation\<close>

text \<open>What the other workers may do during a wait: they keep the store sound and leave this worker's progress alone.\<close>

definition waits_ok :: "('s \<Rightarrow> bool) \<Rightarrow> ('s \<Rightarrow> lsn option) \<Rightarrow> 's waits \<Rightarrow> bool" where
  "waits_ok sinv progress waits \<longleftrightarrow> (\<forall>t sh sh'. PhaseWake sh' \<in> set (waits t sh) \<longrightarrow> sinv (sh_store sh) \<longrightarrow>
     sinv (sh_store sh') \<and> progress (sh_store sh') = progress (sh_store sh))"

lemma wait_result_in:
  "wait_for_phase_type phase_in targets w wakes \<in> {WaitReached w', WaitShutdown w'} \<Longrightarrow>
   w' = w \<or> PhaseWake w' \<in> set wakes"
proof (induction wakes arbitrary: w)
  case (Cons x wakes)
  then show ?case
    by (subst (asm) (2) wait_for_phase_type.simps) (auto split: if_splits wake.splits)
qed (auto simp: wait_for_phase_type.simps split: if_splits)

lemma keeps_wait:
  assumes "waits_ok sinv progress waits"
  shows "keeps (shared_kept sinv progress d) (wait_for_table_sync_worker_catchup waits t)"
  unfolding hoare_def
proof (intro allI impI)
  fix sh r sh'
  assume kept: "shared_kept sinv progress d sh"
    and eq: "wait_for_table_sync_worker_catchup waits t sh = (r, sh')"
  have "sh' = sh \<or> PhaseWake sh' \<in> set (waits t sh)"
    using eq wait_result_in [of _ _ sh "waits t sh" sh']
    by (auto simp: wait_for_table_sync_worker_catchup_def split: wait_result.splits)
  then have "shared_kept sinv progress d sh'"
    using kept assms unfolding waits_ok_def shared_kept_def by metis
  then show "case r of Inl _ \<Rightarrow> shared_kept sinv progress d sh' | Inr x \<Rightarrow> shared_kept sinv progress d sh'"
    by (simp split: sum.split)
qed

lemma keeps_start_worker: "keeps (shared_kept sinv progress d) (start_table_sync_worker ops t)"
  by (auto simp: hoare_def start_table_sync_worker_def spawn_into_pool_def shared_kept_def
      split: sum.splits option.splits)

context state_store
begin

abbreviation kept :: "worker_type \<Rightarrow> lsn option \<Rightarrow> 's shared \<Rightarrow> bool" where
  "kept w \<equiv> shared_kept inv (\<lambda>s. progress_of s w)"

lemma keeps_store_phase: "keeps (kept w d) (store_phase ops t p)"
  unfolding hoare_def
proof (intro allI impI)
  fix sh r sh'
  assume kept: "kept w d sh" and eq: "store_phase ops t p sh = (r, sh')"
  obtain r' s' where u: "so_update_states ops [(t, p)] (sh_store sh) = (r', s')"
    by (cases "so_update_states ops [(t, p)] (sh_store sh)")
  have "sh' = sh \<lparr> sh_store := s' \<rparr>"
    using eq u by (auto simp: store_phase_def act_on_def act_call_def so_update_state_def)
  then have "kept w d sh'"
    using kept update_inv [OF _ u] update_progress [OF _ u] by (simp add: shared_kept_def)
  then show "case r of Inl _ \<Rightarrow> kept w d sh' | Inr x \<Rightarrow> kept w d sh'" by (simp split: sum.split)
qed

lemma keeps_store_worker_phase: "keeps (kept w d) (store_worker_phase ops ws p)"
  unfolding hoare_def
proof (intro allI impI)
  fix sh r sh'
  assume kept: "kept w d sh" and eq: "store_worker_phase ops ws p sh = (r, sh')"
  obtain r' ws' s' where u: "set_and_store ops p ws (sh_store sh) = (r', ws', s')"
    by (cases "set_and_store ops p ws (sh_store sh)") auto
  have sh': "sh_store sh' = s'" using eq u by (auto simp: store_worker_phase_def)
  have "kept w d sh'"
    using kept set_and_store_inv [OF _ u] set_and_store_progress [OF _ u] by (simp add: shared_kept_def sh')
  then show "case r of Inl _ \<Rightarrow> kept w d sh' | Inr x \<Rightarrow> kept w d sh'" by (simp split: sum.split)
qed

lemma keeps_enter_catchup:
  "waits_ok inv (\<lambda>s. progress_of s w) waits \<Longrightarrow> keeps (kept w d) (enter_catchup ops waits t ws a b)"
  unfolding enter_catchup_def by (intro keeps_bind keeps_store_worker_phase keeps_wait)

lemma keeps_become_ready: "keeps (kept w d) (act_when b (store_phase ops t Ready))"
  by (intro keeps_when keeps_store_phase)

lemma keeps_read_tables: "keeps (kept w d) (\<lambda>sh. act_try (get_syncing_tables ops (sh_store sh)) sh)"
  by (auto simp: hoare_def act_try_def split: sum.split)

lemma keeps_after_commit:
  assumes "waits_ok inv (\<lambda>s. progress_of s w) waits"
  shows "keeps (kept w d) (apply_after_commit ops waits l)"
proof -
  have "keeps (kept w d) (process_single_after_commit ops waits l tp)" for tp
    unfolding process_single_after_commit_def
    by (auto intro!: keeps_rules keeps_start_worker keeps_enter_catchup [OF assms] keeps_wait [OF assms]
        split: prod.split option.split phase.split)
  then show ?thesis
    unfolding apply_after_commit_def by (intro keeps_bind keeps_read_tables keeps_until)
qed

lemma keeps_after_flush: "keeps (kept w d) (apply_after_flush ops l)"
proof -
  have "keeps (kept w d) (process_single_after_flush ops l tp)" for tp
    unfolding process_single_after_flush_def
    by (auto intro!: keeps_bind keeps_get keeps_return keeps_start_worker keeps_become_ready
        split: prod.split option.split phase.split)
  then show ?thesis
    unfolding apply_after_flush_def by (intro keeps_bind keeps_read_tables hoare_each)
qed

lemma keeps_when_idle:
  assumes "waits_ok inv (\<lambda>s. progress_of s w) waits"
  shows "keeps (kept w d) (apply_when_idle ops waits l)"
proof -
  have "keeps (kept w d) (process_single_when_idle ops waits l tp)" for tp
    unfolding process_single_when_idle_def
    by (auto intro!: keeps_bind keeps_get keeps_return keeps_start_worker keeps_become_ready
        keeps_enter_catchup [OF assms] keeps_wait [OF assms]
        split: prod.split option.split phase.split)
  then show ?thesis
    unfolding apply_when_idle_def by (intro keeps_bind keeps_read_tables keeps_until)
qed

lemma keeps_try_complete: "keeps (kept w d) (try_complete_catchup ops own l)"
  unfolding try_complete_catchup_def
  by (auto intro!: keeps_rules keeps_store_worker_phase split: option.split phase.split)

end

end
