(* ===== verification/Apply_Safety.thy ===== *)
theory Apply_Safety
  imports Apply_Invariant
begin

text \<open>
  Every handler of the apply loop keeps the invariants of \<open>Apply_Invariant\<close>, for any store
  that fulfils the store contract, and with it every iteration of the loop.
\<close>

section \<open>Transactions and their ordinals\<close>

definition key_fresh :: "lsn \<Rightarrow> 64 word \<Rightarrow> 's apply_loop \<Rightarrow> bool" where
  "key_fresh l n lp \<longleftrightarrow> (\<forall>k \<in> set (keys_of (al_produced lp)). key_less k \<lparr> sk_commit = l, sk_ordinal = n \<rparr>) \<and>
     n < ls_next_ordinal (al_state lp)"

lemma steady_key_fresh [simp]: "steady sinv progress (key_fresh l n)"
  unfolding steady_def view_def key_fresh_def by simp

lemma steady_remote_final [simp]: "steady sinv progress (\<lambda>lp. ls_remote_final (al_state lp) = x)"
  unfolding steady_def view_def by simp

text \<open>The next ordinal is fresh as long as the counter has not reached its maximum.\<close>

lemma next_ordinal_less: "n < - 1 \<Longrightarrow> \<exists>m. checked_add n 1 = Some m \<and> n < (m :: 64 word)"
proof -
  assume "n < - 1"
  then have "unat n < 2 ^ 64 - 1"
    by (simp add: word_less_nat_alt unsigned_minus_1_eq_mask mask_eq_exp_minus_1)
  then have "unat n + unat (1 :: 64 word) < 2 ^ LENGTH(64)" by simp
  then have "checked_add n 1 = Some (n + 1)" "unat (n + 1) = unat n + 1"
    by (simp_all add: checked_add_def unat_word_ariths)
  then show ?thesis by (simp add: word_less_nat_alt)
qed

lemma running_next_ordinal:
  assumes "running sinv progress lp" "n < m" "n = ls_next_ordinal (al_state lp)"
  shows "running sinv progress (lp \<lparr> al_state := (al_state lp) \<lparr> ls_next_ordinal := m \<rparr> \<rparr>)"
proof -
  have "key_less k \<lparr> sk_commit = l, sk_ordinal = n \<rparr> \<Longrightarrow> key_less k \<lparr> sk_commit = l, sk_ordinal = m \<rparr>" for k l
    using assms(2) by (auto simp: key_less_def)
  then show ?thesis using assms(1,3)
    by (cases "ls_remote_final (al_state lp)")
      (auto simp: running_def safe_def tx_ok_def tx_bound_def batch_ok_def batch_state_ok_def floor_lsn_def
        last_received_lsn_def cong: option.case_cong)
qed

lemma hoare_next_ordinal:
  assumes P: "\<And>lp m. P lp \<Longrightarrow> P (lp \<lparr> al_state := (al_state lp) \<lparr> ls_next_ordinal := m \<rparr> \<rparr>)"
  shows "hoare (\<lambda>lp. running sinv progress lp \<and> tx_bound l lp \<and> ls_next_ordinal (al_state lp) < - 1 \<and> P lp)
     (st_take next_tx_ordinal) (\<lambda>n lp. running sinv progress lp \<and> key_fresh l n lp \<and> P lp) E"
proof (rule hoare_st_take)
  fix lp n st
  assume lp: "running sinv progress lp \<and> tx_bound l lp \<and> ls_next_ordinal (al_state lp) < - 1 \<and> P lp"
    and n: "next_tx_ordinal (al_state lp) = (n, st)"
  obtain m where m: "checked_add (ls_next_ordinal (al_state lp)) 1 = Some m" "ls_next_ordinal (al_state lp) < m"
    using next_ordinal_less lp by blast
  then have st: "n = ls_next_ordinal (al_state lp)" "st = (al_state lp) \<lparr> ls_next_ordinal := m \<rparr>"
    using n by (auto simp: next_tx_ordinal_def)
  have "running sinv progress (lp \<lparr> al_state := st \<rparr>)"
    unfolding st(2) using running_next_ordinal [of sinv progress lp n m] lp m(2) st(1) by blast
  moreover have "key_fresh l n (lp \<lparr> al_state := st \<rparr>)"
    using lp m(2) by (simp add: key_fresh_def tx_bound_def st)
  moreover have "P (lp \<lparr> al_state := st \<rparr>)" unfolding st(2) using P lp by blast
  ultimately show "running sinv progress (lp \<lparr> al_state := st \<rparr>) \<and> key_fresh l n (lp \<lparr> al_state := st \<rparr>) \<and>
      P (lp \<lparr> al_state := st \<rparr>)" by blast
qed

section \<open>What a handler returns\<close>

definition result_ok :: "handle_message_result \<Rightarrow> 's apply_loop \<Rightarrow> bool" where
  "result_ok r lp \<longleftrightarrow> (case hr_event r of
      None \<Rightarrow> True
    | Some e \<Rightarrow> hr_end_lsn r = commit_end_of e \<and>
        (\<exists>k. event_key e = Some k \<and>
          (\<forall>k' \<in> set (keys_of (al_produced lp)). key_less k' k) \<and>
          (case ls_remote_final (al_state lp) of
             None \<Rightarrow> sk_commit k < last_received_lsn (al_state lp)
           | Some l \<Rightarrow> commit_end_of e = None \<and>
               key_less k \<lparr> sk_commit = l, sk_ordinal = ls_next_ordinal (al_state lp) \<rparr>)) \<and>
        (\<forall>x. commit_end_of e = Some x \<longrightarrow> floor_lsn lp < x \<and>
          (\<forall>y \<in> set (ends (al_produced lp)). y < x) \<and> x \<le> last_received_lsn (al_state lp)))"

lemma result_ok_no_event [simp]: "result_ok no_event lp"
  by (simp add: result_ok_def no_event_def)

lemma result_ok_row:
  assumes "ls_remote_final (al_state lp) = Some l" "key_fresh l n lp" "commit_end_of e = None"
    "event_key e = Some \<lparr> sk_commit = l, sk_ordinal = n \<rparr>"
  shows "result_ok (return_event e) lp"
  using assms by (simp add: result_ok_def return_event_def key_fresh_def key_less_def [of "\<lparr> sk_commit = l, sk_ordinal = n \<rparr>"])

text \<open>Adding the returned event to the batch.\<close>

definition event_added :: "'s loop_config \<Rightarrow> instant \<Rightarrow> event \<Rightarrow> lsn option \<Rightarrow> 's apply_loop \<Rightarrow> 's apply_loop" where
  "event_added cfg now e end_lsn lp =
     lp \<lparr> al_produced := al_produced lp @ [e],
         al_state := set_flush_deadline_if_needed now (lc_max_fill cfg)
           (update_last_commit_end_lsn end_lsn (add_event_to_batch (lc_size_hint cfg) e (al_state lp))) \<rparr>"

lemma added_state:
  "ls_batch (al_state (event_added cfg now e x lp)) = ls_batch (al_state lp) @ [e]"
  "ls_remote_final (al_state (event_added cfg now e x lp)) = ls_remote_final (al_state lp)"
  "ls_progress (al_state (event_added cfg now e x lp)) = ls_progress (al_state lp)"
  "ls_next_ordinal (al_state (event_added cfg now e x lp)) = ls_next_ordinal (al_state lp)"
  "ls_pending_flush (al_state (event_added cfg now e x lp)) = ls_pending_flush (al_state lp)"
  "ls_paused (al_state (event_added cfg now e x lp)) = ls_paused (al_state lp)"
  "ls_flush_deadline (al_state (event_added cfg now e x lp)) \<noteq> None"
  "ls_last_commit_end (al_state (event_added cfg now e x lp)) = (case x of
      None \<Rightarrow> ls_last_commit_end (al_state lp)
    | Some x \<Rightarrow> Some (case ls_last_commit_end (al_state lp) of None \<Rightarrow> x | Some y \<Rightarrow> max x y))"
  "al_produced (event_added cfg now e x lp) = al_produced lp @ [e]"
  "al_unacked (event_added cfg now e x lp) = al_unacked lp" "al_acked (event_added cfg now e x lp) = al_acked lp"
  "al_stream (event_added cfg now e x lp) = al_stream lp" "al_shared (event_added cfg now e x lp) = al_shared lp"
  by (auto simp: event_added_def set_flush_deadline_if_needed_def update_last_commit_end_lsn_def
      add_event_to_batch_def max_def split: option.split)

lemma added_floor [simp]:
  "floor_lsn (event_added cfg now e x lp) = floor_lsn lp"
  "last_received_lsn (al_state (event_added cfg now e x lp)) = last_received_lsn (al_state lp)"
  by (simp_all add: floor_lsn_def last_received_lsn_def added_state)

lemma safe_event_added:
  assumes safe: "safe sinv progress lp" and res: "result_ok r lp" and e: "hr_event r = Some e"
  shows "safe sinv progress (event_added cfg now e (hr_end_lsn r) lp)"
proof -
  from res e obtain k where k: "event_key e = Some k" "\<forall>k' \<in> set (keys_of (al_produced lp)). key_less k' k"
    and x: "\<And>x. commit_end_of e = Some x \<Longrightarrow> floor_lsn lp < x \<and>
          (\<forall>y \<in> set (ends (al_produced lp)). y < x) \<and> x \<le> last_received_lsn (al_state lp)"
    by (auto simp: result_ok_def)
  show ?thesis
  proof (cases "commit_end_of e")
    case None
    then show ?thesis using safe k by (simp add: safe_def added_state sorted_wrt_append)
  next
    case (Some y)
    then show ?thesis using safe k x [OF Some] by (simp add: safe_def added_state sorted_wrt_append ball_Un)
  qed
qed

lemma tx_event_added:
  assumes tx: "tx_ok lp" and res: "result_ok r lp" and e: "hr_event r = Some e"
  shows "tx_ok (event_added cfg now e (hr_end_lsn r) lp)"
proof (cases "ls_remote_final (al_state lp)")
  case None
  then show ?thesis using tx res e by (auto simp: tx_ok_def result_ok_def added_state split: option.splits)
next
  case (Some l)
  then show ?thesis using tx res e
    by (auto simp: tx_ok_def tx_bound_def result_ok_def added_state)
qed

lemma batch_event_added:
  assumes safe: "safe sinv progress lp" and batch: "batch_ok lp" and res: "result_ok r lp" and e: "hr_event r = Some e"
  shows "batch_ok (event_added cfg now e (hr_end_lsn r) lp)"
proof -
  have st: "batch_state_ok (al_unacked lp) (al_state lp)" using batch by (simp add: batch_ok_def)
  have x: "hr_end_lsn r = commit_end_of e"
    and less: "\<And>x. commit_end_of e = Some x \<Longrightarrow> \<forall>y \<in> set (ends (al_produced lp)). y < x"
    using res e by (auto simp: result_ok_def)
  have "ls_last_commit_end (al_state (event_added cfg now e (hr_end_lsn r) lp)) =
      last_opt (ends (ls_batch (al_state lp) @ [e]))"
  proof (cases "commit_end_of e")
    case None
    then show ?thesis using st x by (simp add: added_state batch_state_ok_def)
  next
    case (Some c)
    have old: "y < c" if "last_opt (ends (ls_batch (al_state lp))) = Some y" for y
    proof -
      have "y \<in> set (ends (al_produced lp))"
        using last_opt_in [OF that] safe by (auto simp: safe_def dest: sym)
      then show ?thesis using less [OF Some] by blast
    qed
    show ?thesis
      using st x Some old by (auto simp: added_state batch_state_ok_def max_def dest: less_imp_le split: option.split)
  qed
  moreover have "ls_flush_deadline (al_state (event_added cfg now e (hr_end_lsn r) lp)) \<noteq> None"
    by (rule added_state)
  ultimately show ?thesis
    using st by (simp add: batch_ok_def batch_state_ok_def added_state cong: option.case_cong)
qed

lemma running_event_added:
  "running sinv progress lp \<Longrightarrow> result_ok r lp \<Longrightarrow> hr_event r = Some e \<Longrightarrow>
   running sinv progress (event_added cfg now e (hr_end_lsn r) lp)"
  unfolding running_def using safe_event_added tx_event_added batch_event_added by blast

section \<open>Message handlers\<close>

definition begin_ok :: "lsn \<Rightarrow> 's apply_loop \<Rightarrow> bool" where
  "begin_ok l lp \<longleftrightarrow> floor_lsn lp \<le> l \<and> (\<forall>x \<in> set (ends (al_produced lp)). x \<le> l) \<and>
     (\<forall>k \<in> set (keys_of (al_produced lp)). sk_commit k < l)"

fun logical_ok :: "logical_message \<Rightarrow> 's apply_loop \<Rightarrow> bool" where
  "logical_ok (LBegin b) lp = begin_ok (bb_final_lsn b) lp"
| "logical_ok (LCommit b) lp =
     (cb_commit_lsn b < cb_end_lsn b \<and> cb_end_lsn b \<le> last_received_lsn (al_state lp))"
| "logical_ok _ lp = True"

text \<open>In a transaction, with an ordinal taken and not yet used.\<close>

definition row_ready :: "('s \<Rightarrow> bool) \<Rightarrow> ('s \<Rightarrow> lsn option) \<Rightarrow> lsn \<Rightarrow> 64 word \<Rightarrow> 's apply_loop \<Rightarrow> bool" where
  "row_ready sinv progress l n lp \<longleftrightarrow>
     running sinv progress lp \<and> key_fresh l n lp \<and> ls_remote_final (al_state lp) = Some l"

lemma steady_row_ready [simp]: "steady sinv progress (row_ready sinv progress l n)"
proof -
  have "row_ready sinv progress l n =
      (\<lambda>lp. running sinv progress lp \<and> key_fresh l n lp \<and> ls_remote_final (al_state lp) = Some l)"
    by (simp add: row_ready_def fun_eq_iff)
  then show ?thesis by simp
qed

lemma row_ready_safe: "row_ready sinv progress l n lp \<Longrightarrow> safe sinv progress lp"
  by (simp add: row_ready_def running_def)

abbreviation handled where
  "handled sinv progress \<equiv> \<lambda>r lp. running sinv progress lp \<and> result_ok r lp"

lemma hoare_in_transaction:
  assumes "\<And>l. hoare (\<lambda>lp. running sinv progress lp \<and> ls_next_ordinal (al_state lp) < - 1 \<and>
      ls_remote_final (al_state lp) = Some l) (f l) Q (safe sinv progress)"
  shows "hoare (\<lambda>lp. running sinv progress lp \<and> ls_next_ordinal (al_state lp) < - 1) (in_transaction f) Q
     (safe sinv progress)"
  unfolding in_transaction_def
proof (rule hoare_bind_get)
  fix r
  show "hoare (\<lambda>lp. (running sinv progress lp \<and> ls_next_ordinal (al_state lp) < - 1) \<and>
      ls_remote_final (al_state lp) = r)
    (case r of None \<Rightarrow> act_fail (etl_err InvalidState ''Invalid transaction state'') | Some l \<Rightarrow> f l)
    Q (safe sinv progress)"
    using assms by (cases r) (auto intro: hoare_fail running_safe)
qed

lemma hoare_tx_ordinal:
  "hoare (\<lambda>lp. running sinv progress lp \<and> ls_next_ordinal (al_state lp) < - 1 \<and> ls_remote_final (al_state lp) = Some l)
     (st_take next_tx_ordinal) (row_ready sinv progress l) E"
  by (rule hoare_weaken [OF hoare_next_ordinal [where l = l and P = "\<lambda>lp. ls_remote_final (al_state lp) = Some l"]])
    (auto simp: row_ready_def running_def tx_ok_def)

lemma hoare_same_state:
  assumes "\<And>lp. \<exists>r. m lp = (r, lp)" and "\<And>lp. P lp \<Longrightarrow> safe sinv progress lp"
  shows "hoare P m (\<lambda>_. P) (safe sinv progress)"
  unfolding hoare_def
proof (intro allI impI)
  fix lp r lp'
  assume "P lp" "m lp = (r, lp')"
  then show "case r of Inl _ \<Rightarrow> safe sinv progress lp' | Inr x \<Rightarrow> P lp'"
    using assms(1) [of lp] assms(2) by (auto split: sum.split)
qed

lemma same_state [simp]:
  "\<exists>r. should_apply_changes cfg t l lp = (r, lp)" "\<exists>r. act_try x lp = (r, lp)"
  "\<exists>r. schema_try y lp = (r, lp)" "\<exists>r. io_try z lp = (r, lp)"
  by (simp_all add: should_apply_changes_def act_try_def schema_try_def io_try_def)

lemma hoare_row_done:
  assumes "commit_end_of e = None" "event_key e = Some \<lparr> sk_commit = l, sk_ordinal = n \<rparr>"
  shows "hoare (row_ready sinv progress l n) (act_return (return_event e)) (handled sinv progress) E"
  by (rule hoare_return) (auto simp: row_ready_def intro: result_ok_row assms)

lemma hoare_row_skip: "hoare (row_ready sinv progress l n) (act_return no_event) (handled sinv progress) E"
  by (rule hoare_return) (simp add: row_ready_def)

lemma hoare_row_message:
  assumes "\<And>r l n e. parse r l n = Inr e \<Longrightarrow>
      commit_end_of e = None \<and> event_key e = Some \<lparr> sk_commit = l, sk_ordinal = n \<rparr>"
  shows "hoare (\<lambda>lp. running sinv progress lp \<and> ls_next_ordinal (al_state lp) < - 1)
    (handle_row_message cfg t parse) (handled sinv progress) (safe sinv progress)"
  unfolding handle_row_message_def
proof (rule hoare_in_transaction, rule hoare_bind [OF hoare_tx_ordinal])
  fix l n
  have decoded: "hoare (row_ready sinv progress l n) (act_try (parse r l n))
      (\<lambda>e lp. row_ready sinv progress l n lp \<and> parse r l n = Inr e) (safe sinv progress)" for r
    by (rule hoare_try) (auto intro: row_ready_safe)
  have done_event: "hoare (\<lambda>lp. row_ready sinv progress l n lp \<and> parse r l n = Inr e) (act_return (return_event e))
      (handled sinv progress) (safe sinv progress)" for r e
    by (rule hoare_return) (use assms in \<open>auto simp: row_ready_def intro: result_ok_row\<close>)
  have row: "hoare (row_ready sinv progress l n)
      (act_bind (\<lambda>lp. act_try (get_replicated_table_schema t (sh_cache (al_shared lp))) lp) (\<lambda>r.
           act_bind (act_try (parse r l n)) (\<lambda>e. act_return (return_event e))))
      (handled sinv progress) (safe sinv progress)"
    by (rule hoare_bind [OF hoare_same_state hoare_bind [OF decoded done_event]]) (auto intro: row_ready_safe)
  show "hoare (row_ready sinv progress l n)
     (act_bind (should_apply_changes cfg t l) (\<lambda>owned.
         if \<not> owned then act_return no_event
         else act_bind (\<lambda>lp. act_try (get_replicated_table_schema t (sh_cache (al_shared lp))) lp) (\<lambda>r.
           act_bind (act_try (parse r l n)) (\<lambda>e. act_return (return_event e)))))
     (handled sinv progress) (safe sinv progress)"
    by (rule hoare_bind [OF hoare_same_state]) (auto intro: row_ready_safe hoare_row_skip row)
qed

lemma parse_keys:
  "parse_event_from_insert_message tp r s l n ib = Inr ie \<Longrightarrow> ep_commit ie = l \<and> ep_ordinal ie = n"
  "parse_event_from_update_message tp r s l n ub = Inr ue \<Longrightarrow> ep_commit ue = l \<and> ep_ordinal ue = n"
  "parse_event_from_delete_message tp r s l n db = Inr de \<Longrightarrow> ep_commit de = l \<and> ep_ordinal de = n"
  by (auto simp: parse_event_from_insert_message_def parse_event_from_update_message_def
      parse_event_from_delete_message_def res_bind_eq_Inr_iff)

lemma hoare_dml:
  "hoare (\<lambda>lp. running sinv progress lp \<and> ls_next_ordinal (al_state lp) < - 1)
     (handle_insert_message cfg s ib) (handled sinv progress) (safe sinv progress)"
  "hoare (\<lambda>lp. running sinv progress lp \<and> ls_next_ordinal (al_state lp) < - 1)
     (handle_update_message cfg s ub) (handled sinv progress) (safe sinv progress)"
  "hoare (\<lambda>lp. running sinv progress lp \<and> ls_next_ordinal (al_state lp) < - 1)
     (handle_delete_message cfg s db) (handled sinv progress) (safe sinv progress)"
  unfolding handle_insert_message_def handle_update_message_def handle_delete_message_def
  by (rule hoare_row_message; auto simp: res_bind_eq_Inr_iff dest: parse_keys)+

lemma hoare_truncate:
  "hoare (\<lambda>lp. running sinv progress lp \<and> ls_next_ordinal (al_state lp) < - 1)
     (handle_truncate_message cfg s body) (handled sinv progress) (safe sinv progress)"
  unfolding handle_truncate_message_def
proof (rule hoare_in_transaction, rule hoare_bind [OF hoare_tx_ordinal])
  fix l n
  have "hoare (row_ready sinv progress l n)
     (act_return (return_event (EvTruncate (parse_event_from_truncate_message s l n body tables))))
     (handled sinv progress) (safe sinv progress)" for tables
    by (rule hoare_row_done) (simp_all add: parse_event_from_truncate_message_def)
  then show "hoare (row_ready sinv progress l n)
     (act_bind (\<lambda>lp. act_try (truncated_tables cfg l (al_shared lp) (tb_rel_ids body)) lp) (\<lambda>tables.
         if tables = [] then act_return no_event
         else act_return (return_event (EvTruncate (parse_event_from_truncate_message s l n body tables)))))
     (handled sinv progress) (safe sinv progress)"
    by (intro hoare_bind [OF hoare_same_state]) (auto intro: row_ready_safe hoare_row_skip)
qed

lemma keeps_on_cache:
  assumes "steady sinv progress P" "\<And>lp. P lp \<Longrightarrow> safe sinv progress lp"
  shows "hoare P (on_cache f) (\<lambda>_. P) (safe sinv progress)"
  unfolding on_cache_def
  by (rule hoare_on_shared) (auto simp: assms shared_kept_def intro: hoare_modify)

lemma hoare_begin:
  "hoare (\<lambda>lp. running sinv progress lp \<and> begin_ok (bb_final_lsn body) lp)
     (handle_begin_message env s body) (handled sinv progress) (safe sinv progress)"
  unfolding handle_begin_message_def Let_def
proof (rule hoare_bind)
  let ?l = "bb_final_lsn body"
  show "hoare (\<lambda>lp. running sinv progress lp \<and> begin_ok ?l lp)
     (st_modify (\<lambda>st. reset_tx_ordinal (st \<lparr> ls_remote_final := Some ?l,
        ls_tx_begin_ts := Some (le_now env), ls_tx_events := 0 \<rparr>)))
     (\<lambda>_ lp. running sinv progress lp \<and> ls_next_ordinal (al_state lp) < - 1 \<and>
        ls_remote_final (al_state lp) = Some ?l) (safe sinv progress)"
  proof (rule hoare_st_modify)
    fix lp
    assume "running sinv progress lp \<and> begin_ok ?l lp"
    then show "running sinv progress (lp \<lparr> al_state := reset_tx_ordinal ((al_state lp)
          \<lparr> ls_remote_final := Some ?l, ls_tx_begin_ts := Some (le_now env), ls_tx_events := 0 \<rparr>) \<rparr>) \<and>
        ls_next_ordinal (al_state (lp \<lparr> al_state := reset_tx_ordinal ((al_state lp)
          \<lparr> ls_remote_final := Some ?l, ls_tx_begin_ts := Some (le_now env), ls_tx_events := 0 \<rparr>) \<rparr>)) < - 1 \<and>
        ls_remote_final (al_state (lp \<lparr> al_state := reset_tx_ordinal ((al_state lp)
          \<lparr> ls_remote_final := Some ?l, ls_tx_begin_ts := Some (le_now env), ls_tx_events := 0 \<rparr>) \<rparr>)) = Some ?l"
      by (simp add: running_def safe_def tx_ok_def tx_bound_def begin_ok_def batch_ok_def batch_state_ok_def
          reset_tx_ordinal_def floor_lsn_def last_received_lsn_def key_less_def word_gt_0 cong: option.case_cong)
  qed
  show "hoare (\<lambda>lp. running sinv progress lp \<and> ls_next_ordinal (al_state lp) < - 1 \<and>
        ls_remote_final (al_state lp) = Some ?l)
     (act_bind (st_take next_tx_ordinal) (\<lambda>n.
        act_return (return_event (EvBegin (parse_event_from_begin_message s ?l n body)))))
     (handled sinv progress) (safe sinv progress)"
    by (rule hoare_bind [OF hoare_tx_ordinal hoare_row_done])
      (simp_all add: parse_event_from_begin_message_def)
qed

end
