(* ===== verification/Apply_Iterations.thy ===== *)
theory Apply_Iterations
  imports Apply_Safety
begin

text \<open>
  The handlers of the apply loop that use the store, and the iterations built from all the
  handlers, keep the invariants of the loop for every store that fulfils \<open>pipeline_store\<close>.
\<close>

lemma hoare_chain:
  "hoare P m (\<lambda>_. P) E \<Longrightarrow> (\<And>x. hoare P (f x) Q E) \<Longrightarrow> hoare P (act_bind m f) Q E"
  by (rule hoare_bind)

lemma hoare_chain_get: "(\<And>x. hoare P (f x) Q E) \<Longrightarrow> hoare P (act_bind (act_get g) f) Q E"
  by (rule hoare_bind [OF hoare_get])

lemma hoare_conj: "hoare P m Q E \<Longrightarrow> hoare P' m Q' E' \<Longrightarrow> hoare (\<lambda>s. P s \<and> P' s) m (\<lambda>x s. Q x s \<and> Q' x s) E"
  unfolding hoare_def by (fastforce split: sum.splits)

abbreviation ready_for_row where
  "ready_for_row sinv progress \<equiv>
     \<lambda>lp. running sinv progress lp \<and> ls_next_ordinal (al_state lp) < - 1"

lemma steady_ordinal [simp]: "steady sinv progress (\<lambda>lp. ls_next_ordinal (al_state lp) < n)"
  unfolding steady_def view_def by simp

section \<open>Commits\<close>

definition commit_ready :: "lsn \<Rightarrow> 's apply_loop \<Rightarrow> bool" where
  "commit_ready e lp \<longleftrightarrow> ls_remote_final (al_state lp) = None \<and> floor_lsn lp < e \<and>
     (\<forall>y \<in> set (ends (al_produced lp)). y < e) \<and> e \<le> last_received_lsn (al_state lp)"

lemma steady_commit_ready [simp]: "steady sinv progress (commit_ready e)"
  unfolding steady_def view_def commit_ready_def floor_lsn_def last_received_lsn_def by simp

lemma commit_ready_ordinal:
  "commit_ready e lp \<Longrightarrow> commit_ready e (lp \<lparr> al_state := (al_state lp) \<lparr> ls_next_ordinal := m \<rparr> \<rparr>)"
  by (simp add: commit_ready_def floor_lsn_def last_received_lsn_def)

text \<open>Taking the transaction out of the state, and what is known when its position matches.\<close>

definition commit_taken :: "('s \<Rightarrow> bool) \<Rightarrow> ('s \<Rightarrow> lsn option) \<Rightarrow> lsn \<Rightarrow> lsn option \<Rightarrow> 's apply_loop \<Rightarrow> bool" where
  "commit_taken sinv progress e r lp \<longleftrightarrow> safe sinv progress lp \<and> batch_ok lp \<and> ls_next_ordinal (al_state lp) < - 1 \<and>
     e \<le> last_received_lsn (al_state lp) \<and> ls_remote_final (al_state lp) = None \<and>
     (\<forall>l. r = Some l \<longrightarrow> tx_bound l lp)"

abbreviation committing where
  "committing sinv progress l e \<equiv> \<lambda>lp. running sinv progress lp \<and> tx_bound l lp \<and>
     ls_next_ordinal (al_state lp) < - 1 \<and> commit_ready e lp"

lemma commit_taken_start:
  assumes "ready_for_row sinv progress lp" "e \<le> last_received_lsn (al_state lp)"
  shows "commit_taken sinv progress e (ls_remote_final (al_state lp))
     (lp \<lparr> al_state := (al_state lp) \<lparr> ls_remote_final := None \<rparr> \<rparr>)"
  using assms by (auto simp: commit_taken_def running_def safe_def batch_ok_def batch_state_ok_def tx_ok_def tx_bound_def
      floor_lsn_def last_received_lsn_def cong: option.case_cong)

lemma commit_taken_matches:
  assumes taken: "commit_taken sinv progress e (Some l) lp" and less: "l < e"
  shows "committing sinv progress l e lp"
proof -
  have tx: "tx_bound l lp" and none: "ls_remote_final (al_state lp) = None" and le: "e \<le> last_received_lsn (al_state lp)"
    using taken by (simp_all add: commit_taken_def)
  have "sk_commit k < last_received_lsn (al_state lp)" if "k \<in> set (keys_of (al_produced lp))" for k
  proof -
    have "sk_commit k \<le> l" using tx that by (force simp: tx_bound_def key_less_def)
    then show ?thesis using less le by (meson le_less_trans less_le_trans)
  qed
  then have "tx_ok lp" using none by (simp add: tx_ok_def)
  moreover have "commit_ready e lp"
    using tx none le less by (auto simp: commit_ready_def tx_bound_def intro: le_less_trans)
  ultimately show ?thesis using taken by (simp add: commit_taken_def running_def)
qed

lemma hoare_commit_event:
  assumes less: "cb_commit_lsn body < cb_end_lsn body"
  shows "hoare (committing sinv progress (cb_commit_lsn body) (cb_end_lsn body))
    (act_bind (st_take next_tx_ordinal) (\<lambda>n. act_return \<lparr> hr_event = Some (EvCommit
        (parse_event_from_commit_message s (cb_commit_lsn body) n body)),
      hr_end_lsn = Some (cb_end_lsn body), hr_end_batch = b \<rparr>))
    (handled sinv progress) (safe sinv progress)"
proof (rule hoare_bind [OF hoare_next_ordinal], erule commit_ready_ordinal, rule hoare_return)
  fix n lp
  let ?e = "EvCommit (parse_event_from_commit_message s (cb_commit_lsn body) n body)"
  assume "running sinv progress lp \<and> key_fresh (cb_commit_lsn body) n lp \<and> commit_ready (cb_end_lsn body) lp"
  then have run: "running sinv progress lp" and fresh: "key_fresh (cb_commit_lsn body) n lp"
    and ready: "commit_ready (cb_end_lsn body) lp" by blast+
  have "cb_commit_lsn body < last_received_lsn (al_state lp)"
    using less ready by (auto simp: commit_ready_def)
  then show "running sinv progress lp \<and> result_ok \<lparr> hr_event = Some ?e, hr_end_lsn = Some (cb_end_lsn body),
      hr_end_batch = b \<rparr> lp"
    using run fresh ready by (simp add: result_ok_def parse_event_from_commit_message_def commit_ready_def key_fresh_def)
qed

section \<open>Messages from the stream\<close>

text \<open>
  What the replication protocol guarantees of a message: a transaction begins outside
  any other, with a commit position not before what was already received, a commit record
  ends after it starts and not after the position its message carries, and a transaction
  has fewer than \<open>2 ^ 64 - 1\<close> messages.
\<close>

fun stream_ok :: "replication_message \<Rightarrow> apply_loop_state \<Rightarrow> bool" where
  "stream_ok (XLogData s e (LBegin b)) st \<longleftrightarrow> ls_next_ordinal st < - 1 \<and> ls_remote_final st = None \<and>
     last_received_lsn st \<le> bb_final_lsn b"
| "stream_ok (XLogData s e (LCommit b)) st \<longleftrightarrow> ls_next_ordinal st < - 1 \<and> cb_commit_lsn b < cb_end_lsn b \<and>
     cb_end_lsn b \<le> max (last_received_lsn st) (max s e)"
| "stream_ok (XLogData s e m) st \<longleftrightarrow> ls_next_ordinal st < - 1"
| "stream_ok _ st \<longleftrightarrow> True"

lemma stream_ok_ordinal: "stream_ok (XLogData s e m) st \<Longrightarrow> ls_next_ordinal st < - 1"
  by (cases m) auto

definition received :: "lsn \<Rightarrow> 's apply_loop \<Rightarrow> 's apply_loop" where
  "received l lp = lp \<lparr> al_state := (al_state lp) \<lparr> ls_progress := update_last_received_lsn l (ls_progress (al_state lp)) \<rparr> \<rparr>"

lemma received_simps [simp]:
  "floor_lsn (received l lp) = floor_lsn lp"
  "last_received_lsn (al_state (received l lp)) = max (last_received_lsn (al_state lp)) l"
  "ls_next_ordinal (al_state (received l lp)) = ls_next_ordinal (al_state lp)"
  "ls_remote_final (al_state (received l lp)) = ls_remote_final (al_state lp)"
  "al_produced (received l lp) = al_produced lp"
  by (auto simp: received_def floor_lsn_def last_received_lsn_def update_last_received_lsn_def max_def)

lemma running_received: "running sinv progress lp \<Longrightarrow> running sinv progress (received l lp)"
proof -
  assume run: "running sinv progress lp"
  have "safe sinv progress (received l lp)"
    using run by (simp add: running_def safe_def received_simps le_max_iff_disj)
      (simp add: received_def update_last_received_lsn_def)
  moreover have "tx_ok (received l lp)"
    using run by (cases "ls_remote_final (al_state lp)")
      (auto simp: running_def tx_ok_def tx_bound_def less_max_iff_disj)
  moreover have "batch_ok (received l lp)"
    using run by (simp add: running_def batch_ok_def batch_state_ok_def received_def cong: option.case_cong)
  ultimately show ?thesis by (simp add: running_def)
qed

lemma logical_received:
  assumes run: "running sinv progress lp" and ok: "stream_ok (XLogData s e m) (al_state lp)"
  shows "logical_ok m (received e (received s lp))"
proof (cases m)
  case (LBegin b)
  then have tx: "\<forall>k \<in> set (keys_of (al_produced lp)). sk_commit k < last_received_lsn (al_state lp)"
    and le: "last_received_lsn (al_state lp) \<le> bb_final_lsn b"
    using run ok by (auto simp: running_def tx_ok_def)
  then show ?thesis
    using run by (auto simp: LBegin begin_ok_def running_def safe_def intro: order_trans less_le_trans)
qed (use ok in \<open>auto simp: max.assoc\<close>)

text \<open>
  What an iteration may rely on: the other workers keep the store sound during the waits
  of the iteration, and the next message of the stream obeys the protocol.
\<close>

definition env_ok :: "('s \<Rightarrow> bool) \<Rightarrow> ('s \<Rightarrow> lsn option) \<Rightarrow> 's loop_env \<Rightarrow> 's apply_loop \<Rightarrow> bool" where
  "env_ok sinv progress env lp \<longleftrightarrow>
     waits_ok sinv progress (le_waits env) \<and> waits_ok sinv progress (le_waits_before env) \<and>
     waits_ok sinv progress (le_waits_after env) \<and>
     (case le_message env of Some (Some (Inr m)) \<Rightarrow> stream_ok m (al_state lp) | _ \<Rightarrow> True)"

lemma stream_ok_view: "view st' = view st \<Longrightarrow> stream_ok m st' = stream_ok m st"
  by (cases "(m, st)" rule: stream_ok.cases) (auto simp: view_def last_received_lsn_def)

lemma steady_env_ok [simp]: "steady sinv progress (env_ok sinv progress env)"
  unfolding steady_def env_ok_def by (auto dest: stream_ok_view split: option.splits sum.splits)

text \<open>The branch that a selection may choose.\<close>

fun branch_ok :: "branch \<Rightarrow> 's loop_env \<Rightarrow> apply_loop_state \<Rightarrow> bool" where
  "branch_ok (BrFlushResult c) env st \<longleftrightarrow> flush_ready st = Some c"
| "branch_ok (BrMessage m) env st \<longleftrightarrow> le_message env = Some m"
| "branch_ok _ env st \<longleftrightarrow> True"

lemma selected_ok:
  "select_active env st = Some b \<Longrightarrow> branch_ok b env st"
  "select_draining env st = Some b \<Longrightarrow> branch_ok b env st"
  by (auto simp: select_active_def select_draining_def split: if_splits option.splits)

text \<open>A loop that ends has nothing left in a batch or in flight.\<close>

definition finished :: "('s \<Rightarrow> bool) \<Rightarrow> ('s \<Rightarrow> lsn option) \<Rightarrow> apply_loop_result option \<Rightarrow> 's apply_loop \<Rightarrow> bool" where
  "finished sinv progress r lp \<longleftrightarrow> running sinv progress lp \<and>
     (r \<noteq> None \<longrightarrow> \<not> has_unresolved_batch_work (al_state lp))"

lemma finished_active:
  "running sinv progress lp \<Longrightarrow> try_finish_active_iteration (al_state lp) = r \<Longrightarrow> finished sinv progress r lp"
  by (auto simp: finished_def try_finish_active_iteration_def split: if_splits)

lemma unresolved_view: "view st' = view st \<Longrightarrow> has_unresolved_batch_work st' = has_unresolved_batch_work st"
  by (simp add: view_def has_unresolved_batch_work_def has_pending_batch_def has_pending_flush_result_def)

lemma resolved_shutdown:
  "hoare (\<lambda>lp. \<not> has_unresolved_batch_work (al_state lp)) (initiate_graceful_shutdown cfg env)
     (\<lambda>_ lp. \<not> has_unresolved_batch_work (al_state lp)) (\<lambda>_. True)"
  unfolding hoare_def initiate_graceful_shutdown_def send_effective_status_def send_status_update_def
    maybe_spawn_schema_cleanup_def st_modify_def
  by (auto simp: act_bind_def act_stop unresolved_view [OF view_spawn_cleanup] unresolved_view [OF view_simps(7)]
      split: sum.splits prod.splits status_update_result.splits)

section \<open>Confirming a position\<close>

text \<open>A position that may be confirmed: everything up to it has been acknowledged.\<close>

definition confirmable :: "lsn \<Rightarrow> 's apply_loop \<Rightarrow> bool" where
  "confirmable c lp \<longleftrightarrow> al_unacked lp = [] \<and> (\<forall>x \<in> set (ends (ls_batch (al_state lp))). c < x) \<and>
     c \<le> last_received_lsn (al_state lp) \<and> (\<forall>l. ls_remote_final (al_state lp) = Some l \<longrightarrow> c \<le> l)"

definition confirmed :: "lsn \<Rightarrow> 's \<Rightarrow> 's apply_loop \<Rightarrow> 's apply_loop" where
  "confirmed d s' lp = lp \<lparr> al_shared := (al_shared lp) \<lparr> sh_store := s' \<rparr>,
     al_state := (al_state lp) \<lparr> ls_progress := update_last_flush_lsn d (ls_progress (al_state lp)) \<rparr> \<rparr>"

lemma confirmed_simps [simp]:
  "sh_store (al_shared (confirmed d s' lp)) = s'" "al_stream (confirmed d s' lp) = al_stream lp"
  "al_acked (confirmed d s' lp) = al_acked lp" "al_unacked (confirmed d s' lp) = al_unacked lp"
  "al_produced (confirmed d s' lp) = al_produced lp"
  "ls_batch (al_state (confirmed d s' lp)) = ls_batch (al_state lp)"
  "ls_remote_final (al_state (confirmed d s' lp)) = ls_remote_final (al_state lp)"
  "ls_next_ordinal (al_state (confirmed d s' lp)) = ls_next_ordinal (al_state lp)"
  "last_received_lsn (al_state (confirmed d s' lp)) = last_received_lsn (al_state lp)"
  "rp_flush (ls_progress (al_state (confirmed d s' lp))) = max (rp_flush (ls_progress (al_state lp))) d"
  by (auto simp: confirmed_def last_received_lsn_def update_last_flush_lsn_def max_def)

lemma running_confirmed:
  assumes run: "running sinv progress lp" and c: "confirmable c lp" and s': "sinv s'" "progress s' = Some d"
    and d: "d \<le> max (rp_flush (ls_progress (al_state lp))) c"
  shows "running sinv progress (confirmed d s' lp)"
proof -
  have floor: "floor_lsn (confirmed d s' lp) \<le> max (floor_lsn lp) c"
    using d by (auto simp: floor_lsn_def le_max_iff_disj)
  have less: "floor_lsn (confirmed d s' lp) < x" if "floor_lsn lp < x" "c < x" for x
    using le_less_trans [OF floor] that by simp
  have le: "floor_lsn (confirmed d s' lp) \<le> x" if "floor_lsn lp \<le> x" "c \<le> x" for x
    using order_trans [OF floor] that by simp
  have "safe sinv progress (confirmed d s' lp)"
    using run c s' by (auto simp: running_def safe_def confirmable_def intro!: less le)
  moreover have "tx_ok (confirmed d s' lp)"
    using run c by (cases "ls_remote_final (al_state lp)")
      (auto simp: running_def tx_ok_def tx_bound_def confirmable_def intro!: le)
  moreover have "batch_ok (confirmed d s' lp)"
    using run by (simp add: running_def batch_ok_def batch_state_ok_def confirmed_def cong: option.case_cong)
  ultimately show ?thesis by (simp add: running_def)
qed

text \<open>The state after the result of a flush was taken and the batch acknowledged.\<close>

definition acknowledged :: "'s apply_loop \<Rightarrow> 's apply_loop" where
  "acknowledged lp = lp \<lparr> al_state := snd (resume_processing (al_state lp)),
     al_acked := al_acked lp @ al_unacked lp, al_unacked := [] \<rparr>"

lemma running_acknowledged: "running sinv progress lp \<Longrightarrow> running sinv progress (acknowledged lp)"
  by (auto simp: running_def safe_def tx_ok_def tx_bound_def batch_ok_def batch_state_ok_def acknowledged_def
      resume_processing_def floor_lsn_def last_received_lsn_def cong: option.case_cong)

lemma confirmable_acknowledged:
  assumes run: "running sinv progress lp" and c: "last_opt (ends (al_unacked lp)) = Some c"
  shows "confirmable c (acknowledged lp)"
proof -
  have in_u: "c \<in> set (ends (al_unacked lp))" using last_opt_in [OF c] .
  have eq: "al_produced lp = al_acked lp @ al_unacked lp @ ls_batch (al_state lp)"
    and sorted: "sorted_wrt (<) (ends (al_produced lp))"
    and le: "\<forall>x \<in> set (ends (al_produced lp)). x \<le> last_received_lsn (al_state lp)"
    using run by (simp_all add: running_def safe_def)
  have "\<forall>x \<in> set (ends (ls_batch (al_state lp))). c < x"
    using sorted in_u by (simp add: eq sorted_wrt_append)
  moreover have "c \<le> last_received_lsn (al_state lp)" using le in_u by (simp add: eq)
  moreover have "c \<le> l" if "ls_remote_final (al_state lp) = Some l" for l
    using run in_u that by (auto simp: running_def tx_ok_def tx_bound_def eq)
  ultimately show ?thesis
    by (simp add: confirmable_def acknowledged_def resume_processing_def last_received_lsn_def)
qed

context pipeline_store
begin

abbreviation durable :: "worker_type \<Rightarrow> 's \<Rightarrow> lsn option" where
  "durable w \<equiv> \<lambda>s. progress_of s w"

lemma keeps_on_store:
  assumes f: "\<And>s r s'. inv s \<Longrightarrow> f s = (r, s') \<Longrightarrow> inv s' \<and> phase_of s' = phase_of s \<and> progress_of s' = progress_of s"
    and P: "steady inv (durable w) P" "\<And>lp. P lp \<Longrightarrow> safe inv (durable w) lp"
  shows "hoare P (on_store f) (\<lambda>_. P) (safe inv (durable w))"
  unfolding on_store_def
proof (rule hoare_on_shared [OF _ P])
  fix d
  show "keeps (shared_kept inv (durable w) d) (act_on sh_store (\<lambda>s sh. sh \<lparr> sh_store := s \<rparr>) (act_call f))"
    unfolding hoare_def
  proof (intro allI impI)
    fix sh r sh'
    assume kept: "shared_kept inv (durable w) d sh"
      and eq: "act_on sh_store (\<lambda>s sh. sh \<lparr> sh_store := s \<rparr>) (act_call f) sh = (r, sh')"
    obtain r' s' where s': "f (sh_store sh) = (r', s')" by (cases "f (sh_store sh)")
    then have "sh' = sh \<lparr> sh_store := s' \<rparr>" using eq by (simp add: act_on_def act_call_def)
    then have "shared_kept inv (durable w) d sh'" using f [OF _ s'] kept by (simp add: shared_kept_def)
    then show "case r of Inl _ \<Rightarrow> shared_kept inv (durable w) d sh' | Inr _ \<Rightarrow> shared_kept inv (durable w) d sh'"
      by (simp split: sum.split)
  qed
qed

lemma hoare_relation:
  assumes cfg: "lc_ops cfg = ops"
  shows "hoare (ready_for_row inv (durable w)) (handle_relation_message cfg s body)
     (handled inv (durable w)) (safe inv (durable w))"
  unfolding handle_relation_message_def Let_def
proof (rule hoare_in_transaction, rule hoare_bind [OF hoare_tx_ordinal])
  fix l n
  let ?P = "row_ready inv (durable w) l n"
  have same: "hoare ?P m (\<lambda>_. ?P) (safe inv (durable w))" if "\<And>lp. \<exists>r. m lp = (r, lp)" for m
    by (rule hoare_same_state [OF that row_ready_safe])
  have cache: "hoare ?P (on_cache f) (\<lambda>_. ?P) (safe inv (durable w))" for f
    by (rule keeps_on_cache) (auto intro: row_ready_safe)
  have store: "hoare ?P (on_store (so_get_schema (lc_ops cfg) t snap)) (\<lambda>_. ?P) (safe inv (durable w))" for t snap
    unfolding cfg by (rule keeps_on_store) (auto intro: row_ready_safe dest: get_schema_frame)
  show "hoare ?P
     (act_bind (should_apply_changes cfg (rb_rel_id body) l) (\<lambda>owned.
         if \<not> owned then act_return no_event
         else act_bind (act_try (parse_replicated_column_names body)) (\<lambda>replicated.
           act_bind (act_try (parse_replica_identity_column_names body)) (\<lambda>identity.
             act_bind (act_get (\<lambda>lp. cache_get (sh_cache (al_shared lp)) (rb_rel_id body))) (\<lambda>cached.
               act_bind (act_get (\<lambda>lp. case cached of
                   None \<Rightarrow> ls_bootstrap (al_state lp) | Some c \<Rightarrow> shared_snapshot_id c)) (\<lambda>snap.
                 act_bind (on_store (so_get_schema (lc_ops cfg) (rb_rel_id body) snap)) (\<lambda>found.
                   act_bind (act_try (check_schema_for_relation snap (cached = None) found)) (\<lambda>schema.
                     act_bind (schema_try (mask_try_build schema replicated)) (\<lambda>rm.
                       act_bind (schema_try (identity_try_build schema identity)) (\<lambda>im.
                         act_bind (on_cache (note_ready (rb_rel_id body) (from_masks schema rm im))) (\<lambda>_.
                           act_return (return_event (EvRelation
                             \<lparr> ep_start = s, ep_commit = l, ep_ordinal = n,
                               rel_schema = from_masks schema rm im \<rparr>)))))))))))))
     (handled inv (durable w)) (safe inv (durable w))"
    by (rule hoare_chain [OF same], simp)
      (auto intro!: hoare_row_skip hoare_chain_get hoare_chain [OF same] hoare_chain [OF store]
        hoare_chain [OF cache] hoare_row_done)
qed

lemma hoare_ddl:
  assumes cfg: "lc_ops cfg = ops"
  shows "hoare (ready_for_row inv (durable w)) (handle_message cfg s pre content)
     (handled inv (durable w)) (safe inv (durable w))"
proof -
  let ?P = "running inv (durable w)"
  have same: "hoare ?P m (\<lambda>_. ?P) (safe inv (durable w))" if "\<And>lp. \<exists>r. m lp = (r, lp)" for m
    by (rule hoare_same_state [OF that running_safe])
  have cache: "hoare ?P (on_cache f) (\<lambda>_. ?P) (safe inv (durable w))" for f
    by (rule keeps_on_cache) (auto intro: running_safe)
  have store: "hoare ?P (on_store (so_store_schema (lc_ops cfg) x)) (\<lambda>_. ?P) (safe inv (durable w))" for x
    unfolding cfg by (rule keeps_on_store) (auto intro: running_safe dest: store_schema_frame)
  have done_ddl: "hoare ?P (act_return no_event) (handled inv (durable w)) (safe inv (durable w))"
    by (rule hoare_return) simp
  have tx: "hoare ?P (in_transaction f) (handled inv (durable w)) (safe inv (durable w))"
    if "\<And>l. hoare ?P (f l) (handled inv (durable w)) (safe inv (durable w))" for f
    unfolding in_transaction_def
    by (rule hoare_chain_get) (auto intro: hoare_fail running_safe that split: option.split)
  have "hoare ?P (handle_message cfg s pre content) (handled inv (durable w)) (safe inv (durable w))"
    unfolding handle_message_def Let_def
    by (auto intro!: done_ddl tx hoare_chain [OF same] hoare_chain [OF store] hoare_chain [OF cache])
  then show ?thesis by (rule hoare_weaken) auto
qed

lemma hoare_after_commit:
  assumes cfg: "lc_ops cfg = ops" and waits: "waits_ok inv (durable w) (le_waits env)"
    and P: "steady inv (durable w) P" "\<And>lp. P lp \<Longrightarrow> safe inv (durable w) lp"
  shows "hoare P (process_syncing_tables_after_commit_event cfg env l) (\<lambda>_. P) (safe inv (durable w))"
proof -
  have "hoare P (case lc_worker cfg of
         Apply \<Rightarrow> on_shared (apply_after_commit (lc_ops cfg) (le_waits env) l)
       | TableSync own \<Rightarrow> act_get (\<lambda>lp. sync_after_commit own l (al_shared lp))) (\<lambda>_. P) (safe inv (durable w))"
    unfolding cfg by (cases "lc_worker cfg")
      (auto intro: hoare_get hoare_on_shared [OF keeps_after_commit P] waits)
  then show ?thesis
    unfolding process_syncing_tables_after_commit_event_def
    by (rule hoare_chain) (auto intro!: hoare_chain [OF hoare_st_steady] hoare_return P)
qed

lemma hoare_commit:
  assumes cfg: "lc_ops cfg = ops" and waits: "waits_ok inv (durable w) (le_waits env)"
    and less: "cb_commit_lsn body < cb_end_lsn body"
  shows "hoare (\<lambda>lp. ready_for_row inv (durable w) lp \<and> cb_end_lsn body \<le> last_received_lsn (al_state lp))
     (handle_commit_message cfg env s body) (handled inv (durable w)) (safe inv (durable w))"
  unfolding handle_commit_message_def Let_def
proof (rule hoare_bind)
  let ?l = "cb_commit_lsn body" and ?e = "cb_end_lsn body"
  show "hoare (\<lambda>lp. ready_for_row inv (durable w) lp \<and> ?e \<le> last_received_lsn (al_state lp))
     (st_take (\<lambda>st. (ls_remote_final st, st \<lparr> ls_remote_final := None \<rparr>)))
     (commit_taken inv (durable w) ?e) (safe inv (durable w))"
    by (rule hoare_st_take) (auto intro: commit_taken_start)
  let ?P = "committing inv (durable w) ?l ?e"
  have safe: "?P lp \<Longrightarrow> safe inv (durable w) lp" for lp by (simp add: running_def)
  have found: "hoare (commit_taken inv (durable w) ?e (Some ?l))
     (act_bind (st_modify (\<lambda>st. if ls_tx_begin_ts st \<noteq> None
          then st \<lparr> ls_tx_begin_ts := None, ls_tx_events := 0 \<rparr> else st)) (\<lambda>_.
       act_bind (process_syncing_tables_after_commit_event cfg env ?e) (\<lambda>b.
         act_bind (st_take next_tx_ordinal) (\<lambda>n. act_return \<lparr> hr_event = Some (EvCommit
             (parse_event_from_commit_message s ?l n body)), hr_end_lsn = Some ?e, hr_end_batch = b \<rparr>))))
     (handled inv (durable w)) (safe inv (durable w))"
  proof (rule hoare_weaken [where P' = ?P])
    show "hoare ?P (act_bind (st_modify (\<lambda>st. if ls_tx_begin_ts st \<noteq> None
          then st \<lparr> ls_tx_begin_ts := None, ls_tx_events := 0 \<rparr> else st)) (\<lambda>_.
       act_bind (process_syncing_tables_after_commit_event cfg env ?e) (\<lambda>b.
         act_bind (st_take next_tx_ordinal) (\<lambda>n. act_return \<lparr> hr_event = Some (EvCommit
             (parse_event_from_commit_message s ?l n body)), hr_end_lsn = Some ?e, hr_end_batch = b \<rparr>))))
     (handled inv (durable w)) (safe inv (durable w))"
      by (intro hoare_chain [OF hoare_st_steady] hoare_chain [OF hoare_after_commit [OF cfg waits]]
          hoare_commit_event [OF less]) (auto intro: safe)
  qed (use commit_taken_matches less in blast)+
  fix r
  show "hoare (commit_taken inv (durable w) ?e r) (case r of
         None \<Rightarrow> act_fail (etl_err InvalidState ''Invalid transaction state'')
       | Some remote_final \<Rightarrow> if ?l \<noteq> remote_final then act_fail (etl_err ValidationError ''Invalid commit LSN'')
           else act_bind (st_modify (\<lambda>st. if ls_tx_begin_ts st \<noteq> None
                then st \<lparr> ls_tx_begin_ts := None, ls_tx_events := 0 \<rparr> else st)) (\<lambda>_.
             act_bind (process_syncing_tables_after_commit_event cfg env ?e) (\<lambda>b.
               act_bind (st_take next_tx_ordinal) (\<lambda>n. act_return \<lparr> hr_event = Some (EvCommit
                 (parse_event_from_commit_message s ?l n body)), hr_end_lsn = Some ?e, hr_end_batch = b \<rparr>))))
     (handled inv (durable w)) (safe inv (durable w))"
    using found by (auto intro: hoare_fail simp: commit_taken_def split: option.split)
qed

lemma hoare_logical:
  assumes cfg: "lc_ops cfg = ops" and waits: "waits_ok inv (durable w) (le_waits env)"
  shows "hoare (\<lambda>lp. ready_for_row inv (durable w) lp \<and> logical_ok message lp)
     (handle_logical_replication_message cfg env s message) (handled inv (durable w)) (safe inv (durable w))"
proof -
  let ?P = "\<lambda>lp. ready_for_row inv (durable w) lp \<and> logical_ok message lp"
  have steady: "steady inv (durable w) ?P"
    by (cases message) (auto simp: steady_def view_def begin_ok_def floor_lsn_def last_received_lsn_def
        intro: steady_running [unfolded steady_def view_def, rule_format])
  have "hoare ?P (case message of
         LBegin b \<Rightarrow> handle_begin_message env s b
       | LCommit b \<Rightarrow> handle_commit_message cfg env s b
       | LRelation b \<Rightarrow> handle_relation_message cfg s b
       | LInsert b \<Rightarrow> handle_insert_message cfg s b
       | LUpdate b \<Rightarrow> handle_update_message cfg s b
       | LDelete b \<Rightarrow> handle_delete_message cfg s b
       | LTruncate b \<Rightarrow> handle_truncate_message cfg s b
       | LMessage pre content \<Rightarrow> handle_message cfg s pre content
       | _ \<Rightarrow> act_return no_event) (handled inv (durable w)) (safe inv (durable w))"
  proof (cases message)
    case (LCommit b)
    show ?thesis
    proof (cases "cb_commit_lsn b < cb_end_lsn b")
      case True
      show ?thesis unfolding LCommit by (simp, rule hoare_weaken [OF hoare_commit [OF cfg waits True]]) simp_all
    qed (simp add: LCommit hoare_def)
  qed (auto intro!: hoare_weaken [OF hoare_begin] hoare_weaken [OF hoare_relation [OF cfg]] hoare_weaken [OF hoare_ddl [OF cfg]]
      hoare_weaken [OF hoare_dml(1)] hoare_weaken [OF hoare_dml(2)] hoare_weaken [OF hoare_dml(3)]
      hoare_weaken [OF hoare_truncate] hoare_return)
  then show ?thesis
    unfolding handle_logical_replication_message_def
    by (intro hoare_chain [OF hoare_st_steady [OF _ steady]]) (auto intro: running_safe)
qed

lemma hoare_replication_message:
  assumes cfg: "lc_ops cfg = ops" and waits: "waits_ok inv (durable w) (le_waits env)"
  shows "hoare (\<lambda>lp. running inv (durable w) lp \<and> stream_ok message (al_state lp))
     (handle_replication_message cfg env message) (handled inv (durable w)) (safe inv (durable w))"
proof (cases message)
  case (XLogData s e m)
  show ?thesis
    unfolding handle_replication_message_def XLogData replication_message.case
  proof (rule hoare_bind [OF hoare_st_modify hoare_logical [OF cfg waits]])
    fix lp
    assume lp: "running inv (durable w) lp \<and> stream_ok (XLogData s e m) (al_state lp)"
    have "lp \<lparr> al_state := (al_state lp) \<lparr> ls_progress :=
        update_last_received_lsn e (update_last_received_lsn s (ls_progress (al_state lp))) \<rparr> \<rparr> = received e (received s lp)"
      by (simp add: received_def)
    moreover have "ls_next_ordinal (al_state lp) < - 1" using lp stream_ok_ordinal by blast
    ultimately show "ready_for_row inv (durable w) (lp \<lparr> al_state := (al_state lp) \<lparr> ls_progress :=
          update_last_received_lsn e (update_last_received_lsn s (ls_progress (al_state lp))) \<rparr> \<rparr>) \<and>
        logical_ok m (lp \<lparr> al_state := (al_state lp) \<lparr> ls_progress :=
          update_last_received_lsn e (update_last_received_lsn s (ls_progress (al_state lp))) \<rparr> \<rparr>)"
      using running_received [OF running_received, of inv "durable w" lp e s] logical_received [of inv "durable w" lp s e m] lp
      by simp
  qed
next
  case (PrimaryKeepAlive e reply)
  have raise: "hoare (running inv (durable w))
      (st_modify (\<lambda>st. st \<lparr> ls_progress := update_last_received_lsn e (ls_progress st) \<rparr>))
      (\<lambda>_. running inv (durable w)) (safe inv (durable w))"
    by (rule hoare_st_modify) (drule running_received [where l = e], simp add: received_def)
  have "hoare (running inv (durable w)) (handle_replication_message cfg env message)
      (handled inv (durable w)) (safe inv (durable w))"
    unfolding handle_replication_message_def PrimaryKeepAlive replication_message.case
    by (intro hoare_chain [OF raise] hoare_chain [OF hoare_send_effective] hoare_chain [OF hoare_st_steady] hoare_return)
      (auto intro: running_safe)
  then show ?thesis by (rule hoare_weaken) simp_all
qed (auto simp: handle_replication_message_def intro!: hoare_return)

lemma hoare_add_event:
  "hoare (\<lambda>lp. running inv (durable w) lp \<and> result_ok r lp) (case hr_event r of
       None \<Rightarrow> act_return ()
     | Some e \<Rightarrow> act_bind (add_event cfg e) (\<lambda>_.
         act_bind (st_modify (update_last_commit_end_lsn (hr_end_lsn r))) (\<lambda>_.
           st_modify (set_flush_deadline_if_needed (le_now env) (lc_max_fill cfg)))))
     (\<lambda>_. running inv (durable w)) E"
proof (cases "hr_event r")
  case (Some e)
  have "act_bind (add_event cfg e) (\<lambda>_. act_bind (st_modify (update_last_commit_end_lsn (hr_end_lsn r))) (\<lambda>_.
      st_modify (set_flush_deadline_if_needed (le_now env) (lc_max_fill cfg)))) lp =
      (Inr (), event_added cfg (le_now env) e (hr_end_lsn r) lp)" for lp
    by (simp add: add_event_def st_modify_def event_added_def)
  then show ?thesis
    unfolding hoare_def Some option.case using running_event_added Some by fastforce
qed (auto intro: hoare_return)

lemma hoare_message_and_flush:
  assumes cfg: "lc_ops cfg = ops" and waits: "waits_ok inv (durable w) (le_waits env)"
  shows "hoare (\<lambda>lp. running inv (durable w) lp \<and> stream_ok message (al_state lp))
     (handle_replication_message_and_flush cfg env message) (\<lambda>_. running inv (durable w)) (safe inv (durable w))"
  unfolding handle_replication_message_and_flush_def
  by (rule hoare_bind [OF hoare_replication_message [OF cfg waits] hoare_bind [OF hoare_add_event]],
      rule hoare_chain_get, rule hoare_when, rule hoare_flush_batch)

lemma hoare_confirm:
  assumes cfg: "lc_ops cfg = ops" "lc_worker cfg = w"
    and f: "\<And>d. hoare (running inv (durable w)) (f d) Q (safe inv (durable w))"
  shows "hoare (\<lambda>lp. running inv (durable w) lp \<and> confirmable c lp)
     (act_bind (on_store (so_upsert_progress (lc_ops cfg) (lc_worker cfg) c)) (\<lambda>d.
       act_bind (st_modify (\<lambda>st. st \<lparr> ls_progress := update_last_flush_lsn d (ls_progress st) \<rparr>)) (\<lambda>_. f d)))
     Q (safe inv (durable w))"
  unfolding hoare_def
proof (intro allI impI)
  fix lp r lp'
  assume pre: "running inv (durable w) lp \<and> confirmable c lp"
    and eq: "act_bind (on_store (so_upsert_progress (lc_ops cfg) (lc_worker cfg) c)) (\<lambda>d.
       act_bind (st_modify (\<lambda>st. st \<lparr> ls_progress := update_last_flush_lsn d (ls_progress st) \<rparr>)) (\<lambda>_. f d)) lp = (r, lp')"
  let ?s = "sh_store (al_shared lp)"
  obtain rl s' where u: "so_upsert_progress ops w c ?s = (rl, s')" by (cases "so_upsert_progress ops w c ?s")
  have s: "inv ?s" and old: "durable w ?s = Some d \<Longrightarrow> d \<le> rp_flush (ls_progress (al_state lp))" for d
    using pre by (auto simp: running_def safe_def)
  have stored: "on_store (so_upsert_progress (lc_ops cfg) (lc_worker cfg) c) lp =
      (failable rl, lp \<lparr> al_shared := (al_shared lp) \<lparr> sh_store := s' \<rparr> \<rparr>)"
    by (simp add: on_store_def on_shared_def act_on_def act_call_def cfg u)
  show "case r of Inl _ \<Rightarrow> safe inv (durable w) lp' | Inr x \<Rightarrow> Q x lp'"
  proof (cases rl)
    case (Inl e)
    then have "r = Inl (Failed e)" "lp' = lp \<lparr> al_shared := (al_shared lp) \<lparr> sh_store := s' \<rparr> \<rparr>"
      using eq stored by (simp_all add: act_bind_def)
    moreover have "progress_of s' = progress_of ?s" using upsert_progress [OF s u] Inl by simp
    ultimately show ?thesis
      using pre upsert_inv [OF s u] by (simp add: running_def safe_def floor_lsn_def last_received_lsn_def)
  next
    case (Inr d)
    have d: "progress_of s' w = Some d" "d = (case durable w ?s of None \<Rightarrow> c | Some old \<Rightarrow> max old c)"
      using upsert_progress [OF s u] Inr by simp_all
    have "d \<le> max (rp_flush (ls_progress (al_state lp))) c"
      using d(2) old by (cases "durable w ?s") (auto simp: le_max_iff_disj)
    then have "running inv (durable w) (confirmed d s' lp)"
      using pre upsert_inv [OF s u] d(1) by (intro running_confirmed) auto
    moreover have "f d (confirmed d s' lp) = (r, lp')"
      using eq stored Inr by (simp add: act_bind_def st_modify_def confirmed_def)
    ultimately show ?thesis using hoareD [OF f] by (cases r) auto
  qed
qed

lemma hoare_after_flush:
  assumes cfg: "lc_ops cfg = ops" "lc_worker cfg = w"
  shows "hoare (\<lambda>lp. running inv (durable w) lp \<and> confirmable c lp) (process_syncing_tables_after_flush cfg c)
     (\<lambda>_. running inv (durable w)) (safe inv (durable w))"
proof -
  let ?P = "running inv (durable w)"
  have flush: "hoare ?P (on_shared (apply_after_flush ops l)) (\<lambda>_. ?P) (safe inv (durable w))" for l
    by (rule hoare_on_shared [OF keeps_after_flush]) (auto intro: running_safe)
  have complete: "hoare ?P (on_shared (try_complete_catchup ops own l)) (\<lambda>_. ?P) (safe inv (durable w))" for own l
    by (rule hoare_on_shared [OF keeps_try_complete]) (auto intro: running_safe)
  have "hoare ?P (case lc_worker cfg of
               Apply \<Rightarrow> act_bind (on_shared (apply_after_flush (lc_ops cfg) l)) (\<lambda>_. act_return None)
             | TableSync own \<Rightarrow> on_shared (try_complete_catchup (lc_ops cfg) own l)) (\<lambda>_. ?P) (safe inv (durable w))" for l
    unfolding cfg(1) by (cases "lc_worker cfg") (auto intro: hoare_chain [OF flush] hoare_return complete)
  then show ?thesis
    unfolding process_syncing_tables_after_flush_def
    by (intro hoare_confirm [OF cfg] hoare_chain_get) (auto intro!: hoare_chain hoare_st_steady intro: running_safe)
qed

lemma hoare_flush_result:
  assumes cfg: "lc_ops cfg = ops" "lc_worker cfg = w"
  shows "hoare (\<lambda>lp. running inv (durable w) lp \<and> flush_ready (al_state lp) = Some c) (handle_flush_result cfg env c)
     (\<lambda>_. running inv (durable w)) (safe inv (durable w))"
  unfolding hoare_def
proof (intro allI impI)
  fix lp r lp'
  assume pre: "running inv (durable w) lp \<and> flush_ready (al_state lp) = Some c"
    and eq: "handle_flush_result cfg env c lp = (r, lp')"
  obtain m res where c: "c = (m, res)" by (cases c)
  obtain a where a: "ls_pending_flush (al_state lp) = Some a" "m = ar_metadata a"
    using pre c by (auto simp: flush_ready_def dest: async_poll_metadata split: option.splits)
  obtain m' where m: "m = Some m'" "fm_commit_end m' = last_opt (ends (al_unacked lp))"
    using pre a by (auto simp: running_def batch_ok_def batch_state_ok_def)
  show "case r of Inl _ \<Rightarrow> safe inv (durable w) lp' | Inr x \<Rightarrow> running inv (durable w) lp'"
  proof (cases res)
    case (Inl e)
    then have "r = Inl (Failed e)" "lp' = lp \<lparr> al_state := snd (resume_processing (al_state lp)) \<rparr>"
      using eq c by (simp_all add: handle_flush_result_def act_bind_def st_take_def act_try_def failable_def
          resume_processing_def)
    then show ?thesis
      using pre by (simp add: running_def safe_def floor_lsn_def last_received_lsn_def resume_processing_def)
  next
    case (Inr u)
    let ?rest = "act_bind (case fm_commit_end m' of None \<Rightarrow> act_return ()
        | Some l \<Rightarrow> process_syncing_tables_after_flush cfg l) (\<lambda>_. act_when (ls_paused (al_state lp)) (flush_batch env))"
    have "?rest (acknowledged lp) = (r, lp')"
      using eq c Inr m(1) by (simp add: handle_flush_result_def act_bind_def st_take_def act_try_def failable_def
          resume_processing_def acknowledge_def acknowledged_def)
    moreover have "hoare (\<lambda>lp'. lp' = acknowledged lp) ?rest (\<lambda>_. running inv (durable w)) (safe inv (durable w))"
    proof (rule hoare_bind)
      show "hoare (\<lambda>lp'. lp' = acknowledged lp) (case fm_commit_end m' of None \<Rightarrow> act_return ()
        | Some l \<Rightarrow> process_syncing_tables_after_flush cfg l) (\<lambda>_. running inv (durable w)) (safe inv (durable w))"
        using pre running_acknowledged confirmable_acknowledged m(2)
        by (auto intro!: hoare_return hoare_weaken [OF hoare_after_flush [OF cfg]] split: option.split)
      show "hoare (running inv (durable w)) (act_when b (flush_batch env)) (\<lambda>_. running inv (durable w))
          (safe inv (durable w))" for b
        by (rule hoare_when [OF hoare_flush_batch])
    qed
    ultimately show ?thesis by (cases r) (auto dest: hoareD)
  qed
qed

lemma hoare_idle:
  assumes cfg: "lc_ops cfg = ops" and waits: "waits_ok inv (durable w) waits"
    and P: "steady inv (durable w) P" "\<And>lp. P lp \<Longrightarrow> safe inv (durable w) lp"
  shows "hoare P (maybe_process_syncing_tables_when_idle cfg waits) (\<lambda>_. P) (safe inv (durable w))"
proof -
  have "hoare P (case lc_worker cfg of
             Apply \<Rightarrow> on_shared (apply_when_idle (lc_ops cfg) waits l)
           | TableSync own \<Rightarrow> on_shared (try_complete_catchup (lc_ops cfg) own l)) (\<lambda>_. P) (safe inv (durable w))" for l
    unfolding cfg by (cases "lc_worker cfg")
      (auto intro: hoare_on_shared [OF keeps_when_idle [OF waits] P] hoare_on_shared [OF keeps_try_complete P])
  then show ?thesis
    unfolding maybe_process_syncing_tables_when_idle_def process_syncing_tables_when_idle_def Let_def
    by (auto intro!: hoare_chain_get hoare_return hoare_chain [where m = "case _ of _ \<Rightarrow> _"] hoare_st_steady [OF _ P])
qed

lemma hoare_shutdown:
  "hoare (running inv (durable w)) (initiate_graceful_shutdown cfg env) (\<lambda>_. running inv (durable w)) (safe inv (durable w))"
  "hoare (running inv (durable w)) (handle_shutdown_signal cfg env) (\<lambda>_. running inv (durable w)) (safe inv (durable w))"
proof -
  have mod: "hoare (running inv (durable w)) (st_modify f) (\<lambda>_. running inv (durable w)) (safe inv (durable w))"
    if "\<And>st. view (f st) = view st" for f
    by (rule hoare_st_steady [OF that]) (auto intro: running_safe)
  show init: "hoare (running inv (durable w)) (initiate_graceful_shutdown cfg env) (\<lambda>_. running inv (durable w))
      (safe inv (durable w))"
    unfolding initiate_graceful_shutdown_def by (intro hoare_chain [OF hoare_send_effective] mod) simp
  show "hoare (running inv (durable w)) (handle_shutdown_signal cfg env) (\<lambda>_. running inv (durable w))
      (safe inv (durable w))"
    unfolding handle_shutdown_signal_def
    by (auto intro!: hoare_chain_get hoare_return hoare_chain [OF mod] mod init)
qed

lemma hoare_keep_alive:
  "hoare (running inv (durable w)) (send_periodic_keep_alive cfg env) (\<lambda>_. running inv (durable w)) (safe inv (durable w))"
  unfolding send_periodic_keep_alive_def
  by (rule hoare_chain [OF hoare_send_effective], rule hoare_st_steady) (auto intro: running_safe)

lemma hoare_branch:
  assumes cfg: "lc_ops cfg = ops" "lc_worker cfg = w" and waits: "waits_ok inv (durable w) (le_waits env)"
  shows "hoare (\<lambda>lp. running inv (durable w) lp \<and> env_ok inv (durable w) env lp \<and> branch_ok b env (al_state lp))
     (handle_branch cfg env b) (\<lambda>_. running inv (durable w)) (safe inv (durable w))"
proof (cases b)
  case (BrMessage m)
  show ?thesis
  proof (cases m)
    case None
    then show ?thesis by (auto simp: BrMessage handle_stream_message_def intro!: hoare_fail running_safe)
  next
    case (Some r)
    have "hoare (\<lambda>lp. running inv (durable w) lp \<and> env_ok inv (durable w) env lp \<and> le_message env = Some (Some r))
       (act_try r) (\<lambda>x lp. running inv (durable w) lp \<and> stream_ok x (al_state lp)) (safe inv (durable w))"
      by (rule hoare_try) (auto simp: env_ok_def intro: running_safe)
    then show ?thesis
      by (simp add: BrMessage Some handle_stream_message_def)
        (rule hoare_bind [OF _ hoare_message_and_flush [OF cfg(1) waits]])
  qed
qed (auto intro!: hoare_weaken [OF hoare_shutdown(2)] hoare_weaken [OF hoare_flush_result [OF cfg]]
    hoare_weaken [OF hoare_flush_batch] hoare_weaken [OF hoare_keep_alive] hoare_try intro: running_safe)

lemma hoare_blocked: "(\<And>lp. P lp \<Longrightarrow> E lp) \<Longrightarrow> hoare P blocked Q E"
  by (auto simp: hoare_def blocked_def)

lemma hoare_selected:
  assumes cfg: "lc_ops cfg = ops" "lc_worker cfg = w" and env: "env_ok inv (durable w) env lp0"
    and sel: "\<And>st b. select st = Some b \<Longrightarrow> branch_ok b env st"
    and rest: "hoare (running inv (durable w)) rest (finished inv (durable w)) (safe inv (durable w))"
  shows "hoare (\<lambda>lp. running inv (durable w) lp \<and> env_ok inv (durable w) env lp)
     (act_bind (act_get (\<lambda>lp. select (al_state lp))) (\<lambda>br. case br of
         None \<Rightarrow> blocked
       | Some b \<Rightarrow> act_bind (handle_branch cfg env b) (\<lambda>_.
           act_bind (maybe_process_syncing_tables_when_idle cfg (le_waits_after env)) (\<lambda>_. rest))))
     (finished inv (durable w)) (safe inv (durable w))"
proof (rule hoare_bind_get)
  fix br
  have waits: "waits_ok inv (durable w) (le_waits env)" "waits_ok inv (durable w) (le_waits_after env)"
    using env by (simp_all add: env_ok_def)
  have idle: "hoare (running inv (durable w)) (maybe_process_syncing_tables_when_idle cfg (le_waits_after env))
      (\<lambda>_. running inv (durable w)) (safe inv (durable w))"
    by (rule hoare_idle [OF cfg(1) waits(2)]) (auto intro: running_safe)
  have "hoare (\<lambda>lp. (running inv (durable w) lp \<and> env_ok inv (durable w) env lp) \<and> select (al_state lp) = Some b)
      (act_bind (handle_branch cfg env b) (\<lambda>_.
           act_bind (maybe_process_syncing_tables_when_idle cfg (le_waits_after env)) (\<lambda>_. rest)))
      (finished inv (durable w)) (safe inv (durable w))" for b
    by (rule hoare_bind [OF hoare_weaken [OF hoare_branch [OF cfg waits(1)]] hoare_chain [OF idle rest]])
      (auto intro: sel)
  then show "hoare (\<lambda>lp. (running inv (durable w) lp \<and> env_ok inv (durable w) env lp) \<and> select (al_state lp) = br)
     (case br of
         None \<Rightarrow> blocked
       | Some b \<Rightarrow> act_bind (handle_branch cfg env b) (\<lambda>_.
           act_bind (maybe_process_syncing_tables_when_idle cfg (le_waits_after env)) (\<lambda>_. rest)))
     (finished inv (durable w)) (safe inv (durable w))"
    by (cases br) (auto intro: hoare_blocked running_safe)
qed

lemma hoare_drained:
  assumes m: "hoare (\<lambda>lp. running inv (durable w) lp \<and> R lp) m (finished inv (durable w)) (safe inv (durable w))"
  shows "hoare (\<lambda>lp. running inv (durable w) lp \<and> R lp) (finish_if_drained cfg env m)
     (finished inv (durable w)) (safe inv (durable w))"
  unfolding finish_if_drained_def
proof (rule hoare_bind_get)
  fix unresolved
  have "hoare (\<lambda>lp. running inv (durable w) lp \<and> \<not> has_unresolved_batch_work (al_state lp))
      (act_bind (initiate_graceful_shutdown cfg env) (\<lambda>_. act_get (\<lambda>lp. Some (finish_shutdown (al_state lp)))))
      (finished inv (durable w)) (safe inv (durable w))"
    by (rule hoare_bind [OF hoare_conj [OF hoare_shutdown(1) resolved_shutdown]], rule hoare_get)
      (simp add: finished_def)
  then show "hoare (\<lambda>lp. (running inv (durable w) lp \<and> R lp) \<and> has_unresolved_batch_work (al_state lp) = unresolved)
      (if unresolved then m else act_bind (initiate_graceful_shutdown cfg env)
         (\<lambda>_. act_get (\<lambda>lp. Some (finish_shutdown (al_state lp)))))
      (finished inv (durable w)) (safe inv (durable w))"
    using m by (cases unresolved) (auto elim: hoare_weaken)
qed

lemma hoare_finish_active:
  "hoare (running inv (durable w)) (act_get (\<lambda>lp. try_finish_active_iteration (al_state lp)))
     (finished inv (durable w)) (safe inv (durable w))"
  by (rule hoare_get) (simp add: finished_active)

lemma hoare_iteration:
  assumes cfg: "lc_ops cfg = ops" "lc_worker cfg = w" and env: "env_ok inv (durable w) env lp0"
  shows "hoare (\<lambda>lp. running inv (durable w) lp \<and> env_ok inv (durable w) env lp) (run_iteration cfg env)
     (finished inv (durable w)) (safe inv (durable w))"
proof -
  let ?P = "\<lambda>lp. running inv (durable w) lp \<and> env_ok inv (durable w) env lp"
  have before: "hoare ?P (maybe_process_syncing_tables_when_idle cfg (le_waits_before env)) (\<lambda>_. ?P) (safe inv (durable w))"
    by (rule hoare_idle [OF cfg(1)]) (use env in \<open>auto simp: env_ok_def [of _ _ _ lp0] intro: running_safe\<close>)
  have selected: "hoare ?P (act_bind (act_get (\<lambda>lp. select_active env (al_state lp))) (\<lambda>br. case br of
             None \<Rightarrow> blocked
           | Some b \<Rightarrow> act_bind (handle_branch cfg env b) (\<lambda>_.
               act_bind (maybe_process_syncing_tables_when_idle cfg (le_waits_after env)) (\<lambda>_.
                 act_get (\<lambda>lp. try_finish_active_iteration (al_state lp))))))
      (finished inv (durable w)) (safe inv (durable w))"
    by (rule hoare_selected [OF cfg env selected_ok(1) hoare_finish_active])
  have "hoare ?P (run_active_iteration cfg env) (finished inv (durable w)) (safe inv (durable w))"
    unfolding run_active_iteration_def
  proof (rule hoare_chain [OF before], rule hoare_bind_get)
    fix fin
    show "hoare (\<lambda>lp. ?P lp \<and> try_finish_active_iteration (al_state lp) = fin)
        (if fin \<noteq> None then act_return fin
         else act_bind (act_get (\<lambda>lp. select_active env (al_state lp))) (\<lambda>br. case br of
             None \<Rightarrow> blocked
           | Some b \<Rightarrow> act_bind (handle_branch cfg env b) (\<lambda>_.
               act_bind (maybe_process_syncing_tables_when_idle cfg (le_waits_after env)) (\<lambda>_.
                 act_get (\<lambda>lp. try_finish_active_iteration (al_state lp))))))
        (finished inv (durable w)) (safe inv (durable w))"
      by (cases fin) (auto intro!: hoare_weaken [OF selected] hoare_return finished_active)
  qed
  moreover have "hoare ?P (run_draining_shutdown_iteration cfg env) (finished inv (durable w)) (safe inv (durable w))"
    unfolding run_draining_shutdown_iteration_def
    by (rule hoare_drained, rule hoare_selected [OF cfg env selected_ok(2)])
      (auto intro!: hoare_drained [where R = "\<lambda>_. True", simplified] hoare_return simp: finished_def)
  ultimately show ?thesis
    unfolding hoare_def run_iteration_def by (auto split: shutdown_state.split)
qed

end

end
