(* ===== verification/Apply_Runs.thy ===== *)
theory Apply_Runs
  imports Apply_Iterations Memory_Store Postgres_Store
begin

text \<open>
  Runs of the apply loop. Between two iterations the destination may complete or drop the
  handle of the batch in flight, the other workers may change the shared state, and the
  cleanup task may run. The properties of the loop hold in every state of every run, on
  the Postgres store and on the memory store.
\<close>

section \<open>Runs\<close>

text \<open>The destination uses the handle of the batch in flight, if there is one.\<close>

definition with_handle ::
    "((unit, flush_metadata) async_result \<Rightarrow> (unit, flush_metadata) async_result) \<Rightarrow> 's apply_loop \<Rightarrow> 's apply_loop" where
  "with_handle f lp = lp \<lparr> al_state := (al_state lp) \<lparr> ls_pending_flush := map_option f (ls_pending_flush (al_state lp)) \<rparr> \<rparr>"

inductive loop_reach ::
    "'s loop_config \<Rightarrow> ('s \<Rightarrow> bool) \<Rightarrow> ('s \<Rightarrow> lsn option) \<Rightarrow> 's apply_loop \<Rightarrow> 's apply_loop \<Rightarrow> bool"
  for cfg sinv progress start where
  reach_start: "loop_reach cfg sinv progress start start"
| reach_iterate: "loop_reach cfg sinv progress start lp \<Longrightarrow> env_ok sinv progress env lp \<Longrightarrow>
    run_iteration cfg env lp = (Inr None, lp') \<Longrightarrow> loop_reach cfg sinv progress start lp'"
| reach_complete: "loop_reach cfg sinv progress start lp \<Longrightarrow>
    loop_reach cfg sinv progress start (with_handle (async_send r) lp)"
| reach_drop: "loop_reach cfg sinv progress start lp \<Longrightarrow>
    loop_reach cfg sinv progress start (with_handle async_drop lp)"
| reach_others: "loop_reach cfg sinv progress start lp \<Longrightarrow> sinv (sh_store sh) \<Longrightarrow>
    progress (sh_store sh) = progress (sh_store (al_shared lp)) \<Longrightarrow>
    loop_reach cfg sinv progress start (lp \<lparr> al_shared := sh \<rparr>)"
| reach_cleanup: "loop_reach cfg sinv progress start lp \<Longrightarrow>
    loop_reach cfg sinv progress start (run_schema_cleanup_task cfg now lp)"

text \<open>The states a run passes through, including the state in which an iteration stops it.\<close>

definition loop_state ::
    "'s loop_config \<Rightarrow> ('s \<Rightarrow> bool) \<Rightarrow> ('s \<Rightarrow> lsn option) \<Rightarrow> 's apply_loop \<Rightarrow> 's apply_loop \<Rightarrow> bool" where
  "loop_state cfg sinv progress start lp \<longleftrightarrow> loop_reach cfg sinv progress start lp \<or>
     (\<exists>lp0 env r. loop_reach cfg sinv progress start lp0 \<and> env_ok sinv progress env lp0 \<and>
        run_iteration cfg env lp0 = (r, lp))"

lemma running_with_handle:
  assumes "running sinv progress lp" "\<And>a. ar_metadata (f a) = ar_metadata a"
  shows "running sinv progress (with_handle f lp)"
  using assms by (cases "ls_pending_flush (al_state lp)")
    (auto simp: with_handle_def running_def safe_def tx_ok_def tx_bound_def batch_ok_def batch_state_ok_def
      floor_lsn_def last_received_lsn_def cong: option.case_cong)

context pipeline_store
begin

lemma running_cleanup:
  assumes cfg: "lc_ops cfg = ops" and run: "running inv (durable w) lp"
  shows "running inv (durable w) (run_schema_cleanup_task cfg now lp)"
proof (cases "ls_cleanup_task (al_state lp)")
  case (Some retentions)
  let ?s = "sh_store (al_shared lp)"
  obtain r s' where s': "so_prune_schemas ops (map_of retentions) ?s = (r, s')"
    by (cases "so_prune_schemas ops (map_of retentions) ?s")
  have "inv ?s" using run by (simp add: running_def safe_def)
  then have "inv s'" "progress_of s' = progress_of ?s" using prune_frame s' by blast+
  then have "running inv (durable w) (lp \<lparr> al_state := finish_cleanup_run now (al_state lp),
      al_shared := (al_shared lp) \<lparr> sh_store := s' \<rparr> \<rparr>)"
    by (intro steadyD [OF steady_running run]) simp_all
  moreover have "run_schema_cleanup_task cfg now lp = lp \<lparr> al_state := finish_cleanup_run now (al_state lp),
      al_shared := (al_shared lp) \<lparr> sh_store := s' \<rparr> \<rparr>"
    by (rule apply_loop.equality) (simp_all add: run_schema_cleanup_task_def Some cfg s')
  ultimately show ?thesis by simp
qed (use run in \<open>simp add: run_schema_cleanup_task_def\<close>)

lemma reach_running:
  assumes "loop_reach cfg inv (durable w) start lp" and cfg: "lc_ops cfg = ops" "lc_worker cfg = w"
    and start: "running inv (durable w) start"
  shows "running inv (durable w) lp"
  using assms(1)
proof induction
  case (reach_iterate lp env lp')
  then show ?case using hoareD(1) [OF hoare_iteration [OF cfg, of env lp]] by (simp add: finished_def)
next
  case (reach_others lp sh)
  have "running inv (durable w) (lp \<lparr> al_state := al_state lp, al_shared := sh \<rparr>)"
    by (rule steadyD [OF steady_running reach_others.IH]) (simp_all add: reach_others.hyps)
  then show ?case by simp
qed (auto intro: start running_with_handle running_cleanup [OF cfg(1)])

lemma state_safe:
  assumes st: "loop_state cfg inv (durable w) start lp" and cfg: "lc_ops cfg = ops" "lc_worker cfg = w"
    and start: "running inv (durable w) start"
  shows "safe inv (durable w) lp"
proof (cases "loop_reach cfg inv (durable w) start lp")
  case True
  then show ?thesis using reach_running cfg start running_safe by blast
next
  case False
  then obtain lp0 env r where run: "loop_reach cfg inv (durable w) start lp0" "env_ok inv (durable w) env lp0"
      "run_iteration cfg env lp0 = (r, lp)" using st unfolding loop_state_def by blast
  have "running inv (durable w) lp0" using reach_running run(1) cfg start by blast
  then show ?thesis
    using hoareD [OF hoare_iteration [OF cfg run(2)], of lp0] run by (cases r) (auto simp: finished_def running_def)
qed

lemma reach_batch_ok:
  assumes "loop_reach cfg inv (durable w) (start_loop cfg now start_lsn slot sh) lp"
    "lc_ops cfg = ops" "lc_worker cfg = w" "inv (sh_store sh)"
    "\<And>d. progress_of (sh_store sh) w = Some d \<Longrightarrow> d \<le> start_lsn"
  shows "batch_ok lp"
proof -
  have "running inv (durable w) lp"
    by (rule reach_running [OF assms(1-3) safe_start]) (use assms(4,5) in auto)
  then show ?thesis by (simp add: running_def)
qed

lemma run_finished:
  assumes "loop_reach cfg inv (durable w) (start_loop cfg now start_lsn slot sh) lp"
    "lc_ops cfg = ops" "lc_worker cfg = w" "inv (sh_store sh)"
    "\<And>d. progress_of (sh_store sh) w = Some d \<Longrightarrow> d \<le> start_lsn"
    "env_ok inv (durable w) env lp" "run_iteration cfg env lp = (Inr r, lp')"
  shows "finished inv (durable w) r lp'"
proof -
  have "running inv (durable w) lp"
    by (rule reach_running [OF assms(1-3) safe_start]) (use assms(4,5) in auto)
  then show ?thesis
    using hoareD(1) [OF hoare_iteration [OF assms(2,3,6)]] assms(6,7) by blast
qed

lemma run_started:
  assumes "loop_state cfg inv (durable w) (start_loop cfg now start_lsn slot sh) lp"
    "lc_ops cfg = ops" "lc_worker cfg = w" "inv (sh_store sh)"
    "\<And>d. progress_of (sh_store sh) w = Some d \<Longrightarrow> d \<le> start_lsn"
  shows "safe inv (durable w) lp"
  by (rule state_safe [OF assms(1-3) safe_start]) (use assms(4,5) in auto)

end

section \<open>What the invariants give\<close>

lemma filter_map_set: "set (filter_map f xs) = {y. \<exists>x \<in> set xs. f x = Some y}"
  by (induction xs) (auto split: option.split)

lemma sent_le_last:
  assumes "sent_ok es" "u \<in> set (es_sent es)"
  shows "\<exists>f. es_last_flush es = Some f \<and> su_flush u \<le> f"
  using assms by (cases "es_sent es") (auto simp: sent_ok_def)

lemma confirmed_only_acknowledged:
  assumes safe: "safe sinv progress lp"
  shows "\<exists>rest. al_produced lp = al_acked lp @ rest \<and>
     (\<forall>e x. e \<in> set rest \<longrightarrow> commit_end_of e = Some x \<longrightarrow>
        rp_flush (ls_progress (al_state lp)) < x \<and>
        (\<forall>d. progress (sh_store (al_shared lp)) = Some d \<longrightarrow> d < x) \<and>
        (\<forall>u \<in> set (es_sent (al_stream lp)). su_flush u < x))"
proof (intro exI conjI allI impI ballI)
  let ?rest = "al_unacked lp @ ls_batch (al_state lp)"
  show "al_produced lp = al_acked lp @ ?rest" using safe by (simp add: safe_def)
  fix e x
  assume "e \<in> set ?rest" "commit_end_of e = Some x"
  then have "x \<in> set (ends ?rest)" unfolding ends_def filter_map_set by blast
  then have x: "floor_lsn lp < x" using safe by (auto simp: safe_def)
  then show flush: "rp_flush (ls_progress (al_state lp)) < x" by (simp add: floor_lsn_def)
  show "d < x" if "progress (sh_store (al_shared lp)) = Some d" for d
    using safe that flush by (auto simp: safe_def)
  fix u
  assume "u \<in> set (es_sent (al_stream lp))"
  moreover have "sent_ok (al_stream lp)" using safe by (simp add: safe_def)
  ultimately obtain f where "es_last_flush (al_stream lp) = Some f" "su_flush u \<le> f" using sent_le_last by blast
  then show "su_flush u < x" using x by (auto simp: floor_lsn_def)
qed

lemma sorted_keys_distinct: "sorted_wrt key_less ks \<Longrightarrow> distinct ks"
  by (induction ks) (auto simp: key_less_def)

lemma finished_complete:
  assumes "finished sinv progress (Some r) lp"
  shows "al_acked lp = al_produced lp \<and> ls_batch (al_state lp) = [] \<and> ls_pending_flush (al_state lp) = None"
proof -
  have "ls_batch (al_state lp) = []" "ls_pending_flush (al_state lp) = None" "batch_ok lp" "safe sinv progress lp"
    using assms by (auto simp: finished_def running_def has_unresolved_batch_work_def has_pending_batch_def
        has_pending_flush_result_def)
  moreover from this have "al_unacked lp = []" by (simp add: batch_ok_def batch_state_ok_def)
  ultimately show ?thesis by (auto simp: safe_def)
qed

text \<open>The branches that move a batch on.\<close>

definition moves_batch :: "branch \<Rightarrow> bool" where
  "moves_batch b \<longleftrightarrow> b = BrFlushDeadline \<or> (\<exists>c. b = BrFlushResult c)"

lemma batch_not_stuck:
  assumes ok: "batch_ok lp" and work: "has_unresolved_batch_work (al_state lp)"
  shows "(\<exists>a. ls_pending_flush (al_state lp) = Some a \<and> fst (async_poll a) = None) \<or>
     (\<exists>d. \<forall>env. le_connection env = None \<longrightarrow> d \<le> le_now env \<longrightarrow>
        (\<exists>b. select_draining env (al_state lp) = Some b \<and> moves_batch b))"
proof (cases "flush_ready (al_state lp)")
  case (Some c)
  then show ?thesis by (simp add: select_draining_def moves_batch_def)
next
  case None
  show ?thesis
  proof (cases "ls_pending_flush (al_state lp)")
    case (Some a)
    then show ?thesis using None by (simp add: flush_ready_def)
  next
    case no_flush: None
    then have "has_pending_batch (al_state lp)" using work
      by (simp add: has_unresolved_batch_work_def has_pending_flush_result_def)
    moreover from this obtain d where "ls_flush_deadline (al_state lp) = Some d" "\<not> ls_paused (al_state lp)"
      using ok no_flush by (auto simp: batch_ok_def batch_state_ok_def has_pending_batch_def)
    ultimately show ?thesis
      using None by (auto simp: select_draining_def flush_deadline_ready_def can_wait_for_deadline_def moves_batch_def)
  qed
qed

section \<open>An example\<close>

text \<open>
  One empty transaction on an apply worker: begin, commit, a flush by deadline, the answer of
  the destination, and the handling of that answer.
\<close>

definition example_config :: "'s store_ops \<Rightarrow> 's loop_config" where
  "example_config ops = \<lparr> lc_ops = ops, lc_worker = Apply, lc_max_fill = 10, lc_keep_alive = 1000,
     lc_size_hint = (\<lambda>_. 1), lc_parsers = sample_parsers, lc_type_of_oid = (\<lambda>_. None),
     lc_parse_ddl = (\<lambda>_. Inl (etl_err ConversionError [])) \<rparr>"

definition example_env :: "instant \<Rightarrow> replication_message option \<Rightarrow> 's loop_env" where
  "example_env now m = \<lparr> le_now = now, le_shutdown = False, le_connection = None,
     le_message = map_option (Some \<circ> Inr) m, le_closed = False, le_net = Inr (), le_write = Inr (), le_budget = 100,
     le_cleanup_joined = None, le_waits = (\<lambda>_ _. []), le_waits_before = (\<lambda>_ _. []), le_waits_after = (\<lambda>_ _. []) \<rparr>"

definition example_begin :: replication_message where
  "example_begin = XLogData 10 10 (LBegin \<lparr> bb_final_lsn = 20, bb_timestamp = 0, bb_xid = 1 \<rparr>)"

definition example_commit :: replication_message where
  "example_commit = XLogData 20 30 (LCommit \<lparr> cb_flags = 0, cb_commit_lsn = 20, cb_end_lsn = 30, cb_timestamp = 0 \<rparr>)"

lemmas iteration_defs = run_iteration_def run_active_iteration_def maybe_process_syncing_tables_when_idle_def
  process_syncing_tables_when_idle_def try_finish_active_iteration_def select_active_def flush_ready_def
  flush_deadline_ready_def can_wait_for_deadline_def can_process_messages_def is_idle_def handling_transaction_def
  has_unresolved_batch_work_def has_pending_batch_def has_pending_flush_result_def is_requested_def exit_result_def
  effective_flush_lsn_def last_received_lsn_def

lemmas handler_defs = handle_stream_message_def handle_replication_message_and_flush_def handle_replication_message_def
  handle_logical_replication_message_def handle_begin_message_def handle_commit_message_def
  process_syncing_tables_after_commit_event_def process_syncing_tables_after_flush_def flush_batch_def handle_flush_result_def
  write_events_def take_events_batch_def reset_flush_deadline_def add_event_def acknowledge_def resume_processing_def
  add_event_to_batch_def update_last_commit_end_lsn_def set_flush_deadline_if_needed_def
  update_last_received_lsn_def update_last_flush_lsn_def reset_tx_ordinal_def next_tx_ordinal_def checked_add_def
  record_exit_intent_def return_event_def no_event_def

lemmas action_defs = act_bind_def act_stop st_modify_def st_take_def on_shared_def act_on_def act_call_def on_store_def
  act_try_def failable_def act_when_def

lemma no_syncing_tables:
  assumes "so_get_states ops (sh_store sh) = Inr []"
  shows "apply_when_idle ops waits l sh = (Inr None, sh)" "apply_after_commit ops waits l sh = (Inr None, sh)"
    "apply_after_flush ops l sh = (Inr (), sh)"
  using assms by (simp_all add: apply_when_idle_def apply_after_commit_def apply_after_flush_def get_syncing_tables_def
      act_bind_def act_try_def act_stop)

lemmas example_defs = example_config_def example_env_def start_loop_def ls_new_def saturating_add_def
  parse_event_from_begin_message_def parse_event_from_commit_message_def word_le_nat_alt

definition example_events :: "event list" where
  "example_events = [
     EvBegin \<lparr> ep_start = 10, ep_commit = 20, ep_ordinal = 0, be_timestamp = 0, be_xid = 1 \<rparr>,
     EvCommit \<lparr> ep_start = 20, ep_commit = 20, ep_ordinal = 1, ce_flags = 0, ce_end = 30, ce_timestamp = 0 \<rparr>]"

definition example_begun :: "'s store_ops \<Rightarrow> 's shared \<Rightarrow> 's apply_loop" where
  "example_begun ops sh = (let lp = start_loop (example_config ops) 0 10 [] sh in
     lp \<lparr> al_state := (al_state lp) \<lparr> ls_remote_final := Some 20, ls_batch := take 1 example_events, ls_batch_bytes := 1,
            ls_tx_begin_ts := Some 1, ls_next_ordinal := 1, ls_flush_deadline := Some 11 \<rparr>,
          al_produced := take 1 example_events \<rparr>)"

definition example_committed :: "'s store_ops \<Rightarrow> 's shared \<Rightarrow> 's apply_loop" where
  "example_committed ops sh = (let lp = start_loop (example_config ops) 0 10 [] sh in
     lp \<lparr> al_state := (al_state lp) \<lparr> ls_last_commit_end := Some 30, ls_progress := \<lparr> rp_received = 30, rp_flush = 10 \<rparr>,
            ls_batch := example_events, ls_batch_bytes := 2, ls_next_ordinal := 2, ls_flush_deadline := Some 11 \<rparr>,
          al_produced := example_events \<rparr>)"

definition example_done :: "'s store_ops \<Rightarrow> 's shared \<Rightarrow> 's \<Rightarrow> 's apply_loop" where
  "example_done ops sh s' =
     confirmed 30 s' (acknowledged (with_handle (async_send (Inr ())) (flushed 20 (example_committed ops sh))))"

lemmas example_simps = iteration_defs handler_defs action_defs example_defs example_events_def no_syncing_tables

lemma example_steps:
  assumes "so_get_states ops (sh_store sh) = Inr []"
  shows "run_iteration (example_config ops) (example_env 1 (Some example_begin)) (start_loop (example_config ops) 0 10 [] sh) =
      (Inr None, example_begun ops sh)"
    and "run_iteration (example_config ops) (example_env 2 (Some example_commit)) (example_begun ops sh) =
      (Inr None, example_committed ops sh)"
    and "run_iteration (example_config ops) (example_env 20 None) (example_committed ops sh) =
      (Inr None, flushed 20 (example_committed ops sh))"
  by (simp add: example_simps assms example_begin_def example_begun_def,
      simp add: example_simps assms example_commit_def example_begun_def example_committed_def,
      simp add: example_simps assms example_committed_def flushed_def)

lemma example_last_step:
  assumes "so_upsert_progress ops Apply 30 (sh_store sh) = (Inr 30, s')" "so_get_states ops s' = Inr []"
  shows "run_iteration (example_config ops) (example_env 30 None)
      (with_handle (async_send (Inr ())) (flushed 20 (example_committed ops sh))) = (Inr None, example_done ops sh s')"
  using assms by (simp add: example_simps example_committed_def flushed_def with_handle_def example_done_def confirmed_def
      acknowledged_def async_poll_def async_send_def async_new_def)

lemma example_env_ok:
  "env_ok sinv progress (example_env 1 (Some example_begin)) (start_loop (example_config ops) 0 10 [] sh)"
  "env_ok sinv progress (example_env 2 (Some example_commit)) (example_begun ops sh)"
  "env_ok sinv progress (example_env now None) lp"
  by (simp_all add: env_ok_def example_env_def waits_ok_def example_begin_def example_commit_def example_begun_def
      start_loop_def ls_new_def last_received_lsn_def word_less_nat_alt word_le_nat_alt unsigned_minus_1_eq_mask
      mask_eq_exp_minus_1)

lemma example_committed_reach:
  assumes "so_get_states ops (sh_store sh) = Inr []"
  shows "loop_reach (example_config ops) sinv progress (start_loop (example_config ops) 0 10 [] sh) (example_committed ops sh)"
  by (rule reach_iterate [OF reach_iterate [OF reach_start example_env_ok(1) example_steps(1)] example_env_ok(2) example_steps(2)])
    (rule assms)+

lemma example_reach:
  assumes "so_get_states ops (sh_store sh) = Inr []" "so_upsert_progress ops Apply 30 (sh_store sh) = (Inr 30, s')"
    "so_get_states ops s' = Inr []"
  shows "loop_reach (example_config ops) sinv progress (start_loop (example_config ops) 0 10 [] sh) (example_done ops sh s')"
proof -
  let ?cfg = "example_config ops" and ?start = "start_loop (example_config ops) 0 10 [] sh"
  note env = example_env_ok
  have "loop_reach ?cfg sinv progress ?start (flushed 20 (example_committed ops sh))"
    by (rule reach_iterate [OF example_committed_reach env(3) example_steps(3)]) (rule assms)+
  then show ?thesis
    by (rule reach_iterate [OF reach_complete env(3) example_last_step [OF assms(2,3)]])
qed

section \<open>Properties of every run\<close>

text \<open>
  C1. At-least-once delivery. In every state of every run of the apply loop on the
  Postgres store, the events the destination has acknowledged are a prefix of the events
  the loop produced, and a commit whose event is not acknowledged lies above every position
  the loop confirmed: above its own flush position, above the durable progress in the store
  (from which a restart resumes), and above every flush position reported to Postgres.
\<close>

theorem at_least_once:
  assumes "loop_state cfg (pg_inv c) (\<lambda>s. pg_progress_of s w) (start_loop cfg now start_lsn slot sh) lp"
    and "lc_ops cfg = postgres_store_ops c known" "lc_worker cfg = w"
    and "pg_inv c (sh_store sh)" "\<And>d. pg_progress_of (sh_store sh) w = Some d \<Longrightarrow> d \<le> start_lsn"
  shows "\<exists>rest. al_produced lp = al_acked lp @ rest \<and>
     (\<forall>e x. e \<in> set rest \<longrightarrow> commit_end_of e = Some x \<longrightarrow>
        rp_flush (ls_progress (al_state lp)) < x \<and>
        (\<forall>d. pg_progress_of (sh_store (al_shared lp)) w = Some d \<longrightarrow> d < x) \<and>
        (\<forall>u \<in> set (es_sent (al_stream lp)). su_flush u < x))"
  using confirmed_only_acknowledged [OF pg_store.run_started [OF assms]] by simp

definition example_pg :: postgres_store where
  "example_pg = pg_new 1 \<lparr> pd_up = True, pd_states = \<lparr> st_rows = [], st_next = 0 \<rparr>, pd_progress = [],
     pd_schemas = \<lparr> stb_schemas = [], stb_columns = [], stb_next = 0 \<rparr>, pd_metadata = [] \<rparr>"

definition example_shared :: "'s \<Rightarrow> 's shared" where
  "example_shared s = \<lparr> sh_store = s, sh_pool = pool_new, sh_cache = cache_new \<rparr>"

lemma example_done_simps:
  "al_produced (example_done ops sh s') = example_events" "al_acked (example_done ops sh s') = example_events"
  "rp_flush (ls_progress (al_state (example_done ops sh s'))) = 30"
  "sh_store (al_shared (example_done ops sh s')) = s'"
  by (simp_all add: example_done_def acknowledged_def with_handle_def flushed_def example_committed_def start_loop_def
      resume_processing_def max_def word_le_nat_alt)

lemma example_pg_start:
  "pg_inv unary_codec (sh_store (example_shared example_pg))"
  "pg_progress_of (sh_store (example_shared example_pg)) Apply = None"
  by (simp add: example_shared_def example_pg_def pg_inv_new [OF unary_codec_ok])
    (simp add: example_shared_def example_pg_def pg_progress_of_def pg_new_def sql_get_progress_def)

lemma example_pg_reach:
  "loop_reach (example_config (postgres_store_ops unary_codec known)) sinv progress
     (start_loop (example_config (postgres_store_ops unary_codec known)) 0 10 [] (example_shared example_pg))
     (example_done (postgres_store_ops unary_codec known) (example_shared example_pg)
        (snd (pg_upsert_progress Apply 30 example_pg)))"
  by (rule example_reach) (simp_all add: postgres_store_ops_def example_shared_def example_pg_def pg_new_def
      pg_get_states_def pg_upsert_progress_def sql_upsert_progress_def)

theorem at_least_once_witness:
  "\<exists>(lp :: postgres_store apply_loop) rest. rp_flush (ls_progress (al_state lp)) = 30 \<and> length (al_acked lp) = 2 \<and>
     al_produced lp = al_acked lp @ rest \<and>
     (\<forall>e x. e \<in> set rest \<longrightarrow> commit_end_of e = Some x \<longrightarrow> 30 < x)"
proof -
  let ?ops = "postgres_store_ops unary_codec []"
  let ?lp = "example_done ?ops (example_shared example_pg) (snd (pg_upsert_progress Apply 30 example_pg))"
  show ?thesis
    using at_least_once [of "example_config ?ops" unary_codec Apply 0 10 "[]" "example_shared example_pg" ?lp]
      example_pg_reach example_pg_start
    by (auto simp: loop_state_def example_config_def [of ?ops] example_done_simps example_events_def intro!: exI [of _ ?lp])
qed

text \<open>
  C11. Order. In every state of every run on the memory store, the sequence keys of
  the produced events (commit position, then ordinal within the transaction) strictly
  increase, so no two events of a run share a key, and so do the end positions of the
  commits among them.
\<close>

theorem produced_in_order:
  assumes "loop_state cfg mem_inv (\<lambda>s. mem_progress s w) (start_loop cfg now start_lsn slot sh) lp"
    and "lc_ops cfg = memory_store_ops" "lc_worker cfg = w"
    and "mem_inv (sh_store sh)" "\<And>d. mem_progress (sh_store sh) w = Some d \<Longrightarrow> d \<le> start_lsn"
  shows "sorted_wrt key_less (keys_of (al_produced lp)) \<and> distinct (keys_of (al_produced lp)) \<and>
     sorted_wrt (<) (ends (al_produced lp))"
proof -
  have "safe mem_inv (\<lambda>s. mem_progress s w) lp" using mem_store.run_started [OF assms] .
  then show ?thesis using sorted_keys_distinct by (auto simp: safe_def)
qed

lemma example_mem_reach:
  "loop_reach (example_config memory_store_ops) sinv progress
     (start_loop (example_config memory_store_ops) 0 10 [] (example_shared mem_new))
     (example_done memory_store_ops (example_shared mem_new) (snd (mem_upsert_progress Apply 30 mem_new)))"
  by (rule example_reach) (simp_all add: memory_store_ops_def example_shared_def mem_new_def
      mem_get_states_def mem_upsert_progress_def)

lemma example_mem_begun:
  "loop_reach (example_config memory_store_ops) sinv progress
     (start_loop (example_config memory_store_ops) 0 10 [] (example_shared mem_new))
     (example_begun memory_store_ops (example_shared mem_new))"
  by (rule reach_iterate [OF reach_start example_env_ok(1) example_steps(1)])
    (simp add: memory_store_ops_def example_shared_def mem_new_def mem_get_states_def)

theorem produced_in_order_witness:
  "\<exists>lp :: memory_store apply_loop. length (al_produced lp) = 2 \<and> sorted_wrt key_less (keys_of (al_produced lp)) \<and>
     distinct (keys_of (al_produced lp)) \<and> sorted_wrt (<) (ends (al_produced lp))"
proof -
  let ?lp = "example_done memory_store_ops (example_shared mem_new) (snd (mem_upsert_progress Apply 30 mem_new))"
  show ?thesis
    using produced_in_order [of "example_config memory_store_ops" Apply 0 10 "[]" "example_shared mem_new" ?lp]
      example_mem_reach mem_inv_new
    by (auto simp: loop_state_def example_config_def [of memory_store_ops] example_done_simps example_shared_def mem_new_def
        example_events_def intro!: exI [of _ ?lp])
qed

definition example_stop :: "'s loop_env" where
  "example_stop = (example_env 40 None) \<lparr> le_shutdown := True \<rparr>"

lemma example_stops:
  assumes "so_get_states ops s' = Inr []"
  shows "\<exists>lp'. run_iteration (example_config ops) example_stop (example_done ops sh s') = (Inr (Some LoopPaused), lp') \<and>
     al_produced lp' = example_events"
  using assms by (simp add: example_simps example_committed_def flushed_def with_handle_def example_done_def confirmed_def
      acknowledged_def example_stop_def handle_shutdown_signal_def initiate_graceful_shutdown_def
      send_effective_status_def send_status_update_def es_send_status_update_def es_wrap_def
      maybe_spawn_schema_cleanup_def spawn_schema_cleanup_def collect_finished_schema_cleanup_task_def
      try_start_schema_cleanup_def schema_cleanup_interval_def Let_def not_below_def)

text \<open>
  C10. Nothing is left behind. When the loop on the Postgres store ends by itself, for a
  shutdown or because its table is synchronised, every event it ever produced has been
  acknowledged by the destination.
\<close>

theorem loop_end_complete:
  assumes "loop_reach cfg (pg_inv c) (\<lambda>s. pg_progress_of s w) (start_loop cfg now start_lsn slot sh) lp"
    and "lc_ops cfg = postgres_store_ops c known" "lc_worker cfg = w"
    and "pg_inv c (sh_store sh)" "\<And>d. pg_progress_of (sh_store sh) w = Some d \<Longrightarrow> d \<le> start_lsn"
    and "env_ok (pg_inv c) (\<lambda>s. pg_progress_of s w) env lp" "run_iteration cfg env lp = (Inr (Some result), lp')"
  shows "al_acked lp' = al_produced lp' \<and> ls_batch (al_state lp') = [] \<and> ls_pending_flush (al_state lp') = None"
  by (rule finished_complete [OF pg_store.run_finished [OF assms]])

theorem loop_end_complete_witness:
  "\<exists>lp :: postgres_store apply_loop. length (al_produced lp) = 2 \<and> al_acked lp = al_produced lp"
proof -
  let ?ops = "postgres_store_ops unary_codec []"
  let ?s = "snd (pg_upsert_progress Apply 30 example_pg)"
  let ?lp = "example_done ?ops (example_shared example_pg) ?s"
  let ?progress = "\<lambda>s. pg_progress_of s Apply"
  have env: "env_ok (pg_inv unary_codec) ?progress example_stop ?lp"
    by (simp add: env_ok_def example_stop_def example_env_def waits_ok_def)
  have "so_get_states ?ops ?s = Inr []"
    by (simp add: postgres_store_ops_def example_pg_def pg_new_def pg_get_states_def pg_upsert_progress_def
        sql_upsert_progress_def)
  from example_stops [OF this, of "example_shared example_pg"]
  obtain lp' where lp': "run_iteration (example_config ?ops) example_stop ?lp = (Inr (Some LoopPaused), lp')"
    "al_produced lp' = example_events" by (elim exE conjE)
  have "al_acked lp' = al_produced lp' \<and> ls_batch (al_state lp') = [] \<and> ls_pending_flush (al_state lp') = None"
    by (rule loop_end_complete [OF example_pg_reach _ _ example_pg_start(1) _ env lp'(1)])
      (simp_all add: example_config_def [of ?ops] example_pg_start)
  then show ?thesis using lp'(2) by (intro exI [of _ lp']) (simp add: example_events_def)
qed

text \<open>
  C21. Backpressure. Between the iterations of a loop on the memory store, at most one
  batch is in flight and its metadata carries the end of its last commit; the loop stops
  reading messages only while a batch is in flight and another one waits behind it; a
  batch that waits always has a deadline.
\<close>

theorem one_batch_in_flight:
  assumes "loop_reach cfg mem_inv (\<lambda>s. mem_progress s w) (start_loop cfg now start_lsn slot sh) lp"
    and "lc_ops cfg = memory_store_ops" "lc_worker cfg = w"
    and "mem_inv (sh_store sh)" "\<And>d. mem_progress (sh_store sh) w = Some d \<Longrightarrow> d \<le> start_lsn"
  shows "(case ls_pending_flush (al_state lp) of
        None \<Rightarrow> al_unacked lp = []
      | Some a \<Rightarrow> \<exists>m. ar_metadata a = Some m \<and> fm_commit_end m = last_opt (ends (al_unacked lp))) \<and>
     (ls_paused (al_state lp) \<longrightarrow> ls_pending_flush (al_state lp) \<noteq> None \<and> has_pending_batch (al_state lp)) \<and>
     (has_pending_batch (al_state lp) \<longrightarrow> ls_flush_deadline (al_state lp) \<noteq> None)"
  using mem_store.reach_batch_ok [OF assms]
  by (auto simp: batch_ok_def batch_state_ok_def has_pending_batch_def split: option.splits)

theorem one_batch_in_flight_witness:
  "\<exists>lp :: memory_store apply_loop. ls_flush_deadline (al_state lp) = Some 11 \<and> has_pending_batch (al_state lp) \<and>
     ls_pending_flush (al_state lp) = None \<and> al_unacked lp = []"
proof -
  let ?lp = "example_begun memory_store_ops (example_shared mem_new)"
  have pending: "ls_pending_flush (al_state ?lp) = None" "has_pending_batch (al_state ?lp)"
      "ls_flush_deadline (al_state ?lp) = Some 11"
    by (simp_all add: example_begun_def start_loop_def ls_new_def has_pending_batch_def example_events_def)
  have "al_unacked ?lp = []"
    using one_batch_in_flight [of "example_config memory_store_ops" Apply 0 10 "[]" "example_shared mem_new" ?lp]
      example_mem_begun mem_inv_new pending(1)
    by (simp add: example_config_def [of memory_store_ops] example_shared_def mem_new_def)
  then show ?thesis using pending by blast
qed

text \<open>
  C22. A draining loop never gets stuck. Between the iterations of a loop on the
  Postgres store that still has a batch or a flush outstanding, either the destination
  still holds the handle of the batch in flight, or there is an instant from which on every
  wake-up of the draining loop, unless the connection changed, handles the flush result or
  flushes the batch.
\<close>

theorem drain_never_stuck:
  assumes "loop_reach cfg (pg_inv c) (\<lambda>s. pg_progress_of s w) (start_loop cfg now start_lsn slot sh) lp"
    and "lc_ops cfg = postgres_store_ops c known" "lc_worker cfg = w"
    and "pg_inv c (sh_store sh)" "\<And>d. pg_progress_of (sh_store sh) w = Some d \<Longrightarrow> d \<le> start_lsn"
    and "has_unresolved_batch_work (al_state lp)"
  shows "(\<exists>a. ls_pending_flush (al_state lp) = Some a \<and> fst (async_poll a) = None) \<or>
     (\<exists>d. \<forall>env. le_connection env = None \<longrightarrow> d \<le> le_now env \<longrightarrow>
        (\<exists>b. select_draining env (al_state lp) = Some b \<and> moves_batch b))"
  by (rule batch_not_stuck [OF pg_store.reach_batch_ok [OF assms(1-5)] assms(6)])

theorem drain_never_stuck_witness:
  "\<exists>lp :: postgres_store apply_loop. has_pending_batch (al_state lp) \<and>
     (\<exists>d. \<forall>env :: postgres_store loop_env. le_connection env = None \<longrightarrow> d \<le> le_now env \<longrightarrow>
        (\<exists>b. select_draining env (al_state lp) = Some b \<and> moves_batch b))"
proof -
  let ?ops = "postgres_store_ops unary_codec []"
  let ?lp = "example_begun ?ops (example_shared example_pg)"
  have begun: "loop_reach (example_config ?ops) (pg_inv unary_codec) (\<lambda>s. pg_progress_of s Apply)
      (start_loop (example_config ?ops) 0 10 [] (example_shared example_pg)) ?lp"
    by (rule reach_iterate [OF reach_start example_env_ok(1) example_steps(1)])
      (simp add: postgres_store_ops_def example_shared_def example_pg_def pg_new_def pg_get_states_def)
  have pending: "ls_pending_flush (al_state ?lp) = None" "has_pending_batch (al_state ?lp)"
    by (simp_all add: example_begun_def start_loop_def ls_new_def has_pending_batch_def example_events_def)
  have "\<exists>d. \<forall>env :: postgres_store loop_env. le_connection env = None \<longrightarrow> d \<le> le_now env \<longrightarrow>
        (\<exists>b. select_draining env (al_state ?lp) = Some b \<and> moves_batch b)"
    using drain_never_stuck [OF begun _ _ example_pg_start(1), of "[]"] pending
    by (simp add: example_config_def [of ?ops] example_pg_start has_unresolved_batch_work_def)
  then show ?thesis using pending(2) by blast
qed

end
