(* ===== verification/Worker_Runs.thy ===== *)
theory Worker_Runs
  imports Worker_Pool Memory_Store
begin

text \<open>
  Properties of the table sync workers: the pool over any sequence of its operations, and
  the retry loop of a worker on the memory store.
\<close>

section \<open>The pool over time\<close>

datatype pool_step =
    SpawnStep table_id worker_state
  | StateStep table_id worker_state
  | EndStep worker_id
  | JoinStep join_result

fun pool_exec :: "pool_step \<Rightarrow> worker_pool \<Rightarrow> worker_pool" where
  "pool_exec (SpawnStep t st) pl = pool_spawn t st pl"
| "pool_exec (StateStep t st) pl = put_worker_state t st pl"
| "pool_exec (EndStep w) pl = pool_task_end w pl"
| "pool_exec (JoinStep j) pl = snd (pool_join j pl)"

lemma next_run_join [simp]: "wp_next_run (snd (pool_join j pl)) = wp_next_run pl"
  by (simp add: pool_join.simps Let_def pool_task_end_def split: join_result.split prod.split option.split sum.split)

lemma next_run_exec: "unat (wp_next_run (pool_exec x pl)) \<le> Suc (unat (wp_next_run pl))"
proof (cases x)
  case (SpawnStep t st)
  have "unat (n + 1) \<le> Suc (unat n)" for n :: "64 word" by (simp add: unat_word_ariths)
  then show ?thesis by (simp add: SpawnStep pool_spawn_def Let_def)
qed (simp_all add: put_worker_state_def pool_task_end_def split: option.split)

lemma pool_ok_exec: "pool_ok pl \<Longrightarrow> wp_next_run pl < - 1 \<Longrightarrow> pool_ok (pool_exec x pl)"
  by (cases x) (auto intro: pool_ok_spawn pool_ok_put pool_ok_end pool_ok_join)

lemma pool_ok_steps:
  assumes "length xs < 2 ^ 64 - 1"
  shows "pool_ok (fold pool_exec xs pool_new) \<and> unat (wp_next_run (fold pool_exec xs pool_new)) \<le> length xs"
  using assms
proof (induction xs rule: rev_induct)
  case Nil
  then show ?case using pool_ok_new by (simp add: pool_new_def)
next
  case (snoc x xs)
  let ?pl = "fold pool_exec xs pool_new"
  have IH: "pool_ok ?pl" "unat (wp_next_run ?pl) \<le> length xs" using snoc by simp_all
  then have "wp_next_run ?pl < - 1"
    using snoc.prems by (simp add: word_less_nat_alt unsigned_minus_1_eq_mask mask_eq_exp_minus_1)
  then show ?case using pool_ok_exec [OF IH(1)] next_run_exec [of x ?pl] IH(2) by simp
qed

text \<open>
  C23. At most one worker per table. After any sequence of spawns, state changes, ends and
  joins of tasks (as long as the run counter has not wrapped), no table has two running
  tasks, and the pool reports an active worker for a table exactly when its task runs.
\<close>

theorem one_worker_per_table:
  assumes "length xs < 2 ^ 64 - 1"
  shows "distinct (running_tables (fold pool_exec xs pool_new)) \<and>
     (get_active_worker_state t (fold pool_exec xs pool_new) \<noteq> None \<longleftrightarrow>
        t \<in> set (running_tables (fold pool_exec xs pool_new)))"
  using pool_ok_distinct_tables active_iff_running pool_ok_steps [OF assms] by blast

theorem one_worker_per_table_witness:
  "running_tables (fold pool_exec [SpawnStep 1 (ws_new 1 Init), SpawnStep 1 (ws_new 1 Init)] pool_new) = [1] \<and>
   get_active_worker_state 1 (fold pool_exec [SpawnStep 1 (ws_new 1 Init), SpawnStep 1 (ws_new 1 Init)] pool_new) \<noteq> None"
  using one_worker_per_table [of "[SpawnStep 1 (ws_new 1 Init), SpawnStep 1 (ws_new 1 Init)]" 1]
  by (simp add: pool_spawn_def pool_new_def running_tables_def handle_is_finished_def)

section \<open>Retries\<close>

text \<open>
  C24. The retry loop of a table sync worker ends: whatever the runs of the worker do, as
  long as they leave the attempt counter alone, the loop returns after at most one run
  more than the configured number of attempts.
\<close>

theorem retry_loop_returns:
  assumes "\<And>i ws s r ws' s'. fst (runs i) ws s = (r, ws', s') \<Longrightarrow> ws_retry_attempts ws' = ws_retry_attempts ws"
  shows "\<exists>out. guarded_run_table_sync_worker ops cfg runs i (Suc (unat (rc_max_attempts cfg))) (ws_new t p) s = Some out"
  using guarded_run_returns [OF assms, where ws = "ws_new t p"] by (simp add: ws_new_def)

definition failing_run :: "memory_store worker_run \<times> memory_store retry_env" where
  "failing_run = (\<lambda>ws s. (Inl (etl_err SourceConnectionFailed ''down''), ws, s),
     \<lparr> re_disp = (\<lambda>_. ''down''), re_now = 0, re_after_store = 5, re_shutdown = False, re_others = (\<lambda>s. s) \<rparr>)"

theorem retry_loop_returns_witness:
  "\<exists>out. guarded_run_table_sync_worker memory_store_ops \<lparr> rc_delay_ms = 10, rc_max_attempts = 3 \<rparr> (\<lambda>_. failing_run) 0 4
     (ws_new 7 DataSync) mem_new = Some out"
  using retry_loop_returns [of "\<lambda>_. failing_run" memory_store_ops "\<lparr> rc_delay_ms = 10, rc_max_attempts = 3 \<rparr>" 0 7 DataSync mem_new]
  by (simp add: failing_run_def)

text \<open>
  C25. A granted retry leaves no trace. On the memory store, when the error handling of
  a worker asks for another run, the error was retryable and attempts were left, exactly
  one more is used, the history of the table is what it was before the error, and the
  worker starts from the phase the table had.
\<close>

theorem retry_restores_history:
  assumes "mem_inv s" "handle_table_sync_worker_error memory_store_ops cfg env err ws s = (Inr None, ws', s')"
    and "\<And>s. mem_inv s \<Longrightarrow> mem_inv (re_others env s) \<and>
       mem_stack_of (re_others env s) (ws_table ws) = mem_stack_of s (ws_table ws)"
    and "mem_phase_of s (ws_table ws) = Some q"
  shows "should_retry (build_error_handling_policy err) \<and> ws_retry_attempts ws < rc_max_attempts cfg \<and>
     unat (ws_retry_attempts ws') = Suc (unat (ws_retry_attempts ws)) \<and>
     mem_stack_of s' (ws_table ws) = mem_stack_of s (ws_table ws) \<and>
     persisted (ws_phase ws') = persisted q"
  using retry_uses_attempt [OF assms(2)] state_store.retry_restores [OF mem.state_store_axioms assms(1-3)] assms(4) by blast

theorem retry_restores_history_witness:
  "\<exists>s ws' s'. mem_phase_of s 7 = Some DataSync \<and>
     handle_table_sync_worker_error memory_store_ops \<lparr> rc_delay_ms = 10, rc_max_attempts = 3 \<rparr> (snd failing_run)
       (etl_err SourceConnectionFailed ''down'') (ws_new 7 DataSync) s = (Inr None, ws', s') \<and>
     persisted (ws_phase ws') = DataSync \<and> unat (ws_retry_attempts ws') = 1 \<and> mem_stack_of s' 7 = mem_stack_of s 7"
proof -
  let ?cfg = "\<lparr> rc_delay_ms = 10, rc_max_attempts = 3 \<rparr>" and ?env = "snd failing_run"
  let ?err = "etl_err SourceConnectionFailed ''down''" and ?ws = "ws_new 7 DataSync"
  define s where "s = mem_push 7 DataSync mem_new"
  have inv: "mem_inv s" unfolding s_def by (rule mem_push_inv [OF mem_inv_new])
  have phase: "mem_phase_of s 7 = Some DataSync" by (simp add: s_def mem_push_phase mem_inv_new)
  obtain ws' s' where run: "handle_table_sync_worker_error memory_store_ops ?cfg ?env ?err ?ws s = (Inr None, ws', s')"
    by (simp add: handle_table_sync_worker_error_def Let_def s_def mem_push_def mem_new_def failing_run_def ws_new_def
        build_error_handling_policy_def retry_policy_for_def from_error_policy_def attempts_exhausted_def should_retry_def
        with_source_err_def without_solution_def phase_of_error_def set_and_store_def ws_set_def so_update_state_def
        memory_store_ops_def mem_update_states_def retry_in_def ws_rollback_def increment_retry_attempts_def
        mem_rollback_state_def)
  have "?env = \<lparr> re_disp = (\<lambda>_. ''down''), re_now = 0, re_after_store = 5, re_shutdown = False, re_others = (\<lambda>s. s) \<rparr>"
    by (simp add: failing_run_def)
  then have "persisted (ws_phase ws') = DataSync \<and> unat (ws_retry_attempts ws') = 1 \<and> mem_stack_of s' 7 = mem_stack_of s 7"
    using retry_restores_history [OF inv run, of DataSync] phase by (simp add: ws_new_def)
  with phase run show ?thesis by blast
qed

text \<open>
  A panic of a worker is handled as an error of the table, but never grants a retry:
  the worker ends as errored, or the error of the store is returned.
\<close>

lemma panic_ends_worker:
  "case run_panicked ops cfg env msg ws s of
     (Inl _, _) \<Rightarrow> \<exists>e ws' s'. handle_table_sync_worker_error ops cfg env (panic_error msg) ws s = (Inl e, ws', s')
   | (Inr r, ws', _) \<Rightarrow> r = WorkerErrored \<and> is_errored (ws_phase ws') \<and> ws_retry_attempts ws' = 0"
proof -
  let ?policy = "build_error_handling_policy (panic_error msg)"
  have policy: "policy_directive ?policy = Manual"
    by (simp add: build_error_handling_policy_def panic_error_def)
  obtain r1 ws1 s1 where st: "set_and_store ops (phase_of_error (from_error_policy (re_disp env) (ws_table ws)
      (panic_error msg) ?policy ManualRetry)) ws s = (r1, ws1, s1)" using prod_cases3 by blast
  have phase: "is_errored (ws_phase ws1)" using set_and_store_state [OF st] by (simp add: ws_set_def phase_of_error_def)
  have "handle_table_sync_worker_error ops cfg env (panic_error msg) ws s =
      (case r1 of Inl e \<Rightarrow> (Inl e, ws1, s1) | Inr _ \<Rightarrow> (Inr (Some WorkerErrored), reset_retry_attempts ws1, s1))"
    using st policy by (auto simp: handle_table_sync_worker_error_def Let_def retry_policy_for_def attempts_exhausted_def
        should_retry_def split: sum.split)
  then show ?thesis
    using phase by (auto simp: run_panicked_def reset_retry_attempts_def split: sum.split)
qed

end
