(* ===== verification/Store_Agreement.thy ===== *)
theory Store_Agreement
  imports Memory_Store Postgres_Store
begin

text \<open>
  The abstract store: a history of phases per table and a durable position per worker.
  Every store that fulfils the contract \<open>refined_store\<close> refines it call by call, and so
  the memory store and the Postgres store agree on every sequence of calls.
\<close>

section \<open>The abstract store\<close>

datatype store_call =
    UpdateCall "(table_id \<times> phase) list"
  | RollbackCall table_id
  | UpsertCall worker_type lsn
  | ClearCall table_id
  | DeleteCall table_id

type_synonym abs_store = "(table_id \<Rightarrow> phase list) \<times> (worker_type \<Rightarrow> lsn option)"

fun abs_call :: "store_call \<Rightarrow> abs_store \<Rightarrow> abs_store option" where
  "abs_call (UpdateCall us) (stacks, progress) =
     Some (\<lambda>t. rev (map (persisted \<circ> snd) (filter (\<lambda>u. fst u = t) us)) @ stacks t, progress)"
| "abs_call (RollbackCall t) (stacks, progress) = (case stacks t of
      q # p # rest \<Rightarrow> Some (stacks(t := p # rest), progress)
    | _ \<Rightarrow> None)"
| "abs_call (UpsertCall w l) (stacks, progress) =
     Some (stacks, progress(w \<mapsto> (case progress w of None \<Rightarrow> l | Some old \<Rightarrow> max old l)))"
| "abs_call (ClearCall t) (stacks, progress) = Some (stacks, progress(TableSync t := None))"
| "abs_call (DeleteCall t) (stacks, progress) = Some (stacks(t := []), progress(TableSync t := None))"

fun abs_calls :: "store_call list \<Rightarrow> abs_store \<Rightarrow> abs_store option" where
  "abs_calls [] a = Some a"
| "abs_calls (x # xs) a = Option.bind (abs_call x a) (abs_calls xs)"

text \<open>The same calls on a store, \<open>None\<close> when one of them fails.\<close>

definition succeeded :: "'a etl_result \<times> 's \<Rightarrow> 's option" where
  "succeeded rs = (if is_ok (fst rs) then Some (snd rs) else None)"

fun do_call :: "'s store_ops \<Rightarrow> store_call \<Rightarrow> 's \<Rightarrow> 's option" where
  "do_call ops (UpdateCall us) s = succeeded (so_update_states ops us s)"
| "do_call ops (RollbackCall t) s = succeeded (so_rollback_state ops t s)"
| "do_call ops (UpsertCall w l) s = succeeded (so_upsert_progress ops w l s)"
| "do_call ops (ClearCall t) s = succeeded (so_clear_copy_state ops t s)"
| "do_call ops (DeleteCall t) s = succeeded (so_delete_pipeline_state ops t s)"

fun do_calls :: "'s store_ops \<Rightarrow> store_call list \<Rightarrow> 's \<Rightarrow> 's option" where
  "do_calls ops [] s = Some s"
| "do_calls ops (x # xs) s = Option.bind (do_call ops x s) (do_calls ops xs)"

lemma succeeded_Some: "succeeded rs = Some s' \<longleftrightarrow> (\<exists>x. rs = (Inr x, s'))"
  by (cases rs; cases "fst rs") (auto simp: succeeded_def)

section \<open>Refinement\<close>

locale refined_store = state_store ops inv phase_of stack_of progress_of
  for ops :: "'s store_ops"
    and inv :: "'s \<Rightarrow> bool"
    and phase_of :: "'s \<Rightarrow> table_id \<Rightarrow> phase option"
    and stack_of :: "'s \<Rightarrow> table_id \<Rightarrow> phase list"
    and progress_of :: "'s \<Rightarrow> worker_type \<Rightarrow> lsn option" +
  assumes upsert_stack: "inv s \<Longrightarrow> so_upsert_progress ops w l s = (rl, s') \<Longrightarrow> stack_of s' = stack_of s"
    and clear_stack: "inv s \<Longrightarrow> so_clear_copy_state ops t s = (r, s') \<Longrightarrow> stack_of s' = stack_of s"
    and remove_stack: "inv s \<Longrightarrow> so_delete_pipeline_state ops t s = (Inr (), s') \<Longrightarrow>
      stack_of s' = (stack_of s)(t := [])"
    and remove_progress: "inv s \<Longrightarrow> so_delete_pipeline_state ops t s = (Inr (), s') \<Longrightarrow>
      progress_of s' = (progress_of s)(TableSync t := None)"
begin

lemma call_refines:
  assumes inv: "inv s" and call: "do_call ops x s = Some s'"
  shows "inv s' \<and> abs_call x (stack_of s, progress_of s) = Some (stack_of s', progress_of s')"
proof (cases x)
  case (UpdateCall us)
  then have u: "so_update_states ops us s = (Inr (), s')" using call by (simp add: succeeded_Some)
  have "stack_of s' = (\<lambda>t. rev (map (persisted \<circ> snd) (filter (\<lambda>u. fst u = t) us)) @ stack_of s t)"
    by (rule ext) (simp add: update_stack [OF inv u])
  then show ?thesis using update_inv [OF inv u] update_progress [OF inv u] by (simp add: UpdateCall)
next
  case (RollbackCall t)
  then obtain p where u: "so_rollback_state ops t s = (Inr p, s')" using call by (auto simp: succeeded_Some)
  obtain q rest where st: "stack_of s t = q # persisted p # rest" "stack_of s' t = persisted p # rest"
    using rollback_stack [OF inv u] by blast
  have "stack_of s' = (stack_of s)(t := persisted p # rest)"
    using st(2) rollback_stack_other [OF inv u] by (auto simp: fun_eq_iff)
  then show ?thesis using rollback_inv [OF inv u] rollback_progress [OF inv u] st(1) by (simp add: RollbackCall)
next
  case (UpsertCall w l)
  then obtain d where u: "so_upsert_progress ops w l s = (Inr d, s')" using call by (auto simp: succeeded_Some)
  then show ?thesis
    using upsert_inv [OF inv u] upsert_progress [OF inv u] upsert_stack [OF inv u] by (simp add: UpsertCall)
next
  case (ClearCall t)
  then have u: "so_clear_copy_state ops t s = (Inr (), s')" using call by (simp add: succeeded_Some)
  then show ?thesis
    using clear_inv [OF inv u] clear_progress [OF inv u] clear_stack [OF inv u] by (simp add: ClearCall)
next
  case (DeleteCall t)
  then have u: "so_delete_pipeline_state ops t s = (Inr (), s')" using call by (simp add: succeeded_Some)
  then show ?thesis
    using remove_inv [OF inv u] remove_progress [OF inv u] remove_stack [OF inv u] by (simp add: DeleteCall)
qed

lemma calls_refine:
  "inv s \<Longrightarrow> do_calls ops xs s = Some s' \<Longrightarrow>
   inv s' \<and> abs_calls xs (stack_of s, progress_of s) = Some (stack_of s', progress_of s')"
proof (induction xs arbitrary: s)
  case (Cons x xs)
  then obtain s1 where s1: "do_call ops x s = Some s1" "do_calls ops xs s1 = Some s'" by (auto simp: bind_eq_Some_conv)
  then show ?case using call_refines [OF Cons.prems(1) s1(1)] Cons.IH [OF _ s1(2)] by simp
qed simp

end

interpretation mem_refined: refined_store memory_store_ops mem_inv mem_phase_of mem_stack_of mem_progress
  by unfold_locales (auto simp: memory_store_ops_def mem_upsert_progress_def mem_clear_copy_state_def
      mem_delete_pipeline_state_def mem_delete_table_state_for_scope_def Let_def mem_stack_of_def mem_past_def fun_eq_iff
      cong: option.case_cong)

interpretation pg_refined: refined_store "postgres_store_ops c known" "pg_inv c" pg_phase_of "pg_stack_of c" pg_progress_of
  for c known
proof
  fix s s' t w l r rl
  assume inv: "pg_inv c s"
  show "so_upsert_progress (postgres_store_ops c known) w l s = (rl, s') \<Longrightarrow> pg_stack_of c s' = pg_stack_of c s"
    by (auto simp: postgres_store_ops_def pg_upsert_progress_def pg_stack_of_def fun_eq_iff split: if_splits prod.splits)
  show "so_clear_copy_state (postgres_store_ops c known) t s = (r, s') \<Longrightarrow> pg_stack_of c s' = pg_stack_of c s"
    by (auto simp: postgres_store_ops_def pg_clear_copy_state_def pg_delete_table_state_for_scope_def Let_def
        pg_stack_of_def fun_eq_iff split: if_splits)
  assume "so_delete_pipeline_state (postgres_store_ops c known) t s = (Inr (), s')"
  then have del: "pg_delete_table_state_for_scope t PipelineRemoval s = (Inr (), s')"
    by (simp add: postgres_store_ops_def pg_delete_pipeline_state_def)
  show "pg_progress_of s' = (pg_progress_of s)(TableSync t := None)" by (rule pg_delete_effect(3) [OF inv del])
  show "pg_stack_of c s' = (pg_stack_of c s)(t := [])"
    using del by (auto simp: pg_delete_table_state_for_scope_def Let_def pg_stack_of_def fun_eq_iff state_stack_delete
        split: if_splits)
qed

text \<open>The memory store never fails where the abstract store goes on.\<close>

lemma mem_call_total:
  assumes "mem_inv s" "abs_call x (mem_stack_of s, mem_progress s) = Some a"
  shows "\<exists>s'. do_call memory_store_ops x s = Some s'"
proof (cases x)
  case (RollbackCall t)
  then obtain q p rest where st: "mem_stack_of s t = q # p # rest" using assms(2) by (auto split: list.splits)
  then obtain h where "mem_history s t = Some h" "h \<noteq> []"
    by (auto simp: mem_stack_of_def mem_past_def split: option.splits)
  then have "is_ok (fst (mem_rollback_state t s))" by (simp add: mem_rollback_state_def split: list.split)
  then show ?thesis by (simp add: RollbackCall memory_store_ops_def succeeded_def)
qed (simp_all add: succeeded_def memory_store_ops_def mem_update_states_def mem_upsert_progress_def Let_def
    mem_clear_copy_state_def mem_delete_pipeline_state_def mem_delete_table_state_for_scope_def)

lemma mem_calls_total:
  "mem_inv s \<Longrightarrow> abs_calls xs (mem_stack_of s, mem_progress s) = Some a \<Longrightarrow>
   \<exists>s'. do_calls memory_store_ops xs s = Some s'"
proof (induction xs arbitrary: s)
  case (Cons x xs)
  then obtain a1 where a1: "abs_call x (mem_stack_of s, mem_progress s) = Some a1" "abs_calls xs a1 = Some a"
    by (auto simp: bind_eq_Some_conv)
  obtain s1 where s1: "do_call memory_store_ops x s = Some s1" using mem_call_total [OF Cons.prems(1) a1(1)] by blast
  with mem_refined.call_refines [OF Cons.prems(1) s1] a1 have "mem_inv s1" "a1 = (mem_stack_of s1, mem_progress s1)"
    by simp_all
  then show ?case using Cons.IH a1(2) s1 by simp
qed simp

text \<open>
  C9. The two stores agree. Whatever sequence of updates, rollbacks, progress
  upserts, resets and removals succeeds on the Postgres store also succeeds on the memory
  store started from the same histories and progress, and leaves both with the same history
  of every table, the same phases and the same durable progress.
\<close>

theorem stores_agree:
  assumes "pg_inv c s" "mem_inv m" "mem_stack_of m = pg_stack_of c s" "mem_progress m = pg_progress_of s"
    and "do_calls (postgres_store_ops c known) xs s = Some s'"
  shows "\<exists>m'. do_calls memory_store_ops xs m = Some m' \<and> mem_stack_of m' = pg_stack_of c s' \<and>
     mem_progress m' = pg_progress_of s' \<and>
     (\<forall>t. map_option persisted (mem_phase_of m' t) = map_option persisted (pg_phase_of s' t))"
proof -
  have pg: "pg_inv c s'" "abs_calls xs (pg_stack_of c s, pg_progress_of s) = Some (pg_stack_of c s', pg_progress_of s')"
    using pg_refined.calls_refine [OF assms(1,5)] by simp_all
  obtain m' where m': "do_calls memory_store_ops xs m = Some m'"
    using mem_calls_total [OF assms(2)] pg(2) assms(3,4) by (metis (no_types))
  then have mem: "mem_inv m'" "mem_stack_of m' = pg_stack_of c s'" "mem_progress m' = pg_progress_of s'"
    using mem_refined.calls_refine [OF assms(2) m'] pg(2) assms(3,4) by simp_all
  then show ?thesis using m' mem.phase_stack [OF mem(1)] pg.phase_stack [OF pg(1)] by auto
qed

definition empty_pg :: postgres_store where
  "empty_pg = pg_new 1 \<lparr> pd_up = True, pd_states = \<lparr> st_rows = [], st_next = 0 \<rparr>, pd_progress = [],
     pd_schemas = \<lparr> stb_schemas = [], stb_columns = [], stb_next = 0 \<rparr>, pd_metadata = [] \<rparr>"

theorem stores_agree_witness:
  "\<exists>m' s'. do_calls memory_store_ops [UpdateCall [(7, Init)], UpsertCall Apply 30] mem_new = Some m' \<and>
     do_calls (postgres_store_ops unary_codec []) [UpdateCall [(7, Init)], UpsertCall Apply 30] empty_pg = Some s' \<and>
     mem_stack_of m' 7 = pg_stack_of unary_codec s' 7 \<and> mem_progress m' Apply = pg_progress_of s' Apply"
proof -
  have inv: "pg_inv unary_codec empty_pg" unfolding empty_pg_def by (rule pg_inv_new [OF unary_codec_ok])
  have same: "mem_stack_of mem_new = pg_stack_of unary_codec empty_pg" "mem_progress mem_new = pg_progress_of empty_pg"
    by (simp_all add: fun_eq_iff mem_stack_of_def mem_new_def pg_stack_of_def empty_pg_def pg_new_def state_stack_def
        rows_of_def pg_progress_of_def sql_get_progress_def)
  obtain s' where s': "do_calls (postgres_store_ops unary_codec []) [UpdateCall [(7, Init)], UpsertCall Apply 30] empty_pg = Some s'"
    by (simp add: postgres_store_ops_def succeeded_def pg_update_states_def to_storage_format_def empty_pg_def pg_new_def
        update_replication_state_raw_def pg_upsert_progress_def sql_upsert_progress_def)
  show ?thesis using stores_agree [OF inv mem_inv_new same s'] s' by auto
qed

end
