(* ===== verification/Catchup_Loop.thy ===== *)
theory Catchup_Loop
  imports Apply_Runs
begin

text \<open>
  The loop of a table sync worker from the catch-up position it was given to the end of the
  catch-up. While it catches up, every commit it produced ends below the catch-up position,
  except the last one, after which it reads no more messages; when the catch-up ends, all it
  produced has been acknowledged and lies below the position that is stored as \<open>SyncDone\<close>,
  and the loop ends in the same iteration.
\<close>

section \<open>Completing a catch-up\<close>

definition own_handles :: "worker_pool \<Rightarrow> bool" where
  "own_handles pl \<longleftrightarrow> (\<forall>t h. wp_workers pl t = Some h \<longrightarrow> ws_table (wh_state h) = t)"

lemma own_handles_spawn: "own_handles pl \<Longrightarrow> own_handles (pool_spawn t (ws_new t p) pl)"
  by (simp add: own_handles_def pool_spawn_def Let_def ws_new_def)

lemma own_handles_put: "own_handles pl \<Longrightarrow> own_handles (put_worker_state (ws_table ws) ws pl)"
  by (auto simp: own_handles_def put_worker_state_def split: option.splits)

context state_store
begin

lemma try_complete_effect:
  assumes inv: "inv (sh_store sh)" and own: "own_handles (sh_pool sh)"
    and run: "try_complete_catchup ops t l sh = (r, sh')"
  shows "case r of
      Inr None \<Rightarrow> sh' = sh \<and> (\<forall>a. worker_phase t sh = Some (Catchup a) \<longrightarrow> l < a)
    | Inr (Some x) \<Rightarrow> x = ExitComplete \<and> phase_of (sh_store sh') = (phase_of (sh_store sh))(t \<mapsto> SyncDone l) \<and>
        worker_phase t sh' = Some (SyncDone l) \<and> (\<exists>a \<le> l. worker_phase t sh = Some (Catchup a))
    | Inl _ \<Rightarrow> phase_of (sh_store sh') = phase_of (sh_store sh) \<and>
        worker_phase t sh' = Some (SyncDone l) \<and> (\<exists>a \<le> l. worker_phase t sh = Some (Catchup a))"
proof (cases "wp_workers (sh_pool sh) t")
  case None
  then have "r = Inr None" "sh' = sh" using run by (auto simp: try_complete_catchup_def act_stop)
  then show ?thesis using None by (simp add: worker_phase_def)
next
  case (Some h)
  show ?thesis
  proof (cases "\<exists>a. ws_phase (wh_state h) = Catchup a \<and> a \<le> l")
    case False
    then have "try_complete_catchup ops t l sh = (Inr None, sh)"
      using Some by (cases "ws_phase (wh_state h)") (auto simp: try_complete_catchup_def act_stop)
    then have "r = Inr None" "sh' = sh" using run by simp_all
    then show ?thesis using False Some by (auto simp: worker_phase_def not_le)
  next
    case True
    then obtain a where a: "ws_phase (wh_state h) = Catchup a" "a \<le> l" by blast
    obtain r1 ws' s' where st: "set_and_store ops (SyncDone l) (wh_state h) (sh_store sh) = (r1, ws', s')"
      using prod_cases3 by blast
    have table: "ws_table (wh_state h) = t" using own Some by (simp add: own_handles_def)
    let ?sh = "sh \<lparr> sh_store := s', sh_pool := put_worker_state t ws' (sh_pool sh) \<rparr>"
    have res: "r = (case r1 of Inl e \<Rightarrow> Inl (Failed e) | Inr _ \<Rightarrow> Inr (Some ExitComplete))" "sh' = ?sh"
      using run a Some st table
      by (cases r1; simp add: try_complete_catchup_def store_worker_phase_def act_bind_def act_stop)+
    have "phase_of s' = (if is_ok r1 then (phase_of (sh_store sh))(t \<mapsto> SyncDone l) else phase_of (sh_store sh))"
      using set_and_store_phase [OF inv st] by (simp add: table)
    moreover have "ws_phase ws' = SyncDone l" using set_and_store_state [OF st] by (simp add: ws_set_def)
    ultimately show ?thesis
      using a Some by (cases r1) (simp_all add: res worker_phase_def put_worker_state_def)
  qed
qed

end

section \<open>The catch-up of a loop\<close>

text \<open>
  The events end with the commit that reached the catch-up position \<open>a\<close>: \<open>e\<close> is its end,
  all commits before it end below \<open>a\<close>, and every event belongs to a transaction below \<open>e\<close>.
\<close>

definition reached :: "lsn \<Rightarrow> lsn \<Rightarrow> event list \<Rightarrow> bool" where
  "reached a e es \<longleftrightarrow> es \<noteq> [] \<and> commit_end_of (last es) = Some e \<and>
     (\<forall>x \<in> set (ends (butlast es)). x < a) \<and> (\<forall>k \<in> set (keys_of es). sk_commit k < e)"

definition catching :: "table_id \<Rightarrow> lsn \<Rightarrow> 's apply_loop \<Rightarrow> bool" where
  "catching t a lp \<longleftrightarrow> own_handles (sh_pool (al_shared lp)) \<and> worker_phase t (al_shared lp) = Some (Catchup a) \<and>
     ((\<forall>x \<in> set (ends (al_produced lp)). x < a) \<or>
      ls_exit_intent (al_state lp) \<noteq> None \<and> (\<exists>e. reached a e (al_produced lp)))"

text \<open>Everything produced is acknowledged and belongs to transactions below \<open>l\<close>.\<close>

definition settled :: "lsn \<Rightarrow> 's apply_loop \<Rightarrow> bool" where
  "settled l lp \<longleftrightarrow> al_acked lp = al_produced lp \<and> \<not> has_unresolved_batch_work (al_state lp) \<and>
     l \<le> last_received_lsn (al_state lp) \<and> (\<forall>x \<in> set (ends (al_produced lp)). x \<le> l) \<and>
     (\<forall>k \<in> set (keys_of (al_produced lp)). sk_commit k < l)"

definition handed :: "('s \<Rightarrow> table_id \<Rightarrow> phase option) \<Rightarrow> table_id \<Rightarrow> lsn \<Rightarrow> lsn \<Rightarrow> 's apply_loop \<Rightarrow> bool" where
  "handed phase_of t a l lp \<longleftrightarrow> a \<le> l \<and> settled l lp \<and> ls_exit_intent (al_state lp) = Some ExitComplete \<and>
     worker_phase t (al_shared lp) = Some (SyncDone l) \<and> phase_of (sh_store (al_shared lp)) t = Some (SyncDone l)"

text \<open>
  What an iteration that began in shutdown state \<open>sd\<close> goes through: the loop catches up, or
  the catch-up has ended.
\<close>

definition caught ::
    "('s \<Rightarrow> table_id \<Rightarrow> phase option) \<Rightarrow> table_id \<Rightarrow> lsn \<Rightarrow> shutdown_state \<Rightarrow> 's apply_loop \<Rightarrow> bool" where
  "caught phase_of t a sd lp \<longleftrightarrow>
     catching t a lp \<and> (ls_exit_intent (al_state lp) = None \<longrightarrow> ls_shutdown (al_state lp) = sd) \<or>
     (\<exists>l. handed phase_of t a l lp) \<and> ls_shutdown (al_state lp) = sd"

text \<open>What these predicates depend on.\<close>

definition standing :: "'s apply_loop \<Rightarrow> 's shared \<times> event list \<times> event list \<times> exit_intent option \<times> _" where
  "standing lp = (al_shared lp, al_produced lp, al_acked lp, ls_exit_intent (al_state lp), view (al_state lp))"

lemma standing_eq:
  assumes "standing lp' = standing lp"
  shows "catching t a lp' = catching t a lp" "handed phase_of t a l lp' = handed phase_of t a l lp"
  using assms by (simp_all add: standing_def view_def catching_def handed_def settled_def last_received_lsn_def
      has_unresolved_batch_work_def has_pending_batch_def has_pending_flush_result_def)

abbreviation stands :: "('s apply_loop, 'a) action \<Rightarrow> bool" where
  "stands m \<equiv> \<forall>x sd. keeps (\<lambda>lp. standing lp = x \<and> ls_shutdown (al_state lp) = sd) m"

lemma stands_state: "(\<And>st. view (f st) = view st) \<Longrightarrow> (\<And>st. ls_exit_intent (f st) = ls_exit_intent st) \<Longrightarrow>
   (\<And>st. ls_shutdown (f st) = ls_shutdown st) \<Longrightarrow> stands (st_modify f)"
  by (auto intro!: hoare_st_modify simp: standing_def)

lemma exit_simps [simp]:
  "ls_exit_intent (spawn_schema_cleanup cfg env sh st) = ls_exit_intent st"
  "ls_shutdown (spawn_schema_cleanup cfg env sh st) = ls_shutdown st"
proof -
  have collect: "ls_exit_intent (collect_finished_schema_cleanup_task env st) = ls_exit_intent st \<and>
      ls_shutdown (collect_finished_schema_cleanup_task env st) = ls_shutdown st" for st
    by (simp add: collect_finished_schema_cleanup_task_def handle_schema_cleanup_task_result_def finish_cleanup_run_def
        split: option.split prod.split)
  have start: "ls_exit_intent (snd (try_start_schema_cleanup now st)) = ls_exit_intent st \<and>
      ls_shutdown (snd (try_start_schema_cleanup now st)) = ls_shutdown st" for now st
    by (simp add: try_start_schema_cleanup_def split: option.split)
  obtain b st2 where st2: "try_start_schema_cleanup (le_now env) (collect_finished_schema_cleanup_task env st) = (b, st2)"
    by (cases "try_start_schema_cleanup (le_now env) (collect_finished_schema_cleanup_task env st)")
  have "ls_exit_intent st2 = ls_exit_intent st \<and> ls_shutdown st2 = ls_shutdown st"
    using start [of "le_now env" "collect_finished_schema_cleanup_task env st"] st2 collect by simp
  then show "ls_exit_intent (spawn_schema_cleanup cfg env sh st) = ls_exit_intent st"
    "ls_shutdown (spawn_schema_cleanup cfg env sh st) = ls_shutdown st"
    by (simp_all add: spawn_schema_cleanup_def Let_def st2 collect finish_cleanup_run_def split: bool.split sum.split option.split)
qed

lemma stands_send: "stands (send_effective_status cfg env force ty)"
  unfolding hoare_def send_effective_status_def send_status_update_def maybe_spawn_schema_cleanup_def
  by (auto simp: act_bind_def act_stop standing_def split: sum.splits prod.splits status_update_result.splits)

lemma stands_keep_alive: "stands (send_periodic_keep_alive cfg env)"
  unfolding send_periodic_keep_alive_def
  by (intro allI keeps_bind stands_send [rule_format] stands_state [rule_format])
    (simp, simp_all add: reset_keep_alive_deadline_def)

lemma stands_result:
  assumes "stands m" "m lp = (r, lp')"
  shows "standing lp' = standing lp \<and> ls_shutdown (al_state lp') = ls_shutdown (al_state lp)"
proof -
  have k: "keeps (\<lambda>lq. standing lq = standing lp \<and> ls_shutdown (al_state lq) = ls_shutdown (al_state lp)) m"
    using assms(1) by blast
  show ?thesis
  proof (cases r)
    case (Inl e)
    then show ?thesis using hoareD(2) [OF k _, of lp e lp'] assms(2) by simp
  next
    case (Inr x)
    then show ?thesis using hoareD(1) [OF k _, of lp x lp'] assms(2) by simp
  qed
qed

lemma stands_catching:
  assumes "stands m"
  shows "hoare (\<lambda>lp. catching t a lp \<and> ls_shutdown (al_state lp) = sd) m
     (\<lambda>_ lp. catching t a lp \<and> ls_shutdown (al_state lp) = sd) (\<lambda>_. True)"
  unfolding hoare_def
proof (intro allI impI)
  fix lp r lp'
  assume "catching t a lp \<and> ls_shutdown (al_state lp) = sd" "m lp = (r, lp')"
  moreover have "standing lp' = standing lp \<and> ls_shutdown (al_state lp') = ls_shutdown (al_state lp)"
    using stands_result [OF assms \<open>m lp = (r, lp')\<close>] by simp
  ultimately show "case r of Inl _ \<Rightarrow> True | Inr x \<Rightarrow> catching t a lp' \<and> ls_shutdown (al_state lp') = sd"
    using standing_eq(1) [of lp' lp t a] by (simp split: sum.split)
qed

lemma stands_handed:
  assumes "stands m"
  shows "hoare (handed phase_of t a l) m (\<lambda>_. handed phase_of t a l) (\<lambda>_. True)"
  unfolding hoare_def
proof (intro allI impI)
  fix lp r lp'
  assume "handed phase_of t a l lp" "m lp = (r, lp')"
  moreover have "standing lp' = standing lp"
    using stands_result [OF assms \<open>m lp = (r, lp')\<close>] by simp
  ultimately show "case r of Inl _ \<Rightarrow> True | Inr x \<Rightarrow> handed phase_of t a l lp'"
    using standing_eq(2) [of lp' lp phase_of t a l] by (simp split: sum.split)
qed

lemma catching_flush_batch:
  "hoare (\<lambda>lp. catching t a lp \<and> ls_shutdown (al_state lp) = sd) (flush_batch env)
     (\<lambda>_ lp. catching t a lp \<and> ls_shutdown (al_state lp) = sd) (\<lambda>_. True)"
  by (auto simp: hoare_def flush_batch_eq catching_def flushed_def pause_processing_def split: if_splits sum.splits)

lemma handed_flush_batch:
  "hoare (\<lambda>lp. handed phase_of t a l lp \<and> ls_shutdown (al_state lp) = sd) (flush_batch env)
     (\<lambda>_ lp. handed phase_of t a l lp \<and> ls_shutdown (al_state lp) = sd) (\<lambda>_. True)"
  by (auto simp: hoare_def flush_batch_eq handed_def settled_def has_unresolved_batch_work_def)

lemma hoare_disj: "hoare P m Q E \<Longrightarrow> hoare P' m Q' E \<Longrightarrow> hoare (\<lambda>s. P s \<or> P' s) m (\<lambda>x s. Q x s \<or> Q' x s) E"
  unfolding hoare_def by (fastforce split: sum.splits)

lemma hoare_ex: "(\<And>l. hoare (P l) m (Q l) E) \<Longrightarrow> hoare (\<lambda>s. \<exists>l. P l s) m (\<lambda>x s. \<exists>l. Q l x s) E"
  unfolding hoare_def by (fastforce split: sum.splits)

lemma caught_flush_batch:
  "hoare (\<lambda>lp. caught phase_of t a sd lp \<and> ls_shutdown (al_state lp) = sd) (flush_batch env)
     (\<lambda>_. caught phase_of t a sd) (\<lambda>_. True)"
  by (rule hoare_weaken [OF hoare_disj [OF catching_flush_batch [of t a sd]
        hoare_ex [OF handed_flush_batch [of phase_of t a _ sd]]]]) (auto simp: caught_def)

lemma exit_recorded:
  "ls_exit_intent (record_exit_intent (Some ExitComplete) st) = Some ExitComplete"
  "ls_exit_intent (record_exit_intent None st) = ls_exit_intent st"
  "ls_exit_intent st \<noteq> None \<Longrightarrow> ls_exit_intent (record_exit_intent i st) \<noteq> None"
  "ls_shutdown (record_exit_intent i st) = ls_shutdown st"
proof -
  have "exit_merge x ExitComplete = ExitComplete" for x by (cases x) simp_all
  then show "ls_exit_intent (record_exit_intent (Some ExitComplete) st) = Some ExitComplete"
    by (simp add: record_exit_intent_def split: option.split)
qed (auto simp: record_exit_intent_def split: option.split)

text \<open>A flush that reaches the catch-up position was the last one.\<close>

lemma reached_ends: "reached a e es \<Longrightarrow> ends es = ends (butlast es) @ [e]"
  using ends_simps(2) [of "butlast es" "[last es]"] by (simp add: reached_def)

lemma reached_flushed:
  assumes safe: "safe sinv progress lp" and r: "reached a e (al_produced lp)"
    and ce: "ce \<in> set (ends (al_unacked lp))" "a \<le> ce"
  shows "ls_batch (al_state lp) = [] \<and> ce = e"
proof -
  have eq: "al_produced lp = al_acked lp @ al_unacked lp @ ls_batch (al_state lp)" using safe by (simp add: safe_def)
  have below: "ce \<notin> set (ends (butlast (al_produced lp)))" using r ce(2) by (auto simp: reached_def)
  have "ls_batch (al_state lp) = []"
  proof (rule ccontr)
    assume "ls_batch (al_state lp) \<noteq> []"
    then have "butlast (al_produced lp) = al_acked lp @ al_unacked lp @ butlast (ls_batch (al_state lp))"
      by (simp add: eq butlast_append)
    then show False using below ce(1) by simp
  qed
  moreover have "ce \<in> set (ends (al_produced lp))" using ce(1) by (simp add: eq)
  ultimately show ?thesis using below reached_ends [OF r] by simp
qed

lemma settled_flushed:
  assumes run: "running sinv progress lp" and c: "catching t a lp"
    and ce: "ce \<in> set (ends (al_unacked lp))" "a \<le> ce"
  shows "settled ce (confirmed d s' (acknowledged lp))"
proof -
  have safe: "safe sinv progress lp" using run by (simp add: running_def)
  have eq: "al_produced lp = al_acked lp @ al_unacked lp @ ls_batch (al_state lp)" using safe by (simp add: safe_def)
  then have "ce \<in> set (ends (al_produced lp))" using ce(1) by simp
  then obtain e where e: "reached a e (al_produced lp)" using c ce(2) by (auto simp: catching_def)
  have last: "ls_batch (al_state lp) = []" "e = ce" using reached_flushed [OF safe e ce] by simp_all
  have "x \<le> ce" if "x \<in> set (ends (al_produced lp))" for x
    using that e ce(2) by (auto simp: reached_ends [OF e] last reached_def)
  moreover have "ce \<le> last_received_lsn (al_state lp)"
    using safe \<open>ce \<in> set (ends (al_produced lp))\<close> by (simp add: safe_def)
  ultimately show ?thesis
    using e last eq by (simp add: settled_def reached_def has_unresolved_batch_work_def has_pending_batch_def
        has_pending_flush_result_def acknowledged_def resume_processing_def confirmed_def last_received_lsn_def
        update_last_flush_lsn_def)
qed

lemma catching_confirmed:
  "catching t a lp \<Longrightarrow> catching t a (confirmed d s' lp)" "catching t a lp \<Longrightarrow> catching t a (acknowledged lp)"
  by (simp_all add: catching_def confirmed_def acknowledged_def resume_processing_def worker_phase_def)

text \<open>Handling a message leaves these parts alone, except for the exit intent of a commit.\<close>

definition quiet :: "'s apply_loop \<Rightarrow> event list \<times> exit_intent option \<times> shutdown_state \<times> worker_pool" where
  "quiet lp = (al_produced lp, ls_exit_intent (al_state lp), ls_shutdown (al_state lp), sh_pool (al_shared lp))"

abbreviation silent :: "_ \<Rightarrow> ('s apply_loop, 'a) action \<Rightarrow> bool" where
  "silent x m \<equiv> keeps (\<lambda>lp. quiet lp = x) m"

lemma silent_same: "(\<And>lp. \<exists>r. m lp = (r, lp)) \<Longrightarrow> silent x m"
  unfolding hoare_def by (auto split: sum.split) (metis Pair_inject)+

lemma silent_modify: "(\<And>st. ls_exit_intent (f st) = ls_exit_intent st) \<Longrightarrow> (\<And>st. ls_shutdown (f st) = ls_shutdown st) \<Longrightarrow>
   silent x (st_modify f)"
  by (rule hoare_st_modify) (simp add: quiet_def)

lemma silent_ordinal: "silent x (st_take next_tx_ordinal)"
  by (rule hoare_st_take) (auto simp: next_tx_ordinal_def quiet_def split: option.splits)

lemma silent_store: "silent x (on_store f)" "silent x (on_cache g)"
  by (auto simp: hoare_def on_store_def on_cache_def on_shared_def act_on_def act_call_def quiet_def split: prod.splits sum.split)

abbreviation no_commit :: "_ \<Rightarrow> handle_message_result \<Rightarrow> 's apply_loop \<Rightarrow> bool" where
  "no_commit x r lp \<equiv> quiet lp = x \<and> hr_end_lsn r = None"

lemma no_commit_returns:
  "hoare (\<lambda>lp. quiet lp = x) (act_return no_event) (no_commit x) E"
  "hoare (\<lambda>lp. quiet lp = x) (act_return (return_event e)) (no_commit x) E"
  by (simp_all add: hoare_return no_event_def return_event_def)

lemma no_commit_transaction:
  "(\<And>l. hoare (\<lambda>lp. quiet lp = x) (f l) (no_commit x) (\<lambda>lp. quiet lp = x)) \<Longrightarrow>
   hoare (\<lambda>lp. quiet lp = x) (in_transaction f) (no_commit x) (\<lambda>lp. quiet lp = x)"
  unfolding in_transaction_def by (rule hoare_chain_get) (auto intro: hoare_fail split: option.split)

lemmas no_commit_rules = no_commit_returns no_commit_transaction hoare_chain_get hoare_chain [OF silent_ordinal]
  hoare_chain [OF silent_store(1)] hoare_chain [OF silent_store(2)] hoare_chain [OF silent_same]

lemma no_commit_rows:
  "hoare (\<lambda>lp. quiet lp = x) (handle_row_message cfg t parse) (no_commit x) (\<lambda>lp. quiet lp = x)"
  "hoare (\<lambda>lp. quiet lp = x) (handle_truncate_message cfg s tb) (no_commit x) (\<lambda>lp. quiet lp = x)"
  unfolding handle_row_message_def handle_truncate_message_def by (auto intro!: no_commit_rules)

lemma no_commit_schema:
  "hoare (\<lambda>lp. quiet lp = x) (handle_relation_message cfg s rb) (no_commit x) (\<lambda>lp. quiet lp = x)"
  "hoare (\<lambda>lp. quiet lp = x) (handle_message cfg s pre content) (no_commit x) (\<lambda>lp. quiet lp = x)"
  unfolding handle_relation_message_def handle_message_def Let_def by (auto intro!: no_commit_rules)

lemma no_commit_begin:
  "hoare (\<lambda>lp. quiet lp = x) (handle_begin_message env s b) (no_commit x) (\<lambda>lp. quiet lp = x)"
  unfolding handle_begin_message_def Let_def
  by (rule hoare_chain [OF silent_modify]) (auto intro!: no_commit_rules simp: reset_tx_ordinal_def)

lemma no_commit_message:
  assumes "\<And>b. m \<noteq> LCommit b"
  shows "hoare (\<lambda>lp. quiet lp = x) (handle_logical_replication_message cfg env s m) (no_commit x) (\<lambda>lp. quiet lp = x)"
  unfolding handle_logical_replication_message_def
  by (rule hoare_chain [OF silent_modify])
    (use assms in \<open>auto intro!: no_commit_returns no_commit_begin no_commit_schema no_commit_rows
       simp: handle_insert_message_def handle_update_message_def handle_delete_message_def split: logical_message.split\<close>)

text \<open>
  What is known when a message has been handled and its event not yet added: the loop goes on
  below the catch-up position, or it has just seen the commit that reached it.
\<close>

definition heard :: "table_id \<Rightarrow> lsn \<Rightarrow> shutdown_state \<Rightarrow> handle_message_result \<Rightarrow> 's apply_loop \<Rightarrow> bool" where
  "heard t a sd r lp \<longleftrightarrow> own_handles (sh_pool (al_shared lp)) \<and> worker_phase t (al_shared lp) = Some (Catchup a) \<and>
     ls_shutdown (al_state lp) = sd \<and> (\<forall>x \<in> set (ends (al_produced lp)). x < a) \<and>
     (ls_exit_intent (al_state lp) = None \<and> (\<forall>x. hr_end_lsn r = Some x \<longrightarrow> x < a) \<or>
      ls_exit_intent (al_state lp) \<noteq> None \<and> (\<exists>ev. hr_event r = Some (EvCommit ev) \<and> ep_commit ev < ce_end ev))"

abbreviation listening :: "table_id \<Rightarrow> lsn \<Rightarrow> shutdown_state \<Rightarrow> 's apply_loop \<Rightarrow> bool" where
  "listening t a sd lp \<equiv> catching t a lp \<and> ls_exit_intent (al_state lp) = None \<and> ls_shutdown (al_state lp) = sd"

lemma listening_quiet: "quiet lp' = quiet lp \<Longrightarrow> listening t a sd lp' = listening t a sd lp"
  by (auto simp: quiet_def catching_def worker_phase_def)

lemma listening_heard: "listening t a sd lp \<Longrightarrow> hr_end_lsn r = None \<Longrightarrow> heard t a sd r lp"
  by (auto simp: heard_def catching_def)

lemma commit_heard:
  assumes cfg: "lc_worker cfg = TableSync t" and less: "cb_commit_lsn b < cb_end_lsn b"
  shows "hoare (listening t a sd) (handle_commit_message cfg env s b) (heard t a sd) (\<lambda>_. True)"
  unfolding hoare_def
proof (intro allI impI)
  fix lp r lp'
  assume pre: "listening t a sd lp" and eq: "handle_commit_message cfg env s b lp = (r, lp')"
  let ?i = "sync_after_commit t (cb_end_lsn b) (al_shared lp)"
  have i: "?i = (if a \<le> cb_end_lsn b then Some ExitComplete else None)"
    using pre by (simp add: sync_after_commit_def catching_def)
  show "case r of Inl _ \<Rightarrow> True | Inr x \<Rightarrow> heard t a sd x lp'"
  proof (cases r)
    case (Inr x)
    then have "ls_remote_final (al_state lp) = Some (cb_commit_lsn b)"
      using eq by (auto simp: handle_commit_message_def act_bind_def st_take_def act_stop Let_def split: option.splits if_splits)
    moreover obtain n m where n: "\<And>st. ls_next_ordinal st = ls_next_ordinal (al_state lp) \<Longrightarrow>
        next_tx_ordinal st = (n, st \<lparr> ls_next_ordinal := m \<rparr>)"
      by (cases "checked_add (ls_next_ordinal (al_state lp)) 1") (auto simp: next_tx_ordinal_def)
    ultimately have "hr_event x = Some (EvCommit (parse_event_from_commit_message s (cb_commit_lsn b) n b))"
        "hr_end_lsn x = Some (cb_end_lsn b)" "quiet lp' = (al_produced lp, ?i, sd, sh_pool (al_shared lp))"
      using eq Inr pre by (auto simp: handle_commit_message_def process_syncing_tables_after_commit_event_def cfg act_bind_def
          st_take_def st_modify_def act_stop Let_def quiet_def record_exit_intent_def i split: if_splits)
    then show ?thesis using pre less i Inr
      by (auto simp: heard_def catching_def quiet_def worker_phase_def parse_event_from_commit_message_def not_le)
  qed simp
qed

lemma stands_listening:
  assumes "stands m"
  shows "hoare (listening t a sd) m (\<lambda>_. listening t a sd) (\<lambda>_. True)"
  unfolding hoare_def
proof (intro allI impI)
  fix lp r lp'
  assume pre: "listening t a sd lp" and eq: "m lp = (r, lp')"
  have "quiet lp' = quiet lp" using stands_result [OF assms eq] by (simp add: standing_def quiet_def)
  then show "case r of Inl _ \<Rightarrow> True | Inr x \<Rightarrow> listening t a sd lp'"
    using listening_quiet [of lp' lp t a sd] pre by (simp split: sum.split)
qed

lemma silent_listening:
  assumes "\<And>x. hoare (\<lambda>lp. quiet lp = x) m (\<lambda>r lp. quiet lp = x \<and> Q r) (E x)"
  shows "hoare (listening t a sd) m (\<lambda>r lp. listening t a sd lp \<and> Q r) (\<lambda>_. True)"
  unfolding hoare_def
proof (intro allI impI)
  fix lp r lp'
  assume pre: "listening t a sd lp" and eq: "m lp = (r, lp')"
  show "case r of Inl _ \<Rightarrow> True | Inr x \<Rightarrow> listening t a sd lp' \<and> Q x"
    using hoareD(1) [OF assms [of "quiet lp"], of lp _ lp'] eq pre listening_quiet [of lp' lp t a sd] by (cases r) auto
qed

lemma listening_modify:
  "(\<And>st. ls_exit_intent (f st) = ls_exit_intent st) \<Longrightarrow> (\<And>st. ls_shutdown (f st) = ls_shutdown st) \<Longrightarrow>
   hoare (listening t a sd) (st_modify f) (\<lambda>_. listening t a sd) (\<lambda>_. True)"
  by (rule hoare_st_modify) (auto simp: catching_def)

lemma logical_heard:
  assumes cfg: "lc_worker cfg = TableSync t" and ok: "\<And>b. m = LCommit b \<Longrightarrow> cb_commit_lsn b < cb_end_lsn b"
  shows "hoare (listening t a sd) (handle_logical_replication_message cfg env s m) (heard t a sd) (\<lambda>_. True)"
proof (cases "\<exists>b. m = LCommit b")
  case True
  then obtain b where b: "m = LCommit b" by blast
  have count: "hoare (listening t a sd) (st_modify (\<lambda>st. st \<lparr> ls_tx_events := ls_tx_events st + 1 \<rparr>))
      (\<lambda>_. listening t a sd) (\<lambda>_. True)"
    by (rule listening_modify) simp_all
  show ?thesis
    unfolding handle_logical_replication_message_def b logical_message.case
    by (rule hoare_chain [OF count commit_heard [OF cfg ok [OF b]]])
next
  case False
  have "hoare (listening t a sd) (handle_logical_replication_message cfg env s m)
      (\<lambda>r lp. listening t a sd lp \<and> hr_end_lsn r = None) (\<lambda>_. True)"
    by (rule silent_listening [OF no_commit_message]) (use False in blast)
  then show ?thesis by (rule hoare_weaken) (auto intro: listening_heard)
qed

lemma message_heard:
  assumes cfg: "lc_worker cfg = TableSync t"
  shows "hoare (\<lambda>lp. listening t a sd lp \<and> stream_ok message (al_state lp)) (handle_replication_message cfg env message)
     (heard t a sd) (\<lambda>_. True)"
proof (cases message)
  case (XLogData s e m)
  have move: "hoare (listening t a sd) (st_modify (\<lambda>st. st \<lparr> ls_progress :=
      update_last_received_lsn e (update_last_received_lsn s (ls_progress st)) \<rparr>)) (\<lambda>_. listening t a sd) (\<lambda>_. True)"
    by (rule listening_modify) simp_all
  show ?thesis
  proof (cases "\<forall>b. m = LCommit b \<longrightarrow> cb_commit_lsn b < cb_end_lsn b")
    case True
    have "hoare (listening t a sd) (handle_replication_message cfg env message) (heard t a sd) (\<lambda>_. True)"
      unfolding handle_replication_message_def XLogData replication_message.case
      by (rule hoare_chain [OF move logical_heard [OF cfg]]) (use True in blast)
    then show ?thesis by (rule hoare_weaken) simp_all
  qed (auto simp: XLogData hoare_def)
next
  case (PrimaryKeepAlive e reply)
  have move: "hoare (listening t a sd) (st_modify (\<lambda>st. st \<lparr> ls_progress := update_last_received_lsn e (ls_progress st) \<rparr>))
      (\<lambda>_. listening t a sd) (\<lambda>_. True)"
    "hoare (listening t a sd) (st_modify (reset_keep_alive_deadline (le_now env) (lc_keep_alive cfg)))
      (\<lambda>_. listening t a sd) (\<lambda>_. True)"
    by (rule listening_modify; simp add: reset_keep_alive_deadline_def)+
  have "hoare (listening t a sd) (handle_replication_message cfg env message) (heard t a sd) (\<lambda>_. True)"
    unfolding handle_replication_message_def PrimaryKeepAlive replication_message.case
    by (intro hoare_chain [OF move(1)] hoare_chain [OF stands_listening [OF stands_send]] hoare_chain [OF move(2)]
        hoare_return listening_heard) (simp_all add: no_event_def)
  then show ?thesis by (rule hoare_weaken) simp_all
next
  case OtherMessage
  then show ?thesis
    by (auto simp: handle_replication_message_def no_event_def intro!: hoare_return listening_heard)
qed

text \<open>Adding the event: a commit that reached the position is the last event.\<close>

lemma added_catching:
  assumes ok: "result_ok r lp" and heard: "heard t a sd r lp" and e: "hr_event r = Some e"
  shows "catching t a (event_added cfg now e (hr_end_lsn r) lp) \<and>
     ls_shutdown (al_state (event_added cfg now e (hr_end_lsn r) lp)) = sd"
proof -
  let ?lp = "event_added cfg now e (hr_end_lsn r) lp"
  have exit: "ls_exit_intent (al_state ?lp) = ls_exit_intent (al_state lp)" and sd: "ls_shutdown (al_state ?lp) = sd"
    using heard by (simp_all add: heard_def event_added_def set_flush_deadline_if_needed_def update_last_commit_end_lsn_def
        add_event_to_batch_def split: option.split)
  have below: "\<forall>x \<in> set (ends (al_produced lp)). x < a" and own: "own_handles (sh_pool (al_shared lp))"
      "worker_phase t (al_shared lp) = Some (Catchup a)" using heard by (simp_all add: heard_def)
  have end_lsn: "hr_end_lsn r = commit_end_of e" using ok e by (simp add: result_ok_def)
  show ?thesis
  proof (cases "ls_exit_intent (al_state lp) = None")
    case True
    then have "x < a" if "commit_end_of e = Some x" for x using heard that end_lsn by (simp add: heard_def)
    then show ?thesis using below own sd by (auto simp: catching_def added_state split: option.splits)
  next
    case False
    then obtain ev where ev: "e = EvCommit ev" "ep_commit ev < ce_end ev" using heard e by (auto simp: heard_def)
    obtain k where k: "event_key e = Some k" "\<forall>k' \<in> set (keys_of (al_produced lp)). key_less k' k"
      using ok e by (auto simp: result_ok_def)
    then have "sk_commit k' < ce_end ev" if "k' \<in> set (keys_of (al_produced lp @ [e]))" for k'
      using that ev by (auto simp: key_less_def)
    then have "reached a (ce_end ev) (al_produced lp @ [e])" using below ev(1) by (simp add: reached_def)
    then show ?thesis using own False exit sd by (auto simp: catching_def added_state)
  qed
qed

context pipeline_store
begin

lemma complete_catching:
  "hoare (\<lambda>lp. running inv (durable w) lp \<and> catching t a lp \<and> ls_shutdown (al_state lp) = sd \<and> (a \<le> l \<longrightarrow> settled l lp))
     (act_bind (on_shared (try_complete_catchup ops t l)) (\<lambda>i. st_modify (record_exit_intent i)))
     (\<lambda>_ lp. caught phase_of t a sd lp \<and> ls_shutdown (al_state lp) = sd) (\<lambda>_. True)"
  unfolding hoare_def
proof (intro allI impI)
  fix lp r lp'
  assume pre: "running inv (durable w) lp \<and> catching t a lp \<and> ls_shutdown (al_state lp) = sd \<and> (a \<le> l \<longrightarrow> settled l lp)"
    and eq: "act_bind (on_shared (try_complete_catchup ops t l)) (\<lambda>i. st_modify (record_exit_intent i)) lp = (r, lp')"
  obtain rc sh' where c: "try_complete_catchup ops t l (al_shared lp) = (rc, sh')"
    by (cases "try_complete_catchup ops t l (al_shared lp)")
  have "inv (sh_store (al_shared lp))" "own_handles (sh_pool (al_shared lp))"
      and a: "worker_phase t (al_shared lp) = Some (Catchup a)"
    using pre by (simp_all add: running_def safe_def catching_def)
  note effect = try_complete_effect [OF this(1,2) c]
  show "case r of Inl _ \<Rightarrow> True | Inr x \<Rightarrow> caught phase_of t a sd lp' \<and> ls_shutdown (al_state lp') = sd"
  proof (cases rc)
    case (Inl e)
    then show ?thesis using eq c by (auto simp: act_bind_def on_shared_def act_on_def)
  next
    case (Inr i)
    then have lp': "r = Inr ()" "lp' = lp \<lparr> al_shared := sh', al_state := record_exit_intent i (al_state lp) \<rparr>"
      using eq c by (simp_all add: act_bind_def on_shared_def act_on_def st_modify_def)
    show ?thesis
    proof (cases i)
      case None
      then have "sh' = al_shared lp" using effect Inr by simp
      then have "lp' = lp" using lp' None by (simp add: record_exit_intent_def)
      then show ?thesis using pre lp'(1) by (simp add: caught_def)
    next
      case (Some x)
      then have sh': "x = ExitComplete" "phase_of (sh_store sh') t = Some (SyncDone l)"
          "worker_phase t sh' = Some (SyncDone l)" "a \<le> l"
        using effect Inr a by auto
      have "settled l lp'"
        using pre sh'(4) lp'(2) view_simps(1) [of i "al_state lp"]
        by (simp add: settled_def view_def last_received_lsn_def has_unresolved_batch_work_def has_pending_batch_def
            has_pending_flush_result_def)
      then have "handed phase_of t a l lp'" using sh' Some lp'(2) by (simp add: handed_def exit_recorded)
      then show ?thesis using pre lp' by (auto simp: caught_def exit_recorded)
    qed
  qed
qed

lemma idle_caught:
  assumes cfg: "lc_ops cfg = ops" "lc_worker cfg = TableSync t"
  shows "hoare (\<lambda>lp. running inv (durable w) lp \<and> caught phase_of t a sd lp)
     (maybe_process_syncing_tables_when_idle cfg waits) (\<lambda>_. caught phase_of t a sd) (\<lambda>_. True)"
  unfolding maybe_process_syncing_tables_when_idle_def process_syncing_tables_when_idle_def
proof (intro hoare_bind_get)
  fix intent
  let ?P = "\<lambda>lp. running inv (durable w) lp \<and> caught phase_of t a sd lp"
  have settled: "settled (effective_flush_lsn (al_state lp)) lp" if run: "running inv (durable w) lp" and idle: "is_idle (al_state lp)" for lp
  proof -
    have "al_unacked lp = []" "ls_batch (al_state lp) = []" "ls_remote_final (al_state lp) = None"
      using that by (auto simp: running_def is_idle_def handling_transaction_def has_unresolved_batch_work_def
          has_pending_batch_def has_pending_flush_result_def batch_ok_def batch_state_ok_def)
    then show ?thesis
      using that by (auto simp: settled_def running_def safe_def tx_ok_def effective_flush_lsn_def is_idle_def last_received_lsn_def)
  qed
  have step: "hoare (\<lambda>lp. (?P lp \<and> ls_exit_intent (al_state lp) = None) \<and> is_idle (al_state lp) \<and> effective_flush_lsn (al_state lp) = l)
      (act_bind (on_shared (try_complete_catchup ops t l)) (\<lambda>i. st_modify (record_exit_intent i)))
      (\<lambda>_. caught phase_of t a sd) (\<lambda>_. True)" for l
    by (rule hoare_weaken [OF complete_catching [where w = w and a = a and sd = sd]])
      (auto simp: caught_def handed_def dest: settled)
  show "hoare (\<lambda>lp. ?P lp \<and> ls_exit_intent (al_state lp) = intent)
      (if intent \<noteq> None then act_return () else act_bind (act_get al_state) (\<lambda>st.
         if \<not> is_idle st then act_return ()
         else let current = effective_flush_lsn st in
           act_bind (case lc_worker cfg of
               Apply \<Rightarrow> on_shared (apply_when_idle (lc_ops cfg) waits current)
             | TableSync own \<Rightarrow> on_shared (try_complete_catchup (lc_ops cfg) own current))
           (\<lambda>intent. st_modify (record_exit_intent intent))))
      (\<lambda>_. caught phase_of t a sd) (\<lambda>_. True)"
    unfolding cfg Let_def
    by (cases intent) (auto intro!: hoare_return hoare_bind_get hoare_weaken [OF step])
qed

lemma after_flush_caught:
  assumes cfg: "lc_ops cfg = ops" "lc_worker cfg = TableSync t"
    and run: "running inv (durable (TableSync t)) lp" and c: "catching t a lp"
    and ce: "last_opt (ends (al_unacked lp)) = Some ce" and sd: "ls_shutdown (al_state lp) = sd"
    and eq: "process_syncing_tables_after_flush cfg ce (acknowledged lp) = (Inr u, lp')"
  shows "caught phase_of t a sd lp' \<and> ls_shutdown (al_state lp') = sd"
proof -
  let ?lp = "acknowledged lp" and ?w = "TableSync t"
  let ?s = "sh_store (al_shared ?lp)"
  have runA: "running inv (durable ?w) ?lp" by (rule running_acknowledged [OF run])
  have in_u: "ce \<in> set (ends (al_unacked lp))" by (rule last_opt_in [OF ce])
  obtain rl s' where up: "so_upsert_progress ops ?w ce ?s = (rl, s')" by (cases "so_upsert_progress ops ?w ce ?s")
  have s: "inv ?s" using runA by (simp add: running_def safe_def)
  obtain d where d: "rl = Inr d"
    using eq up by (cases rl) (simp_all add: process_syncing_tables_after_flush_def on_store_def on_shared_def act_on_def
        act_call_def cfg act_bind_def)
  let ?lq = "confirmed d s' ?lp"
  have floor: "rp_flush (ls_progress (al_state lp)) < ce"
    using run in_u by (auto simp: running_def safe_def floor_lsn_def)
  have old: "durable ?w ?s = Some x \<Longrightarrow> x < ce" for x
    using run floor by (auto simp: running_def safe_def acknowledged_def)
  have stored: "progress_of s' ?w = Some d" "d = ce"
    using upsert_progress [OF s up] d old by (auto simp: max_def not_le split: option.splits)
  have flush: "rp_flush (ls_progress (al_state ?lq)) = ce"
    using floor stored(2) by (simp add: max.absorb2 acknowledged_def resume_processing_def)
  have "running inv (durable ?w) ?lq"
    by (rule running_confirmed [OF runA confirmable_acknowledged [OF run ce] upsert_inv [OF s up] stored(1)])
      (simp add: stored(2))
  moreover have "catching t a ?lq" by (intro catching_confirmed c)
  moreover have "ls_shutdown (al_state ?lq) = sd"
    using sd by (simp add: confirmed_def acknowledged_def resume_processing_def)
  ultimately have pre: "running inv (durable ?w) ?lq \<and> catching t a ?lq \<and> ls_shutdown (al_state ?lq) = sd \<and>
      (a \<le> ce \<longrightarrow> settled ce ?lq)"
    using settled_flushed [OF run c in_u] by blast
  have "act_bind (on_shared (try_complete_catchup ops t ce)) (\<lambda>i. st_modify (record_exit_intent i)) ?lq = (Inr u, lp')"
    using eq up d flush by (simp add: process_syncing_tables_after_flush_def on_store_def on_shared_def act_on_def
        act_call_def cfg act_bind_def st_modify_def confirmed_def)
  then show ?thesis using hoareD(1) [OF complete_catching pre] by blast
qed

lemma flush_result_caught:
  assumes cfg: "lc_ops cfg = ops" "lc_worker cfg = TableSync t"
  shows "hoare (\<lambda>lp. running inv (durable (TableSync t)) lp \<and> catching t a lp \<and> ls_shutdown (al_state lp) = sd \<and>
       flush_ready (al_state lp) = Some c) (handle_flush_result cfg env c) (\<lambda>_. caught phase_of t a sd) (\<lambda>_. True)"
  unfolding hoare_def
proof (intro allI impI)
  fix lp r lp'
  assume pre: "running inv (durable (TableSync t)) lp \<and> catching t a lp \<and> ls_shutdown (al_state lp) = sd \<and>
       flush_ready (al_state lp) = Some c"
    and eq: "handle_flush_result cfg env c lp = (r, lp')"
  obtain m res where c: "c = (m, res)" by (cases c)
  obtain b where b: "ls_pending_flush (al_state lp) = Some b" "m = ar_metadata b"
    using pre c by (auto simp: flush_ready_def dest: async_poll_metadata split: option.splits)
  obtain m' where m: "m = Some m'" "fm_commit_end m' = last_opt (ends (al_unacked lp))"
    using pre b by (auto simp: running_def batch_ok_def batch_state_ok_def)
  show "case r of Inl _ \<Rightarrow> True | Inr x \<Rightarrow> caught phase_of t a sd lp'"
  proof (cases r)
    case (Inr u)
    let ?after = "case fm_commit_end m' of None \<Rightarrow> act_return () | Some l \<Rightarrow> process_syncing_tables_after_flush cfg l"
    obtain v where v: "res = Inr v"
      using eq Inr c by (cases res) (simp_all add: handle_flush_result_def act_bind_def st_take_def act_try_def
          resume_processing_def)
    have "act_bind ?after (\<lambda>_. act_when (ls_paused (al_state lp)) (flush_batch env)) (acknowledged lp) = (Inr u, lp')"
      using eq Inr c v m(1) by (simp add: handle_flush_result_def act_bind_def st_take_def act_try_def failable_def
          resume_processing_def acknowledge_def acknowledged_def)
    then obtain y lq where step: "?after (acknowledged lp) = (Inr y, lq)"
      and rest: "act_when (ls_paused (al_state lp)) (flush_batch env) lq = (Inr u, lp')"
      by (auto simp: act_bind_eq_Inr)
    have "caught phase_of t a sd lq \<and> ls_shutdown (al_state lq) = sd"
    proof (cases "last_opt (ends (al_unacked lp))")
      case None
      then have "lq = acknowledged lp" using step m(2) by (simp add: act_stop)
      then show ?thesis
        using pre catching_confirmed(2) [of t a lp] by (simp add: caught_def acknowledged_def resume_processing_def)
    next
      case (Some ce)
      then show ?thesis using after_flush_caught [OF cfg _ _ Some, of a sd y lq] pre step m(2) by simp
    qed
    then show ?thesis
      using hoareD(1) [OF hoare_when [OF caught_flush_batch, of "ls_paused (al_state lp)"] _ rest] Inr by auto
  qed simp
qed

lemma message_caught:
  assumes cfg: "lc_ops cfg = ops" "lc_worker cfg = TableSync t" and waits: "waits_ok inv (durable w) (le_waits env)"
  shows "hoare (\<lambda>lp. (running inv (durable w) lp \<and> stream_ok message (al_state lp)) \<and>
       listening t a sd lp \<and> stream_ok message (al_state lp))
     (handle_replication_message_and_flush cfg env message)
     (\<lambda>_ lp. catching t a lp \<and> ls_shutdown (al_state lp) = sd) (\<lambda>_. True)"
  unfolding handle_replication_message_and_flush_def
proof (rule hoare_bind)
  show "hoare (\<lambda>lp. (running inv (durable w) lp \<and> stream_ok message (al_state lp)) \<and>
       listening t a sd lp \<and> stream_ok message (al_state lp)) (handle_replication_message cfg env message)
     (\<lambda>r lp. (running inv (durable w) lp \<and> result_ok r lp) \<and> heard t a sd r lp) (\<lambda>_. True)"
    by (rule hoare_weaken [OF hoare_conj [OF hoare_replication_message [OF cfg(1) waits] message_heard [OF cfg(2)]]])
      blast+
  fix r
  let ?Q = "\<lambda>lp. (running inv (durable w) lp \<and> result_ok r lp) \<and> heard t a sd r lp"
  let ?C = "\<lambda>lp. catching t a lp \<and> ls_shutdown (al_state lp) = sd"
  let ?add = "case hr_event r of
           None \<Rightarrow> act_return ()
         | Some e \<Rightarrow> act_bind (add_event cfg e) (\<lambda>_.
             act_bind (st_modify (update_last_commit_end_lsn (hr_end_lsn r))) (\<lambda>_.
               st_modify (set_flush_deadline_if_needed (le_now env) (lc_max_fill cfg))))"
  have add: "hoare ?Q ?add (\<lambda>_. ?C) (\<lambda>_. True)"
  proof (cases "hr_event r")
    case None
    then show ?thesis by (auto simp: catching_def heard_def intro!: hoare_return)
  next
    case (Some e)
    have "?add lp = (Inr (), event_added cfg (le_now env) e (hr_end_lsn r) lp)" for lp
      by (simp add: Some add_event_def st_modify_def event_added_def)
    then show ?thesis unfolding hoare_def using added_catching [OF _ _ Some, where t = t and a = a and sd = sd and now = "le_now env"] by auto
  qed
  show "hoare ?Q (act_bind ?add (\<lambda>_. act_bind (act_get (\<lambda>lp. le_budget env \<le> ls_batch_bytes (al_state lp)))
      (\<lambda>size_reached. act_when (size_reached \<or> hr_end_batch r) (flush_batch env)))) (\<lambda>_. ?C) (\<lambda>_. True)"
    by (rule hoare_bind [OF add], rule hoare_chain_get, rule hoare_when [OF catching_flush_batch])
qed

lemma shutdown_caught:
  "hoare (\<lambda>lp. catching t a lp \<and> ls_shutdown (al_state lp) = sd) (handle_shutdown_signal cfg env)
     (\<lambda>_. caught phase_of t a sd) (\<lambda>_. True)"
proof -
  let ?P = "\<lambda>lp. catching t a lp \<and> ls_shutdown (al_state lp) = sd"
  let ?L = "\<lambda>lp. catching t a lp \<and> ls_exit_intent (al_state lp) \<noteq> None"
  have leave: "hoare ?P (st_modify (record_exit_intent (Some ExitPause))) (\<lambda>_. ?L) (\<lambda>_. True)"
    by (rule hoare_st_modify) (auto simp: catching_def record_exit_intent_def split: option.splits)
  have mark: "hoare ?L (st_modify (\<lambda>st. st \<lparr> ls_shutdown := x \<rparr>)) (\<lambda>_. ?L) (\<lambda>_. True)" for x
    by (rule hoare_st_modify) (auto simp: catching_def)
  have send: "hoare ?L (send_effective_status cfg env force ty) (\<lambda>_. ?L) (\<lambda>_. True)" for force ty
    unfolding hoare_def
  proof (intro allI impI)
    fix lp r lp'
    assume pre: "?L lp" and eq: "send_effective_status cfg env force ty lp = (r, lp')"
    have "standing lp' = standing lp" using stands_result [OF stands_send eq] by simp
    then have "?L lp'" using pre standing_eq(1) [of lp' lp t a] by (simp add: standing_def)
    then show "case r of Inl _ \<Rightarrow> True | Inr x \<Rightarrow> ?L lp'" by (simp split: sum.split)
  qed
  have drain: "hoare ?L (act_bind (act_get (\<lambda>lp. has_unresolved_batch_work (al_state lp))) (\<lambda>unresolved.
           if unresolved then st_modify (\<lambda>st. st \<lparr> ls_shutdown := DrainingForShutdown \<rparr>)
           else initiate_graceful_shutdown cfg env)) (\<lambda>_. ?L) (\<lambda>_. True)"
    unfolding initiate_graceful_shutdown_def
    by (rule hoare_chain_get) (simp add: mark hoare_chain [OF send mark] del: not_None_eq)
  show ?thesis
    unfolding handle_shutdown_signal_def
    by (rule hoare_chain_get)
      (auto intro!: hoare_return hoare_weaken [OF hoare_bind [OF leave drain]] simp: caught_def)
qed

lemma branch_caught:
  assumes cfg: "lc_ops cfg = ops" "lc_worker cfg = TableSync t" and waits: "waits_ok inv (durable (TableSync t)) (le_waits env)"
  shows "hoare (\<lambda>lp. running inv (durable (TableSync t)) lp \<and> env_ok inv (durable (TableSync t)) env lp \<and>
       branch_ok b env (al_state lp) \<and> catching t a lp \<and> ls_shutdown (al_state lp) = sd \<and>
       (\<forall>m. b = BrMessage m \<longrightarrow> ls_exit_intent (al_state lp) = None))
     (handle_branch cfg env b) (\<lambda>_. caught phase_of t a sd) (\<lambda>_. True)"
proof (cases b)
  case (BrMessage m)
  show ?thesis
  proof (cases m)
    case (Some r)
    let ?P = "\<lambda>lp. running inv (durable (TableSync t)) lp \<and> env_ok inv (durable (TableSync t)) env lp \<and>
       le_message env = Some (Some r) \<and> listening t a sd lp"
    have "hoare ?P (act_try r) (\<lambda>x lp. (running inv (durable (TableSync t)) lp \<and> stream_ok x (al_state lp)) \<and>
       listening t a sd lp \<and> stream_ok x (al_state lp)) (\<lambda>_. True)"
      by (rule hoare_try) (auto simp: env_ok_def)
    then have h: "hoare ?P (handle_stream_message cfg env m) (\<lambda>_ lp. catching t a lp \<and> ls_shutdown (al_state lp) = sd) (\<lambda>_. True)"
      unfolding handle_stream_message_def Some option.case by (rule hoare_bind [OF _ message_caught [OF cfg waits]])
    show ?thesis unfolding BrMessage handle_branch.simps
      by (rule hoare_weaken [OF h]) (auto simp: Some caught_def)
  qed (auto simp: BrMessage handle_stream_message_def intro!: hoare_fail)
next
  case (BrConnection c)
  then show ?thesis by (auto simp: caught_def intro!: hoare_try)
next
  case (BrFlushResult c)
  show ?thesis unfolding BrFlushResult handle_branch.simps
    by (rule hoare_weaken [OF flush_result_caught [OF cfg]]) auto
next
  case BrKeepAlive
  show ?thesis unfolding BrKeepAlive handle_branch.simps
    by (rule hoare_weaken [OF stands_catching [OF stands_keep_alive]]) (auto simp: caught_def)
next
  case BrFlushDeadline
  show ?thesis unfolding BrFlushDeadline handle_branch.simps
    by (rule hoare_weaken [OF catching_flush_batch]) (auto simp: caught_def)
next
  case BrShutdown
  show ?thesis unfolding BrShutdown handle_branch.simps
    by (rule hoare_weaken [OF shutdown_caught]) auto
qed

lemma idle_shutdown:
  assumes cfg: "lc_worker cfg = TableSync t"
  shows "hoare (\<lambda>lp. ls_shutdown (al_state lp) = sd) (maybe_process_syncing_tables_when_idle cfg waits)
     (\<lambda>_ lp. ls_shutdown (al_state lp) = sd) (\<lambda>_. True)"
  by (auto simp: hoare_def maybe_process_syncing_tables_when_idle_def process_syncing_tables_when_idle_def Let_def cfg
      act_bind_def act_stop on_shared_def act_on_def st_modify_def exit_recorded(4) split: if_splits prod.splits sum.splits)

text \<open>What an iteration ends with.\<close>

definition iterated :: "table_id \<Rightarrow> lsn \<Rightarrow> apply_loop_result option \<Rightarrow> 's apply_loop \<Rightarrow> bool" where
  "iterated t a r lp \<longleftrightarrow> catching t a lp \<or> (\<exists>l. handed phase_of t a l lp) \<and> r = Some LoopCompleted"

lemma finish_caught:
  "caught phase_of t a NoShutdown lp \<Longrightarrow> iterated t a (try_finish_active_iteration (al_state lp)) lp"
  by (auto simp: caught_def iterated_def handed_def settled_def try_finish_active_iteration_def exit_result_def is_requested_def)

lemma drained_caught:
  assumes m: "hoare (\<lambda>lp. R lp \<and> has_unresolved_batch_work (al_state lp)) m (iterated t a) (\<lambda>_. True)"
    and R: "\<And>lp. R lp \<Longrightarrow> caught phase_of t a sd lp"
  shows "hoare R (finish_if_drained cfg env m) (iterated t a) (\<lambda>_. True)"
  unfolding finish_if_drained_def
proof (rule hoare_bind_get)
  fix unresolved
  let ?C = "\<lambda>lp. catching t a lp \<or> (\<exists>l. handed phase_of t a l lp)"
  have send: "hoare ?C (send_effective_status cfg env True ShutdownFlush) (\<lambda>_. ?C) (\<lambda>_. True)"
    by (intro hoare_disj hoare_ex stands_handed [OF stands_send], rule hoare_weaken [OF hoare_ex [OF stands_catching [OF stands_send]]])
      auto
  have mark: "hoare ?C (st_modify (\<lambda>st. st \<lparr> ls_shutdown := NoShutdown \<rparr>)) (\<lambda>_. ?C) (\<lambda>_. True)"
    by (rule hoare_st_modify) (auto simp: catching_def handed_def settled_def last_received_lsn_def
        has_unresolved_batch_work_def has_pending_batch_def has_pending_flush_result_def)
  have "hoare ?C (act_bind (initiate_graceful_shutdown cfg env) (\<lambda>_. act_get (\<lambda>lp. Some (finish_shutdown (al_state lp)))))
      (iterated t a) (\<lambda>_. True)"
    unfolding initiate_graceful_shutdown_def
    by (rule hoare_bind [OF hoare_bind [OF send mark]], rule hoare_get)
      (auto simp: iterated_def handed_def finish_shutdown_def exit_result_def)
  then show "hoare (\<lambda>lp. R lp \<and> has_unresolved_batch_work (al_state lp) = unresolved)
      (if unresolved then m else act_bind (initiate_graceful_shutdown cfg env)
         (\<lambda>_. act_get (\<lambda>lp. Some (finish_shutdown (al_state lp)))))
      (iterated t a) (\<lambda>_. True)"
    using m R by (cases unresolved) (auto simp: caught_def elim!: hoare_weaken)
qed

abbreviation sound :: "table_id \<Rightarrow> 's loop_env \<Rightarrow> 's apply_loop \<Rightarrow> bool" where
  "sound t env lp \<equiv> running inv (durable (TableSync t)) lp \<and> env_ok inv (durable (TableSync t)) env lp"

lemma selected_caught:
  assumes cfg: "lc_ops cfg = ops" "lc_worker cfg = TableSync t" and env: "env_ok inv (durable (TableSync t)) env lp0"
    and sel: "\<And>st b. select st = Some b \<Longrightarrow> branch_ok b env st"
    and msg: "\<And>st m. select st = Some (BrMessage m) \<Longrightarrow> ls_exit_intent st = None"
    and rest: "hoare (caught phase_of t a sd) rest (iterated t a) (\<lambda>_. True)"
  shows "hoare (\<lambda>lp. sound t env lp \<and> catching t a lp \<and> ls_shutdown (al_state lp) = sd)
     (act_bind (act_get (\<lambda>lp. select (al_state lp))) (\<lambda>br. case br of
         None \<Rightarrow> blocked
       | Some b \<Rightarrow> act_bind (handle_branch cfg env b) (\<lambda>_.
           act_bind (maybe_process_syncing_tables_when_idle cfg (le_waits_after env)) (\<lambda>_. rest))))
     (iterated t a) (\<lambda>_. True)"
proof (rule hoare_bind_get)
  fix br
  have waits: "waits_ok inv (durable (TableSync t)) (le_waits env)" using env by (simp add: env_ok_def)
  note branch = hoare_conj [OF branch_caught [OF cfg waits, where a = a and sd = sd] hoare_branch [OF cfg waits]]
  have "hoare (\<lambda>lp. (sound t env lp \<and> catching t a lp \<and> ls_shutdown (al_state lp) = sd) \<and> select (al_state lp) = Some b)
      (handle_branch cfg env b) (\<lambda>_ lp. running inv (durable (TableSync t)) lp \<and> caught phase_of t a sd lp) (\<lambda>_. True)" for b
    by (rule hoare_weaken [OF branch]) (use sel msg in blast)+
  from hoare_bind [OF this hoare_bind [OF idle_caught [OF cfg] rest]]
  show "hoare (\<lambda>lp. (sound t env lp \<and> catching t a lp \<and> ls_shutdown (al_state lp) = sd) \<and> select (al_state lp) = br)
     (case br of
         None \<Rightarrow> blocked
       | Some b \<Rightarrow> act_bind (handle_branch cfg env b) (\<lambda>_.
           act_bind (maybe_process_syncing_tables_when_idle cfg (le_waits_after env)) (\<lambda>_. rest)))
     (iterated t a) (\<lambda>_. True)"
    by (cases br) (auto intro: hoare_blocked)
qed

lemma select_message:
  "select_active env st = Some (BrMessage m) \<Longrightarrow> ls_exit_intent st = None" "select_draining env st \<noteq> Some (BrMessage m)"
  by (auto simp: select_active_def select_draining_def can_process_messages_def split: if_splits option.splits)

lemma iteration_caught:
  assumes cfg: "lc_ops cfg = ops" "lc_worker cfg = TableSync t" and env: "env_ok inv (durable (TableSync t)) env lp0"
  shows "hoare (\<lambda>lp. sound t env lp \<and> catching t a lp) (run_iteration cfg env) (iterated t a) (\<lambda>_. True)"
proof -
  let ?P = "\<lambda>sd lp. sound t env lp \<and> catching t a lp \<and> ls_shutdown (al_state lp) = sd"
  have "hoare (sound t env) (maybe_process_syncing_tables_when_idle cfg (le_waits_before env)) (\<lambda>_. sound t env)
      (safe inv (durable (TableSync t)))"
    by (rule hoare_idle [OF cfg(1)]) (use env in \<open>auto simp: env_ok_def [of _ _ _ lp0] intro: running_safe\<close>)
  note idle = hoare_conj [OF idle_caught [OF cfg] hoare_conj [OF idle_shutdown [OF cfg(2)] this]]
  have before: "hoare (?P NoShutdown) (maybe_process_syncing_tables_when_idle cfg (le_waits_before env))
      (\<lambda>_ lp. caught phase_of t a NoShutdown lp \<and> ls_shutdown (al_state lp) = NoShutdown \<and> sound t env lp) (\<lambda>_. True)"
    by (rule hoare_weaken [OF idle]) (auto simp: caught_def)
  have finish: "hoare (caught phase_of t a NoShutdown) (act_get (\<lambda>lp. try_finish_active_iteration (al_state lp))) (iterated t a) (\<lambda>_. True)"
    by (rule hoare_get) (rule finish_caught)
  note selected = selected_caught [OF cfg env selected_ok(1) select_message(1) finish]
  have active: "hoare (?P NoShutdown) (run_active_iteration cfg env) (iterated t a) (\<lambda>_. True)"
    unfolding run_active_iteration_def
  proof (rule hoare_bind [OF before], rule hoare_bind_get)
    fix fin
    let ?Q = "\<lambda>lp. (caught phase_of t a NoShutdown lp \<and> ls_shutdown (al_state lp) = NoShutdown \<and> sound t env lp) \<and>
        try_finish_active_iteration (al_state lp) = fin"
    have "?Q lp \<Longrightarrow> iterated t a fin lp" for lp using finish_caught by blast
    then show "hoare ?Q (if fin \<noteq> None then act_return fin
         else act_bind (act_get (\<lambda>lp. select_active env (al_state lp))) (\<lambda>br. case br of
             None \<Rightarrow> blocked
           | Some b \<Rightarrow> act_bind (handle_branch cfg env b) (\<lambda>_.
               act_bind (maybe_process_syncing_tables_when_idle cfg (le_waits_after env)) (\<lambda>_.
                 act_get (\<lambda>lp. try_finish_active_iteration (al_state lp)))))) (iterated t a) (\<lambda>_. True)"
      by (cases fin) (auto simp: iterated_def intro!: hoare_return hoare_weaken [OF selected])
  qed
  have return_none: "hoare (\<lambda>lp. caught phase_of t a sd lp \<and> has_unresolved_batch_work (al_state lp)) (act_return None)
      (iterated t a) (\<lambda>_. True)" for sd
    by (rule hoare_return) (auto simp: caught_def iterated_def handed_def settled_def)
  have draining: "hoare (?P sd) (run_draining_shutdown_iteration cfg env) (iterated t a) (\<lambda>_. True)" for sd
    unfolding run_draining_shutdown_iteration_def
    by (rule drained_caught [where sd = sd],
        rule hoare_weaken [OF selected_caught [OF cfg env selected_ok(2) _ drained_caught [OF return_none]]])
      (auto simp: caught_def select_message(2))
  show ?thesis
    unfolding hoare_def run_iteration_def
    using active draining by (auto simp: hoare_def split: shutdown_state.split)
qed

end

section \<open>Runs of a table sync worker\<close>

text \<open>
  The runs of \<open>loop_reach\<close> in which the other workers leave the phase of the table to its
  worker: the apply worker gives the catch-up position before the loop starts, and takes
  the table over after it has ended.
\<close>

inductive catchup_reach ::
    "'s loop_config \<Rightarrow> table_id \<Rightarrow> ('s \<Rightarrow> bool) \<Rightarrow> ('s \<Rightarrow> lsn option) \<Rightarrow> 's apply_loop \<Rightarrow> 's apply_loop \<Rightarrow> bool"
  for cfg t sinv progress start where
  catchup_start: "catchup_reach cfg t sinv progress start start"
| catchup_iterate: "catchup_reach cfg t sinv progress start lp \<Longrightarrow> env_ok sinv progress env lp \<Longrightarrow>
    run_iteration cfg env lp = (Inr None, lp') \<Longrightarrow> catchup_reach cfg t sinv progress start lp'"
| catchup_complete: "catchup_reach cfg t sinv progress start lp \<Longrightarrow>
    catchup_reach cfg t sinv progress start (with_handle (async_send r) lp)"
| catchup_drop: "catchup_reach cfg t sinv progress start lp \<Longrightarrow>
    catchup_reach cfg t sinv progress start (with_handle async_drop lp)"
| catchup_others: "catchup_reach cfg t sinv progress start lp \<Longrightarrow> sinv (sh_store sh) \<Longrightarrow>
    progress (sh_store sh) = progress (sh_store (al_shared lp)) \<Longrightarrow> own_handles (sh_pool sh) \<Longrightarrow>
    worker_phase t sh = worker_phase t (al_shared lp) \<Longrightarrow>
    catchup_reach cfg t sinv progress start (lp \<lparr> al_shared := sh \<rparr>)"
| catchup_cleanup: "catchup_reach cfg t sinv progress start lp \<Longrightarrow>
    catchup_reach cfg t sinv progress start (run_schema_cleanup_task cfg now lp)"

lemma catchup_loop_reach: "catchup_reach cfg t sinv progress start lp \<Longrightarrow> loop_reach cfg sinv progress start lp"
  by (induction rule: catchup_reach.induct) (auto intro: loop_reach.intros)

lemma catching_frame:
  "catching t a lp \<Longrightarrow> catching t a (with_handle f lp)"
  "catching t a lp \<Longrightarrow> catching t a (run_schema_cleanup_task cfg now lp)"
  by (auto simp: catching_def with_handle_def run_schema_cleanup_task_def finish_cleanup_run_def worker_phase_def
      split: option.splits prod.splits)

context pipeline_store
begin

lemma catchup_catching:
  assumes "catchup_reach cfg t inv (durable (TableSync t)) start lp" and cfg: "lc_ops cfg = ops" "lc_worker cfg = TableSync t"
    and start: "running inv (durable (TableSync t)) start" "catching t a start"
  shows "catching t a lp"
  using assms(1)
proof induction
  case (catchup_iterate lp env lp')
  have "running inv (durable (TableSync t)) lp"
    by (rule reach_running [OF catchup_loop_reach [OF catchup_iterate.hyps(1)] cfg start(1)])
  then have "iterated t a None lp'"
    using hoareD(1) [OF iteration_caught [OF cfg catchup_iterate.hyps(2), where a = a], of lp] catchup_iterate by blast
  then show ?case by (simp add: iterated_def)
next
  case (catchup_others lp sh)
  then show ?case by (auto simp: catching_def)
qed (auto intro: start(2) catching_frame)

text \<open>The iteration that ends the catch-up.\<close>

lemma catchup_ends:
  assumes reach: "catchup_reach cfg t inv (durable (TableSync t)) (start_loop cfg now start_lsn slot sh) lp"
    and cfg: "lc_ops cfg = ops" "lc_worker cfg = TableSync t"
    and sh: "inv (sh_store sh)" "\<And>d. progress_of (sh_store sh) (TableSync t) = Some d \<Longrightarrow> d \<le> start_lsn"
      "own_handles (sh_pool sh)" "worker_phase t sh = Some (Catchup a)"
    and step: "env_ok inv (durable (TableSync t)) env lp" "run_iteration cfg env lp = (Inr r, lp')"
    and ended: "worker_phase t (al_shared lp') \<noteq> Some (Catchup a)"
  shows "r = Some LoopCompleted \<and> inv (sh_store (al_shared lp')) \<and> (\<exists>l. handed phase_of t a l lp')"
proof -
  have start: "running inv (durable (TableSync t)) (start_loop cfg now start_lsn slot sh)"
    by (rule safe_start) (use sh(1,2) in auto)
  have "catching t a (start_loop cfg now start_lsn slot sh)" using sh(3,4) by (simp add: catching_def start_loop_def)
  then have "catching t a lp" by (rule catchup_catching [OF reach cfg start])
  moreover have run: "running inv (durable (TableSync t)) lp"
    by (rule reach_running [OF catchup_loop_reach [OF reach] cfg start])
  ultimately have "iterated t a r lp'"
    using hoareD(1) [OF iteration_caught [OF cfg step(1), where a = a], of lp] step by blast
  moreover have "inv (sh_store (al_shared lp'))"
    using run_finished [OF catchup_loop_reach [OF reach] cfg sh(1,2) step] by (simp add: finished_def running_def safe_def)
  ultimately show ?thesis using ended by (auto simp: iterated_def catching_def)
qed

text \<open>From then on the apply worker takes the transactions from the stored position on.\<close>

lemma handed_applies:
  assumes "inv (sh_store (al_shared lp))" "handed phase_of t a l lp"
  shows "apply_should_apply_changes ops t x (al_shared lp) = Inr (l \<le> x)"
proof -
  have "worker_phase t (al_shared lp) = Some (SyncDone l)" "phase_of (sh_store (al_shared lp)) t = Some (SyncDone l)"
    using assms(2) by (simp_all add: handed_def)
  then show ?thesis
    using get_state [OF assms(1), of t]
    by (auto simp: apply_should_apply_changes_def get_active_worker_state_def worker_phase_def split: option.splits)
qed

end

end
