(* ===== verification/Table_Handover.thy ===== *)
theory Table_Handover
  imports Catchup_Loop
begin

text \<open>
  The handover of a table from its table sync worker to the apply worker, on the Postgres
  store: the step that may end a catch-up on every outcome, and the run of the table sync
  worker's loop up to the position that it stores as \<open>SyncDone\<close>, from which the apply
  worker takes the transactions.
\<close>

section \<open>Completing a catch-up\<close>

text \<open>
  C14. A table sync worker completes only when it has caught up. On the Postgres store,
  when the step that may complete the catch-up tells the worker to end, the worker was
  catching up to a position that the given position has reached, and the position is now
  stored as SyncDone for this table and no other phase of the store has changed; the state
  shared with the apply worker says SyncDone too. When the step returns without telling the
  worker to end, nothing has changed and a catch-up position, if there is one, lies above.
  When the step fails, the catch-up position had been reached and the store keeps its
  phases, but the shared state already says SyncDone.
\<close>

theorem catchup_completion:
  assumes "pg_inv c (sh_store sh)" "own_handles (sh_pool sh)"
    and "try_complete_catchup (postgres_store_ops c known) t l sh = (r, sh')"
  shows "case r of
      Inr None \<Rightarrow> sh' = sh \<and> (\<forall>a. worker_phase t sh = Some (Catchup a) \<longrightarrow> l < a)
    | Inr (Some x) \<Rightarrow> x = ExitComplete \<and> pg_phase_of (sh_store sh') = (pg_phase_of (sh_store sh))(t \<mapsto> SyncDone l) \<and>
        worker_phase t sh' = Some (SyncDone l) \<and> (\<exists>a \<le> l. worker_phase t sh = Some (Catchup a))
    | Inl _ \<Rightarrow> pg_phase_of (sh_store sh') = pg_phase_of (sh_store sh) \<and>
        worker_phase t sh' = Some (SyncDone l) \<and> (\<exists>a \<le> l. worker_phase t sh = Some (Catchup a))"
  by (rule pg.try_complete_effect [OF assms])

definition catching_up :: "bool \<Rightarrow> postgres_store shared" where
  "catching_up up = \<lparr> sh_store = pg_new 1 \<lparr> pd_up = up, pd_states = \<lparr> st_rows = [], st_next = 0 \<rparr>, pd_progress = [],
       pd_schemas = \<lparr> stb_schemas = [], stb_columns = [], stb_next = 0 \<rparr>, pd_metadata = [] \<rparr>,
     sh_pool = pool_spawn 7 (ws_new 7 (Catchup 35)) pool_new, sh_cache = cache_new \<rparr>"

lemma catching_up_ok:
  "pg_inv unary_codec (sh_store (catching_up up))" "own_handles (sh_pool (catching_up up))"
  "worker_phase 7 (catching_up up) = Some (Catchup 35)"
proof -
  have "own_handles pool_new" by (simp add: own_handles_def pool_new_def)
  then show "own_handles (sh_pool (catching_up up))" by (simp add: catching_up_def own_handles_spawn)
qed (simp_all add: catching_up_def pg_inv_def states_db_inv_def pg_new_def pg_phase_of_def pg_stack_of_def state_table_ok_def
    state_stack_def rows_of_def unary_codec_ok worker_phase_def pool_spawn_def pool_new_def Let_def ws_new_def)

text \<open>The same step with the database reachable and with the database down.\<close>

theorem catchup_completion_witness:
  "(\<exists>sh'. try_complete_catchup (postgres_store_ops unary_codec []) 7 40 (catching_up True) = (Inr (Some ExitComplete), sh') \<and>
     pg_phase_of (sh_store sh') 7 = Some (SyncDone 40)) \<and>
   (\<exists>e sh'. try_complete_catchup (postgres_store_ops unary_codec []) 7 40 (catching_up False) = (Inl e, sh') \<and>
     pg_phase_of (sh_store sh') 7 = None \<and> worker_phase 7 sh' = Some (SyncDone 40))"
proof -
  let ?ops = "postgres_store_ops unary_codec []"
  note defs = try_complete_catchup_def catching_up_def pool_spawn_def pool_new_def Let_def ws_new_def act_bind_def act_stop
    store_worker_phase_def set_and_store_def so_update_state_def ws_set_def postgres_store_ops_def pg_update_states_def
    to_storage_format_def pg_new_def update_replication_state_raw_def word_le_nat_alt
  obtain sh' where up: "try_complete_catchup ?ops 7 40 (catching_up True) = (Inr (Some ExitComplete), sh')"
    by (simp add: defs)
  obtain e sh'' where down: "try_complete_catchup ?ops 7 40 (catching_up False) = (Inl e, sh'')"
    by (simp add: defs)
  have "pg_phase_of (sh_store (catching_up False)) 7 = None"
    by (simp add: catching_up_def pg_phase_of_def pg_new_def)
  then show ?thesis
    using catchup_completion [OF catching_up_ok(1,2) up] catchup_completion [OF catching_up_ok(1,2) down] up down by simp
qed

section \<open>Who applies a transaction\<close>

text \<open>The transactions a worker has received to their end: commit position and end.\<close>

fun commit_of :: "event \<Rightarrow> (lsn \<times> lsn) option" where
  "commit_of (EvCommit e) = Some (ep_commit e, ce_end e)"
| "commit_of _ = None"

definition commits :: "event list \<Rightarrow> (lsn \<times> lsn) list" where
  "commits es = filter_map commit_of es"

lemma commits_keys: "x \<in> set (commits es) \<Longrightarrow> \<exists>k \<in> set (keys_of es). sk_commit k = fst x"
proof -
  assume "x \<in> set (commits es)"
  then obtain e where e: "e \<in> set es" "commit_of e = Some x" by (auto simp: commits_def filter_map_set)
  then obtain k where "event_key e = Some k" "sk_commit k = fst x" by (cases e rule: event.exhaust) auto
  then show ?thesis using e(1) by (auto simp: keys_of_def filter_map_set)
qed

definition apply_applies :: "'s store_ops \<Rightarrow> table_id \<Rightarrow> 's shared \<Rightarrow> (lsn \<times> lsn) list \<Rightarrow> (lsn \<times> lsn) list" where
  "apply_applies ops t sh txs = filter (\<lambda>x. apply_should_apply_changes ops t (fst x) sh = Inr True) txs"

text \<open>
  C4. Every transaction on a table is applied by exactly one worker. Consider a run of the
  loop of a table sync worker on the Postgres store that was given a catch-up position,
  started anywhere, and the iteration in which the catch-up ends, by a flush, by a keep-alive
  or during a shutdown. The loop ends with this iteration, as completed; a position not
  below the catch-up position is stored as SyncDone; everything the loop produced has been
  acknowledged by the destination. The worker applied changes of its own table only. From
  then on, of the transactions the worker received followed by those it did not, the apply
  worker applies exactly the latter, and it applies no change of a transaction of which the
  worker produced an event. It is assumed that the transactions not yet received commit at
  or above the last position received, and that no other worker changes the phase of the
  table's worker while its loop runs. A worker that fails before is restarted; its new run
  is such a run again.
\<close>

theorem handover_exact:
  assumes "catchup_reach cfg t (pg_inv c) (\<lambda>s. pg_progress_of s (TableSync t)) (start_loop cfg now start_lsn slot sh) lp"
    and "lc_ops cfg = postgres_store_ops c known" "lc_worker cfg = TableSync t"
    and "pg_inv c (sh_store sh)" "\<And>d. pg_progress_of (sh_store sh) (TableSync t) = Some d \<Longrightarrow> d \<le> start_lsn"
    and "own_handles (sh_pool sh)" "worker_phase t sh = Some (Catchup a)"
    and "env_ok (pg_inv c) (\<lambda>s. pg_progress_of s (TableSync t)) env lp" "run_iteration cfg env lp = (Inr r, lp')"
    and "worker_phase t (al_shared lp') \<noteq> Some (Catchup a)"
    and "\<forall>x \<in> set rest. last_received_lsn (al_state lp') \<le> fst x"
  shows "r = Some LoopCompleted \<and> al_acked lp' = al_produced lp' \<and>
     (\<exists>l \<ge> a. pg_phase_of (sh_store (al_shared lp')) t = Some (SyncDone l)) \<and>
     (\<forall>u x. worker_should_apply_changes cfg u x (al_shared lp') = Inr (u = t)) \<and>
     apply_applies (postgres_store_ops c known) t (al_shared lp') (commits (al_produced lp') @ rest) = rest \<and>
     (\<forall>k \<in> set (keys_of (al_produced lp')).
        apply_should_apply_changes (postgres_store_ops c known) t (sk_commit k) (al_shared lp') = Inr False)"
proof -
  have r: "r = Some LoopCompleted" and inv: "pg_inv c (sh_store (al_shared lp'))"
    using pg_store.catchup_ends [OF assms(1-10)] by simp_all
  obtain l where l: "handed pg_phase_of t a l lp'" using pg_store.catchup_ends [OF assms(1-10)] by blast
  have applies: "apply_should_apply_changes (postgres_store_ops c known) t x (al_shared lp') = Inr (l \<le> x)" for x
    by (rule pg_store.handed_applies [OF inv l])
  have keys: "\<forall>k \<in> set (keys_of (al_produced lp')). sk_commit k < l" and "l \<le> last_received_lsn (al_state lp')"
    using l by (simp_all add: handed_def settled_def)
  then have "\<forall>x \<in> set rest. l \<le> fst x" using assms(11) by (auto intro: order_trans)
  moreover have "\<forall>x \<in> set (commits (al_produced lp')). \<not> l \<le> fst x"
    using keys commits_keys by (metis not_le)
  ultimately have "apply_applies (postgres_store_ops c known) t (al_shared lp') (commits (al_produced lp') @ rest) = rest"
    by (simp add: apply_applies_def applies filter_empty_conv filter_id_conv)
  moreover have "\<forall>u x. worker_should_apply_changes cfg u x (al_shared lp') = Inr (u = t)"
    by (auto simp: worker_should_apply_changes_def sync_should_apply_changes_def assms(3))
  ultimately show ?thesis
    using r l keys by (auto simp: applies handed_def settled_def not_le)
qed

text \<open>
  An example: a worker that catches up to 25 receives a transaction that ends at 30, sends it
  to the destination, and stores \<open>SyncDone\<close> at 30 when the destination has answered.
\<close>

definition sync_config :: "postgres_store loop_config" where
  "sync_config = (example_config (postgres_store_ops unary_codec [])) \<lparr> lc_worker := TableSync 7 \<rparr>"

definition sync_shared :: "postgres_store shared" where
  "sync_shared = \<lparr> sh_store = example_pg, sh_pool = pool_spawn 7 (ws_new 7 (Catchup 25)) pool_new, sh_cache = cache_new \<rparr>"

definition sync_committed :: "postgres_store apply_loop" where
  "sync_committed = (let lp = example_committed (postgres_store_ops unary_codec []) sync_shared in
     lp \<lparr> al_state := (al_state lp) \<lparr> ls_exit_intent := Some ExitComplete \<rparr> \<rparr>)"

lemma sync_not_reached: "\<not> 25 \<le> l \<Longrightarrow> try_complete_catchup ops 7 l sync_shared = (Inr None, sync_shared)"
  by (simp add: try_complete_catchup_def sync_shared_def pool_spawn_def pool_new_def Let_def ws_new_def act_stop)

lemma sync_steps:
  "run_iteration sync_config (example_env 1 (Some example_begin)) (start_loop sync_config 0 10 [] sync_shared) =
     (Inr None, example_begun (postgres_store_ops unary_codec []) sync_shared)"
  "run_iteration sync_config (example_env 2 (Some example_commit)) (example_begun (postgres_store_ops unary_codec []) sync_shared) =
     (Inr None, flushed 2 sync_committed)"
  by (simp add: iteration_defs handler_defs action_defs example_defs example_events_def sync_config_def
      sync_not_reached word_less_nat_alt example_begin_def example_begun_def,
    simp add: iteration_defs handler_defs action_defs example_defs example_events_def sync_config_def sync_committed_def
      word_less_nat_alt example_commit_def example_begun_def example_committed_def flushed_def
      sync_after_commit_def worker_phase_def sync_shared_def pool_spawn_def pool_new_def Let_def ws_new_def)

lemma sync_ends:
  "\<exists>lp'. run_iteration sync_config (example_env 30 None) (with_handle (async_send (Inr ())) (flushed 2 sync_committed)) =
     (Inr (Some LoopCompleted), lp') \<and> al_produced lp' = example_events \<and> last_received_lsn (al_state lp') = 30 \<and>
     worker_phase 7 (al_shared lp') = Some (SyncDone 30)"
  by (simp add: iteration_defs handler_defs action_defs example_defs example_events_def sync_config_def sync_committed_def
      example_committed_def flushed_def with_handle_def async_poll_def async_send_def async_new_def
      sync_shared_def pool_spawn_def pool_new_def Let_def ws_new_def try_complete_catchup_def store_worker_phase_def
      set_and_store_def so_update_state_def ws_set_def postgres_store_ops_def pg_update_states_def pg_upsert_progress_def
      sql_upsert_progress_def example_pg_def to_storage_format_def pg_new_def update_replication_state_raw_def
      worker_phase_def put_worker_state_def)

lemma sync_reach:
  "catchup_reach sync_config 7 sinv progress (start_loop sync_config 0 10 [] sync_shared)
     (with_handle (async_send (Inr ())) (flushed 2 sync_committed))"
proof -
  have same: "start_loop sync_config 0 10 [] sync_shared =
      start_loop (example_config (postgres_store_ops unary_codec [])) 0 10 [] sync_shared"
    by (simp add: start_loop_def sync_config_def)
  show ?thesis
    by (rule catchup_complete [OF catchup_iterate [OF catchup_iterate [OF catchup_start _ sync_steps(1)] example_env_ok(2)
          sync_steps(2)]]) (simp only: same example_env_ok(1))
qed

theorem handover_exact_witness:
  "\<exists>lp' :: postgres_store apply_loop. commits (al_produced lp') = [(20, 30)] \<and> al_acked lp' = al_produced lp' \<and>
     apply_applies (postgres_store_ops unary_codec []) 7 (al_shared lp') [(20, 30), (50, 60)] = [(50, 60)]"
proof -
  obtain lp' where lp': "run_iteration sync_config (example_env 30 None)
      (with_handle (async_send (Inr ())) (flushed 2 sync_committed)) = (Inr (Some LoopCompleted), lp')"
    "al_produced lp' = example_events" "last_received_lsn (al_state lp') = 30" "worker_phase 7 (al_shared lp') = Some (SyncDone 30)"
    using sync_ends by blast
  have commits: "commits (al_produced lp') = [(20, 30)]" by (simp add: lp'(2) example_events_def commits_def)
  have own: "own_handles (sh_pool sync_shared)" and phase: "worker_phase 7 sync_shared = Some (Catchup 25)"
    by (simp_all add: sync_shared_def own_handles_def worker_phase_def pool_spawn_def pool_new_def Let_def ws_new_def)
  have inv: "pg_inv unary_codec (sh_store sync_shared)" "pg_progress_of (sh_store sync_shared) (TableSync 7) = None"
    using example_pg_start(1) by (simp_all add: sync_shared_def example_shared_def example_pg_def pg_progress_of_def pg_new_def
        sql_get_progress_def)
  have "al_acked lp' = al_produced lp' \<and> apply_applies (postgres_store_ops unary_codec []) 7 (al_shared lp')
      (commits (al_produced lp') @ [(50, 60)]) = [(50, 60)]"
    using handover_exact [OF sync_reach _ _ inv(1) _ own phase example_env_ok(3) lp'(1), of "[]" "[(50, 60)]"]
    by (simp add: inv(2) lp'(3,4) sync_config_def example_config_def word_le_nat_alt)
  then show ?thesis using commits by (intro exI [of _ lp']) simp
qed

end
