(* ===== verification/Schema_Cleanup.thy ===== *)
theory Schema_Cleanup
  imports Apply_Loop Memory_Store Postgres_Store
begin

text \<open>
  The cleanup of schema versions by the apply loop: what the retentions it computes keep,
  and a case in which the cache of the Postgres store answers with an outdated version.
\<close>

section \<open>Retentions\<close>

text \<open>The oldest version a destination table may still refer to.\<close>

definition oldest_in_use :: "destination_table_metadata \<Rightarrow> snapshot_id" where
  "oldest_in_use d = min (case dtm_previous_snapshot_id d of None \<Rightarrow> dtm_snapshot_id d | Some p \<Rightarrow> p) (dtm_snapshot_id d)"

lemma to_lsn_table_retention: "to_lsn (table_retention durable d) = min durable (oldest_in_use d)"
  by (auto simp: table_retention_def oldest_in_use_def Let_def min_def)

lemma retentions_of_entries:
  assumes "retentions_of cfg durable sh ts acc = Inr rs"
    and "\<And>t r. map_of acc t = Some r \<Longrightarrow> \<exists>d. so_get_metadata (lc_ops cfg) (sh_store sh) t = Inr (Some d) \<and> r = table_retention durable d"
    and "map_of rs t = Some r"
  shows "\<exists>d. so_get_metadata (lc_ops cfg) (sh_store sh) t = Inr (Some d) \<and> r = table_retention durable d"
  using assms(1,2)
proof (induction ts arbitrary: acc)
  case Nil
  then show ?case using assms(3) by simp
next
  case (Cons u ts)
  from Cons.prems(1) consider (skip) "retentions_of cfg durable sh ts acc = Inr rs"
    | (add) d where "so_get_metadata (lc_ops cfg) (sh_store sh) u = Inr (Some d)"
      "retentions_of cfg durable sh ts (AList.update u (table_retention durable d) acc) = Inr rs"
    by (auto simp: res_bind_eq_Inr_iff split: if_splits option.splits)
  then show ?case
  proof cases
    case skip
    then show ?thesis by (rule Cons.IH [OF _ Cons.prems(2)])
  next
    case (add d)
    show ?thesis
      by (rule Cons.IH [OF add(2)]) (use add(1) Cons.prems(2) in \<open>auto simp: update_conv' split: if_splits\<close>)
  qed
qed

text \<open>
  C17. Cleaning up never removes a schema version that is still needed. On the memory
  store, with the retentions the loop computed at some durable position, and whenever the
  cleanup task then runs, every lookup at a snapshot at or after that position, or at or
  after the oldest version the destination table may refer to, finds the same schema as
  before.
\<close>

theorem cleanup_keeps_needed_schemas:
  assumes "mem_inv s" "lc_ops cfg = memory_store_ops" "get_table_schema_retentions cfg durable sh = Inr rs"
    and "durable \<le> snap \<or> (\<exists>d. bt_get (mem_metadata (sh_store sh)) t = Some d \<and> oldest_in_use d \<le> snap)"
  shows "fst (mem_get_schema t snap (snd (mem_prune_schemas (map_of rs) s))) = fst (mem_get_schema t snap s)"
proof -
  obtain m n where m: "prune (map_of rs) (mem_schemas s) 0 = (m, n)" by fastforce
  have ok: "snapshots_ok (mem_schemas s)" using assms(1) by (simp add: mem_inv_def)
  have "get_at_or_before m t snap = get_at_or_before (mem_schemas s) t snap"
  proof (cases "map_of rs t")
    case None
    have "snap_version m t k = snap_version (mem_schemas s) t k" for k
      using snap_version_prune [OF ok, of "map_of rs" 0 t k] m None by simp
    moreover have "snapshots_ok m" using snapshots_ok_prune [OF ok, of "map_of rs" 0] m by simp
    ultimately show ?thesis by (intro snap.lookup_cong ok)
  next
    case (Some r)
    then obtain d where d: "bt_get (mem_metadata (sh_store sh)) t = Some d" "r = table_retention durable d"
      using retentions_of_entries [OF assms(3) [unfolded get_table_schema_retentions_def], of t r] assms(2)
      by (auto simp: memory_store_ops_def mem_get_metadata_def)
    then have "to_lsn r \<le> snap" using assms(4) by (auto simp: to_lsn_table_retention min_le_iff_disj)
    then show ?thesis using get_at_or_before_prune [OF ok, of "map_of rs" t r snap 0] Some m by simp
  qed
  then show ?thesis by (simp add: mem_get_schema_def mem_prune_schemas_def m)
qed

definition version_at :: "snapshot_id \<Rightarrow> table_schema" where
  "version_at v = one_text_column \<lparr> ts_id := 7, ts_snapshot := v \<rparr>"

definition cleanup_store :: memory_store where
  "cleanup_store = mem_new \<lparr> mem_states := [(7, Ready)], mem_schemas := snap_insert (version_at 4) (snap_insert (version_at 2) []),
     mem_metadata := [(7, new_applied ''t'' 4 [1])] \<rparr>"

definition cleanup_shared :: "memory_store shared" where
  "cleanup_shared = \<lparr> sh_store = cleanup_store, sh_pool = pool_new,
     sh_cache = note_ready 7 (replicated_all (version_at 4)) cache_new \<rparr>"

definition cleanup_config :: "memory_store loop_config" where
  "cleanup_config = \<lparr> lc_ops = memory_store_ops, lc_worker = Apply, lc_max_fill = 0, lc_keep_alive = 0,
     lc_size_hint = (\<lambda>_. 0), lc_parsers = sample_parsers, lc_type_of_oid = (\<lambda>_. None),
     lc_parse_ddl = (\<lambda>_. Inl (etl_err ConversionError [])) \<rparr>"

theorem cleanup_keeps_needed_schemas_witness:
  "\<exists>rs. get_table_schema_retentions cleanup_config 3 cleanup_shared = Inr rs \<and> rs \<noteq> [] \<and>
     fst (mem_get_schema 7 3 (snd (mem_prune_schemas (map_of rs) cleanup_store))) = Inr (Some (version_at 2))"
proof -
  let ?rs = "[(7, RetainDurableFlush 3)]"
  have inv: "mem_inv cleanup_store"
    by (simp add: cleanup_store_def mem_new_def mem_inv_def snapshots_ok_snap_insert bt_ok_Cons)
  have rs: "get_table_schema_retentions cleanup_config 3 cleanup_shared = Inr ?rs"
    by (simp add: get_table_schema_retentions_def cleanup_shared_def note_ready_def cache_new_def active_table_ids_def
        worker_should_apply_changes_def cleanup_config_def apply_should_apply_changes_def get_active_worker_state_def pool_new_def
        memory_store_ops_def mem_get_state_def mem_get_metadata_def cleanup_store_def mem_new_def table_retention_def
        new_applied_def word_le_nat_alt)
  have "fst (mem_get_schema 7 3 cleanup_store) = Inr (Some (version_at 2))"
    by (simp add: mem_get_schema_def cleanup_store_def get_at_or_before_def snap_insert_def version_at_def bt_last_le_def
        word_le_nat_alt word_less_nat_alt)
  then show ?thesis
    using cleanup_keeps_needed_schemas [OF inv _ rs, of 3 7] rs by (simp add: cleanup_config_def)
qed

section \<open>Lookups through the cache of the Postgres store\<close>

definition versions_db :: schema_tables where
  "versions_db = \<lparr> stb_schemas = map (\<lambda>(i, v). \<lparr> tr_id = i, tr_pipeline = 1, tr_table = 7, tr_schema_name = ''s'',
       tr_table_name = ''t'', tr_snapshot = v \<rparr>) [(0, 2), (1, 4), (2, 7)],
     stb_columns = map (\<lambda>i. \<lparr> tc_schema_id = i, tc_name = ''a'', tc_type = ''TEXT'', tc_modifier = - 1, tc_nullable = True,
       tc_ordinal = 1, tc_pk_ordinal = None \<rparr>) [0, 1, 2], stb_next = 3 \<rparr>"

definition restarted_pg :: postgres_store where
  "restarted_pg = snd (pg_load_schemas [''TEXT''] (pg_new 1 \<lparr> pd_up = True, pd_states = \<lparr> st_rows = [], st_next = 0 \<rparr>,
     pd_progress = [], pd_schemas = versions_db, pd_metadata = [] \<rparr>))"

text \<open>
  The cache of the Postgres store may answer with an outdated schema version. After a
  restart only the newest version of a table is cached. With versions 2, 4 and 7 in the
  database, a lookup at 3 then finds version 2 and caches it, and the next lookup at 5 is
  answered with version 2 from the cache although the database has version 4.
\<close>

lemma cached_lookup_outdated:
  "let s1 = snd (pg_get_schema [''TEXT''] 7 3 restarted_pg) in
   map_option ts_snapshot (load_table_schema_at_snapshot [''TEXT''] 1 7 5 (pd_schemas (pg_db s1))) = Some 4 \<and>
   (case fst (pg_get_schema [''TEXT''] 7 5 s1) of
      Inr (Some x) \<Rightarrow> ts_snapshot x = 2
    | _ \<Rightarrow> False)"
  by code_simp

end
