(* ===== verification/Batch_Stream.thy ===== *)
theory Batch_Stream
  imports Complex_Main Apply_State
begin

text \<open>
  Backpressure and batching, \<open>etl/src/concurrency\<close>: the memory monitor
  (\<open>memory_monitor.rs\<close>), the byte budget of a batch (\<open>batch_budget.rs\<close>), and the two stream
  adapters of \<open>stream.rs\<close>. Floating point arithmetic is a parameter: a quotient or a product
  comes as the number it was rounded to. A poll of the batching stream is a sequence of
  rounds of its loop; a round brings what the other tasks decide: the memory pressure,
  the time, the byte budget and what the inner stream answers.
\<close>

section \<open>Memory pressure\<close>

datatype float_value = NotANumber | Infinite | Finite rat

record memory_snapshot =
  ms_used :: "64 word"
  ms_total :: "64 word"

definition used_percent :: "(64 word \<Rightarrow> 64 word \<Rightarrow> float_value) \<Rightarrow> memory_snapshot \<Rightarrow> rat" where
  "used_percent quot m = (case quot (ms_used m) (ms_total m) of
       NotANumber \<Rightarrow> 1
     | Infinite \<Rightarrow> 1
     | Finite q \<Rightarrow> max 0 (min 1 q))"

record backpressure_config =
  bc_activate :: rat
  bc_resume :: rat

definition compute_next_backpressure_active :: "bool \<Rightarrow> rat \<Rightarrow> rat \<Rightarrow> rat \<Rightarrow> bool" where
  "compute_next_backpressure_active currently used activate resume =
     (if currently then resume \<le> used else activate \<le> used)"

text \<open>\<open>mm_active\<close> is the value on the watch channel, missing without a configuration.\<close>

record memory_monitor =
  mm_config :: "backpressure_config option"
  mm_active :: "bool option"
  mm_total_bytes :: "64 word"

definition monitor_new ::
    "(64 word \<Rightarrow> 64 word \<Rightarrow> float_value) \<Rightarrow> backpressure_config option \<Rightarrow> memory_snapshot \<Rightarrow> memory_monitor" where
  "monitor_new quot config m =
     \<lparr> mm_config = config,
       mm_active = map_option (\<lambda>c.
         compute_next_backpressure_active False (used_percent quot m) (bc_activate c) (bc_resume c)) config,
       mm_total_bytes = ms_total m \<rparr>"

definition is_backpressure_active :: "memory_monitor \<Rightarrow> bool" where
  "is_backpressure_active mm = (mm_active mm = Some True)"

definition set_backpressure_active :: "bool \<Rightarrow> memory_monitor \<Rightarrow> memory_monitor" where
  "set_backpressure_active b mm = mm \<lparr> mm_active := map_option (\<lambda>_. b) (mm_active mm) \<rparr>"

definition monitor_tick ::
    "(64 word \<Rightarrow> 64 word \<Rightarrow> float_value) \<Rightarrow> memory_snapshot \<Rightarrow> memory_monitor \<Rightarrow> memory_monitor" where
  "monitor_tick quot m mm =
     (let mm1 = mm \<lparr> mm_total_bytes := ms_total m \<rparr> in
      case mm_config mm of
        None \<Rightarrow> mm1
      | Some c \<Rightarrow> set_backpressure_active
          (compute_next_backpressure_active (is_backpressure_active mm) (used_percent quot m)
             (bc_activate c) (bc_resume c)) mm1)"

text \<open>
  What a stream sees of the monitor when it drains its subscription: no subscription, a
  closed channel, or the current value of the channel.
\<close>

datatype pressure = NoSubscription | ChannelClosed | Current bool

definition paused_for_memory :: "pressure \<Rightarrow> bool" where
  "paused_for_memory p = (p = Current True)"

section \<open>The byte budget\<close>

record batch_budget =
  bb_max_bytes :: nat
  bb_active_streams :: nat

definition budget_new :: "nat \<Rightarrow> batch_budget" where
  "budget_new max_batch_bytes = \<lparr> bb_max_bytes = max max_batch_bytes 1, bb_active_streams = 0 \<rparr>"

definition register_stream_load :: "nat \<Rightarrow> batch_budget \<Rightarrow> nat \<times> batch_budget" where
  "register_stream_load units b = (let u = max units 1 in (u, b \<lparr> bb_active_streams := bb_active_streams b + u \<rparr>))"

definition drop_stream_guard :: "nat \<Rightarrow> batch_budget \<Rightarrow> batch_budget" where
  "drop_stream_guard units b = b \<lparr> bb_active_streams := bb_active_streams b - units \<rparr>"

text \<open>\<open>scaled\<close> is the total memory multiplied with the configured ratio, truncated to an integer.\<close>

definition ideal_batch_size_bytes :: "nat \<Rightarrow> batch_budget \<Rightarrow> nat" where
  "ideal_batch_size_bytes scaled b =
     (let target_bytes = max scaled 1;
          active_streams = max (bb_active_streams b) 1;
          memory_budget = max (target_bytes div active_streams) 1
      in max (min memory_budget (bb_max_bytes b)) 1)"

record cached_budget =
  cb_last_checked :: "instant option"
  cb_last_known :: nat

definition budget_refresh_interval :: nat where "budget_refresh_interval = 100"

definition cached_new :: "nat \<Rightarrow> batch_budget \<Rightarrow> cached_budget" where
  "cached_new scaled b = \<lparr> cb_last_checked = None, cb_last_known = ideal_batch_size_bytes scaled b \<rparr>"

definition current_batch_size_bytes ::
    "instant \<Rightarrow> nat \<Rightarrow> batch_budget \<Rightarrow> cached_budget \<Rightarrow> nat \<times> cached_budget" where
  "current_batch_size_bytes now scaled b cb =
     (let refresh = (case cb_last_checked cb of None \<Rightarrow> True | Some l \<Rightarrow> budget_refresh_interval \<le> now - l);
          cb' = (if refresh then \<lparr> cb_last_checked = Some now, cb_last_known = ideal_batch_size_bytes scaled b \<rparr> else cb)
      in (cb_last_known cb', cb'))"

section \<open>The batching stream\<close>

datatype ('b, 'e) inner_poll = InnerPending | InnerItem 'b | InnerError 'e | InnerEnd

record 'b batch_stream =
  bs_items :: "'b list"
  bs_bytes :: usize
  bs_reset_timer :: bool
  bs_deadline :: "instant option"
  bs_ended :: bool
  bs_paused :: bool

definition bs_wrap :: "'b batch_stream" where
  "bs_wrap = \<lparr> bs_items = [], bs_bytes = 0, bs_reset_timer = True, bs_deadline = None, bs_ended = False, bs_paused = False \<rparr>"

record ('b, 'e) poll_input =
  rd_pressure :: pressure
  rd_now :: instant
  rd_inner :: "('b, 'e) inner_poll"
  rd_budget :: usize

datatype ('b, 'e) batch_poll = BatchPending | BatchItems "'b list" | BatchError 'e | BatchEnd

definition take_items :: "'b batch_stream \<Rightarrow> 'b batch_stream" where
  "take_items s = s \<lparr> bs_items := [], bs_bytes := 0, bs_reset_timer := True \<rparr>"

text \<open>
  One round of the loop: the answer of the poll, or nothing if the loop goes round again.
  The inner stream is polled only if there is no memory pressure; a poll of it that is
  pending leaves the loop, and then a batch that has waited long enough is emitted.
\<close>

definition poll_round ::
    "('b \<Rightarrow> usize) \<Rightarrow> nat \<Rightarrow> ('b, 'e) poll_input \<Rightarrow> 'b batch_stream \<Rightarrow> ('b, 'e) batch_poll option \<times> 'b batch_stream" where
  "poll_round size_hint max_fill r s =
     (let s0 = s \<lparr> bs_paused := paused_for_memory (rd_pressure r) \<rparr> in
      if bs_paused s0
      then if bs_items s0 \<noteq> [] then (Some (BatchItems (bs_items s0)), take_items s0) else (Some BatchPending, s0)
      else
        let s1 = (if bs_reset_timer s0
                  then s0 \<lparr> bs_deadline := Some (rd_now r + max_fill), bs_reset_timer := False \<rparr> else s0) in
        case rd_inner r of
          InnerPending \<Rightarrow>
            (case bs_deadline s1 of
               Some d \<Rightarrow> if bs_items s1 \<noteq> [] \<and> d \<le> rd_now r then (Some (BatchItems (bs_items s1)), take_items s1)
                 else (Some BatchPending, s1)
             | None \<Rightarrow> (Some BatchPending, s1))
        | InnerItem x \<Rightarrow>
            let s2 = s1 \<lparr> bs_bytes := saturating_add (bs_bytes s1) (size_hint x), bs_items := bs_items s1 @ [x] \<rparr> in
            if rd_budget r \<le> bs_bytes s2 then (Some (BatchItems (bs_items s2)), take_items s2) else (None, s2)
        | InnerError e \<Rightarrow> (Some (BatchError e), s1 \<lparr> bs_ended := True, bs_bytes := 0 \<rparr>)
        | InnerEnd \<Rightarrow>
            if bs_items s1 = [] then (Some BatchEnd, s1 \<lparr> bs_ended := True \<rparr>)
            else (Some (BatchItems (bs_items s1)), (take_items s1) \<lparr> bs_ended := True \<rparr>))"

text \<open>A poll: rounds until one answers. The rounds that were not used are returned.\<close>

fun batch_poll_next ::
    "('b \<Rightarrow> usize) \<Rightarrow> nat \<Rightarrow> ('b, 'e) poll_input list \<Rightarrow> 'b batch_stream
     \<Rightarrow> ('b, 'e) batch_poll option \<times> ('b, 'e) poll_input list \<times> 'b batch_stream" where
  "batch_poll_next size_hint max_fill rs s =
     (if bs_ended s then (Some BatchEnd, rs, s)
      else case rs of
        [] \<Rightarrow> (None, [], s)
      | r # rs' \<Rightarrow> (case poll_round size_hint max_fill r s of
            (Some a, s') \<Rightarrow> (Some a, rs', s')
          | (None, s') \<Rightarrow> batch_poll_next size_hint max_fill rs' s'))"

declare batch_poll_next.simps [simp del]

section \<open>The stream that only pauses\<close>

definition backpressure_poll_next :: "pressure \<Rightarrow> ('b, 'e) inner_poll \<Rightarrow> ('b, 'e) inner_poll" where
  "backpressure_poll_next p inner = (if paused_for_memory p then InnerPending else inner)"

section \<open>What the budget guarantees\<close>

text \<open>
  C36. The byte budget of a batch is at least one byte and at most the configured maximum, and
  the budgets of all active streams together stay within the share of the memory that is
  meant for batches, as long as that share has at least one byte per stream.
\<close>

theorem budget_bounds:
  assumes "max (bb_active_streams b) 1 \<le> scaled"
  shows "1 \<le> ideal_batch_size_bytes scaled b \<and> ideal_batch_size_bytes scaled b \<le> max (bb_max_bytes b) 1 \<and>
     bb_active_streams b * ideal_batch_size_bytes scaled b \<le> scaled"
proof -
  define n where "n = max (bb_active_streams b) 1"
  have n: "0 < n" "bb_active_streams b \<le> n" "n \<le> scaled" using assms by (simp_all add: n_def)
  have q: "1 \<le> scaled div n" using n by (simp add: div_greater_zero_iff Suc_le_eq)
  have ideal: "ideal_batch_size_bytes scaled b = max (min (scaled div n) (bb_max_bytes b)) 1"
    using q n max.absorb1 [of 1 scaled] max.absorb1 [of 1 "scaled div n"]
    unfolding ideal_batch_size_bytes_def Let_def n_def [symmetric] by simp
  then have "ideal_batch_size_bytes scaled b \<le> scaled div n" using q by simp
  then have "bb_active_streams b * ideal_batch_size_bytes scaled b \<le> n * (scaled div n)" using n(2) by (rule mult_le_mono [rotated])
  also have "\<dots> \<le> scaled" by simp
  finally show ?thesis using ideal by simp
qed

theorem budget_bounds_witness:
  "3 * ideal_batch_size_bytes 1000 \<lparr> bb_max_bytes = 500, bb_active_streams = 3 \<rparr> \<le> 1000"
  using budget_bounds [of "\<lparr> bb_max_bytes = 500, bb_active_streams = 3 \<rparr>" 1000] by simp

section \<open>What the batching stream guarantees\<close>

text \<open>All polls over a sequence of rounds, as one run: the answers in order.\<close>

fun poll_run ::
    "('b \<Rightarrow> usize) \<Rightarrow> nat \<Rightarrow> ('b, 'e) poll_input list \<Rightarrow> 'b batch_stream \<Rightarrow> ('b, 'e) batch_poll list \<times> 'b batch_stream" where
  "poll_run sz mf [] s = ([], s)"
| "poll_run sz mf (r # rs) s =
     (if bs_ended s then ([], s)
      else case poll_round sz mf r s of (a, s') \<Rightarrow>
        (case poll_run sz mf rs s' of (as, s'') \<Rightarrow> (case a of None \<Rightarrow> as | Some x \<Rightarrow> x # as, s'')))"

lemma poll_run_next:
  assumes "batch_poll_next sz mf rs s = (Some a, rs', s')" "\<not> bs_ended s"
  shows "poll_run sz mf rs s = (a # fst (poll_run sz mf rs' s'), snd (poll_run sz mf rs' s'))"
  using assms
proof (induction rs arbitrary: s)
  case (Cons r rs)
  obtain x s1 where r: "poll_round sz mf r s = (x, s1)" by fastforce
  show ?case
  proof (cases x)
    case None
    then have "\<not> bs_ended s1" using r Cons.prems(2)
      by (auto simp: poll_round_def Let_def take_items_def split: if_splits inner_poll.splits option.splits)
    moreover have "batch_poll_next sz mf rs s1 = (Some a, rs', s')"
      using Cons.prems r None by (simp add: batch_poll_next.simps [of sz mf "r # rs"])
    ultimately show ?thesis using Cons.IH Cons.prems(2) r None by (simp split: prod.split)
  next
    case (Some y)
    then show ?thesis using Cons.prems r by (simp add: batch_poll_next.simps [of sz mf "r # rs"] split: prod.split)
  qed
qed (simp add: batch_poll_next.simps)

text \<open>The items the inner stream delivers: what it answers while there is no pressure, up to its end or an error.\<close>

fun delivered :: "('b, 'e) poll_input list \<Rightarrow> 'b list" where
  "delivered [] = []"
| "delivered (r # rs) =
     (if paused_for_memory (rd_pressure r) then delivered rs
      else case rd_inner r of
        InnerItem x \<Rightarrow> x # delivered rs
      | InnerPending \<Rightarrow> delivered rs
      | _ \<Rightarrow> [])"

fun emitted :: "('b, 'e) batch_poll list \<Rightarrow> 'b list list" where
  "emitted [] = []"
| "emitted (BatchItems b # as) = b # emitted as"
| "emitted (_ # as) = emitted as"

lemma poll_run_ended [simp]: "bs_ended s \<Longrightarrow> poll_run sz mf rs s = ([], s)"
  by (cases rs) simp_all

lemma emitted_Cons: "emitted (a # as) = (case a of BatchItems b \<Rightarrow> b # emitted as | _ \<Rightarrow> emitted as)"
  by (cases a) simp_all

text \<open>The effect of a round on the buffer.\<close>

lemma poll_round_effect:
  assumes "poll_round sz mf r s = (a, s')" "\<not> bs_ended s"
  shows "concat (emitted (case a of None \<Rightarrow> [] | Some x \<Rightarrow> [x])) @ bs_items s' @ (if bs_ended s' then [] else rest) =
      bs_items s @ (if paused_for_memory (rd_pressure r) then rest
        else case rd_inner r of InnerItem x \<Rightarrow> x # rest | InnerPending \<Rightarrow> rest | _ \<Rightarrow> [])"
    and "\<forall>b \<in> set (emitted (case a of None \<Rightarrow> [] | Some x \<Rightarrow> [x])). b \<noteq> []"
    and "bs_ended s' \<Longrightarrow> (\<forall>e. a \<noteq> Some (BatchError e)) \<Longrightarrow> bs_items s' = []"
  using assms
  by (auto simp: poll_round_def Let_def take_items_def split: if_splits inner_poll.splits option.splits)

lemma poll_run_items:
  assumes "poll_run sz mf rs s = (as, s')" "\<not> bs_ended s"
  shows "concat (emitted as) @ bs_items s' = bs_items s @ delivered rs \<and> (\<forall>b \<in> set (emitted as). b \<noteq> []) \<and>
    (bs_ended s' \<longrightarrow> (\<forall>e. BatchError e \<notin> set as) \<longrightarrow> bs_items s' = [])"
  using assms
proof (induction rs arbitrary: s as)
  case (Cons r rs)
  obtain a s1 where r: "poll_round sz mf r s = (a, s1)" by fastforce
  obtain as1 where as1: "poll_run sz mf rs s1 = (as1, s')" and as: "as = (case a of None \<Rightarrow> as1 | Some x \<Rightarrow> x # as1)"
    using Cons.prems r by (auto split: prod.splits)
  note eff = poll_round_effect [OF r Cons.prems(2)]
  have em: "emitted as = emitted (case a of None \<Rightarrow> [] | Some x \<Rightarrow> [x]) @ emitted as1"
    using as by (cases a) (auto simp: emitted_Cons split: batch_poll.split)
  show ?case
  proof (cases "bs_ended s1")
    case True
    then have "as1 = []" "s' = s1" using as1 by simp_all
    then show ?thesis using eff(1) [of "delivered rs"] eff(2,3) em as True by (auto split: option.splits)
  next
    case False
    have "concat (emitted as) @ bs_items s' = concat (emitted (case a of None \<Rightarrow> [] | Some x \<Rightarrow> [x])) @ bs_items s1 @ delivered rs"
      using Cons.IH [OF as1 False] em by simp
    also have "\<dots> = bs_items s @ delivered (r # rs)" using eff(1) [of "delivered rs"] False by simp
    finally show ?thesis using Cons.IH [OF as1 False] eff(2) em as by (auto split: option.splits)
  qed
qed simp

text \<open>
  The number of bytes of a batch. The budget may differ from round to round: the items \<open>xs\<close>
  were collected within the budget if after each of them the batch so far was below the
  budget of the round that delivered it.
\<close>

definition batch_bytes :: "('b \<Rightarrow> usize) \<Rightarrow> 'b list \<Rightarrow> nat" where
  "batch_bytes sz xs = sum_list (map (unat \<circ> sz) xs)"

definition within_budget :: "('b \<Rightarrow> usize) \<Rightarrow> ('b, 'e) poll_input list \<Rightarrow> 'b list \<Rightarrow> bool" where
  "within_budget sz rs xs \<longleftrightarrow> (\<forall>n < length xs. \<exists>r \<in> set rs. rd_inner r = InnerItem (xs ! n) \<and>
     batch_bytes sz (take (Suc n) xs) < unat (rd_budget r))"

definition buffer_ok :: "('b \<Rightarrow> usize) \<Rightarrow> ('b, 'e) poll_input list \<Rightarrow> 'b batch_stream \<Rightarrow> bool" where
  "buffer_ok sz rs s \<longleftrightarrow> unat (bs_bytes s) = batch_bytes sz (bs_items s) \<and> within_budget sz rs (bs_items s)"

lemma batch_bytes_simps [simp]:
  "batch_bytes sz [] = 0" "batch_bytes sz (xs @ ys) = batch_bytes sz xs + batch_bytes sz ys"
  "batch_bytes sz [x] = unat (sz x)"
  by (simp_all add: batch_bytes_def)

lemma within_budget_Nil [simp]: "within_budget sz rs []"
  by (simp add: within_budget_def)

lemma within_budget_snoc:
  "within_budget sz rs (xs @ [x]) \<longleftrightarrow> within_budget sz rs xs \<and>
     (\<exists>r \<in> set rs. rd_inner r = InnerItem x \<and> batch_bytes sz (xs @ [x]) < unat (rd_budget r))"
  by (auto simp: within_budget_def nth_append less_Suc_eq)

lemma within_budget_butlast: "within_budget sz rs xs \<Longrightarrow> within_budget sz rs (butlast xs)"
  by (cases xs rule: rev_cases) (simp_all add: within_budget_snoc)

lemma add_item_bytes:
  fixes b :: usize
  assumes "unat b = n" "saturating_add b x < B"
  shows "unat (saturating_add b x) = n + unat x" "n + unat x < unat B"
proof -
  have "unat B \<le> 2 ^ 64 - 1" using unat_bound [of B] by (simp add: less_eq_Suc_le)
  then show "unat (saturating_add b x) = n + unat x"
    using assms by (auto simp: unat_saturating_add word_less_nat_alt min_def split: if_splits)
  then show "n + unat x < unat B" using assms by (simp add: word_less_nat_alt)
qed

lemma poll_round_buffer:
  assumes round: "poll_round sz mf r s = (a, s')" and ok: "buffer_ok sz rs s" and r: "r \<in> set rs"
  shows "bs_ended s' \<or> buffer_ok sz rs s'"
    and "\<forall>b \<in> set (emitted (case a of None \<Rightarrow> [] | Some x \<Rightarrow> [x])). within_budget sz rs (butlast b)"
proof -
  have bytes: "unat (bs_bytes s) = batch_bytes sz (bs_items s)" and within: "within_budget sz rs (bs_items s)"
    using ok by (simp_all add: buffer_ok_def)
  have add: "unat (saturating_add (bs_bytes s) (sz x)) = batch_bytes sz (bs_items s) + unat (sz x) \<and>
      within_budget sz rs (bs_items s @ [x])"
    if "saturating_add (bs_bytes s) (sz x) < rd_budget r" "rd_inner r = InnerItem x" for x
    using add_item_bytes [OF bytes that(1)] within r that(2) by (auto simp: within_budget_snoc)
  show "bs_ended s' \<or> buffer_ok sz rs s'"
    using round bytes within add
    by (auto simp: poll_round_def Let_def take_items_def buffer_ok_def not_le split: if_splits inner_poll.splits option.splits)
  show "\<forall>b \<in> set (emitted (case a of None \<Rightarrow> [] | Some x \<Rightarrow> [x])). within_budget sz rs (butlast b)"
    using round within within_budget_butlast [OF within]
    by (auto simp: poll_round_def Let_def take_items_def split: if_splits inner_poll.splits option.splits)
qed

lemma poll_run_bytes:
  assumes "poll_run sz mf rs s = (as, s')" "buffer_ok sz rs0 s" "set rs \<subseteq> set rs0"
  shows "\<forall>b \<in> set (emitted as). within_budget sz rs0 (butlast b)"
  using assms
proof (induction rs arbitrary: s as)
  case (Cons r rs)
  show ?case
  proof (cases "bs_ended s")
    case False
    obtain a s1 where r: "poll_round sz mf r s = (a, s1)" by fastforce
    obtain as1 where as1: "poll_run sz mf rs s1 = (as1, s')" and as: "as = (case a of None \<Rightarrow> as1 | Some x \<Rightarrow> x # as1)"
      using Cons.prems(1) r False by (auto split: prod.splits)
    have "r \<in> set rs0" using Cons.prems(3) by simp
    note buf = poll_round_buffer [OF r Cons.prems(2) this]
    have "\<forall>b \<in> set (emitted as1). within_budget sz rs0 (butlast b)"
      using buf(1) as1 Cons.IH [OF as1] Cons.prems(3) by (cases "bs_ended s1") auto
    then show ?thesis using buf(2) as by (cases a) (auto simp: emitted_Cons split: batch_poll.splits)
  qed (use Cons.prems in auto)
qed simp

text \<open>
  C19. The batching stream loses, repeats and reorders nothing. Over any sequence of polls, with
  a byte budget that may change from poll to poll, the batches it emitted followed by what
  it still holds are the items of the inner stream in order; no batch is empty; a batch
  is closed as soon as it reaches the budget: after each of its items but the last, what it
  held was below the budget in force when that item was added; and once the inner
  stream has ended without an error everything has been emitted.
\<close>

theorem batches_exact:
  assumes "poll_run sz mf rs bs_wrap = (as, s')"
  shows "concat (emitted as) @ bs_items s' = delivered rs \<and>
     (\<forall>b \<in> set (emitted as). b \<noteq> [] \<and> within_budget sz rs (butlast b)) \<and>
     (bs_ended s' \<longrightarrow> (\<forall>e. BatchError e \<notin> set as) \<longrightarrow> concat (emitted as) = delivered rs)"
proof -
  have "buffer_ok sz rs bs_wrap" "\<not> bs_ended bs_wrap" "bs_items bs_wrap = []"
    by (simp_all add: buffer_ok_def bs_wrap_def)
  then show ?thesis
    using poll_run_items [OF assms] poll_run_bytes [OF assms _ subset_refl] by auto
qed

definition example_rounds :: "(nat, unit) poll_input list" where
  "example_rounds = map (\<lambda>(i, b). \<lparr> rd_pressure = NoSubscription, rd_now = 0, rd_inner = i, rd_budget = b \<rparr>)
     [(InnerItem 7, 2), (InnerItem 8, 2), (InnerItem 9, 5), (InnerItem 10, 5), (InnerItem 11, 3), (InnerEnd, 3)]"

theorem batches_exact_witness:
  "emitted (fst (poll_run (\<lambda>_. 1) 100 example_rounds bs_wrap)) = [[7, 8], [9, 10, 11]] \<and>
   concat (emitted (fst (poll_run (\<lambda>_. 1) 100 example_rounds bs_wrap))) = delivered example_rounds \<and>
   within_budget (\<lambda>_. 1) example_rounds [9, 10]"
proof -
  let ?run = "poll_run (\<lambda>_. 1) 100 example_rounds bs_wrap"
  have run: "emitted (fst ?run) = [[7, 8], [9, 10, 11]] \<and> bs_items (snd ?run) = []"
    by (simp add: example_rounds_def poll_round_def Let_def take_items_def bs_wrap_def paused_for_memory_def saturating_add_def word_le_nat_alt)
  then show ?thesis
    using batches_exact [of "\<lambda>_. 1" 100 example_rounds "fst ?run" "snd ?run"] by simp
qed

end
