(* ===== verification/Copy_Rows.thy ===== *)
theory Copy_Rows
  imports Event_Decoding
begin

text \<open>
  Rows of the COPY text format, \<open>etl/src/conversions/table_row.rs\<close>. As in the other parsers a
  text is the sequence of its UTF-8 bytes. The lemmas relate the parser to the format that
  the server writes: fields separated by tabs, a newline at the end, control characters
  and backslashes escaped, and NULL as a backslash followed by N.
\<close>

definition copy_unescape :: "char \<Rightarrow> string" where
  "copy_unescape c =
     (if c = CHR ''N'' then [CHR 0x5C, c]
      else if c = CHR ''b'' then [CHR 0x08]
      else if c = CHR ''f'' then [CHR 0x0C]
      else if c = CHR ''n'' then [CHR 0x0A]
      else if c = CHR ''r'' then [CHR 0x0D]
      else if c = CHR ''t'' then [CHR 0x09]
      else if c = CHR ''v'' then [CHR 0x0B]
      else [c])"

text \<open>
  The inner loop, which reads one field: the field, the remaining characters and whether the
  row has been terminated, or nothing at the end of the input.
\<close>

fun copy_field :: "string \<Rightarrow> bool \<Rightarrow> bool \<Rightarrow> string \<Rightarrow> (string \<times> string \<times> bool) option etl_result" where
  "copy_field [] in_escape terminated val =
     (if \<not> terminated then Inl (etl_err ConversionError ''Row data not properly terminated'') else Inr None)"
| "copy_field (c # cs) in_escape terminated val =
     (if in_escape then copy_field cs False terminated (val @ copy_unescape c)
      else if c = CHR 0x09 then Inr (Some (val, cs, terminated))
      else if c = CHR 0x0A then Inr (Some (val, cs, True))
      else if c = CHR 0x5C then copy_field cs True terminated val
      else copy_field cs False terminated (val @ [c]))"

definition copy_value :: "text_parsers \<Rightarrow> column_schema \<Rightarrow> string \<Rightarrow> cell etl_result" where
  "copy_value tp c val =
     (if val = [CHR 0x5C, CHR ''N''] then Inr CellNull else parse_cell_from_postgres_text tp (cs_typ c) val)"

definition column_mismatch :: etl_error where
  "column_mismatch = etl_err ConversionError ''Column count mismatch between schema and row''"

lemma copy_field_shorter:
  "copy_field cs esc fin val = Inr (Some (v, rest, t)) \<Longrightarrow> length rest < length cs"
  by (induction cs esc fin val rule: copy_field.induct) (auto split: if_splits intro: less_SucI)

function copy_fields ::
    "text_parsers \<Rightarrow> column_schema list \<Rightarrow> string \<Rightarrow> bool \<Rightarrow> table_row \<Rightarrow> (column_schema list \<times> table_row) etl_result" where
  "copy_fields tp cols cs terminated values =
     (case copy_field cs False terminated [] of
        Inl e \<Rightarrow> Inl e
      | Inr None \<Rightarrow> Inr (cols, values)
      | Inr (Some (val, rest, t)) \<Rightarrow>
          (case cols of
             [] \<Rightarrow> Inl column_mismatch
           | c # cols' \<Rightarrow> res_bind (copy_value tp c val) (\<lambda>v. copy_fields tp cols' rest t (values @ [v]))))"
  by pat_completeness auto
termination
  by (relation "measure (\<lambda>(_, _, cs, _). length cs)") (auto dest: copy_field_shorter)

declare copy_fields.simps [simp del]

definition parse_table_row_from_postgres_copy_bytes ::
    "text_parsers \<Rightarrow> column_schema list \<Rightarrow> string \<Rightarrow> table_row etl_result" where
  "parse_table_row_from_postgres_copy_bytes tp cols row =
     (if \<not> utf8_valid row then Inl (etl_err ConversionError ''UTF-8 conversion failed'')
      else res_bind (copy_fields tp cols row False []) (\<lambda>(rest, values).
        if rest \<noteq> [] then Inl column_mismatch else Inr values))"

section \<open>The format of the server\<close>

definition copy_escape :: "char \<Rightarrow> string" where
  "copy_escape c =
     (if c = CHR 0x08 then [CHR 0x5C, CHR ''b'']
      else if c = CHR 0x0C then [CHR 0x5C, CHR ''f'']
      else if c = CHR 0x0A then [CHR 0x5C, CHR ''n'']
      else if c = CHR 0x0D then [CHR 0x5C, CHR ''r'']
      else if c = CHR 0x09 then [CHR 0x5C, CHR ''t'']
      else if c = CHR 0x0B then [CHR 0x5C, CHR ''v'']
      else if c = CHR 0x5C then [CHR 0x5C, CHR 0x5C]
      else [c])"

definition copy_field_text :: "string option \<Rightarrow> string" where
  "copy_field_text v = (case v of None \<Rightarrow> [CHR 0x5C, CHR ''N''] | Some s \<Rightarrow> concat (map copy_escape s))"

fun copy_row_text :: "string option list \<Rightarrow> string" where
  "copy_row_text [] = [CHR 0x0A]"
| "copy_row_text [v] = copy_field_text v @ [CHR 0x0A]"
| "copy_row_text (v # vs) = copy_field_text v @ CHR 0x09 # copy_row_text vs"

text \<open>What the parser should give for a value: NULL, or the cell of its text.\<close>

definition copied_cell :: "text_parsers \<Rightarrow> column_schema \<Rightarrow> string option \<Rightarrow> cell etl_result" where
  "copied_cell tp c v = (case v of None \<Rightarrow> Inr CellNull | Some s \<Rightarrow> parse_cell_from_postgres_text tp (cs_typ c) s)"

lemma copy_field_escape:
  "copy_field (copy_escape c @ cs) False t val = copy_field cs False t (val @ [c])"
  by (simp add: copy_escape_def copy_unescape_def)

lemma copy_field_escapes:
  "copy_field (concat (map copy_escape s) @ cs) False t val = copy_field cs False t (val @ s)"
  by (induction s arbitrary: val) (simp_all add: copy_field_escape)

lemma copy_field_text_read:
  "copy_field (copy_field_text v @ cs) False t [] =
     copy_field cs False t (case v of None \<Rightarrow> [CHR 0x5C, CHR ''N''] | Some s \<Rightarrow> s)"
  using copy_field_escapes [of _ cs t "[]"] by (simp add: copy_field_text_def copy_unescape_def split: option.split)

lemma copy_fields_text:
  assumes "length cols = length vs" "vs \<noteq> []" "Some [CHR 0x5C, CHR ''N''] \<notin> set vs"
    and "list_all2 (\<lambda>(c, v) x. copied_cell tp c v = Inr x) (zip cols vs) xs"
  shows "copy_fields tp cols (copy_row_text vs) False vals = Inr ([], vals @ xs)"
  using assms
proof (induction vs arbitrary: cols xs vals rule: copy_row_text.induct)
  case (2 v)
  then obtain c x where cx: "cols = [c]" "xs = [x]" "copied_cell tp c v = Inr x"
    by (cases cols) (auto simp: list_all2_Cons1)
  then have "copy_value tp c (case v of None \<Rightarrow> [CHR 0x5C, CHR ''N''] | Some s \<Rightarrow> s) = Inr x"
    using "2.prems" by (auto simp: copy_value_def copied_cell_def split: option.splits)
  then show ?case using cx by (simp add: copy_fields.simps [of tp "[c]"] copy_fields.simps [of tp "[]"] copy_field_text_read)
next
  case (3 v w vs)
  then obtain c cols' x xs' where cx: "cols = c # cols'" "xs = x # xs'" "copied_cell tp c v = Inr x"
      "list_all2 (\<lambda>(c, v) x. copied_cell tp c v = Inr x) (zip cols' (w # vs)) xs'"
    by (cases cols) (auto simp: list_all2_Cons1)
  then have "copy_value tp c (case v of None \<Rightarrow> [CHR 0x5C, CHR ''N''] | Some s \<Rightarrow> s) = Inr x"
    using "3.prems" by (auto simp: copy_value_def copied_cell_def split: option.splits)
  moreover have "copy_fields tp cols' (copy_row_text (w # vs)) False (vals @ [x]) = Inr ([], (vals @ [x]) @ xs')"
    using "3.prems" cx by (intro "3.IH") simp_all
  ultimately show ?case using cx by (simp add: copy_fields.simps [of tp "c # cols'"] copy_field_text_read)
qed simp

text \<open>
  C20. A row that the server copies out is read back value by value: NULL as NULL, and every
  other value as the cell of its text, with all escapes undone, if no value is the two
  characters that also mark NULL.
\<close>

theorem copy_row_roundtrip:
  assumes "length cols = length vs" "vs \<noteq> []" "Some [CHR 0x5C, CHR ''N''] \<notin> set vs" "utf8_valid (copy_row_text vs)"
    and "list_all2 (\<lambda>(c, v) x. copied_cell tp c v = Inr x) (zip cols vs) xs"
  shows "parse_table_row_from_postgres_copy_bytes tp cols (copy_row_text vs) = Inr xs"
  using copy_fields_text [OF assms(1-3,5), of "[]"] assms(4)
  by (simp add: parse_table_row_from_postgres_copy_bytes_def)

definition text_column :: column_schema where
  "text_column = \<lparr> cs_name = ''a'', cs_typ = ''TEXT'', cs_modifier = - 1, cs_ordinal = 1, cs_pk_ordinal = None,
     cs_nullable = True \<rparr>"

definition no_parsers :: text_parsers where
  "no_parsers = \<lparr> tp_f32 = (\<lambda>_. None), tp_f64 = (\<lambda>_. None), tp_date = (\<lambda>_. None), tp_time = (\<lambda>_. None),
     tp_timestamp = (\<lambda>_. None), tp_timestamptz_hhmm = (\<lambda>_. None), tp_timestamptz_hh_mm = (\<lambda>_. None),
     tp_uuid = (\<lambda>_. None), tp_json = (\<lambda>_. None), tp_is_array_type = (\<lambda>_. False) \<rparr>"

theorem copy_row_roundtrip_witness:
  "parse_table_row_from_postgres_copy_bytes no_parsers [text_column, text_column]
     (copy_row_text [None, Some [CHR ''x'', CHR 0x09]]) = Inr [CellNull, CellString [CHR ''x'', CHR 0x09]]"
proof -
  have "utf8_valid (copy_row_text [None, Some [CHR ''x'', CHR 0x09]])" by code_simp
  moreover have "parse_cell_from_postgres_text no_parsers ''TEXT'' [CHR ''x'', CHR 0x09] = Inr (CellString [CHR ''x'', CHR 0x09])"
    by (simp add: parse_cell_from_postgres_text_def Let_def)
  ultimately show ?thesis by (intro copy_row_roundtrip) (simp_all add: copied_cell_def text_column_def)
qed






end
