(* ===== verification/Typed_Rows.thy ===== *)
theory Typed_Rows
  imports Copy_Rows
begin

text \<open>
  Types of decoded cells. The variant of a cell is determined by the type of its column, and
  the integers it holds are in the range of the machine type of the variant, so that the
  unbounded integers of the model never leave the values of the program.
\<close>

text \<open>The variant of \<open>Cell\<close> and \<open>ArrayCell\<close> that a column type is read as.\<close>

definition variant_of_type :: "text_parsers \<Rightarrow> string \<Rightarrow> string" where
  "variant_of_type tp typ =
     (if typ = ''BOOL'' then ''Bool''
      else if typ = ''BOOL_ARRAY'' then ''ArrayBool''
      else if typ \<in> set [''CHAR'', ''BPCHAR'', ''VARCHAR'', ''NAME'', ''TEXT'', ''MONEY''] then ''String''
      else if typ \<in> set [''CHAR_ARRAY'', ''BPCHAR_ARRAY'', ''VARCHAR_ARRAY'', ''NAME_ARRAY'', ''TEXT_ARRAY'', ''MONEY_ARRAY''] then ''ArrayString''
      else if typ = ''INT2'' then ''I16''
      else if typ = ''INT2_ARRAY'' then ''ArrayI16''
      else if typ = ''INT4'' then ''I32''
      else if typ = ''INT4_ARRAY'' then ''ArrayI32''
      else if typ = ''INT8'' then ''I64''
      else if typ = ''INT8_ARRAY'' then ''ArrayI64''
      else if typ = ''FLOAT4'' then ''F32''
      else if typ = ''FLOAT4_ARRAY'' then ''ArrayF32''
      else if typ = ''FLOAT8'' then ''F64''
      else if typ = ''FLOAT8_ARRAY'' then ''ArrayF64''
      else if typ = ''NUMERIC'' then ''Numeric''
      else if typ = ''NUMERIC_ARRAY'' then ''ArrayNumeric''
      else if typ = ''BYTEA'' then ''Bytes''
      else if typ = ''BYTEA_ARRAY'' then ''ArrayBytes''
      else if typ = ''DATE'' then ''Date''
      else if typ = ''DATE_ARRAY'' then ''ArrayDate''
      else if typ = ''TIME'' then ''Time''
      else if typ = ''TIME_ARRAY'' then ''ArrayTime''
      else if typ = ''TIMESTAMP'' then ''Timestamp''
      else if typ = ''TIMESTAMP_ARRAY'' then ''ArrayTimestamp''
      else if typ = ''TIMESTAMPTZ'' then ''TimestampTz''
      else if typ = ''TIMESTAMPTZ_ARRAY'' then ''ArrayTimestampTz''
      else if typ = ''UUID'' then ''Uuid''
      else if typ = ''UUID_ARRAY'' then ''ArrayUuid''
      else if typ = ''JSON'' \<or> typ = ''JSONB'' then ''Json''
      else if typ = ''JSON_ARRAY'' \<or> typ = ''JSONB_ARRAY'' then ''ArrayJson''
      else if typ = ''OID'' then ''U32''
      else if typ = ''OID_ARRAY'' then ''ArrayU32''
      else if tp_is_array_type tp typ then ''ArrayString''
      else ''String'')"

fun array_variant :: "array_cell \<Rightarrow> string" where
  "array_variant (ABool _) = ''ArrayBool''"
| "array_variant (AString _) = ''ArrayString''"
| "array_variant (AI16 _) = ''ArrayI16''"
| "array_variant (AI32 _) = ''ArrayI32''"
| "array_variant (AU32 _) = ''ArrayU32''"
| "array_variant (AI64 _) = ''ArrayI64''"
| "array_variant (AF32 _) = ''ArrayF32''"
| "array_variant (AF64 _) = ''ArrayF64''"
| "array_variant (ANumeric _) = ''ArrayNumeric''"
| "array_variant (ADate _) = ''ArrayDate''"
| "array_variant (ATime _) = ''ArrayTime''"
| "array_variant (ATimestamp _) = ''ArrayTimestamp''"
| "array_variant (ATimestampTz _) = ''ArrayTimestampTz''"
| "array_variant (AUuid _) = ''ArrayUuid''"
| "array_variant (AJson _) = ''ArrayJson''"
| "array_variant (ABytes _) = ''ArrayBytes''"

fun cell_variant :: "cell \<Rightarrow> string" where
  "cell_variant CellNull = ''Null''"
| "cell_variant (CellBool _) = ''Bool''"
| "cell_variant (CellString _) = ''String''"
| "cell_variant (CellI16 _) = ''I16''"
| "cell_variant (CellI32 _) = ''I32''"
| "cell_variant (CellU32 _) = ''U32''"
| "cell_variant (CellI64 _) = ''I64''"
| "cell_variant (CellF32 _) = ''F32''"
| "cell_variant (CellF64 _) = ''F64''"
| "cell_variant (CellNumeric _) = ''Numeric''"
| "cell_variant (CellDate _) = ''Date''"
| "cell_variant (CellTime _) = ''Time''"
| "cell_variant (CellTimestamp _) = ''Timestamp''"
| "cell_variant (CellTimestampTz _) = ''TimestampTz''"
| "cell_variant (CellUuid _) = ''Uuid''"
| "cell_variant (CellJson _) = ''Json''"
| "cell_variant (CellBytes _) = ''Bytes''"
| "cell_variant (CellArray a) = array_variant a"

definition signed_range :: "nat \<Rightarrow> int \<Rightarrow> bool" where
  "signed_range w i \<longleftrightarrow> - (2 ^ (w - 1)) \<le> i \<and> i < 2 ^ (w - 1)"

definition all_present :: "('a \<Rightarrow> bool) \<Rightarrow> 'a option list \<Rightarrow> bool" where
  "all_present P xs = list_all (\<lambda>x. case x of None \<Rightarrow> True | Some v \<Rightarrow> P v) xs"

fun cell_in_range :: "cell \<Rightarrow> bool" where
  "cell_in_range (CellI16 i) = signed_range 16 i"
| "cell_in_range (CellI32 i) = signed_range 32 i"
| "cell_in_range (CellI64 i) = signed_range 64 i"
| "cell_in_range (CellU32 n) = (n < 2 ^ 32)"
| "cell_in_range (CellArray (AI16 xs)) = all_present (signed_range 16) xs"
| "cell_in_range (CellArray (AI32 xs)) = all_present (signed_range 32) xs"
| "cell_in_range (CellArray (AI64 xs)) = all_present (signed_range 64) xs"
| "cell_in_range (CellArray (AU32 xs)) = all_present (\<lambda>n. n < 2 ^ 32) xs"
| "cell_in_range _ = True"

definition cell_typed :: "text_parsers \<Rightarrow> column_schema \<Rightarrow> cell \<Rightarrow> bool" where
  "cell_typed tp c x \<longleftrightarrow> x = CellNull \<or> cell_variant x = variant_of_type tp (cs_typ c) \<and> cell_in_range x"

section \<open>Decoding is well typed\<close>

lemma array_elements_all:
  assumes "array_elements parse cs q e = Inr xs" "\<And>s v. parse s = Inr v \<Longrightarrow> P v"
  shows "all_present P xs"
  using assms
proof (induction parse cs q e arbitrary: xs rule: array_elements.induct)
  case (1 parse cs q e)
  obtain v d q' e' rest where el: "array_element cs [] q e False = (v, d, q', e', rest)" by (metis prod_cases5)
  obtain x where x: "(if \<not> d \<and> map to_lower v = ''null'' then Inr None else res_bind (parse v) (\<lambda>x. Inr (Some x))) = Inr x"
      "(case rest of None \<Rightarrow> Inr [x]
      | Some cs' \<Rightarrow> res_bind (array_elements parse cs' q' e') (\<lambda>xs. Inr (x # xs))) = Inr xs"
    using "1.prems"(1) unfolding array_elements.simps [of parse cs] el case_prod_conv res_bind_eq_Inr_iff by blast
  have px: "all_present P [x]"
    using x(1) "1.prems"(2) [of v] by (auto simp: all_present_def res_bind_eq_Inr_iff split: if_splits)
  show ?case
  proof (cases rest)
    case (Some cs')
    then obtain ys where ys: "array_elements parse cs' q' e' = Inr ys" "xs = x # ys" using x(2) by (auto simp: res_bind_eq_Inr_iff)
    have "all_present P ys" using "1.IH" [OF el [symmetric] refl refl refl Some ys(1)] "1.prems"(2) by blast
    then show ?thesis using px ys(2) by (simp add: all_present_def)
  qed (use x px in auto)
qed

lemma parse_array_all:
  assumes "parse_array s parse m = Inr c" "\<And>s v. parse s = Inr v \<Longrightarrow> P v"
  obtains xs where "c = CellArray (m xs)" "all_present P xs"
proof (cases "butlast (tl s) = []")
  case True
  then show ?thesis using assms(1) that [of "[]"] by (auto simp: parse_array_def all_present_def split: if_splits)
next
  case False
  then obtain xs where "c = CellArray (m xs)" "array_elements parse (butlast (tl s)) False False = Inr xs"
    using assms(1) by (auto simp: parse_array_def Let_def res_bind_eq_Inr_iff split: if_splits)
  then show ?thesis using that array_elements_all [of parse] assms(2) by blast
qed

lemma parse_array_variant:
  assumes "parse_array s parse m = Inr c"
  obtains xs where "c = CellArray (m xs)"
  using parse_array_all [OF assms, of "\<lambda>_. True"] by blast

lemma parse_int_range:
  assumes "parse_int lo hi s = Inr i"
  shows "lo \<le> i \<and> i \<le> hi"
  using assms by (auto simp: parse_int_def Let_def split: option.splits if_splits)

lemma parse_ints:
  "parse_int (- 32768) 32767 s = Inr i \<Longrightarrow> signed_range 16 i"
  "parse_int (- 2147483648) 2147483647 s = Inr i \<Longrightarrow> signed_range 32 i"
  "parse_int (- 9223372036854775808) 9223372036854775807 s = Inr i \<Longrightarrow> signed_range 64 i"
  "res_bind (parse_int 0 4294967295 s) (\<lambda>i. Inr (nat i)) = Inr n \<Longrightarrow> n < 2 ^ 32"
  by (auto simp: signed_range_def res_bind_eq_Inr_iff dest: parse_int_range)

lemma parse_array_range:
  assumes "parse_array s parse m = Inr c" "\<And>s v. parse s = Inr v \<Longrightarrow> P v"
    "\<And>xs. all_present P xs \<Longrightarrow> cell_in_range (CellArray (m xs))"
    "\<And>xs. array_variant (m xs) = k"
  shows "cell_variant c = k \<and> cell_in_range c"
  by (rule parse_array_all [OF assms(1,2)]) (use assms(3,4) in auto)

lemma parse_array_any:
  assumes "parse_array s parse m = Inr c" "\<And>xs. cell_in_range (CellArray (m xs))" "\<And>xs. array_variant (m xs) = k"
  shows "cell_variant c = k \<and> cell_in_range c"
  by (rule parse_array_variant [OF assms(1)]) (use assms(2,3) in auto)

lemma if_decoded:
  assumes "(if b then x else y) = Inr c" "x = Inr c \<Longrightarrow> cell_variant c = v \<and> cell_in_range c"
    "y = Inr c \<Longrightarrow> cell_variant c = w \<and> cell_in_range c"
  shows "cell_variant c = (if b then v else w) \<and> cell_in_range c"
  using assms by (cases b) simp_all

lemma typed_arrays:
  "parse_array s parse0 ABool = Inr c \<Longrightarrow> cell_variant c = ''ArrayBool'' \<and> cell_in_range c"
  "parse_array s parse1 AString = Inr c \<Longrightarrow> cell_variant c = ''ArrayString'' \<and> cell_in_range c"
  "parse_array s parse2 AF32 = Inr c \<Longrightarrow> cell_variant c = ''ArrayF32'' \<and> cell_in_range c"
  "parse_array s parse3 AF64 = Inr c \<Longrightarrow> cell_variant c = ''ArrayF64'' \<and> cell_in_range c"
  "parse_array s parse4 ANumeric = Inr c \<Longrightarrow> cell_variant c = ''ArrayNumeric'' \<and> cell_in_range c"
  "parse_array s parse5 ADate = Inr c \<Longrightarrow> cell_variant c = ''ArrayDate'' \<and> cell_in_range c"
  "parse_array s parse6 ATime = Inr c \<Longrightarrow> cell_variant c = ''ArrayTime'' \<and> cell_in_range c"
  "parse_array s parse7 ATimestamp = Inr c \<Longrightarrow> cell_variant c = ''ArrayTimestamp'' \<and> cell_in_range c"
  "parse_array s parse8 ATimestampTz = Inr c \<Longrightarrow> cell_variant c = ''ArrayTimestampTz'' \<and> cell_in_range c"
  "parse_array s parse9 AUuid = Inr c \<Longrightarrow> cell_variant c = ''ArrayUuid'' \<and> cell_in_range c"
  "parse_array s parse10 AJson = Inr c \<Longrightarrow> cell_variant c = ''ArrayJson'' \<and> cell_in_range c"
  "parse_array s parse11 ABytes = Inr c \<Longrightarrow> cell_variant c = ''ArrayBytes'' \<and> cell_in_range c"
  by (erule parse_array_any; simp)+

lemma typed_int_arrays:
  "parse_array s (parse_int (- 32768) 32767) AI16 = Inr c \<Longrightarrow> cell_variant c = ''ArrayI16'' \<and> cell_in_range c"
  "parse_array s (parse_int (- 2147483648) 2147483647) AI32 = Inr c \<Longrightarrow> cell_variant c = ''ArrayI32'' \<and> cell_in_range c"
  "parse_array s (parse_int (- 9223372036854775808) 9223372036854775807) AI64 = Inr c \<Longrightarrow>
     cell_variant c = ''ArrayI64'' \<and> cell_in_range c"
  "parse_array s (\<lambda>s. res_bind (parse_int 0 4294967295 s) (\<lambda>i. Inr (nat i))) AU32 = Inr c \<Longrightarrow>
     cell_variant c = ''ArrayU32'' \<and> cell_in_range c"
  by (erule parse_array_range, erule parse_ints, simp_all)+

lemma parse_cell_typed:
  assumes "parse_cell_from_postgres_text tp typ s = Inr c"
  shows "cell_variant c = variant_of_type tp typ \<and> cell_in_range c"
  using assms unfolding parse_cell_from_postgres_text_def variant_of_type_def Let_def
  by (elim if_decoded)
    (auto simp: res_bind_eq_Inr_iff dest: parse_ints parse_int_range typed_arrays typed_int_arrays
      split: sum.splits option.splits)

lemma copy_value_typed: "copy_value tp c val = Inr x \<Longrightarrow> cell_typed tp c x"
  by (auto simp: copy_value_def cell_typed_def dest: parse_cell_typed split: if_splits)

lemma copy_fields_typed:
  assumes "copy_fields tp cols cs t vals = Inr (rest, vals')"
  shows "\<exists>done. cols = done @ rest \<and> (\<exists>new. vals' = vals @ new \<and> list_all2 (cell_typed tp) done new)"
  using assms
proof (induction tp cols cs t vals rule: copy_fields.induct)
  case (1 tp cols cs t vals)
  consider "copy_field cs False t [] = Inr None" | v cs' t' where "copy_field cs False t [] = Inr (Some (v, cs', t'))"
    using "1.prems" by (cases "copy_field cs False t []") (auto simp: copy_fields.simps [of tp cols] split: option.splits)
  then show ?case
  proof cases
    case 1
    then show ?thesis using "1.prems" by (auto simp: copy_fields.simps [of tp cols])
  next
    case 2
    then obtain c cols' x where c: "cols = c # cols'" "copy_value tp c v = Inr x"
        "copy_fields tp cols' cs' t' (vals @ [x]) = Inr (rest, vals')"
      using "1.prems" by (auto simp: copy_fields.simps [of tp cols] res_bind_eq_Inr_iff split: list.splits)
    then obtain dn new where "cols' = dn @ rest" "vals' = (vals @ [x]) @ new" "list_all2 (cell_typed tp) dn new"
      using "1.IH" [OF 2 refl refl refl c(1,3)] by blast
    then show ?thesis using c copy_value_typed [OF c(2)]
      by (intro exI [of _ "c # dn"] conjI exI [of _ "x # new"]) simp_all
  qed
qed

lemma convert_tuple_data_typed:
  assumes "convert_tuple_data_to_cell tp c d None = Inr (CellPresent x)"
  shows "cell_typed tp c x"
  using assms
  by (cases d) (auto simp: cell_typed_def res_bind_eq_Inr_iff dest: parse_cell_typed split: if_splits)

lemma convert_present_typed:
  assumes "convert_present tp missing cds = Inr row"
  shows "list_all2 (\<lambda>(c, _) x. cell_typed tp c x) cds row"
  using assms
proof (induction tp missing cds arbitrary: row rule: convert_present.induct)
  case (2 tp missing c d cds)
  then obtain y where y: "convert_tuple_data_to_cell tp c d None = Inr y" by (auto simp: res_bind_eq_Inr_iff)
  with "2.prems" obtain x xs where "convert_tuple_data_to_cell tp c d None = Inr (CellPresent x)"
      "convert_present tp missing cds = Inr xs" "row = x # xs"
    by (cases y) (auto simp: res_bind_eq_Inr_iff)
  then show ?case using 2 convert_tuple_data_typed by auto
qed simp

text \<open>
  C18. Decoded rows are well typed. A row read from COPY data and a row read from a tuple of the
  replication stream have one cell per column, and each cell is NULL or the variant of its
  column type with integers in the range of that variant.
\<close>

theorem rows_well_typed:
  assumes "exact_size it"
  shows "(case parse_table_row_from_postgres_copy_bytes tp cols bytes of
      Inl _ \<Rightarrow> True | Inr row \<Rightarrow> list_all2 (cell_typed tp) cols row) \<and>
   (case convert_tuple_to_row tp it data of
      Inl _ \<Rightarrow> True | Inr row \<Rightarrow> list_all2 (cell_typed tp) (si_inner it) row)"
proof
  show "case parse_table_row_from_postgres_copy_bytes tp cols bytes of
      Inl _ \<Rightarrow> True | Inr row \<Rightarrow> list_all2 (cell_typed tp) cols row"
    using copy_fields_typed [of tp cols bytes False "[]"]
    by (auto simp: parse_table_row_from_postgres_copy_bytes_def res_bind_eq_Inr_iff split: sum.split if_splits)
next
  show "case convert_tuple_to_row tp it data of
      Inl _ \<Rightarrow> True | Inr row \<Rightarrow> list_all2 (cell_typed tp) (si_inner it) row"
  proof (cases "convert_tuple_to_row tp it data")
    case (Inr row)
    then have len: "length data = length (si_inner it)"
      and "convert_present tp ''Tuple missing source value for full row image'' (zip (si_inner it) data) = Inr row"
      using assms by (auto simp: convert_tuple_to_row_def exact_size_def split: if_splits)
    from convert_present_typed [OF this(2)] have "list_all2 (cell_typed tp) (si_inner it) row"
      using len by (auto simp: list_all2_conv_all_nth)
    then show ?thesis using Inr by simp
  qed simp
qed

theorem rows_well_typed_witness:
  "convert_tuple_to_row no_parsers \<lparr> si_inner = [text_column], si_len = 1 \<rparr> [TText ''x''] = Inr [CellString ''x''] \<and>
   list_all2 (cell_typed no_parsers) [text_column] [CellString ''x'']"
proof -
  have "convert_tuple_to_row no_parsers \<lparr> si_inner = [text_column], si_len = 1 \<rparr> [TText ''x''] = Inr [CellString ''x'']"
    by (simp add: convert_tuple_to_row_def text_column_def parse_cell_from_postgres_text_def Let_def)
  then show ?thesis
    using rows_well_typed [of "\<lparr> si_inner = [text_column], si_len = 1 \<rparr>" no_parsers "[]" "[]" "[TText ''x'']"]
    by (simp add: exact_size_def)
qed

end
