(* ===== verification/Table_Copy.thy ===== *)
theory Table_Copy
  imports Batch_Stream Typed_Rows Apply_Loop Apply_Start Async_Result "HOL-Library.Multiset"
begin

text \<open>
  The initial copy of a table, \<open>etl/src/workers/table_sync_copy.rs\<close>, with the stream that
  turns COPY data into rows (\<open>TableCopyStream\<close> of \<open>etl/src/replication/stream.rs\<close>). A copy
  is a sequence of turns of its select loop; a parallel copy is an interleaving of the
  turns of its tasks. The destination is a record of its operations; a log beside it
  keeps the batches it acknowledged. When data arrives, how much memory there is and
  which branch of a select is ready are arguments. How many bytes a row takes depends on
  the capacities of its buffers and is an argument too.
\<close>

section \<open>Destinations\<close>

text \<open>
  A call hands over the completion handle; what comes back is the result of the call, the
  handle as the caller finds it when it awaits the completion, and the destination.
\<close>

type_synonym completion = "(unit, unit) async_result"

record 'd destination_ops =
  dst_write_table_rows ::
    "replicated_table_schema \<Rightarrow> table_row list \<Rightarrow> completion \<Rightarrow> 'd \<Rightarrow> unit etl_result \<times> completion \<times> 'd"
  dst_drop_table_for_copy ::
    "replicated_table_schema \<Rightarrow> completion \<Rightarrow> 'd \<Rightarrow> unit etl_result \<times> completion \<times> 'd"
  dst_shutdown :: "'d \<Rightarrow> unit etl_result \<times> 'd"

record 'd landing =
  ld_dest :: 'd
  ld_written :: "table_row list list"

text \<open>The call and the await of its completion.\<close>

definition awaited :: "(completion \<Rightarrow> 'd \<Rightarrow> unit etl_result \<times> completion \<times> 'd) \<Rightarrow> ('d, unit) action" where
  "awaited call d = (case call (async_new ()) d of (r, handle, d') \<Rightarrow>
     (case r of
        Inl e \<Rightarrow> (Inl (Failed e), d')
      | Inr _ \<Rightarrow> (case fst (async_poll handle) of
            None \<Rightarrow> (Inl Blocked, d')
          | Some (_, completed) \<Rightarrow> (failable completed, d'))))"

definition write_table_rows ::
    "'d destination_ops \<Rightarrow> replicated_table_schema \<Rightarrow> table_row list \<Rightarrow> ('d landing, unit) action" where
  "write_table_rows dst rts rows =
     act_bind (act_on ld_dest (\<lambda>d l. l \<lparr> ld_dest := d \<rparr>) (awaited (dst_write_table_rows dst rts rows))) (\<lambda>_.
       act_modify (\<lambda>l. l \<lparr> ld_written := ld_written l @ [rows] \<rparr>))"

definition drop_table_for_copy :: "'d destination_ops \<Rightarrow> replicated_table_schema \<Rightarrow> ('d landing, unit) action" where
  "drop_table_for_copy dst rts =
     act_bind (act_on ld_dest (\<lambda>d l. l \<lparr> ld_dest := d \<rparr>) (awaited (dst_drop_table_for_copy dst rts))) (\<lambda>_.
       act_modify (\<lambda>l. l \<lparr> ld_written := [] \<rparr>))"

section \<open>The stream of rows\<close>

record copy_config =
  cc_parsers :: text_parsers
  cc_size_hint :: "table_row \<Rightarrow> usize"
  cc_max_fill :: nat

definition table_copy_item :: "text_parsers \<Rightarrow> column_schema list \<Rightarrow> string pg_reply \<Rightarrow> (table_row, etl_error) inner_poll" where
  "table_copy_item tp cols item = (case item of
       Inl failure \<Rightarrow> InnerError (source_error failure)
     | Inr bytes \<Rightarrow> (case parse_table_row_from_postgres_copy_bytes tp cols bytes of
           Inl e \<Rightarrow> InnerError e
         | Inr row \<Rightarrow> InnerItem row))"

text \<open>A round of the batching stream, with whether the next item has arrived.\<close>

record copy_round =
  cr_pressure :: pressure
  cr_now :: instant
  cr_arrived :: bool
  cr_budget :: usize

definition round_input :: "copy_round \<Rightarrow> ('b, 'e) inner_poll \<Rightarrow> ('b, 'e) poll_input" where
  "round_input r i = \<lparr> rd_pressure = cr_pressure r, rd_now = cr_now r, rd_inner = i, rd_budget = cr_budget r \<rparr>"

fun copy_inputs ::
    "text_parsers \<Rightarrow> column_schema list \<Rightarrow> copy_round list \<Rightarrow> string pg_reply list \<Rightarrow> (table_row, etl_error) poll_input list" where
  "copy_inputs tp cols [] items = []"
| "copy_inputs tp cols (r # rs) items =
     (if paused_for_memory (cr_pressure r) \<or> \<not> cr_arrived r
      then round_input r InnerPending # copy_inputs tp cols rs items
      else case items of
          [] \<Rightarrow> round_input r InnerEnd # copy_inputs tp cols rs []
        | x # xs \<Rightarrow> round_input r (table_copy_item tp cols x) # copy_inputs tp cols rs xs)"

section \<open>The copy loop\<close>

datatype ('a, 'i) shutdown_result = Proceed 'a | ShutdownWith 'i

datatype table_copy_result = CopyCompleted "64 word" | CopyShutdown

datatype copy_turn = TurnShutdown | TurnConnection "unit + connection_update" | TurnNext

text \<open>\<open>ct_sent\<close> keeps the rows of this copy that were acknowledged.\<close>

record copy_task =
  ct_inputs :: "(table_row, etl_error) poll_input list"
  ct_batch :: "table_row batch_stream"
  ct_total :: "64 word"
  ct_sent :: "table_row list"

record 'd copy_state =
  cy_task :: copy_task
  cy_landing :: "'d landing"

definition copy_connection_update :: "unit + connection_update \<Rightarrow> unit etl_result" where
  "copy_connection_update changed = (case changed of
      Inl _ \<Rightarrow> Inl (etl_err SourceConnectionFailed ''PostgreSQL connection updates ended during table copy'')
    | Inr ConnRunning \<Rightarrow> Inr ()
    | Inr ConnTerminated \<Rightarrow> Inl (etl_err SourceConnectionFailed ''PostgreSQL connection terminated during table copy'')
    | Inr (ConnErrored e) \<Rightarrow>
        Inl (Single SourceConnectionFailed ''PostgreSQL connection errored during table copy'' (Some e)))"

definition new_copy_task :: "(table_row, etl_error) poll_input list \<Rightarrow> copy_task" where
  "new_copy_task inputs = \<lparr> ct_inputs = inputs, ct_batch = bs_wrap, ct_total = 0, ct_sent = [] \<rparr>"

definition next_batch :: "copy_config \<Rightarrow> ('d copy_state, (table_row, etl_error) batch_poll option) action" where
  "next_batch cfg s =
     (case batch_poll_next (cc_size_hint cfg) (cc_max_fill cfg) (ct_inputs (cy_task s)) (ct_batch (cy_task s)) of
        (a, inputs, batch) \<Rightarrow>
          (Inr a, s \<lparr> cy_task := (cy_task s) \<lparr> ct_inputs := inputs, ct_batch := batch \<rparr> \<rparr>))"

definition on_landing :: "('d landing, 'a) action \<Rightarrow> ('d copy_state, 'a) action" where
  "on_landing = act_on cy_landing (\<lambda>l s. s \<lparr> cy_landing := l \<rparr>)"

text \<open>A turn of the loop: what the copy returns, or nothing if it goes on.\<close>

fun copy_step ::
    "'d destination_ops \<Rightarrow> copy_config \<Rightarrow> replicated_table_schema \<Rightarrow> copy_turn
     \<Rightarrow> ('d copy_state, (64 word, 64 word) shutdown_result option) action" where
  "copy_step dst cfg rts TurnShutdown = act_get (\<lambda>s. Some (ShutdownWith (ct_total (cy_task s))))"
| "copy_step dst cfg rts (TurnConnection changed) =
     act_bind (act_try (copy_connection_update changed)) (\<lambda>_. act_return None)"
| "copy_step dst cfg rts TurnNext =
     act_bind (next_batch cfg) (\<lambda>polled. case polled of
         None \<Rightarrow> blocked
       | Some BatchPending \<Rightarrow> act_return None
       | Some BatchEnd \<Rightarrow> act_get (\<lambda>s. Some (Proceed (ct_total (cy_task s))))
       | Some (BatchError e) \<Rightarrow> act_fail e
       | Some (BatchItems rows) \<Rightarrow>
           act_bind (act_modify (\<lambda>s. s \<lparr> cy_task :=
             (cy_task s) \<lparr> ct_total := ct_total (cy_task s) + of_nat (length rows) \<rparr> \<rparr>)) (\<lambda>_.
           act_bind (on_landing (write_table_rows dst rts rows)) (\<lambda>_.
           act_bind (act_modify (\<lambda>s. s \<lparr> cy_task := (cy_task s) \<lparr> ct_sent := ct_sent (cy_task s) @ rows \<rparr> \<rparr>)) (\<lambda>_.
           act_return None))))"

definition copy_table_rows_from_stream ::
    "'d destination_ops \<Rightarrow> copy_config \<Rightarrow> replicated_table_schema \<Rightarrow> copy_turn list
     \<Rightarrow> ('d copy_state, (64 word, 64 word) shutdown_result) action" where
  "copy_table_rows_from_stream dst cfg rts turns =
     act_bind (act_until (copy_step dst cfg rts) turns) (\<lambda>r. case r of
         None \<Rightarrow> blocked
       | Some x \<Rightarrow> act_return x)"

section \<open>What a copy has sent\<close>

definition copied :: "text_parsers \<Rightarrow> column_schema list \<Rightarrow> string pg_reply \<Rightarrow> table_row \<Rightarrow> bool" where
  "copied tp cols item row \<longleftrightarrow> (\<exists>bytes. item = Inr bytes \<and> parse_table_row_from_postgres_copy_bytes tp cols bytes = Inr row)"

text \<open>
  \<open>pulled\<close>: from the items not yet read and the rows buffered before, some items were read;
  they are now rows that were emitted or are buffered.
\<close>

definition pulled ::
    "text_parsers \<Rightarrow> column_schema list \<Rightarrow> string pg_reply list \<Rightarrow> table_row list
     \<Rightarrow> (table_row, etl_error) poll_input list \<Rightarrow> table_row batch_stream \<Rightarrow> table_row list \<Rightarrow> bool" where
  "pulled tp cols items buffered inputs batch out \<longleftrightarrow>
     (\<exists>rounds taken rest rows. inputs = copy_inputs tp cols rounds rest \<and> items = taken @ rest \<and>
        list_all2 (copied tp cols) taken rows \<and> out @ bs_items batch = buffered @ rows \<and>
        (bs_ended batch \<longrightarrow> rest = [] \<and> bs_items batch = []))"

lemma table_copy_item_InnerItem: "table_copy_item tp cols x = InnerItem row \<longleftrightarrow> copied tp cols x row"
  by (auto simp: table_copy_item_def copied_def split: sum.splits)

lemma table_copy_item_not [simp]: "table_copy_item tp cols x \<noteq> InnerPending" "table_copy_item tp cols x \<noteq> InnerEnd"
  by (auto simp: table_copy_item_def split: sum.splits)

lemma pulled_none:
  assumes "bs_items s' = bs_items s" "bs_ended s' \<longrightarrow> items = [] \<and> bs_items s = []"
  shows "pulled tp cols items (bs_items s) (copy_inputs tp cols rounds items) s' []"
  using assms unfolding pulled_def
  by (intro exI [of _ rounds] exI [of _ "[]"] exI [of _ items]) simp

lemma pulled_Cons:
  assumes "pulled tp cols items (buffered @ [row]) inputs batch out" "copied tp cols x row"
  shows "pulled tp cols (x # items) buffered inputs batch out"
proof -
  obtain rounds taken rest rows where "inputs = copy_inputs tp cols rounds rest" "items = taken @ rest"
      "list_all2 (copied tp cols) taken rows" "out @ bs_items batch = (buffered @ [row]) @ rows"
      "bs_ended batch \<longrightarrow> rest = [] \<and> bs_items batch = []"
    using assms(1) unfolding pulled_def by blast
  then show ?thesis using assms(2) unfolding pulled_def
    by (intro exI [of _ rounds] exI [of _ "x # taken"] exI [of _ rest] exI [of _ "row # rows"]) simp
qed

lemma copy_poll:
  assumes "batch_poll_next sz mf (copy_inputs tp cols rounds items) s = (Some a, inputs, s')"
    and "bs_ended s \<longrightarrow> items = [] \<and> bs_items s = []" and "\<forall>e. a \<noteq> BatchError e"
  shows "pulled tp cols items (bs_items s) inputs s' (concat (emitted [a])) \<and> (a = BatchEnd \<longrightarrow> bs_ended s')"
  using assms
proof (induction tp cols rounds items arbitrary: s rule: copy_inputs.induct)
  case (1 tp cols items)
  then show ?case using pulled_none [of s' s items tp cols "[]"]
    by (auto simp: batch_poll_next.simps split: if_splits)
next
  case (2 tp cols r rs items)
  note IH = "2.IH" and poll = "2.prems"(1) and ended = "2.prems"(2) and ok = "2.prems"(3)
  note next_round = batch_poll_next.simps [of sz mf "_ # _"] and round_defs = poll_round_def round_input_def Let_def take_items_def
  consider (over) "bs_ended s" | (wait) "\<not> bs_ended s" "paused_for_memory (cr_pressure r) \<or> \<not> cr_arrived r"
    | (last) "\<not> bs_ended s" "\<not> paused_for_memory (cr_pressure r)" "cr_arrived r" "items = []"
    | (item) x xs where "\<not> bs_ended s" "\<not> paused_for_memory (cr_pressure r)" "cr_arrived r" "items = x # xs"
    by (cases items) auto
  then show ?case
  proof cases
    case over
    then show ?thesis using poll ended pulled_none [of s' s items tp cols "r # rs"] by (auto simp: batch_poll_next.simps)
  next
    case wait
    then have "inputs = copy_inputs tp cols rs items \<and> concat (emitted [a]) @ bs_items s' = bs_items s \<and> \<not> bs_ended s' \<and> a \<noteq> BatchEnd"
      using poll by (auto simp: next_round round_defs split: if_splits option.splits)
    then show ?thesis unfolding pulled_def
      by (intro conjI exI [of _ rs] exI [of _ "[]"] exI [of _ items]) simp_all
  next
    case last
    then show ?thesis using poll
      by (auto simp: next_round round_defs pulled_def split: if_splits intro!: exI [of _ rs])
  next
    case item
    let ?i = "table_copy_item tp cols x"
    obtain row where row: "?i = InnerItem row"
      using poll ok item by (cases ?i) (auto simp: next_round round_defs)
    then have copied: "copied tp cols x row" by (simp add: table_copy_item_InnerItem)
    obtain ans s1 where s1: "poll_round sz mf (round_input r ?i) s = (ans, s1)" by fastforce
    have eff: "\<not> bs_ended s1" "ans = None \<and> bs_items s1 = bs_items s @ [row] \<or>
        ans = Some (BatchItems (bs_items s @ [row])) \<and> bs_items s1 = []"
      using s1 row item by (auto simp: round_defs split: if_splits)
    show ?thesis
    proof (cases ans)
      case None
      then have "batch_poll_next sz mf (copy_inputs tp cols rs xs) s1 = (Some a, inputs, s')"
        using poll item s1 by (simp add: next_round)
      then show ?thesis using IH(3) [OF _ item(4), of s1] ok item eff None copied pulled_Cons by fastforce
    next
      case (Some b)
      then have "a = BatchItems (bs_items s @ [row])" "inputs = copy_inputs tp cols rs xs" "s' = s1"
        using poll item s1 eff(2) by (auto simp: next_round)
      then show ?thesis using item eff Some copied unfolding pulled_def
        by (intro conjI exI [of _ rs] exI [of _ "[x]"] exI [of _ xs] exI [of _ "[row]"]) auto
    qed
  qed
qed

lemma pulled_poll:
  assumes "pulled tp cols items [] inputs batch out" "batch_poll_next sz mf inputs batch = (Some a, inputs', batch')"
    and "\<forall>e. a \<noteq> BatchError e"
  shows "pulled tp cols items [] inputs' batch' (out @ concat (emitted [a])) \<and> (a = BatchEnd \<longrightarrow> bs_ended batch')"
proof -
  obtain rounds taken rest rows where p: "inputs = copy_inputs tp cols rounds rest" "items = taken @ rest"
      "list_all2 (copied tp cols) taken rows" "out @ bs_items batch = rows" "bs_ended batch \<longrightarrow> rest = [] \<and> bs_items batch = []"
    using assms(1) unfolding pulled_def by auto
  then have new: "pulled tp cols rest (bs_items batch) inputs' batch' (concat (emitted [a]))" "a = BatchEnd \<longrightarrow> bs_ended batch'"
    using copy_poll assms(2,3) by blast+
  then obtain rounds' taken' rest' rows' where q: "inputs' = copy_inputs tp cols rounds' rest'" "rest = taken' @ rest'"
      "list_all2 (copied tp cols) taken' rows'" "concat (emitted [a]) @ bs_items batch' = bs_items batch @ rows'"
      "bs_ended batch' \<longrightarrow> rest' = [] \<and> bs_items batch' = []"
    unfolding pulled_def by blast
  then have "out @ concat (emitted [a]) @ bs_items batch' = rows @ rows'" using p(4) by (metis append.assoc)
  then show ?thesis using p q new(2) unfolding pulled_def
    by (intro conjI exI [of _ rounds'] exI [of _ "taken @ taken'"] exI [of _ rest'] exI [of _ "rows @ rows'"])
      (auto intro: list_all2_appendI)
qed

definition task_ok :: "text_parsers \<Rightarrow> column_schema list \<Rightarrow> string pg_reply list \<Rightarrow> copy_task \<Rightarrow> bool" where
  "task_ok tp cols items t \<longleftrightarrow>
     pulled tp cols items [] (ct_inputs t) (ct_batch t) (ct_sent t) \<and> ct_total t = of_nat (length (ct_sent t))"

text \<open>A task that is done has sent every row.\<close>

definition sent_all :: "text_parsers \<Rightarrow> column_schema list \<Rightarrow> string pg_reply list \<Rightarrow> copy_task \<Rightarrow> 64 word \<Rightarrow> bool" where
  "sent_all tp cols items t n \<longleftrightarrow> list_all2 (copied tp cols) items (ct_sent t) \<and> n = of_nat (length items)"

lemma new_task_ok: "task_ok tp cols items (new_copy_task (copy_inputs tp cols rounds items))"
  using pulled_none [of bs_wrap bs_wrap items tp cols rounds]
  by (simp add: task_ok_def new_copy_task_def bs_wrap_def)

lemma task_ok_end:
  assumes "task_ok tp cols items t" "bs_ended (ct_batch t)"
  shows "sent_all tp cols items t (ct_total t)"
  using assms unfolding task_ok_def pulled_def sent_all_def by (auto dest: list_all2_lengthD)

lemma write_table_rows_effect:
  assumes "write_table_rows dst rts rows l = (r, l')"
  shows "ld_written l' = (if r = Inr () then ld_written l @ [rows] else ld_written l)"
  using assms by (auto simp: write_table_rows_def act_bind_def act_on_def awaited_def failable_def
      split: prod.splits sum.splits option.splits if_splits)

text \<open>Whatever a turn does, the log of the destination grows by what the task has sent.\<close>

lemma copy_step_log:
  assumes "copy_step dst cfg rts turn s = (r, s')"
  shows "\<exists>new. ld_written (cy_landing s') = ld_written (cy_landing s) @ new \<and>
     ct_sent (cy_task s') = ct_sent (cy_task s) @ concat new"
proof (cases turn)
  case TurnNext
  obtain a inputs batch where p: "batch_poll_next (cc_size_hint cfg) (cc_max_fill cfg) (ct_inputs (cy_task s)) (ct_batch (cy_task s)) = (a, inputs, batch)"
    by (metis prod_cases3)
  show ?thesis
  proof (cases "\<exists>rows. a = Some (BatchItems rows)")
    case True
    then obtain rows where a: "a = Some (BatchItems rows)" by blast
    obtain w l where w: "write_table_rows dst rts rows (cy_landing s) = (w, l)" by fastforce
    show ?thesis using assms TurnNext p a w write_table_rows_effect [OF w]
      by (cases w) (auto simp: act_bind_def next_batch_def on_landing_def act_on_def act_stop)
  next
    case False
    then show ?thesis using assms TurnNext p
      by (cases a) (auto simp: act_bind_def next_batch_def blocked_def act_stop split: batch_poll.splits)
  qed
qed (use assms in \<open>auto simp: act_bind_def act_try_def act_stop split: sum.splits prod.splits\<close>)

lemma copy_step_ok:
  assumes "copy_step dst cfg rts turn s = (Inr r, s')" "task_ok tp cols items (cy_task s)"
  shows "task_ok tp cols items (cy_task s') \<and> (\<forall>n. r = Some (Proceed n) \<longrightarrow> sent_all tp cols items (cy_task s') n)"
proof (cases turn)
  case TurnNext
  let ?t = "cy_task s"
  obtain a inputs batch where p: "batch_poll_next (cc_size_hint cfg) (cc_max_fill cfg) (ct_inputs ?t) (ct_batch ?t) = (Some a, inputs, batch)"
    using assms(1) TurnNext
    by (auto simp: act_bind_def next_batch_def blocked_def act_stop split: prod.splits sum.splits option.splits)
  have noerr: "\<forall>e. a \<noteq> BatchError e"
    using assms(1) TurnNext p by (auto simp: act_bind_def next_batch_def act_stop)
  have pulled: "pulled tp cols items [] inputs batch (ct_sent ?t @ concat (emitted [a]))" "a = BatchEnd \<longrightarrow> bs_ended batch"
    using pulled_poll [OF _ p noerr] assms(2) unfolding task_ok_def by blast+
  show ?thesis
  proof (cases "a = BatchEnd")
    case True
    then have "task_ok tp cols items (cy_task s')" "bs_ended (ct_batch (cy_task s'))" "r = Some (Proceed (ct_total (cy_task s')))"
      using assms TurnNext p pulled by (auto simp: next_batch_def act_bind_def task_ok_def)
    then show ?thesis using task_ok_end by blast
  next
    case False
    then show ?thesis using assms TurnNext p pulled noerr
      by (cases a) (auto simp: act_bind_eq_Inr next_batch_def on_landing_def act_on_def act_stop task_ok_def split: prod.splits)
  qed
qed (use assms in \<open>auto simp: act_bind_eq_Inr act_try_def act_stop split: sum.splits\<close>)

lemma copy_loop_log:
  assumes "act_until (copy_step dst cfg rts) turns s = (r, s')"
  shows "\<exists>new. ld_written (cy_landing s') = ld_written (cy_landing s) @ new \<and>
     ct_sent (cy_task s') = ct_sent (cy_task s) @ concat new"
  using assms
proof (induction turns arbitrary: s)
  case (Cons turn turns)
  obtain x s1 where x: "copy_step dst cfg rts turn s = (x, s1)" by fastforce
  obtain new where new: "ld_written (cy_landing s1) = ld_written (cy_landing s) @ new"
      "ct_sent (cy_task s1) = ct_sent (cy_task s) @ concat new"
    using copy_step_log [OF x] by blast
  show ?case
  proof (cases "x = Inr None")
    case True
    then have "act_until (copy_step dst cfg rts) turns s1 = (r, s')" using Cons.prems x by (simp add: act_bind_def)
    then obtain new' where "ld_written (cy_landing s') = ld_written (cy_landing s1) @ new'"
        "ct_sent (cy_task s') = ct_sent (cy_task s1) @ concat new'"
      using Cons.IH by blast
    then show ?thesis using new by (intro exI [of _ "new @ new'"]) simp
  next
    case False
    then have "s' = s1" using Cons.prems x by (auto simp: act_bind_def act_stop split: sum.splits option.splits)
    then show ?thesis using new by blast
  qed
qed (simp add: act_stop)

lemma copy_loop_ok:
  assumes "act_until (copy_step dst cfg rts) turns s = (Inr r, s')" "task_ok tp cols items (cy_task s)"
  shows "task_ok tp cols items (cy_task s') \<and> (\<forall>n. r = Some (Proceed n) \<longrightarrow> sent_all tp cols items (cy_task s') n)"
  using assms
proof (induction turns arbitrary: s)
  case (Cons turn turns)
  obtain x s1 where x: "copy_step dst cfg rts turn s = (Inr x, s1)"
    using Cons.prems(1) by (auto simp: act_bind_eq_Inr)
  note ok = copy_step_ok [OF x Cons.prems(2)]
  show ?case
  proof (cases x)
    case None
    then show ?thesis using Cons.IH [of s1] Cons.prems(1) x ok by (simp add: act_bind_def)
  next
    case (Some y)
    then show ?thesis using Cons.prems(1) x ok by (simp add: act_bind_def act_stop)
  qed
qed (simp add: act_stop)

section \<open>The serial copy\<close>

record ('w, 'd) copy_world =
  cw_source :: 'w
  cw_landing :: "'d landing"
  cw_budget :: batch_budget

definition replicated_columns :: "replicated_table_schema \<Rightarrow> column_schema list" where
  "replicated_columns rts = si_inner (column_schemas rts)"

text \<open>What the environment decides for one stream: when its rows arrive, and the turns of its loop.\<close>

record copy_env =
  ce_rounds :: "copy_round list"
  ce_turns :: "copy_turn list"

definition ask_copy :: "('w \<Rightarrow> 'a etl_result) \<Rightarrow> (('w, 'd) copy_world, 'a) action" where
  "ask_copy f w = (failable (f (cw_source w)), w)"

text \<open>A guard is dropped when the code that holds it ends, with a value or an error.\<close>

definition act_finally :: "('s, 'a) action \<Rightarrow> ('s \<Rightarrow> 's) \<Rightarrow> ('s, 'a) action" where
  "act_finally m f s = (case m s of (r, s') \<Rightarrow> if r = Inl Blocked then (r, s') else (r, f s'))"

definition with_stream_guard :: "(('w, 'd) copy_world, 'a) action \<Rightarrow> (('w, 'd) copy_world, 'a) action" where
  "with_stream_guard m =
     act_bind (\<lambda>w. case register_stream_load 1 (cw_budget w) of (u, b) \<Rightarrow> (Inr u, w \<lparr> cw_budget := b \<rparr>)) (\<lambda>units.
       act_finally m (\<lambda>w. w \<lparr> cw_budget := drop_stream_guard units (cw_budget w) \<rparr>))"

definition run_copy ::
    "'d destination_ops \<Rightarrow> copy_config \<Rightarrow> replicated_table_schema \<Rightarrow> copy_env \<Rightarrow> string pg_reply list
     \<Rightarrow> (('w, 'd) copy_world, (64 word, 64 word) shutdown_result) action" where
  "run_copy dst cfg rts env items =
     act_on (\<lambda>w. \<lparr> cy_task = new_copy_task (copy_inputs (cc_parsers cfg) (replicated_columns rts) (ce_rounds env) items),
                  cy_landing = cw_landing w \<rparr>)
       (\<lambda>s w. w \<lparr> cw_landing := cy_landing s \<rparr>)
       (copy_table_rows_from_stream dst cfg rts (ce_turns env))"

definition serial_table_copy ::
    "'w source \<Rightarrow> 'd destination_ops \<Rightarrow> copy_config \<Rightarrow> table_id \<Rightarrow> replicated_table_schema \<Rightarrow> string option \<Rightarrow> copy_env
     \<Rightarrow> (('w, 'd) copy_world, table_copy_result) action" where
  "serial_table_copy src dst cfg t rts pub env =
     act_bind (ask_copy (get_table_copy_stream src t (replicated_columns rts) pub)) (\<lambda>items.
     with_stream_guard (act_bind (run_copy dst cfg rts env items) (\<lambda>r. case r of
         ShutdownWith _ \<Rightarrow> act_return CopyShutdown
       | Proceed n \<Rightarrow> act_return (CopyCompleted n))))"

text \<open>All rows of a COPY stream were written, in order, in the batches \<open>new\<close>.\<close>

definition stream_written ::
    "copy_config \<Rightarrow> replicated_table_schema \<Rightarrow> string pg_reply list \<Rightarrow> table_row list list \<Rightarrow> 64 word \<Rightarrow> bool" where
  "stream_written cfg rts items new n \<longleftrightarrow>
     list_all2 (copied (cc_parsers cfg) (replicated_columns rts)) items (concat new) \<and> n = of_nat (length items)"

lemma act_finally_Inr: "act_finally m f s = (Inr x, s'') \<longleftrightarrow> (\<exists>s'. m s = (Inr x, s') \<and> s'' = f s')"
  by (auto simp: act_finally_def split: prod.splits)

lemma guard_released [simp]: "drop_stream_guard (fst (register_stream_load u b)) (snd (register_stream_load u b)) = b"
  by (simp add: register_stream_load_def drop_stream_guard_def Let_def)

lemma with_stream_guard_Inr:
  assumes "with_stream_guard m w = (Inr x, w')"
  shows "\<exists>w1. m (w \<lparr> cw_budget := snd (register_stream_load 1 (cw_budget w)) \<rparr>) = (Inr x, w1) \<and>
     w' = w1 \<lparr> cw_budget := drop_stream_guard (fst (register_stream_load 1 (cw_budget w))) (cw_budget w1) \<rparr>"
  using assms by (auto simp: with_stream_guard_def act_bind_eq_Inr act_finally_Inr split: prod.splits)

lemma copy_result_completed [simp]:
  "(case r of Proceed n \<Rightarrow> act_return (CopyCompleted n) | ShutdownWith _ \<Rightarrow> act_return CopyShutdown) s = (Inr (CopyCompleted n), s')
     \<longleftrightarrow> r = Proceed n \<and> s' = s"
  by (cases r) (auto simp: act_stop)

lemma run_copy_frame:
  assumes "run_copy dst cfg rts env items w = (r, w')"
  shows "\<exists>l. w' = w \<lparr> cw_landing := l \<rparr>"
  using assms by (auto simp: run_copy_def act_on_def split: prod.splits)

lemma run_copy_complete:
  assumes "run_copy dst cfg rts env items w = (Inr (Proceed n), w')"
  shows "\<exists>new. ld_written (cw_landing w') = ld_written (cw_landing w) @ new \<and> stream_written cfg rts items new n"
proof -
  let ?s = "\<lparr> cy_task = new_copy_task (copy_inputs (cc_parsers cfg) (replicated_columns rts) (ce_rounds env) items),
      cy_landing = cw_landing w \<rparr>"
  obtain s' where s': "act_until (copy_step dst cfg rts) (ce_turns env) ?s = (Inr (Some (Proceed n)), s')"
      "w' = w \<lparr> cw_landing := cy_landing s' \<rparr>"
    using assms by (auto simp: run_copy_def act_on_def copy_table_rows_from_stream_def act_bind_def blocked_def act_stop
        split: prod.splits sum.splits option.splits)
  obtain new where "ld_written (cy_landing s') = ld_written (cw_landing w) @ new" "ct_sent (cy_task s') = concat new"
    using copy_loop_log [OF s'(1)] by (auto simp: new_copy_task_def)
  then show ?thesis
    using copy_loop_ok [OF s'(1), of "cc_parsers cfg" "replicated_columns rts" items] new_task_ok s'(2)
    by (auto simp: sent_all_def stream_written_def)
qed

lemma serial_copy_complete:
  assumes "serial_table_copy src dst cfg t rts pub env w = (Inr (CopyCompleted n), w')"
  shows "\<exists>items new. get_table_copy_stream src t (replicated_columns rts) pub (cw_source w) = Inr items \<and>
     ld_written (cw_landing w') = ld_written (cw_landing w) @ new \<and> stream_written cfg rts items new n"
    and "cw_source w' = cw_source w" "cw_budget w' = cw_budget w"
proof -
  obtain items w1 where items: "get_table_copy_stream src t (replicated_columns rts) pub (cw_source w) = Inr items"
    and run: "run_copy dst cfg rts env items (w \<lparr> cw_budget := snd (register_stream_load 1 (cw_budget w)) \<rparr>) = (Inr (Proceed n), w1)"
    and w': "w' = w1 \<lparr> cw_budget := drop_stream_guard (fst (register_stream_load 1 (cw_budget w))) (cw_budget w1) \<rparr>"
    using assms by (auto simp: serial_table_copy_def act_bind_eq_Inr ask_copy_def
        dest!: with_stream_guard_Inr)
  show "\<exists>items new. get_table_copy_stream src t (replicated_columns rts) pub (cw_source w) = Inr items \<and>
     ld_written (cw_landing w') = ld_written (cw_landing w) @ new \<and> stream_written cfg rts items new n"
    using run_copy_complete [OF run] items w' by auto
  show "cw_source w' = cw_source w" "cw_budget w' = cw_budget w"
    using run_copy_frame [OF run] w' by auto
qed

end
