(* ===== verification/Parallel_Copy.thy ===== *)
theory Parallel_Copy
  imports Table_Copy
begin

text \<open>
  The parallel copy of a table and the choice between the two strategies, the rest of
  \<open>etl/src/workers/table_sync_copy.rs\<close>. The copy plans its partitions, starts one task
  per partition as permits allow, and joins them. A run is a sequence of events: a task
  is started, takes a turn of its loop, panics, or is joined. The events say which
  task moves next; an event that is not possible in a state changes nothing. Every task
  has its own connection to the source, pinned to the exported snapshot. The semaphore is
  never closed, so acquiring a permit does not fail.
\<close>

section \<open>Tasks\<close>

datatype copy_partition = CtidRange ctid_partition | LeafPartition table_id

record ('w, 'd) copy_job =
  cj_source :: "'w source"
  cj_destination :: "'d destination_ops"
  cj_config :: copy_config
  cj_table :: table_id
  cj_schema :: replicated_table_schema
  cj_publication :: "string option"

definition open_partition_stream ::
    "('w, 'd) copy_job \<Rightarrow> copy_partition \<Rightarrow> 'w \<Rightarrow> string pg_reply list etl_result" where
  "open_partition_stream job part w = (case part of
       CtidRange ctid \<Rightarrow> get_table_copy_stream_with_ctid_partition (cj_source job) (cj_table job)
         (replicated_columns (cj_schema job)) (cj_publication job) ctid w
     | LeafPartition leaf \<Rightarrow> get_table_copy_stream (cj_source job) leaf
         (replicated_columns (cj_schema job)) (cj_publication job) w)"

definition child_transaction_new :: "'w source \<Rightarrow> string \<Rightarrow> 'w \<Rightarrow> unit etl_result \<times> 'w" where
  "child_transaction_new src snapshot w = (case begin_tx src w of
       (Inl e, w1) \<Rightarrow> (Inl e, w1)
     | (Inr _, w1) \<Rightarrow> set_tx_snapshot src snapshot w1)"

text \<open>The beginning of a task: a forked connection, a transaction on it, and its stream.\<close>

definition start_partition ::
    "('w, 'd) copy_job \<Rightarrow> string \<Rightarrow> copy_partition \<Rightarrow> 'w etl_result \<Rightarrow> ('w \<times> string pg_reply list) etl_result" where
  "start_partition job snapshot part forked =
     res_bind forked (\<lambda>w. case child_transaction_new (cj_source job) snapshot w of
         (Inl e, _) \<Rightarrow> Inl e
       | (Inr _, w') \<Rightarrow> res_bind (open_partition_stream job part w') (\<lambda>items. Inr (w', items)))"

text \<open>The end of a task: its transaction is committed unless it was shut down.\<close>

definition finish_partition :: "'w source \<Rightarrow> 'w \<Rightarrow> (64 word, 64 word) shutdown_result \<Rightarrow> table_copy_result etl_result" where
  "finish_partition src w r = (case r of
       ShutdownWith _ \<Rightarrow> Inr CopyShutdown
     | Proceed n \<Rightarrow> (case fst (commit_tx src w) of
           Inl e \<Rightarrow> Inl e
         | Inr _ \<Rightarrow> Inr (CopyCompleted n)))"

datatype 'w task_status =
    TaskRunning 'w copy_task
  | TaskStuck
  | TaskDone "table_copy_result etl_result"
  | TaskPanicked
  | TaskJoined

text \<open>\<open>pt_items\<close> and \<open>pt_sent\<close> keep what the stream of the task holds and what it has sent.\<close>

record 'w partition_task =
  pt_partition :: copy_partition
  pt_status :: "'w task_status"
  pt_items :: "string pg_reply list"
  pt_sent :: "table_row list"

fun unfinished :: "'w task_status \<Rightarrow> bool" where
  "unfinished (TaskRunning w t) = True"
| "unfinished TaskStuck = True"
| "unfinished _ = False"

section \<open>Events\<close>

datatype 'w copy_event =
    SpawnTask "'w etl_result" "copy_round list"
  | TaskTurn nat copy_turn
  | TaskPanic nat
  | JoinTask nat

record ('w, 'd) parallel_copy =
  pc_waiting :: "copy_partition list"
  pc_tasks :: "'w partition_task list"
  pc_total :: "64 word"
  pc_landing :: "'d landing"
  pc_budget :: batch_budget

definition free_permits :: "nat \<Rightarrow> ('w, 'd) parallel_copy \<Rightarrow> nat" where
  "free_permits max_connections p = max_connections - length (filter (unfinished \<circ> pt_status) (pc_tasks p))"

definition set_task :: "nat \<Rightarrow> 'w partition_task \<Rightarrow> ('w, 'd) parallel_copy \<Rightarrow> ('w, 'd) parallel_copy" where
  "set_task i x p = p \<lparr> pc_tasks := (pc_tasks p)[i := x] \<rparr>"

definition release_guards :: "nat \<Rightarrow> ('w, 'd) parallel_copy \<Rightarrow> ('w, 'd) parallel_copy" where
  "release_guards n p = p \<lparr> pc_budget := drop_stream_guard n (pc_budget p) \<rparr>"

text \<open>Dropping the set of tasks aborts those that still run.\<close>

definition abort_tasks :: "('w, 'd) parallel_copy \<Rightarrow> ('w, 'd) parallel_copy" where
  "abort_tasks p = release_guards (length (filter (unfinished \<circ> pt_status) (pc_tasks p))) p"

definition spawn_task ::
    "('w, 'd) copy_job \<Rightarrow> string \<Rightarrow> nat \<Rightarrow> 'w etl_result \<Rightarrow> copy_round list \<Rightarrow> ('w, 'd) parallel_copy \<Rightarrow> ('w, 'd) parallel_copy" where
  "spawn_task job snapshot max_connections forked rounds p = (case pc_waiting p of
       [] \<Rightarrow> p
     | part # rest \<Rightarrow>
         if free_permits max_connections p = 0 then p
         else case start_partition job snapshot part forked of
             Inl e \<Rightarrow> p \<lparr> pc_waiting := rest, pc_tasks := pc_tasks p @
               [\<lparr> pt_partition = part, pt_status = TaskDone (Inl e), pt_items = [], pt_sent = [] \<rparr>] \<rparr>
           | Inr (w, items) \<Rightarrow> p \<lparr> pc_waiting := rest, pc_tasks := pc_tasks p @
               [\<lparr> pt_partition = part,
                  pt_status = TaskRunning w (new_copy_task
                    (copy_inputs (cc_parsers (cj_config job)) (replicated_columns (cj_schema job)) rounds items)),
                  pt_items = items, pt_sent = [] \<rparr>],
               pc_budget := snd (register_stream_load 1 (pc_budget p)) \<rparr>)"

definition turn_status ::
    "'w source \<Rightarrow> 'w \<Rightarrow> (stop, (64 word, 64 word) shutdown_result option) result \<Rightarrow> copy_task \<Rightarrow> 'w task_status" where
  "turn_status src w r t = (case r of
       Inl (Failed e) \<Rightarrow> TaskDone (Inl e)
     | Inl Blocked \<Rightarrow> TaskStuck
     | Inr None \<Rightarrow> TaskRunning w t
     | Inr (Some y) \<Rightarrow> TaskDone (finish_partition src w y))"

definition task_turn ::
    "('w, 'd) copy_job \<Rightarrow> nat \<Rightarrow> copy_turn \<Rightarrow> ('w, 'd) parallel_copy \<Rightarrow> ('w, 'd) parallel_copy" where
  "task_turn job i turn p =
     (if i < length (pc_tasks p) then
        let x = pc_tasks p ! i in
        case pt_status x of
          TaskRunning w t \<Rightarrow>
            (case copy_step (cj_destination job) (cj_config job) (cj_schema job) turn
                    \<lparr> cy_task = t, cy_landing = pc_landing p \<rparr> of (r, s) \<Rightarrow>
               let status = turn_status (cj_source job) w r (cy_task s);
                   p' = (set_task i (x \<lparr> pt_status := status, pt_sent := ct_sent (cy_task s) \<rparr>) p) \<lparr> pc_landing := cy_landing s \<rparr>
               in if unfinished status then p' else release_guards 1 p')
        | _ \<Rightarrow> p
      else p)"

definition task_panic :: "nat \<Rightarrow> ('w, 'd) parallel_copy \<Rightarrow> ('w, 'd) parallel_copy" where
  "task_panic i p =
     (if i < length (pc_tasks p) \<and> unfinished (pt_status (pc_tasks p ! i))
      then release_guards 1 (set_task i ((pc_tasks p ! i) \<lparr> pt_status := TaskPanicked \<rparr>) p) else p)"

definition join_task :: "nat \<Rightarrow> (('w, 'd) parallel_copy, table_copy_result option) action" where
  "join_task i p =
     (if pc_waiting p = [] \<and> i < length (pc_tasks p) then
        case pt_status (pc_tasks p ! i) of
          TaskDone (Inr (CopyCompleted n)) \<Rightarrow>
            let p' = (set_task i ((pc_tasks p ! i) \<lparr> pt_status := TaskJoined \<rparr>) p) \<lparr> pc_total := pc_total p + n \<rparr> in
            (Inr (if list_all (\<lambda>x. pt_status x = TaskJoined) (pc_tasks p') then Some (CopyCompleted (pc_total p')) else None), p')
        | TaskDone (Inr CopyShutdown) \<Rightarrow> (Inr (Some CopyShutdown), abort_tasks p)
        | TaskDone (Inl e) \<Rightarrow> (Inl (Failed e), abort_tasks p)
        | TaskPanicked \<Rightarrow>
            (Inl (Failed (etl_err TableSyncWorkerPanic
               ''One or more parallel copy partition tasks panicked, aborting all'')), abort_tasks p)
        | _ \<Rightarrow> (Inr None, p)
      else (Inr None, p))"

fun parallel_step ::
    "('w, 'd) copy_job \<Rightarrow> string \<Rightarrow> nat \<Rightarrow> 'w copy_event \<Rightarrow> (('w, 'd) parallel_copy, table_copy_result option) action" where
  "parallel_step job snapshot n (SpawnTask forked rounds) = act_bind (act_modify (spawn_task job snapshot n forked rounds)) (\<lambda>_. act_return None)"
| "parallel_step job snapshot n (TaskTurn i turn) = act_bind (act_modify (task_turn job i turn)) (\<lambda>_. act_return None)"
| "parallel_step job snapshot n (TaskPanic i) = act_bind (act_modify (task_panic i)) (\<lambda>_. act_return None)"
| "parallel_step job snapshot n (JoinTask i) = join_task i"

section \<open>The copy\<close>

definition plan_partitions :: "('w, 'd) copy_job \<Rightarrow> 16 word \<Rightarrow> 'w \<Rightarrow> copy_partition list etl_result" where
  "plan_partitions job max_connections w =
     res_bind (is_partitioned_table (cj_source job) (cj_table job) w) (\<lambda>partitioned.
       if partitioned
       then res_bind (get_leaf_partitions (cj_source job) (cj_table job) w) (\<lambda>leaves. Inr (map LeafPartition leaves))
       else res_bind (plan_ctid_partitions (cj_source job) (cj_table job) max_connections w) (\<lambda>ranges. Inr (map CtidRange ranges)))"

definition run_partitions ::
    "('w, 'd) copy_job \<Rightarrow> string \<Rightarrow> nat \<Rightarrow> copy_partition list \<Rightarrow> 'w copy_event list
     \<Rightarrow> (('w, 'd) copy_world, table_copy_result) action" where
  "run_partitions job snapshot n parts events =
     act_on (\<lambda>w. \<lparr> pc_waiting = parts, pc_tasks = [], pc_total = 0, pc_landing = cw_landing w, pc_budget = cw_budget w \<rparr>)
       (\<lambda>p w. w \<lparr> cw_landing := pc_landing p, cw_budget := pc_budget p \<rparr>)
       (act_bind (act_until (parallel_step job snapshot n) events) (\<lambda>r. case r of
           None \<Rightarrow> blocked
         | Some x \<Rightarrow> act_return x))"

definition parallel_table_copy ::
    "('w, 'd) copy_job \<Rightarrow> 16 word \<Rightarrow> 'w copy_event list \<Rightarrow> (('w, 'd) copy_world, table_copy_result) action" where
  "parallel_table_copy job max_connections events =
     act_bind (ask_copy (plan_partitions job max_connections)) (\<lambda>parts.
       if parts = [] then act_return (CopyCompleted 0)
       else act_bind (ask_copy (export_snapshot (cj_source job))) (\<lambda>snapshot.
         run_partitions job snapshot (unat max_connections) parts events))"

definition table_copy ::
    "('w, 'd) copy_job \<Rightarrow> 16 word \<Rightarrow> copy_env \<Rightarrow> 'w copy_event list \<Rightarrow> (('w, 'd) copy_world, table_copy_result) action" where
  "table_copy job max_connections env events =
     (if 1 < max_connections then parallel_table_copy job max_connections events
      else serial_table_copy (cj_source job) (cj_destination job) (cj_config job) (cj_table job) (cj_schema job)
             (cj_publication job) env)"

section \<open>The invariant of a parallel copy\<close>

abbreviation row_copied :: "('w, 'd) copy_job \<Rightarrow> string pg_reply \<Rightarrow> table_row \<Rightarrow> bool" where
  "row_copied job \<equiv> copied (cc_parsers (cj_config job)) (replicated_columns (cj_schema job))"

text \<open>\<open>items\<close> is the stream of a partition, read in the snapshot.\<close>

definition opened :: "('w, 'd) copy_job \<Rightarrow> string \<Rightarrow> copy_partition \<Rightarrow> string pg_reply list \<Rightarrow> bool" where
  "opened job snapshot part items \<longleftrightarrow> (\<exists>forked w. start_partition job snapshot part (Inr forked) = Inr (w, items))"

fun task_inv :: "('w, 'd) copy_job \<Rightarrow> 'w partition_task \<Rightarrow> 'w task_status \<Rightarrow> bool" where
  "task_inv job x (TaskRunning w t) \<longleftrightarrow>
     task_ok (cc_parsers (cj_config job)) (replicated_columns (cj_schema job)) (pt_items x) t \<and> pt_sent x = ct_sent t"
| "task_inv job x (TaskDone (Inr (CopyCompleted n))) \<longleftrightarrow>
     list_all2 (row_copied job) (pt_items x) (pt_sent x) \<and> n = of_nat (length (pt_sent x))"
| "task_inv job x TaskJoined \<longleftrightarrow> list_all2 (row_copied job) (pt_items x) (pt_sent x)"
| "task_inv job x _ \<longleftrightarrow> True"

definition task_good :: "('w, 'd) copy_job \<Rightarrow> string \<Rightarrow> 'w partition_task \<Rightarrow> bool" where
  "task_good job snapshot x \<longleftrightarrow>
     task_inv job x (pt_status x) \<and> ((\<forall>e. pt_status x \<noteq> TaskDone (Inl e)) \<longrightarrow> opened job snapshot (pt_partition x) (pt_items x))"

definition joined_rows :: "'w partition_task \<Rightarrow> 64 word" where
  "joined_rows x = (if pt_status x = TaskJoined then of_nat (length (pt_sent x)) else 0)"

definition parallel_ok ::
    "('w, 'd) copy_job \<Rightarrow> string \<Rightarrow> copy_partition list \<Rightarrow> table_row list list \<Rightarrow> ('w, 'd) parallel_copy \<Rightarrow> bool" where
  "parallel_ok job snapshot parts before p \<longleftrightarrow>
     map pt_partition (pc_tasks p) @ pc_waiting p = parts \<and>
     (\<forall>x \<in> set (pc_tasks p). task_good job snapshot x) \<and>
     pc_total p = sum_list (map joined_rows (pc_tasks p)) \<and>
     (\<exists>new. ld_written (pc_landing p) = before @ new \<and>
        mset (concat new) = sum_list (map (mset \<circ> pt_sent) (pc_tasks p)))"

lemma sum_list_update_add:
  fixes f :: "'a \<Rightarrow> 'b::comm_monoid_add"
  assumes "i < length xs"
  shows "sum_list (map f (xs[i := y])) + f (xs ! i) = sum_list (map f xs) + f y"
  using assms
proof (induction xs arbitrary: i)
  case (Cons x xs)
  show ?case
  proof (cases i)
    case (Suc j)
    then have "sum_list (map f (xs[j := y])) + f (xs ! j) = sum_list (map f xs) + f y" using Cons by simp
    then show ?thesis using Suc by (simp add: add.assoc)
  qed (simp add: ac_simps)
qed simp

text \<open>A task is replaced: what this adds to the total and to the rows sent.\<close>

lemma parallel_ok_set:
  assumes "parallel_ok job snapshot parts before p" "i < length (pc_tasks p)"
    and "pt_partition y = pt_partition (pc_tasks p ! i)" "task_good job snapshot y"
    and "joined_rows y = joined_rows (pc_tasks p ! i) + n" "pt_sent y = pt_sent (pc_tasks p ! i) @ concat new"
    and "pc_tasks p' = (pc_tasks p)[i := y]" "pc_waiting p' = pc_waiting p" "pc_total p' = pc_total p + n"
    and "ld_written (pc_landing p') = ld_written (pc_landing p) @ new"
  shows "parallel_ok job snapshot parts before p'"
proof -
  let ?xs = "pc_tasks p" and ?x = "pc_tasks p ! i"
  have "map pt_partition (?xs[i := y]) = map pt_partition ?xs"
    using assms(2,3) by (simp add: list_eq_iff_nth_eq nth_list_update)
  moreover have "sum_list (map joined_rows (?xs[i := y])) = sum_list (map joined_rows ?xs) + n"
    using sum_list_update_add [OF assms(2), of joined_rows y] assms(5) by simp
  moreover have "sum_list (map (mset \<circ> pt_sent) (?xs[i := y])) = sum_list (map (mset \<circ> pt_sent) ?xs) + mset (concat new)"
    using sum_list_update_add [OF assms(2), of "mset \<circ> pt_sent" y] assms(6) by simp
  moreover have "\<forall>z \<in> set (?xs[i := y]). task_good job snapshot z"
    using assms(1,4) set_update_subset_insert [of ?xs i y] unfolding parallel_ok_def by blast
  moreover obtain new0 where "ld_written (pc_landing p) = before @ new0"
      "mset (concat new0) = sum_list (map (mset \<circ> pt_sent) ?xs)"
    using assms(1) unfolding parallel_ok_def by blast
  ultimately show ?thesis using assms(1,7-10) unfolding parallel_ok_def
    by (intro conjI exI [of _ "new0 @ new"]) simp_all
qed

lemma parallel_ok_release [simp]: "parallel_ok job snapshot parts before (release_guards n p) = parallel_ok job snapshot parts before p"
  by (simp add: release_guards_def parallel_ok_def)

lemma spawn_task_ok:
  assumes "parallel_ok job snapshot parts before p"
  shows "parallel_ok job snapshot parts before (spawn_task job snapshot n forked rounds p)"
proof (cases "pc_waiting p = [] \<or> free_permits n p = 0")
  case False
  then obtain part rest where part: "pc_waiting p = part # rest" by (cases "pc_waiting p") auto
  show ?thesis
  proof (cases "start_partition job snapshot part forked")
    case (Inl e)
    then show ?thesis using assms part False
      by (auto simp: spawn_task_def parallel_ok_def task_good_def joined_rows_def)
  next
    case (Inr y)
    obtain w items where y: "y = (w, items)" by fastforce
    have "opened job snapshot part items"
      using Inr y by (cases forked) (auto simp: opened_def start_partition_def)
    then show ?thesis using assms part False Inr y new_task_ok
      by (auto simp: spawn_task_def parallel_ok_def task_good_def joined_rows_def new_copy_task_def)
  qed
qed (use assms in \<open>auto simp: spawn_task_def split: list.splits\<close>)

lemma finish_partition_completed: "finish_partition src w y = Inr (CopyCompleted n) \<Longrightarrow> y = Proceed n"
  by (auto simp: finish_partition_def split: shutdown_result.splits sum.splits)

lemma task_inv_done:
  assumes "\<And>n. r = Inr (CopyCompleted n) \<Longrightarrow> list_all2 (row_copied job) (pt_items x) (pt_sent x) \<and> n = of_nat (length (pt_sent x))"
  shows "task_inv job x (TaskDone r)"
proof (cases r)
  case (Inr c)
  then show ?thesis using assms by (cases c) simp_all
qed simp

text \<open>What a turn of a good task leaves.\<close>

lemma turn_status_inv:
  assumes "copy_step dst cfg (cj_schema job) turn s = (r, s')" "cfg = cj_config job"
    and "task_ok (cc_parsers cfg) (replicated_columns (cj_schema job)) (pt_items x) (cy_task s)"
    and "pt_sent x = ct_sent (cy_task s')"
  shows "task_inv job x (turn_status src w r (cy_task s'))"
proof (cases r)
  case (Inl e)
  then show ?thesis by (cases e) (simp_all add: turn_status_def)
next
  case (Inr res)
  note ok = copy_step_ok [OF assms(1) [unfolded Inr] assms(3)]
  show ?thesis
  proof (cases res)
    case None
    then show ?thesis using ok assms Inr by (simp add: turn_status_def)
  next
    case (Some z)
    have "list_all2 (row_copied job) (pt_items x) (pt_sent x) \<and> n = of_nat (length (pt_sent x))"
      if "finish_partition src w z = Inr (CopyCompleted n)" for n
    proof -
      have "sent_all (cc_parsers cfg) (replicated_columns (cj_schema job)) (pt_items x) (cy_task s') n"
        using ok Some finish_partition_completed [OF that] by simp
      then show ?thesis using list_all2_lengthD [of "row_copied job" "pt_items x" "pt_sent x"] assms(2,4) by (simp add: sent_all_def)
    qed
    then have "task_inv job x (TaskDone (finish_partition src w z))" by (rule task_inv_done)
    then show ?thesis using Inr Some by (simp add: turn_status_def)
  qed
qed

lemma turn_status_not_joined [simp]: "turn_status src w r t \<noteq> TaskJoined"
  by (auto simp: turn_status_def split: sum.splits stop.splits option.splits)

lemma task_turn_ok:
  assumes "parallel_ok job snapshot parts before p"
  shows "parallel_ok job snapshot parts before (task_turn job i turn p)"
proof (cases "i < length (pc_tasks p) \<and> (\<exists>w t. pt_status (pc_tasks p ! i) = TaskRunning w t)")
  case True
  let ?x = "pc_tasks p ! i"
  obtain w t where run: "i < length (pc_tasks p)" "pt_status ?x = TaskRunning w t" using True by blast
  obtain r s where step: "copy_step (cj_destination job) (cj_config job) (cj_schema job) turn
      \<lparr> cy_task = t, cy_landing = pc_landing p \<rparr> = (r, s)" by fastforce
  define y where "y = ?x \<lparr> pt_status := turn_status (cj_source job) w r (cy_task s), pt_sent := ct_sent (cy_task s) \<rparr>"
  have good: "task_good job snapshot ?x" using assms run(1) unfolding parallel_ok_def by simp
  obtain new where new: "ld_written (cy_landing s) = ld_written (pc_landing p) @ new" "ct_sent (cy_task s) = pt_sent ?x @ concat new"
    using copy_step_log [OF step] good run(2) by (auto simp: task_good_def)
  have "task_inv job y (pt_status y)"
    using turn_status_inv [OF step refl, of y] good run(2) by (simp add: y_def task_good_def)
  then have "task_good job snapshot y" "joined_rows y = joined_rows ?x"
    using good run(2) by (simp_all add: task_good_def y_def joined_rows_def)
  then have "parallel_ok job snapshot parts before ((set_task i y p) \<lparr> pc_landing := cy_landing s \<rparr>)"
    using parallel_ok_set [OF assms run(1), of y 0 new] new by (simp add: set_task_def y_def)
  then show ?thesis using run step unfolding y_def by (simp add: task_turn_def Let_def)
qed (use assms in \<open>auto simp: task_turn_def Let_def split: task_status.splits\<close>)

lemma task_panic_ok:
  assumes "parallel_ok job snapshot parts before p"
  shows "parallel_ok job snapshot parts before (task_panic i p)"
proof (cases "i < length (pc_tasks p) \<and> unfinished (pt_status (pc_tasks p ! i))")
  case True
  let ?x = "pc_tasks p ! i"
  have "task_good job snapshot ?x" using assms True unfolding parallel_ok_def by simp
  then have "task_good job snapshot (?x \<lparr> pt_status := TaskPanicked \<rparr>)"
    using True by (auto simp: task_good_def)
  moreover have "joined_rows ?x = 0" "joined_rows (?x \<lparr> pt_status := TaskPanicked \<rparr>) = 0"
    using True by (auto simp: joined_rows_def)
  ultimately show ?thesis using True parallel_ok_set [OF assms, of i "?x \<lparr> pt_status := TaskPanicked \<rparr>" 0 "[]"]
    by (auto simp: task_panic_def set_task_def)
qed (use assms in \<open>auto simp: task_panic_def\<close>)

lemma join_task_ok:
  assumes "parallel_ok job snapshot parts before p" "join_task i p = (Inr r, p')" "r \<noteq> Some CopyShutdown"
  shows "parallel_ok job snapshot parts before p' \<and>
     (\<forall>n. r = Some (CopyCompleted n) \<longrightarrow> pc_waiting p' = [] \<and> (\<forall>x \<in> set (pc_tasks p'). pt_status x = TaskJoined) \<and> n = pc_total p')"
proof (cases "pc_waiting p = [] \<and> i < length (pc_tasks p) \<and> (\<exists>n. pt_status (pc_tasks p ! i) = TaskDone (Inr (CopyCompleted n)))")
  case True
  let ?x = "pc_tasks p ! i"
  obtain n where n: "pc_waiting p = []" "i < length (pc_tasks p)" "pt_status ?x = TaskDone (Inr (CopyCompleted n))" using True by blast
  let ?y = "?x \<lparr> pt_status := TaskJoined \<rparr>"
  let ?p = "(set_task i ?y p) \<lparr> pc_total := pc_total p + n \<rparr>"
  have "task_good job snapshot ?x" using assms n(2) unfolding parallel_ok_def by simp
  then have "task_good job snapshot ?y" "n = of_nat (length (pt_sent ?x))" using n(3) by (auto simp: task_good_def)
  then have "parallel_ok job snapshot parts before ?p"
    using parallel_ok_set [OF assms(1) n(2), of ?y n "[]" ?p] n(3) by (simp add: set_task_def joined_rows_def)
  moreover have "p' = ?p" "r = (if list_all (\<lambda>x. pt_status x = TaskJoined) (pc_tasks ?p) then Some (CopyCompleted (pc_total ?p)) else None)"
    using assms(2) n by (auto simp: join_task_def Let_def)
  ultimately show ?thesis using n(1) by (auto simp: set_task_def list_all_iff)
next
  case False
  then have "p' = p \<and> r = None"
    using assms(2,3) by (auto simp: join_task_def Let_def split: if_splits task_status.splits sum.splits table_copy_result.splits)
  then show ?thesis using assms(1) by simp
qed

lemma parallel_loop_ok:
  assumes "parallel_ok job snapshot parts before p" "act_until (parallel_step job snapshot n) events p = (Inr (Some (CopyCompleted m)), p')"
  shows "parallel_ok job snapshot parts before p' \<and> pc_waiting p' = [] \<and> (\<forall>x \<in> set (pc_tasks p'). pt_status x = TaskJoined) \<and> m = pc_total p'"
  using assms
proof (induction events arbitrary: p)
  case (Cons e events)
  obtain r p1 where step: "parallel_step job snapshot n e p = (Inr r, p1)" using Cons.prems(2) by (auto simp: act_bind_eq_Inr)
  have r: "r \<noteq> Some CopyShutdown" using Cons.prems(2) step by (auto simp: act_bind_def act_stop)
  have ok: "parallel_ok job snapshot parts before p1 \<and> (\<forall>n. r = Some (CopyCompleted n) \<longrightarrow>
      pc_waiting p1 = [] \<and> (\<forall>x \<in> set (pc_tasks p1). pt_status x = TaskJoined) \<and> n = pc_total p1)"
  proof (cases e)
    case (JoinTask i)
    then show ?thesis using join_task_ok [OF Cons.prems(1)] step r by simp
  qed (use Cons.prems(1) step spawn_task_ok task_turn_ok task_panic_ok in \<open>auto simp: act_stop\<close>)
  show ?case
  proof (cases r)
    case None
    then show ?thesis using Cons.IH [of p1] Cons.prems(2) ok step by (simp add: act_bind_def)
  next
    case (Some x)
    then show ?thesis using Cons.prems(2) ok step by (simp add: act_bind_def act_stop)
  qed
qed (simp add: act_stop)

section \<open>What a completed copy has written\<close>

text \<open>The COPY streams of a copy: one of the whole table, or one for every planned partition.\<close>

definition copy_streams :: "('w, 'd) copy_job \<Rightarrow> 16 word \<Rightarrow> 'w \<Rightarrow> string pg_reply list list \<Rightarrow> bool" where
  "copy_streams job max_connections w streams \<longleftrightarrow>
     (if 1 < max_connections
      then \<exists>parts. plan_partitions job max_connections w = Inr parts \<and>
        (parts = [] \<and> streams = [] \<or>
         (\<exists>snapshot. export_snapshot (cj_source job) w = Inr snapshot \<and> list_all2 (opened job snapshot) parts streams))
      else \<exists>items. get_table_copy_stream (cj_source job) (cj_table job) (replicated_columns (cj_schema job)) (cj_publication job) w = Inr items \<and>
        streams = [items])"

lemma sent_sums:
  "sum_list (map (mset \<circ> pt_sent) xs) = mset (concat (map pt_sent xs))"
  "sum_list (map (\<lambda>x. of_nat (length (pt_sent x)) :: 64 word) xs) = of_nat (length (concat (map pt_sent xs)))"
  by (induction xs) simp_all

lemma run_partitions_complete:
  assumes "run_partitions job snapshot k parts events w = (Inr (CopyCompleted n), w')"
  shows "\<exists>streams rows new. list_all2 (opened job snapshot) parts streams \<and> list_all2 (list_all2 (row_copied job)) streams rows \<and>
     ld_written (cw_landing w') = ld_written (cw_landing w) @ new \<and> mset (concat new) = mset (concat rows) \<and>
     n = of_nat (length (concat new))" and "cw_source w' = cw_source w"
proof -
  let ?p = "\<lparr> pc_waiting = parts, pc_tasks = [], pc_total = 0, pc_landing = cw_landing w, pc_budget = cw_budget w \<rparr>"
  obtain p where run: "act_until (parallel_step job snapshot k) events ?p = (Inr (Some (CopyCompleted n)), p)"
      and w': "w' = w \<lparr> cw_landing := pc_landing p, cw_budget := pc_budget p \<rparr>"
    using assms by (auto simp: run_partitions_def act_on_def act_bind_def blocked_def act_stop
        split: prod.splits sum.splits option.splits)
  have "parallel_ok job snapshot parts (ld_written (cw_landing w)) ?p" by (simp add: parallel_ok_def)
  note ok = parallel_loop_ok [OF this run]
  obtain new where new: "ld_written (pc_landing p) = ld_written (cw_landing w) @ new"
      "mset (concat new) = sum_list (map (mset \<circ> pt_sent) (pc_tasks p))"
    using ok unfolding parallel_ok_def by blast
  have good: "\<forall>x \<in> set (pc_tasks p). opened job snapshot (pt_partition x) (pt_items x) \<and> list_all2 (row_copied job) (pt_items x) (pt_sent x)"
    using ok unfolding parallel_ok_def task_good_def by auto
  have "n = sum_list (map joined_rows (pc_tasks p))" using ok unfolding parallel_ok_def by simp
  also have "\<dots> = sum_list (map (\<lambda>x. of_nat (length (pt_sent x))) (pc_tasks p))"
    using ok by (intro arg_cong [where f = sum_list] map_cong) (auto simp: joined_rows_def)
  also have "\<dots> = of_nat (length (concat (map pt_sent (pc_tasks p))))"
    by (rule sent_sums)
  finally have "n = of_nat (length (concat new))"
    using new(2) sent_sums(1) [of "pc_tasks p"] by (metis size_mset)
  moreover have "list_all2 (opened job snapshot) parts (map pt_items (pc_tasks p))"
    using good ok unfolding parallel_ok_def by (auto simp: list_all2_map1 list_all2_map2 list_all2_same)
  moreover have "list_all2 (list_all2 (row_copied job)) (map pt_items (pc_tasks p)) (map pt_sent (pc_tasks p))"
    using good by (simp add: list_all2_map1 list_all2_map2 list_all2_same)
  ultimately show "\<exists>streams rows new. list_all2 (opened job snapshot) parts streams \<and> list_all2 (list_all2 (row_copied job)) streams rows \<and>
     ld_written (cw_landing w') = ld_written (cw_landing w) @ new \<and> mset (concat new) = mset (concat rows) \<and>
     n = of_nat (length (concat new))"
    using new sent_sums(1) [of "pc_tasks p"] w'
    by (intro exI [of _ "map pt_items (pc_tasks p)"] exI [of _ "map pt_sent (pc_tasks p)"] exI [of _ new]) simp
  show "cw_source w' = cw_source w" using w' by simp
qed

lemma table_copy_written:
  assumes "table_copy job max_connections env events w = (Inr (CopyCompleted n), w')"
  shows "\<exists>streams rows new. copy_streams job max_connections (cw_source w) streams \<and>
     list_all2 (list_all2 (row_copied job)) streams rows \<and>
     ld_written (cw_landing w') = ld_written (cw_landing w) @ new \<and> mset (concat new) = mset (concat rows) \<and>
     n = of_nat (length (concat new))"
proof (cases "1 < max_connections")
  case True
  then obtain parts where parts: "plan_partitions job max_connections (cw_source w) = Inr parts"
      and rest: "if parts = [] then n = 0 \<and> w' = w else \<exists>snapshot. export_snapshot (cj_source job) (cw_source w) = Inr snapshot \<and>
        run_partitions job snapshot (unat max_connections) parts events w = (Inr (CopyCompleted n), w')"
    using assms by (auto simp: table_copy_def parallel_table_copy_def act_bind_eq_Inr ask_copy_def act_stop
        split: if_splits)
  show ?thesis
  proof (cases "parts = []")
    case True
    then show ?thesis using parts rest \<open>1 < max_connections\<close> by (auto simp: copy_streams_def)
  next
    case False
    then obtain snapshot where snapshot: "export_snapshot (cj_source job) (cw_source w) = Inr snapshot"
        "run_partitions job snapshot (unat max_connections) parts events w = (Inr (CopyCompleted n), w')"
      using rest by auto
    show ?thesis using run_partitions_complete(1) [OF snapshot(2)] snapshot(1) parts True unfolding copy_streams_def by auto
  qed
next
  case False
  then have "serial_table_copy (cj_source job) (cj_destination job) (cj_config job) (cj_table job) (cj_schema job)
      (cj_publication job) env w = (Inr (CopyCompleted n), w')"
    using assms by (simp add: table_copy_def)
  then obtain items new where
      "get_table_copy_stream (cj_source job) (cj_table job) (replicated_columns (cj_schema job)) (cj_publication job) (cw_source w) = Inr items"
      "ld_written (cw_landing w') = ld_written (cw_landing w) @ new" "stream_written (cj_config job) (cj_schema job) items new n"
    using serial_copy_complete(1) by blast
  moreover from this have "n = of_nat (length (concat new))"
    using list_all2_lengthD unfolding stream_written_def by metis
  ultimately show ?thesis using False unfolding copy_streams_def stream_written_def
    by (intro exI [of _ "[items]"] exI [of _ "[concat new]"] exI [of _ new]) auto
qed

text \<open>
  C6. A table copy that completes has written the whole table. Whether the table is copied
  in one stream or in parallel by tasks that interleave in any order, some fail to
  start, wait for permits or race with each other: when the copy reports that it completed,
  the rows acknowledged by the destination are, as a multiset, exactly the parsed rows
  of the COPY streams of all planned partitions, and the reported number is their count.
\<close>

theorem table_copy_complete:
  assumes "table_copy job max_connections env events w = (Inr (CopyCompleted n), w')"
  shows "\<exists>streams rows new. copy_streams job max_connections (cw_source w) streams \<and>
     list_all2 (list_all2 (row_copied job)) streams rows \<and>
     ld_written (cw_landing w') = ld_written (cw_landing w) @ new \<and> mset (concat new) = mset (concat rows) \<and>
     n = of_nat (length (concat new))"
  using table_copy_written [OF assms] .

text \<open>A table with one row, copied in one stream.\<close>

definition one_row_source :: "unit source" where
  "one_row_source = empty_source \<lparr>
     src_table_name_rows := \<lambda>_ _. Inr [(Some ''s'', Some ''t'')], src_copy_out := \<lambda>_ _. Inr [Inr [CHR ''x'', CHR 0x0A]],
     src_schema_rows := \<lambda>_ _. Inr [\<lparr> ssr_schema_name = Some ''s'', ssr_table_name = Some ''t'', ssr_columns = Some [], ssr_identity = Some [] \<rparr>],
     src_column_rows := \<lambda>_ _ _. Inr [None],
     src_parse_columns := \<lambda>_. Some [\<lparr> cm_attname = ''a'', cm_atttypid = 25, cm_atttypmod = - 1, cm_attnum = 1, cm_attnotnull = True \<rparr>],
     src_parse_identity := \<lambda>_. Some \<lparr> im_primary_key_attnums = [1], im_relreplident = ''d'', im_index_attnums = [] \<rparr> \<rparr>"

definition one_row_table :: table_schema where
  "one_row_table = \<lparr> ts_id = 7, ts_name = \<lparr> tn_schema = ''s'', tn_name = ''t'' \<rparr>,
     ts_columns = [text_column \<lparr> cs_pk_ordinal := Some 1, cs_nullable := False \<rparr>], ts_snapshot = 0 \<rparr>"

definition ready_destination :: "unit destination_ops" where
  "ready_destination = \<lparr> dst_write_table_rows = \<lambda>_ _ h d. (Inr (), async_send (Inr ()) h, d),
     dst_drop_table_for_copy = \<lambda>_ h d. (Inr (), async_send (Inr ()) h, d), dst_shutdown = \<lambda>d. (Inr (), d) \<rparr>"

definition one_row_job :: "(unit, unit) copy_job" where
  "one_row_job = \<lparr> cj_source = one_row_source, cj_destination = ready_destination,
     cj_config = \<lparr> cc_parsers = no_parsers, cc_size_hint = \<lambda>_. 1, cc_max_fill = 10 \<rparr>, cj_table = 7,
     cj_schema = from_masks one_row_table [1] [1], cj_publication = Some ''p'' \<rparr>"

definition arrived :: copy_round where
  "arrived = \<lparr> cr_pressure = NoSubscription, cr_now = 0, cr_arrived = True, cr_budget = 1 \<rparr>"

lemma one_row_stream: "get_table_copy_stream one_row_source 7 cols (Some p) () = Inr [Inr [CHR ''x'', CHR 0x0A]]"
  by (simp add: one_row_source_def empty_source_def get_table_copy_stream_def get_table_name_def get_row_filter_def
      source_reply_def get_row_value_def ok_or_def)

lemma one_row_parsed:
  "parse_table_row_from_postgres_copy_bytes no_parsers (ts_columns one_row_table) [CHR ''x'', CHR 0x0A] = Inr [CellString ''x'']"
  by code_simp

lemma one_row_polls:
  "batch_poll_next (\<lambda>_. 1) 10 [round_input arrived (InnerItem x), round_input arrived InnerEnd] bs_wrap =
     (Some (BatchItems [x]), [round_input arrived InnerEnd], bs_wrap \<lparr> bs_deadline := Some 10 \<rparr>)"
  "fst (batch_poll_next (\<lambda>_. 1) 10 [round_input arrived InnerEnd] (bs_wrap \<lparr> bs_deadline := Some 10 \<rparr>)) = Some BatchEnd"
  by (simp_all add: batch_poll_next.simps poll_round_def round_input_def arrived_def bs_wrap_def paused_for_memory_def
      take_items_def saturating_add_def Let_def)

lemma one_row_columns: "replicated_columns (cj_schema one_row_job) = ts_columns one_row_table"
  by (simp add: one_row_job_def one_row_table_def replicated_columns_def column_schemas_def from_masks_def filter_map_def map_filter_def)

lemma one_row_inputs:
  "copy_inputs no_parsers (ts_columns one_row_table) [arrived, arrived] [Inr [CHR ''x'', CHR 0x0A]] =
     [round_input arrived (InnerItem [CellString ''x'']), round_input arrived InnerEnd]"
  using one_row_parsed by (simp add: arrived_def paused_for_memory_def table_copy_item_def)

definition one_row_world :: "(unit, unit) copy_world" where
  "one_row_world = \<lparr> cw_source = (), cw_landing = \<lparr> ld_dest = (), ld_written = [] \<rparr>, cw_budget = budget_new 1000 \<rparr>"

definition one_row_env :: copy_env where
  "one_row_env = \<lparr> ce_rounds = [arrived, arrived], ce_turns = [TurnNext, TurnNext] \<rparr>"

lemma one_row_copy:
  "table_copy one_row_job 1 one_row_env [] one_row_world =
     (Inr (CopyCompleted 1), one_row_world \<lparr> cw_landing := \<lparr> ld_dest = (), ld_written = [[[CellString ''x'']]] \<rparr> \<rparr>)"
proof -
  obtain ins b where e: "batch_poll_next (\<lambda>_. 1) 10 [round_input arrived InnerEnd] (bs_wrap \<lparr> bs_deadline := Some 10 \<rparr>) =
      (Some (BatchEnd :: (table_row, etl_error) batch_poll), ins, b)"
    by (metis one_row_polls(2) prod.collapse)
  have job: "cj_source one_row_job = one_row_source" "cj_table one_row_job = 7" "cj_publication one_row_job = Some ''p''"
      "cj_config one_row_job = \<lparr> cc_parsers = no_parsers, cc_size_hint = \<lambda>_. 1, cc_max_fill = 10 \<rparr>"
      "dst_write_table_rows (cj_destination one_row_job) = (\<lambda>_ _ h d. (Inr (), async_send (Inr ()) h, d))"
    by (simp_all add: one_row_job_def ready_destination_def)
  show ?thesis
    by (simp add: table_copy_def serial_table_copy_def job ask_copy_def act_bind_def one_row_world_def one_row_stream with_stream_guard_def
        act_finally_def run_copy_def act_on_def one_row_env_def one_row_columns one_row_inputs copy_table_rows_from_stream_def
        new_copy_task_def next_batch_def one_row_polls(1) e on_landing_def write_table_rows_def awaited_def act_stop
        register_stream_load_def drop_stream_guard_def Let_def del: copy_inputs.simps)
qed

theorem table_copy_complete_witness:
  "\<exists>streams rows. copy_streams one_row_job 1 () streams \<and> list_all2 (list_all2 (row_copied one_row_job)) streams rows \<and>
     mset (concat rows) = {# [CellString ''x''] #}"
  using table_copy_complete [OF one_row_copy] by (auto simp: one_row_world_def)

end
