(* ===== verification/Table_Sync.thy ===== *)
theory Table_Sync
  imports Parallel_Copy Worker_State Table_Cache
begin

text \<open>
  The synchronisation of one table, \<open>etl/src/replication/table_sync.rs\<close>: it drops what an
  earlier attempt left, creates a slot with a snapshot, copies the table in that
  snapshot, and waits until the apply worker sets the position to catch up with. The
  state is what the worker sees: the store, its connection to the source, the destination,
  its own shared state and the table cache.
\<close>

section \<open>State\<close>

record ('s, 'w, 'd) sync_world =
  sw_store :: 's
  sw_source :: 'w
  sw_landing :: "'d landing"
  sw_budget :: batch_budget
  sw_worker :: worker_state
  sw_cache :: table_cache

datatype table_sync_copy_config =
    IncludeAllTables
  | SkipAllTables
  | IncludeTables "table_id list"
  | SkipTables "table_id list"

fun should_copy_table :: "table_sync_copy_config \<Rightarrow> table_id \<Rightarrow> bool" where
  "should_copy_table IncludeAllTables t = True"
| "should_copy_table SkipAllTables t = False"
| "should_copy_table (IncludeTables ts) t = (t \<in> set ts)"
| "should_copy_table (SkipTables ts) t = (t \<notin> set ts)"

record ('s, 'w, 'd) sync_config =
  sc_ops :: "'s store_ops"
  sc_source :: "'w source"
  sc_destination :: "'d destination_ops"
  sc_pipeline :: pipeline_id
  sc_table :: table_id
  sc_publication :: string
  sc_max_copy_connections :: "16 word"
  sc_copy :: copy_config
  sc_copy_tables :: table_sync_copy_config

text \<open>What the environment decides: the copy, and the wake-ups of the wait for the catch-up.\<close>

record ('s, 'w, 'd) sync_env =
  se_copy :: copy_env
  se_events :: "'w copy_event list"
  se_wakes :: "('s, 'w, 'd) sync_world \<Rightarrow> ('s, 'w, 'd) sync_world wake list"

definition sync_store :: "('s \<Rightarrow> 'a etl_result \<times> 's) \<Rightarrow> (('s, 'w, 'd) sync_world, 'a) action" where
  "sync_store f = act_on sw_store (\<lambda>s w. w \<lparr> sw_store := s \<rparr>) (act_call f)"

definition sync_source :: "('w \<Rightarrow> 'a etl_result \<times> 'w) \<Rightarrow> (('s, 'w, 'd) sync_world, 'a) action" where
  "sync_source f = act_on sw_source (\<lambda>s w. w \<lparr> sw_source := s \<rparr>) (act_call f)"

definition sync_query :: "('w \<Rightarrow> 'a etl_result) \<Rightarrow> (('s, 'w, 'd) sync_world, 'a) action" where
  "sync_query f w = (failable (f (sw_source w)), w)"

definition sync_read :: "('s \<Rightarrow> 'a etl_result) \<Rightarrow> (('s, 'w, 'd) sync_world, 'a) action" where
  "sync_read f w = (failable (f (sw_store w)), w)"

definition sync_destination :: "('d landing, 'a) action \<Rightarrow> (('s, 'w, 'd) sync_world, 'a) action" where
  "sync_destination = act_on sw_landing (\<lambda>l w. w \<lparr> sw_landing := l \<rparr>)"

definition sync_cache :: "(table_cache \<Rightarrow> table_cache) \<Rightarrow> (('s, 'w, 'd) sync_world, unit) action" where
  "sync_cache f = act_modify (\<lambda>w. w \<lparr> sw_cache := f (sw_cache w) \<rparr>)"

definition sync_phase :: "'s store_ops \<Rightarrow> phase \<Rightarrow> (('s, 'w, 'd) sync_world, unit) action" where
  "sync_phase ops p w = (case set_and_store ops p (sw_worker w) (sw_store w) of (r, ws, s) \<Rightarrow>
     (failable r, w \<lparr> sw_worker := ws, sw_store := s \<rparr>))"

definition sync_copying :: "(('w, 'd) copy_world, 'a) action \<Rightarrow> (('s, 'w, 'd) sync_world, 'a) action" where
  "sync_copying = act_on
     (\<lambda>w. \<lparr> cw_source = sw_source w, cw_landing = sw_landing w, cw_budget = sw_budget w \<rparr>)
     (\<lambda>c w. w \<lparr> sw_source := cw_source c, sw_landing := cw_landing c, sw_budget := cw_budget c \<rparr>)"

section \<open>Steps\<close>

definition get_existing_replicated_table_schema ::
    "'s store_ops \<Rightarrow> table_id \<Rightarrow> (('s, 'w, 'd) sync_world, replicated_table_schema option) action" where
  "get_existing_replicated_table_schema ops t =
     act_bind (sync_read (\<lambda>s. so_get_metadata ops s t)) (\<lambda>found. case found of
         None \<Rightarrow> act_return None
       | Some meta \<Rightarrow>
           act_bind (sync_store (so_get_schema ops t (dtm_snapshot_id meta))) (\<lambda>schema. case schema of
               None \<Rightarrow> act_fail (etl_err InvalidState
                 ''Destination table metadata found, but no corresponding table schema exists'')
             | Some x \<Rightarrow> act_return (Some (from_mask x (dtm_replication_mask meta)))))"

definition drop_existing_table :: "('s, 'w, 'd) sync_config \<Rightarrow> (('s, 'w, 'd) sync_world, unit) action" where
  "drop_existing_table cfg =
     act_bind (get_existing_replicated_table_schema (sc_ops cfg) (sc_table cfg)) (\<lambda>existing. case existing of
         None \<Rightarrow> act_return ()
       | Some rts \<Rightarrow> sync_destination (drop_table_for_copy (sc_destination cfg) rts))"

text \<open>The schema of the table in the snapshot, stored, with its masks.\<close>

definition load_copy_schema :: "('s, 'w, 'd) sync_config \<Rightarrow> (('s, 'w, 'd) sync_world, replicated_table_schema) action" where
  "load_copy_schema cfg =
     act_bind (sync_query (get_table_schema_with_identity (sc_source cfg) (sc_table cfg))) (\<lambda>(schema, identity).
     if \<not> has_primary_keys schema then act_fail (etl_err SourceSchemaError ''Primary key not found'')
     else
     act_bind (sync_store (so_store_schema (sc_ops cfg) schema)) (\<lambda>stored.
     act_bind (sync_query (get_replicated_column_names (sc_source cfg) (sc_table cfg) stored (sc_publication cfg))) (\<lambda>names.
     act_bind (act_try (case mask_try_build stored names of
         Inl _ \<Rightarrow> Inl (etl_err InvalidState ''Schema mismatch during table sync'')
       | Inr m \<Rightarrow> Inr m)) (\<lambda>mask.
     act_bind (act_try (build_identity_mask identity stored mask)) (\<lambda>identity_mask.
     act_return (from_masks stored mask identity_mask))))))"

definition sync_job :: "('s, 'w, 'd) sync_config \<Rightarrow> replicated_table_schema \<Rightarrow> ('w, 'd) copy_job" where
  "sync_job cfg rts = \<lparr> cj_source = sc_source cfg, cj_destination = sc_destination cfg, cj_config = sc_copy cfg,
     cj_table = sc_table cfg, cj_schema = rts, cj_publication = Some (sc_publication cfg) \<rparr>"

text \<open>The rows of the table; no number means that shutdown was requested.\<close>

definition copy_table_rows ::
    "('s, 'w, 'd) sync_config \<Rightarrow> ('s, 'w, 'd) sync_env \<Rightarrow> replicated_table_schema
     \<Rightarrow> (('s, 'w, 'd) sync_world, 64 word option) action" where
  "copy_table_rows cfg env rts =
     (if should_copy_table (sc_copy_tables cfg) (sc_table cfg) then
        act_bind (sync_copying (table_copy (sync_job cfg rts) (sc_max_copy_connections cfg) (se_copy env) (se_events env))) (\<lambda>r.
          case r of CopyCompleted n \<Rightarrow> act_return (Some n) | CopyShutdown \<Rightarrow> act_return None)
      else act_return (Some 0))"

section \<open>The synchronisation\<close>

datatype table_sync_result = SyncStopped | SyncNotRequired | SyncCompleted lsn

text \<open>The clean-up before a copy: nothing of an earlier attempt stays.\<close>

definition prepare_copy :: "('s, 'w, 'd) sync_config \<Rightarrow> string \<Rightarrow> (('s, 'w, 'd) sync_world, unit) action" where
  "prepare_copy cfg slot_name =
     act_bind (drop_existing_table cfg) (\<lambda>_.
     act_bind (sync_source (delete_slot_if_exists (sc_source cfg) slot_name)) (\<lambda>_.
     act_bind (sync_store (so_clear_copy_state (sc_ops cfg) (sc_table cfg))) (\<lambda>_.
     act_bind (sync_cache (cache_remove_table (sc_table cfg))) (\<lambda>_.
     sync_phase (sc_ops cfg) DataSync))))"

text \<open>After the last row: an empty table is created by an empty write.\<close>

definition finish_copy ::
    "('s, 'w, 'd) sync_config \<Rightarrow> replicated_table_schema \<Rightarrow> 64 word \<Rightarrow> (('s, 'w, 'd) sync_world, unit) action" where
  "finish_copy cfg rts total_rows =
     act_bind (sync_source (commit_tx (sc_source cfg))) (\<lambda>_.
     act_bind (act_when (total_rows = 0) (sync_destination (write_table_rows (sc_destination cfg) rts []))) (\<lambda>_.
     act_bind (sync_phase (sc_ops cfg) FinishedCopy) (\<lambda>_.
     sync_cache (note_ready (sc_table cfg) rts))))"

text \<open>The whole copy returns the position of its slot, or nothing if shutdown was requested.\<close>

definition sync_copy :: "('s, 'w, 'd) sync_config \<Rightarrow> ('s, 'w, 'd) sync_env \<Rightarrow> (('s, 'w, 'd) sync_world, lsn option) action" where
  "sync_copy cfg env =
     act_bind (act_try (slot_name_result (for_table_sync_worker (sc_pipeline cfg) (sc_table cfg)))) (\<lambda>slot_name.
     act_bind (prepare_copy cfg slot_name) (\<lambda>_.
     act_bind (sync_source (create_slot_with_transaction (sc_source cfg) slot_name)) (\<lambda>slot.
     act_bind (load_copy_schema cfg) (\<lambda>rts.
     act_bind (copy_table_rows cfg env rts) (\<lambda>copied. case copied of
         None \<Rightarrow> act_return None
       | Some n \<Rightarrow> act_bind (finish_copy cfg rts n) (\<lambda>_. act_return (Some (csr_consistent_point slot))))))))"

definition await_catchup :: "('s, 'w, 'd) sync_env \<Rightarrow> (('s, 'w, 'd) sync_world, bool) action" where
  "await_catchup env w = (case wait_for_phase_type (ws_phase \<circ> sw_worker) [CatchupT] w (se_wakes env w) of
       WaitReached w' \<Rightarrow> (Inr True, w')
     | WaitShutdown w' \<Rightarrow> (Inr False, w')
     | StillWaiting \<Rightarrow> (Inl Blocked, w))"

definition start_table_sync ::
    "('s, 'w, 'd) sync_config \<Rightarrow> ('s, 'w, 'd) sync_env \<Rightarrow> (('s, 'w, 'd) sync_world, table_sync_result) action" where
  "start_table_sync cfg env =
     act_bind (act_get (as_type \<circ> ws_phase \<circ> sw_worker)) (\<lambda>phase_type.
       if phase_type \<in> {SyncDoneT, ReadyT, ErroredT} then act_return SyncNotRequired
       else if phase_type \<notin> {InitT, DataSyncT, FinishedCopyT} then act_fail (etl_err InvalidState ''Invalid replication phase'')
       else act_bind (sync_copy cfg env) (\<lambda>copied. case copied of
           None \<Rightarrow> act_return SyncStopped
         | Some start_lsn \<Rightarrow>
             act_bind (sync_phase (sc_ops cfg) (SyncWait start_lsn)) (\<lambda>_.
             act_bind (await_catchup env) (\<lambda>reached.
               act_return (if reached then SyncCompleted start_lsn else SyncStopped)))))"

section \<open>Laws of the steps\<close>

lemma sync_Inr [simp]:
  "sync_store f w = (Inr x, w') \<longleftrightarrow> (\<exists>s. f (sw_store w) = (Inr x, s) \<and> w' = w \<lparr> sw_store := s \<rparr>)"
  "sync_source g w = (Inr y, w') \<longleftrightarrow> (\<exists>s. g (sw_source w) = (Inr y, s) \<and> w' = w \<lparr> sw_source := s \<rparr>)"
  "sync_query h w = (Inr z, w') \<longleftrightarrow> h (sw_source w) = Inr z \<and> w' = w"
  "sync_read i w = (Inr u, w') \<longleftrightarrow> i (sw_store w) = Inr u \<and> w' = w"
  "sync_destination m w = (Inr v, w') \<longleftrightarrow> (\<exists>l. m (sw_landing w) = (Inr v, l) \<and> w' = w \<lparr> sw_landing := l \<rparr>)"
  "sync_cache k w = (Inr q, w') \<longleftrightarrow> w' = w \<lparr> sw_cache := k (sw_cache w) \<rparr>"
  by (auto simp: sync_store_def sync_source_def sync_query_def sync_read_def sync_destination_def sync_cache_def
      act_on_def act_call_def split: prod.splits)

lemma sync_phase_Inr:
  "sync_phase ops p w = (Inr u, w') \<longleftrightarrow>
     (\<exists>s. (if should_store (as_type p) then so_update_state ops (ws_table (sw_worker w)) p (sw_store w) = (Inr (), s) else s = sw_store w) \<and>
        w' = w \<lparr> sw_worker := ws_set p (sw_worker w), sw_store := s \<rparr>)"
  by (auto simp: sync_phase_def set_and_store_def Let_def ws_set_def split: prod.splits)

text \<open>What a finished copy has written of the source as it was when the slot was created.\<close>

definition copied_all :: "('s, 'w, 'd) sync_config \<Rightarrow> replicated_table_schema \<Rightarrow> 'w \<Rightarrow> table_row list list \<Rightarrow> bool" where
  "copied_all cfg rts src_state new \<longleftrightarrow>
     (if should_copy_table (sc_copy_tables cfg) (sc_table cfg)
      then \<exists>streams rows. copy_streams (sync_job cfg rts) (sc_max_copy_connections cfg) src_state streams \<and>
        list_all2 (list_all2 (row_copied (sync_job cfg rts))) streams rows \<and> mset (concat new) = mset (concat rows)
      else concat new = [])"

lemma copied_all_empty_batch: "copied_all cfg rts x (new @ [[]]) = copied_all cfg rts x new"
  by (simp add: copied_all_def)

lemma drop_table_for_copy_written:
  "drop_table_for_copy dst rts l = (Inr u, l') \<Longrightarrow> ld_written l' = []"
  by (auto simp: drop_table_for_copy_def act_bind_eq_Inr)

lemma copied_number [simp]:
  "(case r of CopyCompleted n \<Rightarrow> act_return (Some n) | CopyShutdown \<Rightarrow> act_return None) w = (Inr (Some n), w')
     \<longleftrightarrow> r = CopyCompleted n \<and> w' = w"
  by (cases r) (auto simp: act_stop)

lemma existing_schema_Inr:
  assumes "get_existing_replicated_table_schema ops t w = (Inr existing, w')"
  shows "\<exists>found. so_get_metadata ops (sw_store w) t = Inr found \<and>
     (case found of
        None \<Rightarrow> existing = None \<and> w' = w
      | Some meta \<Rightarrow> \<exists>x s. so_get_schema ops t (dtm_snapshot_id meta) (sw_store w) = (Inr (Some x), s) \<and>
          existing = Some (from_mask x (dtm_replication_mask meta)) \<and> w' = w \<lparr> sw_store := s \<rparr>)"
proof -
  obtain found where found: "so_get_metadata ops (sw_store w) t = Inr found"
    using assms by (auto simp: get_existing_replicated_table_schema_def act_bind_eq_Inr)
  show ?thesis
  proof (cases found)
    case None
    then show ?thesis using assms found
      by (auto simp: get_existing_replicated_table_schema_def act_bind_eq_Inr act_stop)
  next
    case (Some meta)
    then obtain y s where y: "so_get_schema ops t (dtm_snapshot_id meta) (sw_store w) = (Inr y, s)"
        "(case y of None \<Rightarrow> act_fail (etl_err InvalidState ''Destination table metadata found, but no corresponding table schema exists'')
          | Some x \<Rightarrow> act_return (Some (from_mask x (dtm_replication_mask meta)))) (w \<lparr> sw_store := s \<rparr>) = (Inr existing, w')"
      using assms found by (auto simp: get_existing_replicated_table_schema_def act_bind_eq_Inr)
    then show ?thesis using found Some by (cases y) (auto simp: act_stop)
  qed
qed

lemma copy_table_rows_effect:
  assumes "copy_table_rows cfg env rts w = (Inr (Some n), w')"
  shows "\<exists>new. ld_written (sw_landing w') = ld_written (sw_landing w) @ new \<and> copied_all cfg rts (sw_source w) new"
    and "sw_store w' = sw_store w" "sw_worker w' = sw_worker w" "sw_cache w' = sw_cache w"
proof -
  let ?job = "sync_job cfg rts" and ?c = "\<lparr> cw_source = sw_source w, cw_landing = sw_landing w, cw_budget = sw_budget w \<rparr>"
  have step: "if should_copy_table (sc_copy_tables cfg) (sc_table cfg)
      then \<exists>c. table_copy ?job (sc_max_copy_connections cfg) (se_copy env) (se_events env) ?c = (Inr (CopyCompleted n), c) \<and>
        w' = w \<lparr> sw_source := cw_source c, sw_landing := cw_landing c, sw_budget := cw_budget c \<rparr>
      else w' = w"
    using assms by (auto simp: copy_table_rows_def act_bind_eq_Inr act_stop sync_copying_def act_on_def
        split: prod.splits if_splits)
  then show "sw_store w' = sw_store w" "sw_worker w' = sw_worker w" "sw_cache w' = sw_cache w" by (auto split: if_splits)
  show "\<exists>new. ld_written (sw_landing w') = ld_written (sw_landing w) @ new \<and> copied_all cfg rts (sw_source w) new"
  proof (cases "should_copy_table (sc_copy_tables cfg) (sc_table cfg)")
    case True
    then obtain c where c: "table_copy ?job (sc_max_copy_connections cfg) (se_copy env) (se_events env) ?c = (Inr (CopyCompleted n), c)"
        "sw_landing w' = cw_landing c"
      using step by auto
    then show ?thesis using table_copy_written [OF c(1)] True by (auto simp: copied_all_def)
  qed (use step in \<open>simp add: copied_all_def\<close>)
qed

text \<open>What the store says of the table, with the worker of that table.\<close>

definition table_phase_is ::
    "('s \<Rightarrow> bool) \<Rightarrow> ('s \<Rightarrow> table_id \<Rightarrow> phase option) \<Rightarrow> table_id \<Rightarrow> phase option \<Rightarrow> ('s, 'w, 'd) sync_world \<Rightarrow> bool" where
  "table_phase_is sinv phase_of t p w \<longleftrightarrow> sinv (sw_store w) \<and> phase_of (sw_store w) t = p \<and> ws_table (sw_worker w) = t"

context pipeline_store
begin

lemma drop_existing_effect:
  assumes "inv (sw_store w)" "sc_ops cfg = ops" "drop_existing_table cfg w = (Inr u, w')"
  shows "\<exists>s l. w' = w \<lparr> sw_store := s, sw_landing := l \<rparr> \<and> inv s \<and> phase_of s = phase_of (sw_store w) \<and>
     progress_of s = progress_of (sw_store w) \<and>
     ld_written l = (if so_get_metadata ops (sw_store w) (sc_table cfg) = Inr None then ld_written (sw_landing w) else [])"
proof -
  obtain existing w1 where ex: "get_existing_replicated_table_schema ops (sc_table cfg) w = (Inr existing, w1)"
      "(case existing of None \<Rightarrow> act_return () | Some rts \<Rightarrow> sync_destination (drop_table_for_copy (sc_destination cfg) rts)) w1 = (Inr u, w')"
    using assms(2,3) by (auto simp: drop_existing_table_def act_bind_eq_Inr)
  obtain found where found: "so_get_metadata ops (sw_store w) (sc_table cfg) = Inr found"
      "case found of None \<Rightarrow> existing = None \<and> w1 = w
        | Some meta \<Rightarrow> \<exists>x s. so_get_schema ops (sc_table cfg) (dtm_snapshot_id meta) (sw_store w) = (Inr (Some x), s) \<and>
            existing = Some (from_mask x (dtm_replication_mask meta)) \<and> w1 = w \<lparr> sw_store := s \<rparr>"
    using existing_schema_Inr [OF ex(1)] by blast
  show ?thesis
  proof (cases found)
    case None
    then have "w' = w" using ex found by (simp add: act_stop)
    then show ?thesis using assms(1) found None by (intro exI [of _ "sw_store w"] exI [of _ "sw_landing w"]) simp
  next
    case (Some meta)
    then obtain x s l where x: "so_get_schema ops (sc_table cfg) (dtm_snapshot_id meta) (sw_store w) = (Inr (Some x), s)"
        "drop_table_for_copy (sc_destination cfg) (from_mask x (dtm_replication_mask meta)) (sw_landing w) = (Inr u, l)"
        "w' = w \<lparr> sw_store := s, sw_landing := l \<rparr>"
      using ex found by auto
    then show ?thesis using get_schema_frame [OF assms(1) x(1)] drop_table_for_copy_written [OF x(2)] found Some
      by (intro exI [of _ s] exI [of _ l]) simp
  qed
qed

lemma load_copy_schema_effect:
  assumes "inv (sw_store w)" "sc_ops cfg = ops" "load_copy_schema cfg w = (Inr rts, w')"
  shows "\<exists>s. w' = w \<lparr> sw_store := s \<rparr> \<and> inv s \<and> phase_of s = phase_of (sw_store w) \<and> progress_of s = progress_of (sw_store w)"
proof -
  obtain schema stored s where "so_store_schema ops schema (sw_store w) = (Inr stored, s)" "w' = w \<lparr> sw_store := s \<rparr>"
    using assms(2,3) by (auto simp: load_copy_schema_def act_bind_eq_Inr act_stop act_try_def split: if_splits prod.splits)
  then show ?thesis using store_schema_frame [OF assms(1)] by blast
qed

lemma prepare_copy_effect:
  assumes "inv (sw_store w)" "sc_ops cfg = ops" "ws_table (sw_worker w) = sc_table cfg"
    and "prepare_copy cfg slot_name w = (Inr u, w')"
  shows "inv (sw_store w') \<and> phase_of (sw_store w') (sc_table cfg) = Some DataSync \<and>
     progress_of (sw_store w') (TableSync (sc_table cfg)) = None \<and> ws_table (sw_worker w') = sc_table cfg \<and>
     ld_written (sw_landing w') =
       (if so_get_metadata ops (sw_store w) (sc_table cfg) = Inr None then ld_written (sw_landing w) else [])"
proof -
  let ?t = "sc_table cfg"
  obtain w1 s2 s3 where d: "drop_existing_table cfg w = (Inr (), w1)"
      and c: "so_clear_copy_state ops ?t (sw_store w1) = (Inr (), s2)"
      and p: "so_update_state ops ?t DataSync s2 = (Inr (), s3)"
      and w': "sw_store w' = s3" "sw_landing w' = sw_landing w1" "sw_worker w' = ws_set DataSync (sw_worker w1)"
    using assms(2-4) drop_existing_effect [OF assms(1,2)]
    by (fastforce simp: prepare_copy_def act_bind_eq_Inr sync_phase_Inr)
  have w1: "inv (sw_store w1)" "sw_worker w1 = sw_worker w" "progress_of (sw_store w1) = progress_of (sw_store w)"
      "ld_written (sw_landing w1) = (if so_get_metadata ops (sw_store w) ?t = Inr None then ld_written (sw_landing w) else [])"
    using drop_existing_effect [OF assms(1,2) d] by auto
  have s2: "inv s2" "progress_of s2 (TableSync ?t) = None"
    using clear_inv [OF w1(1) c] clear_progress [OF w1(1) c] by simp_all
  have "inv s3" "progress_of s3 = progress_of s2" "phase_of s3 = (phase_of s2)(?t \<mapsto> DataSync)"
    using update_inv [OF s2(1)] update_progress [OF s2(1)] update_one_phase [OF s2(1)] p unfolding so_update_state_def by blast+
  then show ?thesis using w' w1 s2 assms(3) by (simp add: ws_set_def)
qed

lemma finish_copy_effect:
  assumes "inv (sw_store w)" "sc_ops cfg = ops" "ws_table (sw_worker w) = sc_table cfg"
    and "finish_copy cfg rts n w = (Inr u, w')"
  shows "inv (sw_store w') \<and> phase_of (sw_store w') (sc_table cfg) = Some FinishedCopy \<and>
     progress_of (sw_store w') = progress_of (sw_store w) \<and> ws_phase (sw_worker w') = FinishedCopy \<and>
     ws_table (sw_worker w') = sc_table cfg \<and> cache_get (sw_cache w') (sc_table cfg) = Some (CacheReady rts) \<and>
     ld_written (sw_landing w') \<in> {ld_written (sw_landing w), ld_written (sw_landing w) @ [[]]}"
proof -
  let ?t = "sc_table cfg"
  obtain s l where p: "so_update_state ops ?t FinishedCopy (sw_store w) = (Inr (), s)"
      and l: "if n = 0 then write_table_rows (sc_destination cfg) rts [] (sw_landing w) = (Inr (), l) else l = sw_landing w"
      and w': "sw_store w' = s" "sw_landing w' = l" "sw_worker w' = ws_set FinishedCopy (sw_worker w)"
        "sw_cache w' = note_ready ?t rts (sw_cache w)"
    using assms(2-4) by (auto simp: finish_copy_def act_bind_eq_Inr sync_phase_Inr act_when_def act_stop split: if_splits)
  have "inv s" "progress_of s = progress_of (sw_store w)" "phase_of s = (phase_of (sw_store w))(?t \<mapsto> FinishedCopy)"
    using update_inv [OF assms(1)] update_progress [OF assms(1)] update_one_phase [OF assms(1)] p unfolding so_update_state_def by blast+
  moreover have "ld_written l \<in> {ld_written (sw_landing w), ld_written (sw_landing w) @ [[]]}"
    using l write_table_rows_effect [of "sc_destination cfg" rts "[]" "sw_landing w" "Inr ()" l] by (auto split: if_splits)
  ultimately show ?thesis using w' assms(3) by (simp add: ws_set_def)
qed

lemma sync_copy_effect:
  assumes "inv (sw_store w)" "sc_ops cfg = ops" "ws_table (sw_worker w) = sc_table cfg"
    and "so_get_metadata ops (sw_store w) (sc_table cfg) = Inr None \<longrightarrow> ld_written (sw_landing w) = []"
    and "sync_copy cfg env w = (Inr (Some l), w')"
  shows "inv (sw_store w') \<and> phase_of (sw_store w') (sc_table cfg) = Some FinishedCopy \<and>
     progress_of (sw_store w') (TableSync (sc_table cfg)) = None \<and> ws_table (sw_worker w') = sc_table cfg \<and>
     (\<exists>name x y rts. name_of_slot (for_table_sync_worker (sc_pipeline cfg) (sc_table cfg)) = Inr name \<and>
        create_slot_with_transaction (sc_source cfg) name x = (Inr \<lparr> csr_consistent_point = l \<rparr>, y) \<and>
        cache_get (sw_cache w') (sc_table cfg) = Some (CacheReady rts) \<and>
        copied_all cfg rts y (ld_written (sw_landing w')))"
proof -
  obtain name w1 slot y rts w3 n w4 where
      name: "slot_name_result (for_table_sync_worker (sc_pipeline cfg) (sc_table cfg)) = Inr name"
      and prep: "prepare_copy cfg name w = (Inr (), w1)"
      and slot: "create_slot_with_transaction (sc_source cfg) name (sw_source w1) = (Inr slot, y)" "l = csr_consistent_point slot"
      and load: "load_copy_schema cfg (w1 \<lparr> sw_source := y \<rparr>) = (Inr rts, w3)"
      and copy: "copy_table_rows cfg env rts w3 = (Inr (Some n), w4)"
      and fin: "finish_copy cfg rts n w4 = (Inr (), w')"
    using assms(5)
    by (auto simp: sync_copy_def act_bind_eq_Inr act_try_def act_stop split: option.splits)
  have w1: "inv (sw_store w1)" "progress_of (sw_store w1) (TableSync (sc_table cfg)) = None" "ws_table (sw_worker w1) = sc_table cfg"
      "ld_written (sw_landing w1) = []"
    using prepare_copy_effect [OF assms(1-3) prep] assms(4) by auto
  obtain s where w3: "w3 = w1 \<lparr> sw_source := y, sw_store := s \<rparr>" "inv s" "progress_of s = progress_of (sw_store w1)"
    using load_copy_schema_effect [OF _ assms(2) load] w1(1) by auto
  have w4: "copied_all cfg rts y (ld_written (sw_landing w4))" "sw_store w4 = s" "sw_worker w4 = sw_worker w1"
    using copy_table_rows_effect [OF copy] w3(1) w1(4) by auto
  have "copied_all cfg rts y (ld_written (sw_landing w'))"
    using finish_copy_effect [OF _ assms(2) _ fin] w4 w3(2) w1(3) by (auto simp: copied_all_empty_batch)
  moreover have "name_of_slot (for_table_sync_worker (sc_pipeline cfg) (sc_table cfg)) = Inr name"
    using name by (auto simp: slot_name_result_def split: sum.splits)
  moreover have "slot = \<lparr> csr_consistent_point = l \<rparr>" using slot(2) by (cases slot) simp
  ultimately show ?thesis using finish_copy_effect [OF _ assms(2) _ fin] w4(2,3) w3(2,3) w1(2,3) slot(1) by auto
qed

abbreviation at_phase :: "table_id \<Rightarrow> phase option \<Rightarrow> ('s, 'w, 'd) sync_world \<Rightarrow> bool" where
  "at_phase \<equiv> table_phase_is inv phase_of"

lemma sync_phase_hoare:
  assumes "should_store (as_type q)"
  shows "hoare (at_phase t p) (sync_phase ops q) (\<lambda>_. at_phase t (Some q)) (at_phase t p)"
proof -
  have "case r of Inl _ \<Rightarrow> at_phase t p w' | Inr _ \<Rightarrow> at_phase t (Some q) w'"
    if "at_phase t p w" "sync_phase ops q w = (r, w')" for w r w'
  proof -
    obtain x s where upd: "so_update_states ops [(t, q)] (sw_store w) = (x, s)" by fastforce
    then have w': "r = failable x" "w' = w \<lparr> sw_worker := ws_set q (sw_worker w), sw_store := s \<rparr>"
      using that assms by (auto simp: sync_phase_def set_and_store_def so_update_state_def table_phase_is_def ws_set_def)
    show ?thesis using that(1) w' update_inv [OF _ upd] update_phase [OF _ upd]
      by (cases x) (auto simp: table_phase_is_def ws_set_def)
  qed
  then show ?thesis unfolding hoare_def by blast
qed

text \<open>Steps that do not change the phase of the table.\<close>

lemma phase_kept:
  assumes "\<And>w r w'. m w = (r, w') \<Longrightarrow> inv (sw_store w) \<Longrightarrow>
    inv (sw_store w') \<and> phase_of (sw_store w') = phase_of (sw_store w) \<and> sw_worker w' = sw_worker w"
  shows "hoare (at_phase t p) m (\<lambda>_. at_phase t p) (at_phase t p)"
  unfolding hoare_def table_phase_is_def using assms by (fastforce split: sum.splits)

lemma phase_kept_steps:
  "hoare (at_phase t p) (sync_source f) (\<lambda>_. at_phase t p) (at_phase t p)"
  "hoare (at_phase t p) (sync_query g) (\<lambda>_. at_phase t p) (at_phase t p)"
  "hoare (at_phase t p) (sync_read h) (\<lambda>_. at_phase t p) (at_phase t p)"
  "hoare (at_phase t p) (sync_destination d) (\<lambda>_. at_phase t p) (at_phase t p)"
  "hoare (at_phase t p) (sync_cache k) (\<lambda>_. at_phase t p) (at_phase t p)"
  "hoare (at_phase t p) (sync_copying c) (\<lambda>_. at_phase t p) (at_phase t p)"
  "hoare (at_phase t p) (sync_store (so_get_schema ops u snap)) (\<lambda>_. at_phase t p) (at_phase t p)"
  "hoare (at_phase t p) (sync_store (so_store_schema ops x)) (\<lambda>_. at_phase t p) (at_phase t p)"
  "hoare (at_phase t p) (sync_store (so_clear_copy_state ops u)) (\<lambda>_. at_phase t p) (at_phase t p)"
  by (rule phase_kept, auto simp: sync_source_def sync_query_def sync_read_def sync_destination_def sync_cache_def sync_copying_def
      sync_store_def act_on_def act_call_def split: prod.splits dest: get_schema_frame store_schema_frame clear_inv clear_phase)+

lemma phase_kept_parts:
  assumes "sc_ops cfg = ops"
  shows "keeps (at_phase t p) (drop_existing_table cfg)" "keeps (at_phase t p) (load_copy_schema cfg)"
    "keeps (at_phase t p) (copy_table_rows cfg env rts)"
  unfolding drop_existing_table_def get_existing_replicated_table_schema_def load_copy_schema_def copy_table_rows_def assms
  by (auto intro!: keeps_bind phase_kept_steps hoare_return hoare_fail hoare_try split: option.splits prod.splits table_copy_result.splits)

lemma prepare_copy_phase:
  assumes "sc_ops cfg = ops"
  shows "hoare (at_phase t p) (prepare_copy cfg name) (\<lambda>_. at_phase t (Some DataSync)) (at_phase t p)"
  unfolding prepare_copy_def assms
  by (rule hoare_bind [OF phase_kept_parts(1) [OF assms]] hoare_bind [OF phase_kept_steps(1)] hoare_bind [OF phase_kept_steps(9)]
      hoare_bind [OF phase_kept_steps(5)] sync_phase_hoare)+ simp

lemma finish_copy_phase:
  assumes "sc_ops cfg = ops"
  shows "hoare (at_phase t p) (finish_copy cfg rts n) (\<lambda>_. at_phase t (Some FinishedCopy)) (at_phase t p)"
proof -
  have "hoare (at_phase t (Some FinishedCopy)) (sync_cache f) (\<lambda>_. at_phase t (Some FinishedCopy)) (at_phase t p)" for f
    by (auto simp: hoare_def sync_cache_def table_phase_is_def)
  then show ?thesis unfolding finish_copy_def assms
    by (intro hoare_bind [OF phase_kept_steps(1)] hoare_bind [OF hoare_when [OF phase_kept_steps(4)]]
        hoare_bind [OF sync_phase_hoare]) simp_all
qed

lemma sync_copy_phase:
  assumes "sc_ops cfg = ops"
  shows "hoare (at_phase t p) (sync_copy cfg env)
     (\<lambda>r. at_phase t (Some (case r of None \<Rightarrow> DataSync | Some _ \<Rightarrow> FinishedCopy)))
     (\<lambda>w. at_phase t p w \<or> at_phase t (Some DataSync) w)"
proof -
  let ?E = "\<lambda>w. at_phase t p w \<or> at_phase t (Some DataSync) w"
  note weak = hoare_weaken [where E = ?E, OF _ _ _ disjI2] and keep = phase_kept_parts [OF assms, of t "Some DataSync"]
  have steps: "hoare (at_phase t (Some DataSync)) (sync_source f) (\<lambda>_. at_phase t (Some DataSync)) ?E"
      "hoare (at_phase t (Some DataSync)) (load_copy_schema cfg) (\<lambda>_. at_phase t (Some DataSync)) ?E"
      "hoare (at_phase t (Some DataSync)) (copy_table_rows cfg env rts) (\<lambda>_. at_phase t (Some DataSync)) ?E"
      "hoare (at_phase t (Some DataSync)) (finish_copy cfg rts n) (\<lambda>_. at_phase t (Some FinishedCopy)) ?E" for f rts n
    by (rule weak [OF phase_kept_steps(1)] weak [OF keep(2)] weak [OF keep(3)] weak [OF finish_copy_phase [OF assms]]; assumption)+
  have first: "hoare (at_phase t p) (prepare_copy cfg name) (\<lambda>_. at_phase t (Some DataSync)) ?E" for name
    by (rule hoare_weaken [OF prepare_copy_phase [OF assms]]) auto
  have last: "hoare (at_phase t (Some DataSync)) (case copied of
      None \<Rightarrow> act_return None | Some n \<Rightarrow> act_bind (finish_copy cfg rts n) (\<lambda>_. act_return (Some l)))
      (\<lambda>r. at_phase t (Some (case r of None \<Rightarrow> DataSync | Some _ \<Rightarrow> FinishedCopy))) ?E" for copied rts l
    by (cases copied) (auto intro!: hoare_return hoare_bind [OF steps(4)])
  show ?thesis unfolding sync_copy_def
    by (intro hoare_bind [where R = "\<lambda>_. at_phase t p"] hoare_bind [OF first] hoare_bind [OF steps(1)] hoare_bind [OF steps(2)]
        hoare_bind [OF steps(3)] last hoare_try) auto
qed

end

text \<open>
  C5. A table that is handed over was copied completely. When the synchronisation of a
  table ends with a start position, then at the moment it began to wait for the apply
  worker: a slot had been created at that position together with a snapshot; every row
  that COPY delivers in that snapshot had been acknowledged by the destination, and since the
  table was last dropped there nothing else; the store had the phase FinishedCopy and
  no old progress; the cache could decode the table; and the wait ended with a catch-up target.
\<close>

theorem table_sync_complete:
  assumes "pg_inv c (sw_store w)" "sc_ops cfg = postgres_store_ops c known" "ws_table (sw_worker w) = sc_table cfg"
    and "so_get_metadata (sc_ops cfg) (sw_store w) (sc_table cfg) = Inr None \<longrightarrow> ld_written (sw_landing w) = []"
    and "start_table_sync cfg env w = (Inr (SyncCompleted l), w'')"
  shows "\<exists>w'. wait_for_phase_type (ws_phase \<circ> sw_worker) [CatchupT] w' (se_wakes env w') = WaitReached w'' \<and>
     ws_phase (sw_worker w') = SyncWait l \<and> as_type (ws_phase (sw_worker w'')) = CatchupT \<and>
     pg_phase_of (sw_store w') (sc_table cfg) = Some FinishedCopy \<and> pg_progress_of (sw_store w') (TableSync (sc_table cfg)) = None \<and>
     (\<exists>name x y rts. name_of_slot (for_table_sync_worker (sc_pipeline cfg) (sc_table cfg)) = Inr name \<and>
        create_slot_with_transaction (sc_source cfg) name x = (Inr \<lparr> csr_consistent_point = l \<rparr>, y) \<and>
        cache_get (sw_cache w') (sc_table cfg) = Some (CacheReady rts) \<and>
        copied_all cfg rts y (ld_written (sw_landing w')))"
proof -
  obtain w1 w2 where copy: "sync_copy cfg env w = (Inr (Some l), w1)"
      and phase: "sync_phase (sc_ops cfg) (SyncWait l) w1 = (Inr (), w2)" and wait: "await_catchup env w2 = (Inr True, w'')"
    using assms(5) by (auto simp: start_table_sync_def act_bind_eq_Inr act_stop split: if_splits option.splits)
  have w2: "w2 = w1 \<lparr> sw_worker := ws_set (SyncWait l) (sw_worker w1) \<rparr>" using phase by (auto simp: sync_phase_Inr)
  have "wait_for_phase_type (ws_phase \<circ> sw_worker) [CatchupT] w2 (se_wakes env w2) = WaitReached w''"
    using wait by (auto simp: await_catchup_def split: wait_result.splits)
  moreover from this have "as_type (ws_phase (sw_worker w'')) = CatchupT" by (auto dest: wait_reached)
  ultimately show ?thesis
    using pg_store.sync_copy_effect [OF assms(1-3) assms(4) [unfolded assms(2)] copy] w2
    by (intro exI [of _ w2]) (simp add: ws_set_def)
qed

text \<open>A database that answers.\<close>

definition answers :: "state_table \<Rightarrow> postgres_store \<Rightarrow> bool" where
  "answers states s \<longleftrightarrow> pd_up (pg_db s) \<and> pd_states (pg_db s) = states \<and> pg_pipeline s = 1"

lemma answers_clear: "answers states s \<Longrightarrow> \<exists>s'. pg_clear_copy_state t s = (Inr (), s') \<and> answers states s'"
  by (simp add: answers_def pg_clear_copy_state_def pg_delete_table_state_for_scope_def Let_def)

lemma answers_store_schema:
  assumes "answers states s" "distinct (map cs_name (ts_columns x))" "distinct (map cs_ordinal (ts_columns x))"
  shows "\<exists>s'. pg_store_schema known x s = (Inr x, s') \<and> answers states s'"
  using assms by (auto simp: answers_def pg_store_schema_def sql_store_table_schema_def Let_def split: option.splits prod.splits)

lemma answers_update:
  assumes "answers states s" "res_map (\<lambda>(t, p). res_bind (to_storage_format c p) (\<lambda>sm. Inr (t, sm))) us = Inr rows"
    and "update_rows 1 rows states = Inr states'"
  shows "\<exists>s'. pg_update_states c us s = (Inr (), s') \<and> answers states' s'"
  using assms by (auto simp: answers_def pg_update_states_def)
definition sync_example :: "(postgres_store, unit, unit) sync_config" where
  "sync_example = \<lparr> sc_ops = postgres_store_ops unary_codec [], sc_source = one_row_source, sc_destination = ready_destination,
     sc_pipeline = 1, sc_table = 7, sc_publication = ''p'', sc_max_copy_connections = 1, sc_copy = cj_config one_row_job,
     sc_copy_tables = IncludeAllTables \<rparr>"

definition sync_example_env :: "(postgres_store, unit, unit) sync_env" where
  "sync_example_env = \<lparr> se_copy = one_row_env, se_events = [],
     se_wakes = \<lambda>w. [PhaseWake (w \<lparr> sw_worker := ws_set (Catchup 5) (sw_worker w) \<rparr>)] \<rparr>"

definition sync_example_world :: "(postgres_store, unit, unit) sync_world" where
  "sync_example_world = \<lparr> sw_store = down_then_up, sw_source = (), sw_landing = \<lparr> ld_dest = (), ld_written = [] \<rparr>,
     sw_budget = budget_new 1000, sw_worker = ws_new 7 Init, sw_cache = [] \<rparr>"

lemma sync_example_inv:
  "pg_inv unary_codec (sw_store sync_example_world)" "ws_table (sw_worker sync_example_world) = 7"
  by (simp_all add: down_then_up_def pg_inv_new [OF unary_codec_ok] sync_example_world_def ws_new_def)

lemma sync_example_store:
  "\<exists>s1 s2 s3 s4. pg_clear_copy_state 7 down_then_up = (Inr (), s1) \<and> pg_update_states unary_codec [(7, DataSync)] s1 = (Inr (), s2) \<and>
     pg_store_schema [] one_row_table s2 = (Inr one_row_table, s3) \<and> pg_update_states unary_codec [(7, FinishedCopy)] s3 = (Inr (), s4)"
proof -
  let ?row = "\<lambda>i prev cur st m. \<lparr> sr_id = i, sr_pipeline = 1, sr_table = 7, sr_state = st, sr_metadata = Some m, sr_prev = prev, sr_current = cur \<rparr>"
  obtain m1 m2 where m: "to_storage_format unary_codec DataSync = Inr (DataSyncS, m1)" "to_storage_format unary_codec FinishedCopy = Inr (FinishedCopyS, m2)"
    by (simp add: to_storage_format_def)
  have "answers \<lparr> st_rows = [], st_next = 0 \<rparr> down_then_up" by (simp add: answers_def down_then_up_def pg_new_def)
  then obtain s1 where s1: "pg_clear_copy_state 7 down_then_up = (Inr (), s1)" "answers \<lparr> st_rows = [], st_next = 0 \<rparr> s1"
    using answers_clear by blast
  obtain s2 where s2: "pg_update_states unary_codec [(7, DataSync)] s1 = (Inr (), s2)"
      "answers \<lparr> st_rows = [?row 0 None True DataSyncS m1], st_next = 1 \<rparr> s2"
    using answers_update [OF s1(2), of unary_codec "[(7, DataSync)]" "[(7, DataSyncS, m1)]"] m
    by (auto simp: update_replication_state_raw_def)
  obtain s3 where s3: "pg_store_schema [] one_row_table s2 = (Inr one_row_table, s3)"
      "answers \<lparr> st_rows = [?row 0 None True DataSyncS m1], st_next = 1 \<rparr> s3"
    using answers_store_schema [OF s2(2), of one_row_table] by (auto simp: one_row_table_def)
  obtain s4 where "pg_update_states unary_codec [(7, FinishedCopy)] s3 = (Inr (), s4)"
    using answers_update [OF s3(2), of unary_codec "[(7, FinishedCopy)]" "[(7, FinishedCopyS, m2)]"] m
    by (auto simp: update_replication_state_raw_def is_current_row_def)
  then show ?thesis using s1(1) s2(1) s3(1) by blast
qed

lemma sync_example_schema:
  "get_table_schema_with_identity one_row_source 7 () = Inr (one_row_table,
     \<lparr> im_primary_key_attnums = [1], im_relreplident = ''d'', im_index_attnums = [] \<rparr>)"
  "get_replicated_column_names one_row_source 7 one_row_table ''p'' () = Inr [''a'']"
  "mask_try_build one_row_table [''a''] = Inr [1]"
  "build_identity_mask \<lparr> im_primary_key_attnums = [1], im_relreplident = ''d'', im_index_attnums = [] \<rparr> one_row_table [1] = Inr [1]"
  "has_primary_keys one_row_table"
  by code_simp+

lemma sync_example_run: "\<exists>w''. start_table_sync sync_example sync_example_env sync_example_world = (Inr (SyncCompleted 0), w'')"
proof -
  obtain s1 s2 s3 s4 where s: "pg_clear_copy_state 7 down_then_up = (Inr (), s1)"
      "pg_update_states unary_codec [(7, DataSync)] s1 = (Inr (), s2)" "pg_store_schema [] one_row_table s2 = (Inr one_row_table, s3)"
      "pg_update_states unary_codec [(7, FinishedCopy)] s3 = (Inr (), s4)"
    using sync_example_store by blast
  obtain name where name: "slot_name_result (for_table_sync_worker 1 7) = Inr name"
    by (simp add: slot_name_result_def for_table_sync_worker_def name_of_slot_simps)
  have ops: "sc_ops sync_example = postgres_store_ops unary_codec []" "sc_table sync_example = 7" "sc_source sync_example = one_row_source"
      "sc_pipeline sync_example = 1" "sc_publication sync_example = ''p''" by (simp_all add: sync_example_def)
  have meta: "pg_get_metadata down_then_up 7 = Inr None" by (simp add: pg_get_metadata_def down_then_up_def pg_new_def)
  let ?w1 = "sync_example_world \<lparr> sw_store := s2, sw_worker := ws_set DataSync (ws_new 7 Init) \<rparr>"
  have "delete_slot_if_exists one_row_source name () = (Inr (), ())"
    by (simp add: delete_slot_if_exists_def delete_slot_internal_def one_row_source_def empty_source_def)
  then have prep: "prepare_copy sync_example name sync_example_world = (Inr (), ?w1)"
    using s meta by (simp add: prepare_copy_def act_bind_eq_Inr drop_existing_table_def get_existing_replicated_table_schema_def ops
        postgres_store_ops_def sync_phase_Inr so_update_state_def sync_example_world_def ws_new_def cache_remove_table_def act_stop)
  let ?rts = "from_masks one_row_table [1] [1]" and ?w3 = "?w1 \<lparr> sw_store := s3 \<rparr>" and ?l = "\<lparr> ld_dest = (), ld_written = [[[CellString ''x'']]] \<rparr>"
  have slot: "create_slot_with_transaction one_row_source name () = (Inr \<lparr> csr_consistent_point = 0 \<rparr>, ())"
    by (simp add: create_slot_with_transaction_def begin_tx_def create_slot_internal_def one_row_source_def empty_source_def
        source_reply_def get_row_value_def)
  have load: "load_copy_schema sync_example ?w1 = (Inr ?rts, ?w3)"
    using s sync_example_schema
    by (simp add: load_copy_schema_def act_bind_eq_Inr ops postgres_store_ops_def sync_example_world_def act_try_def act_stop)
  have "sync_job sync_example ?rts = one_row_job" by (simp add: sync_job_def sync_example_def one_row_job_def)
  then have copy: "copy_table_rows sync_example sync_example_env ?rts ?w3 = (Inr (Some 1), ?w3 \<lparr> sw_landing := ?l \<rparr>)"
    using one_row_copy by (simp add: copy_table_rows_def sync_copying_def act_bind_def act_on_def sync_example_world_def one_row_world_def
        sync_example_env_def sync_example_def act_stop)
  have "commit_tx one_row_source () = (Inr (), ())" by (simp add: commit_tx_def one_row_source_def empty_source_def source_reply_def)
  then have fin: "\<exists>w4. finish_copy sync_example ?rts 1 (?w3 \<lparr> sw_landing := ?l \<rparr>) = (Inr (), w4)"
    using s by (simp add: finish_copy_def act_bind_eq_Inr sync_phase_Inr act_when_def act_stop ops postgres_store_ops_def
        so_update_state_def sync_example_world_def ws_new_def ws_set_def)
  then obtain w4 where w4: "sync_copy sync_example sync_example_env sync_example_world = (Inr (Some 0), w4)"
    using name prep slot load copy
    by (auto simp: sync_copy_def act_bind_def act_try_def ops sync_source_def act_on_def act_call_def sync_example_world_def act_stop)
  then show ?thesis
    by (simp add: start_table_sync_def act_bind_def sync_example_world_def ws_new_def sync_phase_def set_and_store_def Let_def
        await_catchup_def wait_for_phase_type.simps ws_set_def sync_example_env_def act_stop)
qed

theorem table_sync_complete_witness:
  "\<exists>(w' :: (postgres_store, unit, unit) sync_world) w'' rts. start_table_sync sync_example sync_example_env sync_example_world = (Inr (SyncCompleted 0), w'') \<and>
     pg_phase_of (sw_store w') 7 = Some FinishedCopy \<and> ws_phase (sw_worker w') = SyncWait 0 \<and>
     copied_all sync_example rts () (ld_written (sw_landing w'))"
proof -
  obtain w'' where run: "start_table_sync sync_example sync_example_env sync_example_world = (Inr (SyncCompleted 0), w'')"
    using sync_example_run by blast
  have ex: "pg_inv unary_codec (sw_store sync_example_world)" "ws_table (sw_worker sync_example_world) = sc_table sync_example"
      "ld_written (sw_landing sync_example_world) = []" "sc_ops sync_example = postgres_store_ops unary_codec []" "sc_table sync_example = 7"
    using sync_example_inv by (simp_all add: sync_example_world_def sync_example_def)
  then have "so_get_metadata (sc_ops sync_example) (sw_store sync_example_world) (sc_table sync_example) = Inr None \<longrightarrow>
      ld_written (sw_landing sync_example_world) = []" by blast
  from table_sync_complete [OF ex(1,4,2) this run] show ?thesis using run ex(5) by auto
qed

text \<open>
  C15. A copy that does not finish is repeated. If the copy of a table fails at any step, hangs,
  or is stopped by a shutdown, the store still has the phase the table had before or the
  phase DataSync, never a later one, so the next start of the worker copies the table
  again from the beginning.
\<close>

theorem unfinished_copy_repeats:
  assumes "pg_inv c (sw_store w)" "sc_ops cfg = postgres_store_ops c known" "ws_table (sw_worker w) = sc_table cfg"
    and "sync_copy cfg env w = (r, w')" "\<forall>l. r \<noteq> Inr (Some l)"
  shows "pg_phase_of (sw_store w') (sc_table cfg) \<in> {pg_phase_of (sw_store w) (sc_table cfg), Some DataSync}"
proof -
  let ?t = "sc_table cfg"
  have start: "table_phase_is (pg_inv c) pg_phase_of ?t (pg_phase_of (sw_store w) ?t) w"
    using assms(1,3) by (simp add: table_phase_is_def)
  note h = hoareD [OF pg_store.sync_copy_phase [OF assms(2)] start]
  show ?thesis
  proof (cases r)
    case (Inl e)
    then show ?thesis using h(2) assms(4) by (auto simp: table_phase_is_def)
  next
    case (Inr x)
    then show ?thesis using h(1) assms(4,5) by (cases x) (auto simp: table_phase_is_def)
  qed
qed

theorem unfinished_copy_repeats_witness:
  "\<exists>e w'. sync_copy (sync_example \<lparr> sc_source := one_row_source \<lparr> src_drop_slot := \<lambda>_ w. (None, w) \<rparr> \<rparr>) sync_example_env sync_example_world
       = (Inl (Failed e), w') \<and>
     pg_phase_of (sw_store w') 7 \<in> {None, Some DataSync}"
proof -
  let ?cfg = "sync_example \<lparr> sc_source := one_row_source \<lparr> src_drop_slot := \<lambda>_ w. (None, w) \<rparr> \<rparr>"
  obtain name where name: "slot_name_result (for_table_sync_worker 1 7) = Inr name"
    by (simp add: slot_name_result_def for_table_sync_worker_def name_of_slot_simps)
  have meta: "pg_get_metadata down_then_up 7 = Inr None" by (simp add: pg_get_metadata_def down_then_up_def pg_new_def)
  obtain e w' where run: "sync_copy ?cfg sync_example_env sync_example_world = (Inl (Failed e), w')"
    using name meta by (simp add: sync_copy_def act_bind_def act_try_def sync_example_def prepare_copy_def drop_existing_table_def
        get_existing_replicated_table_schema_def sync_read_def postgres_store_ops_def sync_example_world_def sync_source_def
        act_on_def act_call_def delete_slot_if_exists_def delete_slot_internal_def act_stop)
  have ex: "pg_inv unary_codec (sw_store sync_example_world)" "ws_table (sw_worker sync_example_world) = sc_table ?cfg"
      "sc_ops ?cfg = postgres_store_ops unary_codec []" "sc_table ?cfg = 7" "pg_phase_of (sw_store sync_example_world) 7 = None"
    using sync_example_inv by (simp_all add: sync_example_def sync_example_world_def down_then_up_def pg_phase_of_def pg_new_def)
  have "\<forall>l. Inl (Failed e) \<noteq> Inr (Some l)" by simp
  from unfinished_copy_repeats [OF ex(1,3,2) run this] show ?thesis using run ex(4,5) by auto
qed

end
