(* ===== verification/Pipeline.thy ===== *)
theory Pipeline
  imports Apply_Start
begin

text \<open>
  The pipeline around its workers, \<open>etl/src/pipeline.rs\<close>: how a start brings the stored
  table states in line with the publication, and how the end of the workers is collected.
  Migrations and connections belong to the database client; their results are arguments.
\<close>

section \<open>Table states at a start\<close>

definition init_new_table ::
    "'s store_ops \<Rightarrow> (table_id, phase) btree_map \<Rightarrow> table_id \<Rightarrow> (('s, 'w) pipeline_world, unit) action" where
  "init_new_table ops states t =
     (if t \<in> fst ` set states then act_return () else on_store (so_update_state ops t Init))"

definition purge_removed_table ::
    "'s store_ops \<Rightarrow> 'w source \<Rightarrow> pipeline_id \<Rightarrow> table_id list \<Rightarrow> table_id \<Rightarrow> (('s, 'w) pipeline_world, unit) action" where
  "purge_removed_table ops src pid published t =
     (if t \<in> set published then act_return ()
      else
        act_bind (on_store (so_delete_pipeline_state ops t)) (\<lambda>_.
        act_bind (act_try (slot_name_result (for_table_sync_worker pid t))) (\<lambda>slot_name.
        on_source (delete_slot_if_exists src slot_name))))"

definition check_partition_root ::
    "'w source \<Rightarrow> string \<Rightarrow> table_id list \<Rightarrow> (('s, 'w) pipeline_world, unit) action" where
  "check_partition_root src pub published =
     act_bind (ask_source (get_publish_via_partition_root src pub)) (\<lambda>via_root.
       if via_root then act_return ()
       else act_bind (ask_source (has_partitioned_tables src published)) (\<lambda>partitioned.
         if partitioned then act_fail (etl_err ConfigError ''Invalid publication configuration for partitioned tables'')
         else act_return ()))"

definition initialize_table_states ::
    "'s store_ops \<Rightarrow> 'w source \<Rightarrow> pipeline_id \<Rightarrow> string \<Rightarrow> (('s, 'w) pipeline_world, unit) action" where
  "initialize_table_states ops src pid pub =
     act_bind (ask_source (publication_exists src pub)) (\<lambda>exists.
     if \<not> exists then act_fail (etl_err ConfigError ''Missing publication'')
     else
     act_bind (ask_source (get_publication_table_ids src pub)) (\<lambda>published.
     act_bind (check_partition_root src pub published) (\<lambda>_.
     act_bind (on_store (so_load_states ops)) (\<lambda>_.
     act_bind (ask_store (so_get_states ops)) (\<lambda>states.
     act_bind (act_each (init_new_table ops states) published) (\<lambda>_.
     act_each (purge_removed_table ops src pid published) (map fst states)))))))"

text \<open>\<open>migrated\<close> and \<open>client\<close> are the results of the migrations and of the first connection.\<close>

definition pipeline_start ::
    "'s store_ops \<Rightarrow> 'w source \<Rightarrow> pipeline_id \<Rightarrow> string \<Rightarrow> unit etl_result \<Rightarrow> unit etl_result
     \<Rightarrow> (('s, 'w) pipeline_world, unit) action" where
  "pipeline_start ops src pid pub migrated client =
     act_bind (act_try migrated) (\<lambda>_.
     act_bind (act_try client) (\<lambda>_.
     act_bind (on_store (so_load_metadata ops)) (\<lambda>_.
     act_bind (on_store (so_load_schemas ops)) (\<lambda>_.
     initialize_table_states ops src pid pub))))"

section \<open>The end of the workers\<close>

text \<open>
  What the parts of a started pipeline end with. The workers of the pool may end
  differently when shutdown has been requested. The task of the memory monitor ends, is
  cancelled or panics.
\<close>

datatype monitor_end = MonitorEnded | MonitorCancelled | MonitorPanicked

record pipeline_end =
  pe_apply :: "unit etl_result"
  pe_pool :: "bool \<Rightarrow> unit etl_result"
  pe_destination :: "unit etl_result"
  pe_monitor :: monitor_end

definition collect_error :: "unit etl_result \<Rightarrow> etl_error list \<Rightarrow> etl_error list" where
  "collect_error r errs = (case r of Inl e \<Rightarrow> errs @ [e] | Inr _ \<Rightarrow> errs)"

text \<open>The result, and whether shutdown has been requested by then.\<close>

definition pipeline_wait :: "pipeline_end option \<Rightarrow> bool \<Rightarrow> unit etl_result \<times> bool" where
  "pipeline_wait started shutdown = (case started of
       None \<Rightarrow> (Inr (), shutdown)
     | Some e \<Rightarrow>
         let errors1 = collect_error (pe_apply e) [];
             shutdown1 = (shutdown \<or> \<not> is_ok (pe_apply e));
             errors2 = collect_error (pe_pool e shutdown1) errors1;
             errors3 = collect_error (pe_destination e) errors2;
             errors4 = (if pe_monitor e = MonitorPanicked
                        then errors3 @ [etl_err InvalidState ''Memory monitor task panicked''] else errors3)
         in (if errors4 = [] then Inr () else Inl (from_errors errors4), shutdown1))"

definition shutdown_and_wait :: "pipeline_end option \<Rightarrow> unit etl_result \<times> bool" where
  "shutdown_and_wait started = pipeline_wait started True"

section \<open>The states after a start\<close>

definition published_phase :: "table_id list \<Rightarrow> (table_id \<Rightarrow> phase option) \<Rightarrow> table_id \<Rightarrow> phase option" where
  "published_phase published before t =
     (if t \<in> set published then Some (case before t of None \<Rightarrow> Init | Some p \<Rightarrow> p) else None)"

context pipeline_store
begin

lemma init_tables_effect:
  assumes "inv (pw_store p)" "act_each (init_new_table ops states) published p = (Inr u, p')"
  shows "inv (pw_store p') \<and> phase_of (pw_store p') =
     (\<lambda>t. if t \<in> set published \<and> t \<notin> fst ` set states then Some Init else phase_of (pw_store p) t)"
  using assms
proof (induction published arbitrary: p)
  case (Cons t ts)
  obtain p1 where step: "init_new_table ops states t p = (Inr (), p1)" and rest: "act_each (init_new_table ops states) ts p1 = (Inr u, p')"
    using Cons.prems(2) by (auto simp: act_bind_eq_Inr)
  have p1: "inv (pw_store p1)" "phase_of (pw_store p1) = (if t \<in> fst ` set states then phase_of (pw_store p) else (phase_of (pw_store p))(t \<mapsto> Init))"
    using step Cons.prems(1) update_inv update_one_phase
    by (auto simp: init_new_table_def act_stop so_update_state_def split: if_splits)
  then show ?case using Cons.IH [OF p1(1) rest] by auto
qed (auto simp: act_stop)

lemma purge_tables_effect:
  assumes "inv (pw_store p)" "act_each (purge_removed_table ops src pid published) ts p = (Inr u, p')"
  shows "inv (pw_store p') \<and> phase_of (pw_store p') =
     (\<lambda>t. if t \<in> set ts \<and> t \<notin> set published then None else phase_of (pw_store p) t)"
  using assms
proof (induction ts arbitrary: p)
  case (Cons t ts)
  obtain p1 where step: "purge_removed_table ops src pid published t p = (Inr (), p1)"
      and rest: "act_each (purge_removed_table ops src pid published) ts p1 = (Inr u, p')"
    using Cons.prems(2) by (auto simp: act_bind_eq_Inr)
  have p1: "inv (pw_store p1)" "phase_of (pw_store p1) = (if t \<in> set published then phase_of (pw_store p) else (phase_of (pw_store p))(t := None))"
    using step Cons.prems(1) by (auto simp: purge_removed_table_def act_bind_eq_Inr act_try_def act_stop split: if_splits
        dest: remove_inv [rotated] remove_phase [rotated])
  then show ?case using Cons.IH [OF p1(1) rest] by (auto simp: fun_eq_iff)
qed (auto simp: act_stop)

end

lemma pg_loads_keep_db:
  assumes "pg_load_metadata s = (r, s') \<or> pg_load_schemas known s = (r, s')"
  shows "pg_db s' = pg_db s" "pg_pipeline s' = pg_pipeline s"
  using assms by (auto simp: pg_load_metadata_def pg_load_schemas_def Let_def split: if_splits sum.splits prod.splits)

lemma pg_load_restored:
  assumes "pg_inv c s" "pg_db s1 = pg_db s" "pg_pipeline s1 = pg_pipeline s" "pg_load_states c s1 = (Inr n, s2)"
  shows "pg_inv c s2 \<and> pg_phase_of s2 = map_option persisted \<circ> pg_phase_of s"
proof -
  have up: "pd_up (pg_db s1)" using assms(4) by (auto simp: pg_load_states_def split: if_splits)
  have "states_db_inv c (pg_pipeline s1) (pd_states (pg_db s1))" using assms(1-3) by (simp add: pg_inv_def)
  then obtain m s' where "pg_load_states c s1 = (Inr m, s')" "pg_inv c s'"
      "\<And>t. pg_phase_of s' t = (case pg_stack_of c s1 t of [] \<Rightarrow> None | p # _ \<Rightarrow> Some p)"
    using up by (rule pg_load_states_effect) blast
  moreover have "pg_stack_of c s1 = pg_stack_of c s" using assms(2,3) by (simp add: pg_stack_of_def fun_eq_iff)
  ultimately show ?thesis using assms(4) pg_invD(5) [OF assms(1)] by (auto simp: fun_eq_iff)
qed

text \<open>
  C8. A start brings the table states in line with the publication. When a pipeline is
  started again on the database an earlier process left, and the start succeeds, every
  published table has the phase it had, or Init if it is new, and a table that is no
  longer published has no state.
\<close>

theorem start_follows_publication:
  assumes "pg_inv c s"
    and "pipeline_start (postgres_store_ops c known) src pid pub migrated client
      \<lparr> pw_store = pg_new (pg_pipeline s) (pg_db s), pw_source = w \<rparr> = (Inr u, p)"
  shows "\<exists>published. get_publication_table_ids src pub w = Inr published \<and> pg_inv c (pw_store p) \<and>
     pg_phase_of (pw_store p) = published_phase published (map_option persisted \<circ> pg_phase_of s)"
proof -
  let ?ops = "postgres_store_ops c known" and ?s0 = "pg_new (pg_pipeline s) (pg_db s)"
  obtain n1 s1 n2 s2 n3 s3 published states p1 where
      meta: "pg_load_metadata ?s0 = (Inr n1, s1)" and schemas: "pg_load_schemas known s1 = (Inr n2, s2)"
      and load: "pg_load_states c s2 = (Inr n3, s3)" and ids: "get_publication_table_ids src pub w = Inr published"
      and states: "pg_get_states s3 = Inr states"
      and init: "act_each (init_new_table ?ops states) published \<lparr> pw_store = s3, pw_source = w \<rparr> = (Inr (), p1)"
      and purge: "act_each (purge_removed_table ?ops src pid published) (map fst states) p1 = (Inr u, p)"
    using assms(2) by (auto simp: pipeline_start_def initialize_table_states_def check_partition_root_def act_bind_eq_Inr
        act_try_def act_stop postgres_store_ops_def split: if_splits)
  have s3: "pg_inv c s3" "pg_phase_of s3 = map_option persisted \<circ> pg_phase_of s"
    using pg_load_restored [OF assms(1) _ _ load] pg_loads_keep_db [OF disjI2, OF schemas] pg_loads_keep_db [OF disjI1, OF meta]
    by (simp_all add: pg_new_def)
  have dom: "map_of states = pg_phase_of s3"
    using pg_store.get_states [OF s3(1), of known states] states by (simp add: postgres_store_ops_def)
  have "pg_inv c (pw_store p1) \<and> pg_phase_of (pw_store p1) =
      (\<lambda>t. if t \<in> set published \<and> t \<notin> fst ` set states then Some Init else pg_phase_of s3 t)"
    using pg_store.init_tables_effect [OF _ init] s3(1) by (simp add: fun_eq_iff)
  moreover from this have "pg_inv c (pw_store p) \<and> pg_phase_of (pw_store p) =
      (\<lambda>t. if t \<in> set (map fst states) \<and> t \<notin> set published then None else pg_phase_of (pw_store p1) t)"
    using pg_store.purge_tables_effect [OF _ purge] by blast
  moreover have "t \<in> fst ` set states \<longleftrightarrow> pg_phase_of s3 t \<noteq> None" for t
    using dom by (metis map_of_eq_None_iff)
  ultimately show ?thesis using ids s3(2) by (auto simp: published_phase_def fun_eq_iff split: option.splits)
qed

text \<open>A publication with one table, and a database without states.\<close>

definition one_table_source :: "unit source" where
  "one_table_source = empty_source \<lparr> src_publication_rows := \<lambda>_ _. Inr [()], src_publication_roots := \<lambda>_ _. Inr [Some ''7''],
     src_pubviaroot := \<lambda>_ _. Inr [Some ''t''] \<rparr>"

theorem start_follows_publication_witness:
  "\<exists>p. pipeline_start (postgres_store_ops unary_codec []) one_table_source 1 ''p'' (Inr ()) (Inr ())
       \<lparr> pw_store = down_then_up, pw_source = () \<rparr> = (Inr (), p) \<and> pg_phase_of (pw_store p) 7 = Some Init"
proof -
  have src: "get_publication_table_ids one_table_source ''p'' () = Inr [7]" "publication_exists one_table_source ''p'' () = Inr True"
      "get_publish_via_partition_root one_table_source ''p'' () = Inr True"
    by code_simp+
  have new: "pg_new (pg_pipeline down_then_up) (pg_db down_then_up) = down_then_up" by (simp add: down_then_up_def pg_new_def)
  have loads: "pg_load_metadata down_then_up = (Inr 0, down_then_up)" "pg_load_schemas [] down_then_up = (Inr 0, down_then_up)"
    by (simp_all add: pg_load_metadata_def pg_load_schemas_def sql_load_metadata_def load_table_schemas_def load_table_schemas_at_snapshot_def replace_all_def down_then_up_def pg_new_def Let_def)
  obtain s1 where s1: "pg_load_states unary_codec down_then_up = (Inr 0, s1)" "pg_get_states s1 = Inr []"
      "pd_up (pg_db s1)" "pd_states (pg_db s1) = \<lparr> st_rows = [], st_next = 0 \<rparr>"
    by (simp add: pg_load_states_def pg_get_states_def down_then_up_def pg_new_def get_table_replication_state_rows_def init_phase_counts_def)
  obtain s2 where s2: "pg_update_states unary_codec [(7, Init)] s1 = (Inr (), s2)"
    using s1(3,4) by (simp add: pg_update_states_def to_storage_format_def update_replication_state_raw_def)
  have run: "pipeline_start (postgres_store_ops unary_codec []) one_table_source 1 ''p'' (Inr ()) (Inr ())
       \<lparr> pw_store = down_then_up, pw_source = () \<rparr> = (Inr (), \<lparr> pw_store = s2, pw_source = () \<rparr>)" (is "_ = (_, ?p)")
    using src loads s1(1,2) s2
    by (simp add: pipeline_start_def act_bind_def act_try_def on_store_def ask_store_def ask_source_def act_on_def act_call_def
        postgres_store_ops_def initialize_table_states_def check_partition_root_def init_new_table_def so_update_state_def act_stop)
  have "pg_inv unary_codec down_then_up" by (simp add: down_then_up_def pg_inv_new [OF unary_codec_ok])
  moreover have "pg_phase_of down_then_up 7 = None" by (simp add: down_then_up_def pg_new_def pg_phase_of_def)
  ultimately show ?thesis
    using start_follows_publication [of unary_codec down_then_up "[]" one_table_source 1 "''p''" "Inr ()" "Inr ()" "()" "()" ?p]
      run new src(1) by (auto simp: published_phase_def)
qed

text \<open>
  The end of a pipeline is reported faithfully: it succeeds exactly if every part did, and
  the workers of the pool are told to stop as soon as the apply worker has failed.
\<close>

lemma pipeline_wait_ok:
  "fst (pipeline_wait (Some e) shutdown) = Inr () \<longleftrightarrow>
     is_ok (pe_apply e) \<and> is_ok (pe_pool e shutdown) \<and> is_ok (pe_destination e) \<and> pe_monitor e \<noteq> MonitorPanicked"
  by (auto simp: pipeline_wait_def Let_def collect_error_def split: sum.splits)

end
