(* ===== verification/Numeric_Text.thy ===== *)
theory Numeric_Text
  imports Decimal_Text
begin

text \<open>
  Printing of numerics, the \<open>Display\<close> of \<open>etl/src/conversions/numeric.rs\<close>, and that a printed
  numeric is read back as the same number. The index of a group in the fraction is an
  \<open>i16\<close> and wraps around in a release build.
\<close>

section \<open>Printing\<close>

definition wrap_i16 :: "int \<Rightarrow> int" where
  "wrap_i16 i = (i + 32768) mod 65536 - 32768"

definition digit_at :: "int list \<Rightarrow> int \<Rightarrow> int" where
  "digit_at ds d = (if 0 \<le> d \<and> nat d < length ds then ds ! nat d else 0)"

text \<open>The format \<open>{:04}\<close> of a number.\<close>

definition four :: "int \<Rightarrow> string" where
  "four n = (if 0 \<le> n then let t = dec (nat n) in replicate (4 - length t) CHR ''0'' @ t
     else let t = dec (nat (- n)) in CHR ''-'' # replicate (3 - length t) CHR ''0'' @ t)"

definition leading_group :: "int \<Rightarrow> string" where
  "leading_group n = (let trimmed = dropWhile (\<lambda>c. c = CHR ''0'') (four n) in if trimmed = [] then ''0'' else trimmed)"

definition integer_part :: "int \<Rightarrow> int list \<Rightarrow> string" where
  "integer_part w ds = (if w < 0 then ''0''
     else leading_group (digit_at ds 0) @ concat (map (\<lambda>d. four (digit_at ds d)) [1..w]))"

function fraction_part :: "int \<Rightarrow> nat \<Rightarrow> int list \<Rightarrow> string" where
  "fraction_part d remaining ds = (if remaining = 0 then []
     else let n = min 4 remaining in
       take n (four (digit_at ds d)) @ fraction_part (wrap_i16 (d + 1)) (remaining - n) ds)"
  by pat_completeness auto
termination by (relation "measure (\<lambda>(d, remaining, ds). remaining)") auto

declare fraction_part.simps [simp del]

definition format_numeric_value :: "sign \<Rightarrow> int \<Rightarrow> nat \<Rightarrow> int list \<Rightarrow> string" where
  "format_numeric_value s w scale ds =
     (if ds = [] then ''0''
      else (case s of Negative \<Rightarrow> ''-'' | Positive \<Rightarrow> []) @ integer_part w ds @
        (if scale > 0 then CHR ''.'' # fraction_part (wrap_i16 (w + 1)) scale ds else []))"

fun numeric_to_string :: "pg_numeric \<Rightarrow> string" where
  "numeric_to_string NaN = ''NaN''"
| "numeric_to_string PositiveInfinity = ''Infinity''"
| "numeric_to_string NegativeInfinity = ''-Infinity''"
| "numeric_to_string (NumValue s w scale ds) = format_numeric_value s w scale ds"

section \<open>The digits of a printed numeric\<close>

definition text_value :: "string \<Rightarrow> int" where
  "text_value s = horner 10 (map (int \<circ> digit_value) s)"

lemma text_value_simps [simp]:
  "text_value [] = 0" "text_value (s @ t) = text_value s * 10 ^ length t + text_value t"
  by (simp_all add: text_value_def)

lemma zero_text: "text_value (replicate n CHR ''0'') = 0"
  by (induction n) (simp_all add: text_value_def digit_value_def)

lemma four_digits:
  assumes "0 \<le> n" "n < 10000"
  shows "length (four n) = 4" "list_all is_digit (four n)" "text_value (four n) = n"
proof -
  have len: "length (dec (nat n)) \<le> 4" using assms length_dec [of 4 "nat n"] by simp
  show "length (four n) = 4" using assms len by (simp add: four_def Let_def)
  have "is_digit CHR ''0''" by (simp add: is_digit_def)
  then show "list_all is_digit (four n)" using assms dec_digits [of "nat n"] by (auto simp: four_def Let_def list_all_iff)
  show "text_value (four n) = n"
    using assms horner_dec [of "nat n"] by (simp add: four_def Let_def zero_text) (simp add: text_value_def)
qed

lemma trim_zeros_text: "text_value (dropWhile (\<lambda>c. c = CHR ''0'') s) = text_value s"
  by (induction s) (simp_all add: text_value_def digit_value_def)

lemma leading_group_digits:
  assumes "0 \<le> n" "n < 10000"
  shows "list_all is_digit (leading_group n)" "text_value (leading_group n) = n" "leading_group n \<noteq> []"
proof -
  note four = four_digits [OF assms]
  let ?t = "dropWhile (\<lambda>c. c = CHR ''0'') (four n)"
  have zero: "text_value ''0'' = 0" "is_digit CHR ''0''" by (simp_all add: text_value_def digit_value_def is_digit_def)
  have t: "text_value ?t = n" using trim_zeros_text [of "four n"] four(3) by simp
  then show "text_value (leading_group n) = n" using zero(1) by (cases "?t = []") (auto simp: leading_group_def Let_def)
  have "list_all is_digit ?t" using four(2) by (auto simp: list_all_iff dest: set_dropWhileD)
  then show "list_all is_digit (leading_group n)" using zero(2) by (cases "?t = []") (auto simp: leading_group_def Let_def)
  show "leading_group n \<noteq> []" by (simp add: leading_group_def Let_def)
qed

lemma groups_digits:
  assumes "\<forall>g \<in> set gs. 0 \<le> g \<and> g < 10000"
  shows "list_all is_digit (concat (map four gs))" "length (concat (map four gs)) = 4 * length gs"
    "text_value (concat (map four gs)) = horner 10000 gs"
proof -
  show len: "length (concat (map four gs)) = 4 * length gs" using assms by (induction gs) (auto simp: four_digits)
  show "list_all is_digit (concat (map four gs))" using assms four_digits(2) by (auto simp: list_all_iff)
  show "text_value (concat (map four gs)) = horner 10000 gs"
    using assms
  proof (induction gs)
    case (Cons g gs)
    have "length (concat (map four gs)) = 4 * length gs" using Cons.prems by (induction gs) (auto simp: four_digits)
    moreover have "(10 :: int) ^ (4 * length gs) = 10000 ^ length gs" by (simp add: power_mult)
    ultimately show ?case using Cons by (simp add: four_digits)
  qed simp
qed

text \<open>The groups a numeric prints from position \<open>a\<close> on.\<close>

definition groups :: "int list \<Rightarrow> int \<Rightarrow> nat \<Rightarrow> int list" where
  "groups ds a n = map (\<lambda>i. digit_at ds (a + int i)) [0..<n]"

lemma groups_simps:
  "length (groups ds a n) = n" "groups ds a (Suc n) = digit_at ds a # groups ds (a + 1) n"
  "groups ds a (m + n) = groups ds a m @ groups ds (a + int m) n"
  by (simp_all add: groups_def upt_conv_Cons map_Suc_upt [symmetric] comp_def algebra_simps del: upt_Suc map_Suc_upt)
    (rule nth_equalityI; auto simp: nth_append algebra_simps)

lemma groups_bound: "\<forall>d \<in> set ds. 0 \<le> d \<and> d < 10000 \<Longrightarrow> \<forall>g \<in> set (groups ds a n). 0 \<le> g \<and> g < 10000"
  by (auto simp: groups_def digit_at_def)

lemma upto_groups: "map (digit_at ds) [a..b] = groups ds a (nat (b - a + 1))"
  by (rule nth_equalityI) (auto simp: groups_def)

text \<open>A range that covers all groups has the number of the groups, shifted.\<close>

lemma horner_groups:
  assumes "a \<le> 0" "int (length ds) \<le> a + int n"
  shows "horner 10000 (groups ds a n) = horner 10000 ds * 10000 ^ nat (a + int n - int (length ds))"
proof -
  have pos: "nat (a + int i) = i - nat (- a)" for i using assms(1) by linarith
  have "groups ds a n = replicate (nat (- a)) 0 @ ds @ replicate (nat (a + int n - int (length ds))) 0"
    using assms by (intro nth_equalityI) (auto simp: groups_def digit_at_def nth_append pos)
  then show ?thesis by simp
qed

lemma wrap_i16_id: "- 32768 \<le> i \<Longrightarrow> i \<le> 32767 \<Longrightarrow> wrap_i16 i = i"
  by (simp add: wrap_i16_def)

lemma fraction_groups:
  assumes "\<forall>d \<in> set ds. 0 \<le> d \<and> d < 10000" "- 32768 \<le> a" "a + int ((scale + 3) div 4) \<le> 32767"
  shows "fraction_part a scale ds = take scale (concat (map four (groups ds a ((scale + 3) div 4))))"
  using assms
proof (induction a scale ds rule: fraction_part.induct)
  case (1 a scale ds)
  show ?case
  proof (cases "scale = 0")
    case False
    let ?n = "min 4 scale"
    have k: "(scale + 3) div 4 = Suc ((scale - ?n + 3) div 4)" using False by (auto simp: min_def)
    have a: "wrap_i16 (a + 1) = a + 1" using "1.prems"(2,3) k by (intro wrap_i16_id) auto
    have "fraction_part (a + 1) (scale - ?n) ds =
        take (scale - ?n) (concat (map four (groups ds (a + 1) ((scale - ?n + 3) div 4))))"
      using "1.IH" [of ?n] False "1.prems" a k by simp
    moreover have "length (four (digit_at ds a)) = 4"
      using four_digits(1) "1.prems"(1) by (simp add: digit_at_def)
    moreover from this have "take ?n (four (digit_at ds a)) = take scale (four (digit_at ds a))" "scale - ?n = scale - 4"
      by (simp_all add: min_def)
    ultimately show ?thesis using False a by (subst fraction_part.simps) (simp add: k groups_simps(2) Let_def)
  qed (simp add: fraction_part.simps)
qed

lemma text_value_bound:
  "list_all is_digit s \<Longrightarrow> 0 \<le> text_value s \<and> text_value s < 10 ^ length s"
  using horner_digits_bound [of "map digit_value s"]
  by (fastforce simp: text_value_def comp_def list_all_iff is_digit_def digit_value_def)

text \<open>The digits after the scale, which the text leaves out, are zero.\<close>

definition within_scale :: "int \<Rightarrow> nat \<Rightarrow> int list \<Rightarrow> bool" where
  "within_scale w scale ds \<longleftrightarrow> (let k = (scale + 3) div 4 in
     int (length ds) \<le> w + 1 + int k \<and> 10 ^ (4 * k - scale) dvd digit_at ds (w + int k))"

lemma dropped_digits:
  assumes "0 \<le> g" "g < 10000" "10 ^ (4 - r) dvd g" "r \<le> 4"
  shows "text_value (drop r (four g)) = 0"
proof -
  have "g = text_value (take r (four g)) * 10 ^ (4 - r) + text_value (drop r (four g))"
    using four_digits(1,3) [OF assms(1,2)] text_value_simps(2) [of "take r (four g)" "drop r (four g)"] by simp
  moreover have "list_all is_digit (drop r (four g))"
    using four_digits(2) [OF assms(1,2)] by (auto simp: list_all_iff dest: in_set_dropD)
  then have "0 \<le> text_value (drop r (four g))" "text_value (drop r (four g)) < 10 ^ (4 - r)"
    using text_value_bound [of "drop r (four g)"] four_digits(1) [OF assms(1,2)] by simp_all
  ultimately have "text_value (drop r (four g)) = g mod 10 ^ (4 - r)" by (metis mod_mult_self3 mod_pos_pos_trivial)
  then show ?thesis using assms(3) by simp
qed

lemma fraction_value:
  assumes "\<forall>d \<in> set ds. 0 \<le> d \<and> d < 10000" "within_scale w scale ds"
  defines "k \<equiv> (scale + 3) div 4"
  shows "text_value (take scale (concat (map four (groups ds (w + 1) k)))) * 10 ^ (4 * k - scale) =
    horner 10000 (groups ds (w + 1) k)"
proof (cases k)
  case (Suc j)
  let ?full = "concat (map four (groups ds (w + 1) k))" and ?g = "digit_at ds (w + int k)"
  note gs = groups_digits [OF groups_bound [OF assms(1)]]
  have len: "scale \<le> 4 * k" "scale - 4 * j \<le> 4" "4 * j \<le> scale" using Suc unfolding k_def by linarith+
  have full: "?full = concat (map four (groups ds (w + 1) j)) @ four ?g"
    using groups_simps(3) [of ds "w + 1" j 1] Suc by (simp add: groups_def algebra_simps)
  have "0 \<le> ?g" "?g < 10000" using assms(1) by (auto simp: digit_at_def)
  moreover have "4 * k - scale = 4 - (scale - 4 * j)" using Suc len by simp
  ultimately have "text_value (drop (scale - 4 * j) (four ?g)) = 0"
    using assms(2) len by (intro dropped_digits) (simp_all add: within_scale_def Let_def k_def)
  then have "text_value (drop scale ?full) = 0" using full gs(2) [of "w + 1" j] len by (simp add: groups_simps(1))
  moreover have "text_value ?full = text_value (take scale ?full) * 10 ^ (4 * k - scale) + text_value (drop scale ?full)"
    using text_value_simps(2) [of "take scale ?full" "drop scale ?full"] gs(2) [of "w + 1" k] by (simp add: groups_simps(1))
  ultimately show ?thesis using gs(3) [of "w + 1" k] by simp
qed (simp add: groups_def)

lemma integer_part_digits:
  assumes "\<forall>d \<in> set ds. 0 \<le> d \<and> d < 10000"
  shows "list_all is_digit (integer_part w ds)" "integer_part w ds \<noteq> []"
    "length (integer_part w ds) \<le> 4 * nat (max 1 (w + 1))"
    "text_value (integer_part w ds) = (if w < 0 then 0 else horner 10000 (groups ds 0 (nat w + 1)))"
proof -
  note gs = groups_digits [OF groups_bound [OF assms]]
  let ?g = "digit_at ds 0"
  have g: "0 \<le> ?g" "?g < 10000" using assms by (auto simp: digit_at_def)
  note lead = leading_group_digits [OF g]
  have short: "length (leading_group ?g) \<le> 4"
    using length_dropWhile_le [of "\<lambda>c. c = CHR ''0''" "four ?g"] four_digits(1) [OF g] by (simp add: leading_group_def Let_def)
  have part: "integer_part w ds = leading_group ?g @ concat (map four (groups ds 1 (nat w)))" if "\<not> w < 0"
    using that arg_cong [OF upto_groups [of ds 1 w], of "map four"] by (simp add: integer_part_def comp_def)
  have zero: "is_digit CHR ''0''" "text_value ''0'' = 0" by (simp_all add: is_digit_def text_value_def digit_value_def)
  show "list_all is_digit (integer_part w ds)"
    using part lead(1) gs(1) zero(1) by (cases "w < 0") (simp_all add: integer_part_def)
  show "integer_part w ds \<noteq> []" using part lead(3) by (cases "w < 0") (simp_all add: integer_part_def)
  show "length (integer_part w ds) \<le> 4 * nat (max 1 (w + 1))"
    using part short gs(2) [of 1 "nat w"] by (cases "w < 0") (simp_all add: integer_part_def groups_simps(1))
  show "text_value (integer_part w ds) = (if w < 0 then 0 else horner 10000 (groups ds 0 (nat w + 1)))"
    using part lead(2) gs(2,3) [of 1 "nat w"] zero(2)
    by (cases "w < 0") (simp_all add: integer_part_def groups_simps(1,2) power_mult)
qed

text \<open>What a numeric that came from Postgres or from the parser satisfies, and what the width of the index allows.\<close>

definition printable :: "int \<Rightarrow> nat \<Rightarrow> int list \<Rightarrow> bool" where
  "printable w scale ds \<longleftrightarrow> (\<forall>d \<in> set ds. 0 \<le> d \<and> d < 10000) \<and> scale \<le> 16383 \<and> - 32768 \<le> w \<and>
     w + 1 + int ((scale + 3) div 4) \<le> 32767 \<and> within_scale w scale ds"

abbreviation fraction_text :: "int \<Rightarrow> nat \<Rightarrow> int list \<Rightarrow> string" where
  "fraction_text w scale ds \<equiv> take scale (concat (map four (groups ds (w + 1) ((scale + 3) div 4))))"

lemma printed_text:
  assumes "printable w scale ds" "ds \<noteq> []"
  shows "numeric_to_string (NumValue s w scale ds) = (case s of Negative \<Rightarrow> ''-'' | Positive \<Rightarrow> []) @ integer_part w ds @
      (if scale > 0 then CHR ''.'' # fraction_text w scale ds else [])"
  using assms fraction_groups [of ds "w + 1" scale]
  by (simp add: format_numeric_value_def printable_def wrap_i16_id)

lemma fraction_text_digits:
  assumes "printable w scale ds"
  shows "list_all is_digit (fraction_text w scale ds)" "length (fraction_text w scale ds) = scale"
  using assms groups_digits [OF groups_bound, of ds "w + 1" "(scale + 3) div 4"]
  by (auto simp: printable_def list_all_iff groups_simps(1) dest!: in_set_takeD)

lemma printed_value:
  assumes "printable w scale ds"
  shows "(of_int (text_value (integer_part w ds @ fraction_text w scale ds)) :: real) * 10 powi (- int scale) =
    of_int (horner 10000 ds) * 10000 powi (w + 1 - int (length ds))"
proof -
  define k where "k = (scale + 3) div 4"
  have ok: "\<forall>d \<in> set ds. 0 \<le> d \<and> d < 10000" "within_scale w scale ds" and len: "int (length ds) \<le> w + 1 + int k"
    using assms by (auto simp: printable_def within_scale_def Let_def k_def)
  let ?v = "text_value (integer_part w ds @ fraction_text w scale ds)"
  have k: "scale \<le> 4 * k" unfolding k_def by linarith
  have "?v * 10 ^ (4 * k - scale) = text_value (integer_part w ds) * 10000 ^ k + horner 10000 (groups ds (w + 1) k)"
    using fraction_value [OF ok] fraction_text_digits(2) [OF assms] k
    power_mult [of "10 :: int" 4 k] by (simp add: k_def [symmetric] algebra_simps flip: power_add)
  also have "\<dots> = horner 10000 ds * 10000 ^ nat (w + 1 + int k - int (length ds))"
  proof (cases "w < 0")
    case True
    then show ?thesis using integer_part_digits(4) [OF ok(1), of w] horner_groups [of "w + 1" ds k] len by simp
  next
    case False
    then show ?thesis
      using integer_part_digits(4) [OF ok(1), of w] horner_groups [of 0 ds "nat w + 1 + k"] len groups_simps(3) [of ds 0 "nat w + 1" k]
      by (simp add: groups_simps(1) algebra_simps)
  qed
  finally have "of_int (?v * 10 ^ (4 * k - scale)) = (of_int (horner 10000 ds * 10000 ^ nat (w + 1 + int k - int (length ds))) :: real)"
    by (simp only:)
  then have "of_int ?v * (10 :: real) ^ (4 * k - scale) = of_int (horner 10000 ds) * 10000 ^ nat (w + 1 + int k - int (length ds))"
    by (simp only: of_int_mult of_int_power of_int_numeral)
  moreover have "(10 :: real) powi (- int scale) = 10 ^ (4 * k - scale) * 10 powi (- (4 * int k))"
  proof -
    have "- int scale = int (4 * k - scale) + - (4 * int k)" using k by simp
    moreover have "(10 :: real) powi (int (4 * k - scale) + - (4 * int k)) = 10 powi int (4 * k - scale) * 10 powi (- (4 * int k))"
      by (rule power_int_add) simp
    ultimately show ?thesis by (simp only: power_int_of_nat)
  qed
  moreover have "(10000 :: real) ^ nat (w + 1 + int k - int (length ds)) * 10 powi (- (4 * int k)) =
      10000 powi (w + 1 - int (length ds))"
  proof -
    have "(10000 :: real) ^ nat (w + 1 + int k - int (length ds)) = 10000 powi (w + 1 + int k - int (length ds))"
      using len by (simp add: power_int_def)
    moreover have "(10 :: real) powi (- (4 * int k)) = 10000 powi (- int k)" using powi_10000 [of "- int k"] by simp
    ultimately show ?thesis by (simp add: algebra_simps flip: power_int_add)
  qed
  ultimately show ?thesis by (metis mult.assoc)
qed

lemma parse_digits_digits:
  assumes "list_all is_digit xs"
  shows "parse_digits (xs @ ys) point ds dweight dscale =
    parse_digits ys point (ds @ map digit_value xs) (if point then dweight else dweight + int (length xs))
      (if point then dscale + length xs else dscale)"
  using assms by (induction xs arbitrary: ds dweight dscale) (auto simp: add.assoc)

lemma convert_total:
  assumes "0 \<le> dweight" "dweight < 131072" "int (length ds) = dweight + 1 + int dscale" "dscale \<le> 16383"
  shows "\<exists>n. convert_to_base_10000 ds dweight dscale sg = Inr n"
proof -
  define weight offset ndigits where "weight = (dweight + 4) div 4 - 1" and "offset = (weight + 1) * 4 - (dweight + 1)"
    and "ndigits = (int (length ds) + offset + 3) div 4"
  let ?base = "base_10000_chunks (replicate (nat offset) 0 @ ds @ replicate (nat (ndigits * 4) - nat offset - length ds) 0)"
  have off: "0 \<le> offset" "offset \<le> 3" "0 \<le> weight" "weight \<le> 32767" using assms(1,2) unfolding offset_def weight_def by auto
  have w: "(if dweight \<ge> 0 then (dweight + 4) div 4 - 1 else - ((- dweight - 1) div 4 + 1)) = weight"
    using assms(1) unfolding weight_def by simp
  have eq: "int (length ds) + offset = (weight + 1) * 4 + int dscale" using assms(3) unfolding offset_def by simp
  have nd: "0 \<le> ndigits" "int (length ds) + offset \<le> ndigits * 4" "ndigits \<le> weight + 4098"
    using assms(4) off unfolding ndigits_def eq by auto
  have "length (replicate (nat offset) 0 @ ds @ replicate (nat (ndigits * 4) - nat offset - length ds) 0) = 4 * nat ndigits"
    using off nd by simp
  then have "length ?base = nat ndigits" by (rule length_chunks)
  then have "int (length (takeWhile (\<lambda>d. d = 0) ?base)) \<le> weight + 4098"
    using nd length_takeWhile_le [of "\<lambda>d. d = 0" ?base] by linarith
  then show ?thesis
    using off assms(4) unfolding convert_to_base_10000_def Let_def w offset_def [symmetric] ndigits_def [symmetric] by simp
qed

lemma parse_printed_value:
  assumes "list_all is_digit is" "is \<noteq> []" "list_all is_digit fs" "length fs = scale" "scale \<le> 16383"
  shows "parse_numeric_value (is @ (if scale > 0 then CHR ''.'' # fs else [])) sg =
    convert_to_base_10000 (map digit_value (is @ fs)) (int (length is) - 1) scale sg"
proof -
  obtain c cs where c: "is = c # cs" "is_digit c" using assms(1,2) by (cases "is") auto
  have start: "starts_with_digit (is @ ys)" "(case is @ ys of [] \<Rightarrow> False | c # _ \<Rightarrow> c = CHR ''.'') = False" for ys
    using c by (auto simp: is_digit_def)
  have point: "\<not> is_digit CHR ''.''" by (simp add: is_digit_def)
  have fs: "(case fs of [] \<Rightarrow> False | c' # _ \<Rightarrow> c' = CHR ''_'') = False"
    using assms(3) by (cases fs) (auto simp: is_digit_def)
  have "parse_digits fs True ds dw dsc = Inr (ds @ map digit_value fs, dw, dsc + length fs, [])" for ds dw dsc
    using parse_digits_digits [OF assms(3), of "[]"] by simp
  then have "parse_digits (is @ (if scale > 0 then CHR ''.'' # fs else [])) False [] (- 1) 0 =
      Inr (map digit_value (is @ fs), int (length is) - 1, scale, [])"
    using parse_digits_digits [OF assms(1), of "if scale > 0 then CHR ''.'' # fs else []" False "[]" "- 1" 0] point fs assms(4)
    by (cases "scale > 0") auto
  then show ?thesis
    using assms(5) start by (simp add: parse_numeric_value_def res_bind_def skip_whitespace_def)
qed

lemma parse_signed:
  assumes "is_digit c"
  shows "parse_numeric ((case s of Negative \<Rightarrow> ''-'' | Positive \<Rightarrow> []) @ c # cs) = parse_numeric_value (c # cs) s"
proof -
  have "c \<noteq> CHR ''+''" "c \<noteq> CHR ''-''" "\<not> is_whitespace c" "\<not> is_whitespace CHR ''-''"
    using assms by (auto simp: is_digit_def is_whitespace_def)
  then show ?thesis using assms by (cases s) (simp_all add: parse_numeric_def skip_whitespace_def Let_def)
qed

text \<open>
  C38. A printed numeric is read back as the same number: for every numeric whose digits lie
  within its scale and whose index fits the machine type, the text that is written to the
  destinations parses, to a numeric with the same value, the same scale, and in canonical form.
\<close>

theorem numeric_text_roundtrip:
  assumes "printable w scale ds" "ds \<noteq> []"
  shows "\<exists>m. parse_numeric (numeric_to_string (NumValue s w scale ds)) = Inr m \<and>
     numeric_value m = numeric_value (NumValue s w scale ds) \<and>
     (\<exists>s' w' ds'. m = NumValue s' w' scale ds' \<and> (ds' = [] \<or> hd ds' \<noteq> 0 \<and> last ds' \<noteq> 0))"
proof -
  have ok: "\<forall>d \<in> set ds. 0 \<le> d \<and> d < 10000" "scale \<le> 16383" "w \<le> 32766" using assms(1) by (auto simp: printable_def)
  note ip = integer_part_digits [OF ok(1), of w] and fp = fraction_text_digits [OF assms(1)]
  let ?all = "integer_part w ds @ fraction_text w scale ds"
  obtain c cs where c: "integer_part w ds = c # cs" "is_digit c" using ip(1,2) by (cases "integer_part w ds") auto
  have parse: "parse_numeric (numeric_to_string (NumValue s w scale ds)) =
      convert_to_base_10000 (map digit_value ?all) (int (length (integer_part w ds)) - 1) scale s"
    using printed_text [OF assms, of s] parse_signed [OF c(2), of s] parse_printed_value [OF ip(1,2) fp ok(2), of s] c(1) by simp
  moreover have "\<exists>n. convert_to_base_10000 (map digit_value ?all) (int (length (integer_part w ds)) - 1) scale s = Inr n"
    using ip(2,3) ok(2,3) fp(2) by (intro convert_total) (auto simp: Suc_le_eq)
  then obtain m where m: "convert_to_base_10000 (map digit_value ?all) (int (length (integer_part w ds)) - 1) scale s = Inr m" by blast
  have "\<forall>d \<in> set (map digit_value ?all). d < 10"
    using ip(1) fp(1) by (auto simp: list_all_iff is_digit_def digit_value_def)
  note val = convert_to_base_10000_value [OF m this]
  have "decimal_value (map digit_value ?all) (int (length (integer_part w ds)) - 1) =
      of_int (horner 10000 ds) * 10000 powi (w + 1 - int (length ds))"
    using printed_value [OF assms(1)] fp(2) by (simp add: decimal_value_def text_value_def comp_def)
  then have "numeric_value m = numeric_value (NumValue s w scale ds)" using val by (cases s) auto
  then show ?thesis using parse m val by fastforce
qed

theorem numeric_text_roundtrip_witness:
  "\<exists>m. numeric_to_string (NumValue Negative 1 3 [1, 2345, 6780]) = ''-12345.678'' \<and> parse_numeric ''-12345.678'' = Inr m \<and>
     numeric_value m = numeric_value (NumValue Negative 1 3 [1, 2345, 6780])"
proof -
  have "printable 1 3 [1, 2345, 6780]" by (simp add: printable_def within_scale_def digit_at_def)
  moreover have "numeric_to_string (NumValue Negative 1 3 [1, 2345, 6780]) = ''-12345.678''" by code_simp
  ultimately show ?thesis using numeric_text_roundtrip [of 1 3 "[1, 2345, 6780]" Negative] by auto
qed

text \<open>
  At the largest weight the index of the first group of the fraction wraps around, and
  the fraction is printed as zeros whatever the digits are.
\<close>

lemma fraction_lost_at_max_weight:
  assumes "scale \<le> 4"
  shows "fraction_part (wrap_i16 (32767 + 1)) scale ds = replicate scale CHR ''0''"
proof -
  have "dec 0 = ''0''" by code_simp
  then have "four 0 = ''0000''" by (simp add: four_def eval_nat_numeral)
  then have "take scale (four (digit_at ds (wrap_i16 32768))) = replicate scale CHR ''0''"
    using assms by (cases scale rule: nat.exhaust) (auto simp: wrap_i16_def digit_at_def numeral_eq_Suc le_Suc_eq)
  then show ?thesis using assms by (subst fraction_part.simps, simp add: Let_def min_def fraction_part.simps)
qed

end
