(* ===== verification/Ducklake_Values.thy ===== *)
theory Ducklake_Values
  imports Numeric_Text Events
begin

text \<open>
  How rows are handed to DuckDB, \<open>etl-destinations/src/ducklake/encoding.rs\<close>: as values
  for the appender, or as SQL text when a row has an array. The formatting of dates, times,
  UUIDs, JSON and floats and the quoting of literals belong to other libraries and come as a
  record of functions (\<open>duck_codec\<close>).
\<close>

text \<open>The variants of \<open>duckdb::types::Value\<close> that are used; the unit of times is the microsecond.\<close>

datatype duck_value =
    DNull
  | DBoolean bool
  | DText string
  | DSmallInt int
  | DInt int
  | DUInt nat
  | DBigInt int
  | DFloat "32 word"
  | DDouble "64 word"
  | DDate32 int
  | DTime64 int
  | DTimestamp int
  | DBlob "8 word list"
  | DList "duck_value list"

record duck_codec =
  dc_quote_literal :: "string \<Rightarrow> string"
  dc_quote_identifier :: "string \<Rightarrow> string"
  dc_f64_of_f32 :: "32 word \<Rightarrow> 64 word"
  dc_f64_kind :: "64 word \<Rightarrow> string option"
  dc_f64_text :: "64 word \<Rightarrow> string"
  dc_date_text :: "int \<Rightarrow> string"
  dc_time_text :: "int \<Rightarrow> string"
  dc_timestamp_text :: "int \<Rightarrow> string"
  dc_timestamptz_text :: "int \<Rightarrow> string"
  dc_uuid_text :: "128 word \<Rightarrow> string"
  dc_json_text :: "json \<Rightarrow> string"
  dc_date_days :: "int \<Rightarrow> int"
  dc_time_micros :: "int \<Rightarrow> int option"
  dc_timestamp_micros :: "int \<Rightarrow> int"
  dc_timestamptz_micros :: "int \<Rightarrow> int"

section \<open>SQL literals\<close>

definition int_text :: "int \<Rightarrow> string" where
  "int_text i = (if i < 0 then CHR ''-'' # dec (nat (- i)) else dec (nat i))"

definition hex_upper :: "nat \<Rightarrow> char" where
  "hex_upper n = char_of (if n < 10 then n + 48 else n + 55)"

definition encode_hex :: "8 word list \<Rightarrow> string" where
  "encode_hex bs = concat (map (\<lambda>b. [hex_upper (unat b div 16), hex_upper (unat b mod 16)]) bs)"

text \<open>\<open>dc_f64_kind\<close> names the special floats: \<open>NaN\<close>, \<open>Infinity\<close> and \<open>-Infinity\<close>.\<close>

definition quoted :: "string \<Rightarrow> string" where
  "quoted s = CHR 0x27 # s @ [CHR 0x27]"

definition float_literal :: "duck_codec \<Rightarrow> 64 word \<Rightarrow> bool \<Rightarrow> string" where
  "float_literal dc v is_double = (case dc_f64_kind dc v of
       Some name \<Rightarrow> ''CAST('' @ quoted name @ '' AS '' @ (if is_double then ''DOUBLE'' else ''FLOAT'') @ '')''
     | None \<Rightarrow> dc_f64_text dc v)"

fun join_text :: "string \<Rightarrow> string list \<Rightarrow> string" where
  "join_text sep [] = []"
| "join_text sep [s] = s"
| "join_text sep (s # t # ts) = s @ sep @ join_text sep (t # ts)"

text \<open>The elements of a list literal, \<open>NULL\<close> where they are missing.\<close>

definition nullable :: "('a \<Rightarrow> string) \<Rightarrow> 'a option list \<Rightarrow> string list" where
  "nullable f xs = map (case_option ''NULL'' f) xs"

definition array_cell_to_sql_literal :: "duck_codec \<Rightarrow> array_cell \<Rightarrow> string" where
  "array_cell_to_sql_literal dc a = ''['' @ join_text '', '' (case a of
       ABool v \<Rightarrow> nullable (\<lambda>b. if b then ''TRUE'' else ''FALSE'') v
     | AString v \<Rightarrow> nullable (dc_quote_literal dc) v
     | AI16 v \<Rightarrow> nullable int_text v
     | AI32 v \<Rightarrow> nullable int_text v
     | AU32 v \<Rightarrow> nullable dec v
     | AI64 v \<Rightarrow> nullable int_text v
     | AF32 v \<Rightarrow> nullable (\<lambda>f. float_literal dc (dc_f64_of_f32 dc f) False) v
     | AF64 v \<Rightarrow> nullable (\<lambda>f. float_literal dc f True) v
     | ANumeric v \<Rightarrow> nullable (\<lambda>n. dc_quote_literal dc (numeric_to_string n)) v
     | ADate v \<Rightarrow> nullable (\<lambda>d. ''DATE '' @ quoted (dc_date_text dc d)) v
     | ATime v \<Rightarrow> nullable (\<lambda>t. ''TIME '' @ quoted (dc_time_text dc t)) v
     | ATimestamp v \<Rightarrow> nullable (\<lambda>t. ''TIMESTAMP '' @ quoted (dc_timestamp_text dc t)) v
     | ATimestampTz v \<Rightarrow> nullable (\<lambda>t. ''TIMESTAMPTZ '' @ quoted (dc_timestamptz_text dc t)) v
     | AUuid v \<Rightarrow> nullable (\<lambda>u. ''CAST('' @ dc_quote_literal dc (dc_uuid_text dc u) @ '' AS UUID)'') v
     | AJson v \<Rightarrow> nullable (\<lambda>j. ''CAST('' @ dc_quote_literal dc (dc_json_text dc j) @ '' AS JSON)'') v
     | ABytes v \<Rightarrow> nullable (\<lambda>b. ''from_hex('' @ quoted (encode_hex b) @ '')'') v) @ '']''"

fun cell_to_sql_literal :: "duck_codec \<Rightarrow> cell \<Rightarrow> string" where
  "cell_to_sql_literal dc CellNull = ''NULL''"
| "cell_to_sql_literal dc (CellBool b) = (if b then ''TRUE'' else ''FALSE'')"
| "cell_to_sql_literal dc (CellString s) = dc_quote_literal dc s"
| "cell_to_sql_literal dc (CellI16 i) = int_text i"
| "cell_to_sql_literal dc (CellI32 i) = int_text i"
| "cell_to_sql_literal dc (CellU32 u) = dec u"
| "cell_to_sql_literal dc (CellI64 i) = int_text i"
| "cell_to_sql_literal dc (CellF32 f) = float_literal dc (dc_f64_of_f32 dc f) False"
| "cell_to_sql_literal dc (CellF64 f) = float_literal dc f True"
| "cell_to_sql_literal dc (CellNumeric n) = dc_quote_literal dc (numeric_to_string n)"
| "cell_to_sql_literal dc (CellDate d) = ''DATE '' @ quoted (dc_date_text dc d)"
| "cell_to_sql_literal dc (CellTime t) = ''TIME '' @ quoted (dc_time_text dc t)"
| "cell_to_sql_literal dc (CellTimestamp t) = ''TIMESTAMP '' @ quoted (dc_timestamp_text dc t)"
| "cell_to_sql_literal dc (CellTimestampTz t) = ''TIMESTAMPTZ '' @ quoted (dc_timestamptz_text dc t)"
| "cell_to_sql_literal dc (CellUuid u) = ''CAST('' @ dc_quote_literal dc (dc_uuid_text dc u) @ '' AS UUID)''"
| "cell_to_sql_literal dc (CellJson j) = ''CAST('' @ dc_quote_literal dc (dc_json_text dc j) @ '' AS JSON)''"
| "cell_to_sql_literal dc (CellBytes b) = ''from_hex('' @ quoted (encode_hex b) @ '')''"
| "cell_to_sql_literal dc (CellArray a) = array_cell_to_sql_literal dc a"

definition table_row_to_sql_literal :: "duck_codec \<Rightarrow> table_row \<Rightarrow> string" where
  "table_row_to_sql_literal dc row = ''('' @ join_text '', '' (map (cell_to_sql_literal dc) row) @ '')''"

section \<open>Values\<close>

definition nullable_values :: "('a \<Rightarrow> duck_value) \<Rightarrow> 'a option list \<Rightarrow> duck_value list" where
  "nullable_values f xs = map (case_option DNull f) xs"

definition time_value :: "duck_codec \<Rightarrow> int \<Rightarrow> duck_value" where
  "time_value dc t = DTime64 (case dc_time_micros dc t of None \<Rightarrow> 0 | Some m \<Rightarrow> m)"

definition array_cell_to_value :: "duck_codec \<Rightarrow> array_cell \<Rightarrow> duck_value" where
  "array_cell_to_value dc a = DList (case a of
       ABool v \<Rightarrow> nullable_values DBoolean v
     | AString v \<Rightarrow> nullable_values DText v
     | AI16 v \<Rightarrow> nullable_values DSmallInt v
     | AI32 v \<Rightarrow> nullable_values DInt v
     | AU32 v \<Rightarrow> nullable_values DUInt v
     | AI64 v \<Rightarrow> nullable_values DBigInt v
     | AF32 v \<Rightarrow> nullable_values DFloat v
     | AF64 v \<Rightarrow> nullable_values DDouble v
     | ANumeric v \<Rightarrow> nullable_values (\<lambda>n. DText (numeric_to_string n)) v
     | ADate v \<Rightarrow> nullable_values (\<lambda>d. DDate32 (dc_date_days dc d)) v
     | ATime v \<Rightarrow> nullable_values (time_value dc) v
     | ATimestamp v \<Rightarrow> nullable_values (\<lambda>t. DTimestamp (dc_timestamp_micros dc t)) v
     | ATimestampTz v \<Rightarrow> nullable_values (\<lambda>t. DTimestamp (dc_timestamptz_micros dc t)) v
     | AUuid v \<Rightarrow> nullable_values (\<lambda>u. DText (dc_uuid_text dc u)) v
     | AJson v \<Rightarrow> nullable_values (\<lambda>j. DText (dc_json_text dc j)) v
     | ABytes v \<Rightarrow> nullable_values DBlob v)"

fun cell_to_value :: "duck_codec \<Rightarrow> cell \<Rightarrow> duck_value" where
  "cell_to_value dc CellNull = DNull"
| "cell_to_value dc (CellBool b) = DBoolean b"
| "cell_to_value dc (CellString s) = DText s"
| "cell_to_value dc (CellI16 i) = DSmallInt i"
| "cell_to_value dc (CellI32 i) = DInt i"
| "cell_to_value dc (CellU32 u) = DUInt u"
| "cell_to_value dc (CellI64 i) = DBigInt i"
| "cell_to_value dc (CellF32 f) = DFloat f"
| "cell_to_value dc (CellF64 f) = DDouble f"
| "cell_to_value dc (CellNumeric n) = DText (numeric_to_string n)"
| "cell_to_value dc (CellDate d) = DDate32 (dc_date_days dc d)"
| "cell_to_value dc (CellTime t) = time_value dc t"
| "cell_to_value dc (CellTimestamp t) = DTimestamp (dc_timestamp_micros dc t)"
| "cell_to_value dc (CellTimestampTz t) = DTimestamp (dc_timestamptz_micros dc t)"
| "cell_to_value dc (CellUuid u) = DText (dc_uuid_text dc u)"
| "cell_to_value dc (CellJson j) = DText (dc_json_text dc j)"
| "cell_to_value dc (CellBytes b) = DBlob b"
| "cell_to_value dc (CellArray a) = array_cell_to_value dc a"

section \<open>Prepared rows\<close>

datatype prepared_rows = Appender "duck_value list list" | SqlLiterals "string list"

fun cell_requires_sql_literals :: "cell \<Rightarrow> bool" where
  "cell_requires_sql_literals (CellArray _) = True"
| "cell_requires_sql_literals _ = False"

definition prepare_rows :: "duck_codec \<Rightarrow> table_row list \<Rightarrow> prepared_rows" where
  "prepare_rows dc rows =
     (if list_ex (list_ex cell_requires_sql_literals) rows
      then SqlLiterals (map (table_row_to_sql_literal dc) rows)
      else Appender (map (map (cell_to_value dc)) rows))"

end
