(* ===== verification/Ducklake_Batches.thy ===== *)
theory Ducklake_Batches
  imports Ducklake_Values
begin

text \<open>
  The atomic table batches of the DuckLake destination, first half of
  \<open>etl-destinations/src/ducklake/batches.rs\<close>: how the mutations of a table become batches
  of SQL operations with a deterministic identity, and that the batches of a sequence of
  mutations do what the mutations do one by one.
\<close>

unbundle bit_operations_syntax

section \<open>Mutations\<close>

datatype table_mutation =
    MInsert table_row
  | MDelete old_table_row
  | MUpdate old_table_row updated_table_row
  | MReplace table_row

datatype prepared_table_mutation =
    PUpsert prepared_rows
  | PDelete "string list" string
  | PUpdate "string list" string

record tracked_table_mutation =
  tm_start :: lsn
  tm_commit :: lsn
  tm_ordinal :: "64 word"
  tm_mutation :: table_mutation

record tracked_truncate_event =
  tt_start :: lsn
  tt_commit :: lsn
  tt_ordinal :: "64 word"
  tt_options :: int

definition mutation_key :: "tracked_table_mutation \<Rightarrow> event_sequence_key" where
  "mutation_key m = \<lparr> sk_commit = tm_commit m, sk_ordinal = tm_ordinal m \<rparr>"

definition truncate_key :: "tracked_truncate_event \<Rightarrow> event_sequence_key" where
  "truncate_key t = \<lparr> sk_commit = tt_commit t, sk_ordinal = tt_ordinal t \<rparr>"

section \<open>Predicates and assignments\<close>

definition invalid_state :: "string \<Rightarrow> etl_error" where
  "invalid_state d = etl_err InvalidState d"

text \<open>Pairs the identity columns with the values of a full row, in one pass over the columns.\<close>

fun identity_values :: "column_schema list \<Rightarrow> (column_schema \<times> cell) list \<Rightarrow> (column_schema \<times> cell) list" where
  "identity_values (i # ids) ((c, v) # rest) =
     (if cs_ordinal i = cs_ordinal c then (i, v) # identity_values ids rest else identity_values (i # ids) rest)"
| "identity_values _ _ = []"

definition column_predicate :: "duck_codec \<Rightarrow> column_schema \<times> cell \<Rightarrow> string" where
  "column_predicate dc = (\<lambda>(c, v). dc_quote_identifier dc (cs_name c) @
     (if v = CellNull then '' IS NULL'' else '' = '' @ cell_to_sql_literal dc v))"

definition delete_predicate_from_row ::
    "duck_codec \<Rightarrow> replicated_table_schema \<Rightarrow> old_table_row \<Rightarrow> string etl_result" where
  "delete_predicate_from_row dc rts row =
     (let columns = si_inner (column_schemas rts); ids = si_inner (identity_column_schemas rts) in
      if ids = [] then Inl (invalid_state ''DuckLake delete requires a replica identity'')
      else res_bind (case row of
          OldFull r \<Rightarrow> if length r \<noteq> length columns then Inl (invalid_state ''DuckLake row shape does not match schema'')
            else Inr (identity_values ids (zip columns r))
        | OldKey r \<Rightarrow> if length r \<noteq> length ids then Inl (invalid_state ''DuckLake key image does not match replica identity'')
            else Inr (zip ids r))
        (\<lambda>key_values. Inr (join_text '' AND '' (map (column_predicate dc) key_values))))"

definition delete_predicate_from_copy_row ::
    "duck_codec \<Rightarrow> replicated_table_schema \<Rightarrow> table_row \<Rightarrow> string etl_result" where
  "delete_predicate_from_copy_row dc rts row =
     (let columns = si_inner (column_schemas rts) in
      if length row \<noteq> length columns then Inl (invalid_state ''DuckLake copy row shape does not match schema'')
      else Inr (join_text '' AND '' (map (column_predicate dc) (filter (primary_key \<circ> fst) (zip columns row)))))"

fun assignments_loop ::
    "duck_codec \<Rightarrow> nat \<Rightarrow> column_schema list \<Rightarrow> nat list \<Rightarrow> cell list \<Rightarrow> string list etl_result" where
  "assignments_loop dc i [] missing present =
     (if missing \<noteq> [] \<or> present \<noteq> [] then Inl (invalid_state ''DuckLake partial update row shape is inconsistent'')
      else Inr [])"
| "assignments_loop dc i (c # cs) missing present =
     (if missing \<noteq> [] \<and> hd missing = i then assignments_loop dc (Suc i) cs (tl missing) present
      else case present of
          [] \<Rightarrow> Inl (invalid_state ''DuckLake partial update row ended early'')
        | v # vs \<Rightarrow> res_bind (assignments_loop dc (Suc i) cs missing vs) (\<lambda>rest.
            Inr ((dc_quote_identifier dc (cs_name c) @ '' = '' @ cell_to_sql_literal dc v) # rest)))"

definition update_assignments_from_partial_row ::
    "duck_codec \<Rightarrow> replicated_table_schema \<Rightarrow> nat \<Rightarrow> cell list \<Rightarrow> nat list \<Rightarrow> string list etl_result" where
  "update_assignments_from_partial_row dc rts columns_total present missing =
     (let columns = si_inner (column_schemas rts) in
      if columns_total \<noteq> length columns then Inl (invalid_state ''DuckLake partial update row does not match schema'')
      else if present = [] then Inl (invalid_state ''DuckLake partial update row has no assignments'')
      else if length present + length missing \<noteq> columns_total
      then Inl (invalid_state ''DuckLake partial update row shape is inconsistent'')
      else assignments_loop dc 0 columns missing present)"

section \<open>Grouping of mutations\<close>

definition flush_upserts :: "duck_codec \<Rightarrow> table_row list \<Rightarrow> prepared_table_mutation list" where
  "flush_upserts dc rows = (if rows = [] then [] else [PUpsert (prepare_rows dc rows)])"

definition flush_deletes :: "string list \<Rightarrow> prepared_table_mutation list" where
  "flush_deletes ps = (if ps = [] then [] else [PDelete ps ''delete''])"

fun prepare_loop ::
    "duck_codec \<Rightarrow> replicated_table_schema \<Rightarrow> table_row list \<Rightarrow> string list \<Rightarrow> table_mutation list
     \<Rightarrow> prepared_table_mutation list etl_result" where
  "prepare_loop dc rts upserts deletes [] = Inr (flush_upserts dc upserts @ flush_deletes deletes)"
| "prepare_loop dc rts upserts deletes (MInsert row # ms) =
     res_bind (prepare_loop dc rts (upserts @ [row]) [] ms) (\<lambda>ps. Inr (flush_deletes deletes @ ps))"
| "prepare_loop dc rts upserts deletes (MDelete row # ms) =
     res_bind (delete_predicate_from_row dc rts row) (\<lambda>p.
     res_bind (prepare_loop dc rts [] (deletes @ [p]) ms) (\<lambda>ps. Inr (flush_upserts dc upserts @ ps)))"
| "prepare_loop dc rts upserts deletes (MUpdate old new # ms) =
     res_bind (case new of
         UpdatedFull row \<Rightarrow> res_bind (delete_predicate_from_row dc rts old) (\<lambda>p.
           Inr [PDelete [p] ''update'', PUpsert (prepare_rows dc [row])])
       | UpdatedPartial columns_total present missing \<Rightarrow>
           res_bind (update_assignments_from_partial_row dc rts columns_total present missing) (\<lambda>as.
           res_bind (delete_predicate_from_row dc rts old) (\<lambda>p. Inr [PUpdate as p])))
     (\<lambda>qs. res_bind (prepare_loop dc rts [] [] ms) (\<lambda>ps.
        Inr (flush_upserts dc upserts @ flush_deletes deletes @ qs @ ps)))"
| "prepare_loop dc rts upserts deletes (MReplace row # ms) =
     res_bind (delete_predicate_from_row dc rts (OldFull row)) (\<lambda>p.
     res_bind (prepare_loop dc rts [] [] ms) (\<lambda>ps.
       Inr (flush_upserts dc upserts @ flush_deletes deletes @
         [PDelete [p] ''replace'', PUpsert (prepare_rows dc [row])] @ ps)))"

definition prepare_table_mutations ::
    "duck_codec \<Rightarrow> replicated_table_schema \<Rightarrow> table_mutation list \<Rightarrow> prepared_table_mutation list etl_result" where
  "prepare_table_mutations dc rts ms = prepare_loop dc rts [] [] ms"

section \<open>The effect of the statements\<close>

text \<open>
  What DuckDB makes of the texts of a table: the row of a \<open>VALUES\<close> tuple, the cast of
  appended values to the column types, the truth of a condition, and an assignment.
\<close>

type_synonym duck_rows = "duck_value list list"

record duck_sql =
  dq_row :: "string \<Rightarrow> string \<Rightarrow> duck_value list"
  dq_cast :: "string \<Rightarrow> duck_value list \<Rightarrow> duck_value list"
  dq_holds :: "string \<Rightarrow> string \<Rightarrow> duck_value list \<Rightarrow> bool"
  dq_assign :: "string \<Rightarrow> string \<Rightarrow> duck_value list \<Rightarrow> duck_value list"

function chunks :: "nat \<Rightarrow> 'a list \<Rightarrow> 'a list list" where
  "chunks n xs = (if xs = [] \<or> n = 0 then [] else take n xs # chunks n (drop n xs))"
  by pat_completeness auto
termination by (relation "measure (\<lambda>(n, xs). length xs)") auto

declare chunks.simps [simp del]

definition sql_insert_batch_size :: nat where "sql_insert_batch_size = 128"

definition sql_delete_batch_size :: nat where "sql_delete_batch_size = 16"

definition cdc_mutation_batch_size :: nat where "cdc_mutation_batch_size = 16"

definition or_clause :: "string list \<Rightarrow> string" where
  "or_clause ps = join_text '' OR '' (map (\<lambda>p. ''('' @ p @ '')'') ps)"

definition delete_where :: "duck_sql \<Rightarrow> string \<Rightarrow> string \<Rightarrow> duck_rows \<Rightarrow> duck_rows" where
  "delete_where sq t p rows = filter (\<lambda>r. \<not> dq_holds sq t p r) rows"

definition update_where :: "duck_sql \<Rightarrow> string \<Rightarrow> string list \<Rightarrow> string \<Rightarrow> duck_rows \<Rightarrow> duck_rows" where
  "update_where sq t as p rows = (if as = [] then rows
     else map (\<lambda>r. if dq_holds sq t p r then dq_assign sq t (join_text '', '' as) r else r) rows)"

fun staged_rows :: "duck_sql \<Rightarrow> string \<Rightarrow> prepared_rows \<Rightarrow> duck_rows" where
  "staged_rows sq t (Appender vs) = map (dq_cast sq t) vs"
| "staged_rows sq t (SqlLiterals ls) = map (dq_row sq t) ls"

fun prepared_effect :: "duck_sql \<Rightarrow> string \<Rightarrow> prepared_table_mutation \<Rightarrow> duck_rows \<Rightarrow> duck_rows" where
  "prepared_effect sq t (PUpsert rs) rows = rows @ staged_rows sq t rs"
| "prepared_effect sq t (PDelete ps origin) rows =
     fold (\<lambda>c. delete_where sq t (or_clause c)) (chunks sql_delete_batch_size ps) rows"
| "prepared_effect sq t (PUpdate as p) rows = update_where sq t as p rows"

text \<open>The rows a mutation adds, and the old rows it finds its target by.\<close>

fun mutation_rows :: "table_mutation \<Rightarrow> table_row list" where
  "mutation_rows (MInsert row) = [row]"
| "mutation_rows (MUpdate old (UpdatedFull row)) = [row]"
| "mutation_rows (MReplace row) = [row]"
| "mutation_rows _ = []"

fun mutation_old_rows :: "table_mutation \<Rightarrow> old_table_row list" where
  "mutation_old_rows (MDelete old) = [old]"
| "mutation_old_rows (MUpdate old new) = [old]"
| "mutation_old_rows (MReplace row) = [OldFull row]"
| "mutation_old_rows (MInsert row) = []"

text \<open>
  Documented behaviour of DuckDB, for the texts generated for some mutations: the literal of a
  row denotes the row its values are cast to, and a disjunction of generated conditions holds
  if one of its parts does.
\<close>

definition generated_predicates :: "duck_codec \<Rightarrow> replicated_table_schema \<Rightarrow> table_mutation list \<Rightarrow> string set" where
  "generated_predicates dc rts ms =
     {p. \<exists>m \<in> set ms. \<exists>old \<in> set (mutation_old_rows m). delete_predicate_from_row dc rts old = Inr p}"

definition duck_sql_ok ::
    "duck_codec \<Rightarrow> duck_sql \<Rightarrow> replicated_table_schema \<Rightarrow> string \<Rightarrow> table_mutation list \<Rightarrow> bool" where
  "duck_sql_ok dc sq rts t ms \<longleftrightarrow>
     (\<forall>m \<in> set ms. \<forall>row \<in> set (mutation_rows m).
        dq_row sq t (table_row_to_sql_literal dc row) = dq_cast sq t (map (cell_to_value dc) row)) \<and>
     (\<forall>ps r. ps \<noteq> [] \<longrightarrow> set ps \<subseteq> generated_predicates dc rts ms \<longrightarrow>
        dq_holds sq t (or_clause ps) r = list_ex (\<lambda>p. dq_holds sq t p r) ps)"

lemma duck_sql_ok_mono: "duck_sql_ok dc sq rts t ms \<Longrightarrow> set ms' \<subseteq> set ms \<Longrightarrow> duck_sql_ok dc sq rts t ms'"
proof -
  assume ok: "duck_sql_ok dc sq rts t ms" and sub: "set ms' \<subseteq> set ms"
  have "generated_predicates dc rts ms' \<subseteq> generated_predicates dc rts ms" using sub by (auto simp: generated_predicates_def)
  then show ?thesis using ok sub unfolding duck_sql_ok_def by (meson subset_trans subsetD)
qed

section \<open>The effect of the mutations\<close>

definition stored_row :: "duck_codec \<Rightarrow> duck_sql \<Rightarrow> string \<Rightarrow> table_row \<Rightarrow> duck_value list" where
  "stored_row dc sq t row = dq_cast sq t (map (cell_to_value dc) row)"

definition delete_old ::
    "duck_codec \<Rightarrow> duck_sql \<Rightarrow> replicated_table_schema \<Rightarrow> string \<Rightarrow> old_table_row \<Rightarrow> duck_rows \<Rightarrow> duck_rows" where
  "delete_old dc sq rts t old rows = (case delete_predicate_from_row dc rts old of
       Inl _ \<Rightarrow> rows | Inr p \<Rightarrow> delete_where sq t p rows)"

fun mutation_effect ::
    "duck_codec \<Rightarrow> duck_sql \<Rightarrow> replicated_table_schema \<Rightarrow> string \<Rightarrow> table_mutation \<Rightarrow> duck_rows \<Rightarrow> duck_rows" where
  "mutation_effect dc sq rts t (MInsert row) rows = rows @ [stored_row dc sq t row]"
| "mutation_effect dc sq rts t (MDelete old) rows = delete_old dc sq rts t old rows"
| "mutation_effect dc sq rts t (MUpdate old (UpdatedFull row)) rows =
     delete_old dc sq rts t old rows @ [stored_row dc sq t row]"
| "mutation_effect dc sq rts t (MUpdate old (UpdatedPartial n present missing)) rows =
     (case (update_assignments_from_partial_row dc rts n present missing, delete_predicate_from_row dc rts old) of
        (Inr as, Inr p) \<Rightarrow> update_where sq t as p rows | _ \<Rightarrow> rows)"
| "mutation_effect dc sq rts t (MReplace row) rows =
     delete_old dc sq rts t (OldFull row) rows @ [stored_row dc sq t row]"

lemma chunks_Nil: "chunks n [] = []"
  by (subst chunks.simps) simp

lemma concat_chunks: "0 < n \<Longrightarrow> concat (chunks n xs) = xs"
  by (induction n xs rule: chunks.induct) (subst chunks.simps, auto)

lemma chunks_nonempty: "c \<in> set (chunks n xs) \<Longrightarrow> c \<noteq> []"
  by (induction n xs rule: chunks.induct) (subst (asm) (2) chunks.simps, auto split: if_splits)

lemma staged_prepared:
  assumes "duck_sql_ok dc sq rts t ms" "set rows \<subseteq> (\<Union>m \<in> set ms. set (mutation_rows m))"
  shows "staged_rows sq t (prepare_rows dc rows) = map (stored_row dc sq t) rows"
  using assms by (auto simp: prepare_rows_def duck_sql_ok_def stored_row_def)

lemma delete_prepared:
  assumes "duck_sql_ok dc sq rts t ms" "set ps \<subseteq> generated_predicates dc rts ms"
  shows "prepared_effect sq t (PDelete ps origin) rows = filter (\<lambda>r. \<not> list_ex (\<lambda>p. dq_holds sq t p r) ps) rows"
proof -
  have "fold (\<lambda>c. delete_where sq t (or_clause c)) cs rows = filter (\<lambda>r. \<not> list_ex (\<lambda>p. dq_holds sq t p r) (concat cs)) rows"
    if "\<forall>c \<in> set cs. c \<noteq> [] \<and> set c \<subseteq> generated_predicates dc rts ms" for cs
    using that assms(1)
    by (induction cs arbitrary: rows) (auto simp: delete_where_def duck_sql_ok_def list_ex_iff intro!: filter_cong)
  note all = this
  have "set c \<subseteq> set ps" if "c \<in> set (chunks 16 ps)" for c
    using that concat_chunks [of 16 ps] by (metis UN_upper set_concat zero_less_numeral)
  then have "\<forall>c \<in> set (chunks 16 ps). c \<noteq> [] \<and> set c \<subseteq> generated_predicates dc rts ms"
    using chunks_nonempty assms(2) by blast
  from all [OF this] show ?thesis by (simp add: sql_delete_batch_size_def concat_chunks)
qed

lemma flush_effect:
  assumes "duck_sql_ok dc sq rts t ms"
  shows "set upserts \<subseteq> (\<Union>m \<in> set ms. set (mutation_rows m)) \<Longrightarrow>
      fold (prepared_effect sq t) (flush_upserts dc upserts) rows = rows @ map (stored_row dc sq t) upserts"
    and "set ps \<subseteq> generated_predicates dc rts ms \<Longrightarrow>
      fold (prepared_effect sq t) (flush_deletes ps) rows = filter (\<lambda>r. \<not> list_ex (\<lambda>p. dq_holds sq t p r) ps) rows"
  using staged_prepared [OF assms] delete_prepared [OF assms] by (simp_all add: flush_upserts_def flush_deletes_def)

text \<open>The rows with the pending operations of the loop applied.\<close>

definition pending_effect :: "duck_codec \<Rightarrow> duck_sql \<Rightarrow> string \<Rightarrow> table_row list \<Rightarrow> string list \<Rightarrow> duck_rows \<Rightarrow> duck_rows" where
  "pending_effect dc sq t upserts deletes rows =
     filter (\<lambda>r. \<not> list_ex (\<lambda>p. dq_holds sq t p r) deletes) rows @ map (stored_row dc sq t) upserts"

lemma prepare_loop_effect:
  assumes ok: "duck_sql_ok dc sq rts t all" and "set ms \<subseteq> set all"
    and "prepare_loop dc rts upserts deletes ms = Inr ps" "upserts = [] \<or> deletes = []"
    and "set upserts \<subseteq> (\<Union>m \<in> set all. set (mutation_rows m))" "set deletes \<subseteq> generated_predicates dc rts all"
  shows "fold (prepared_effect sq t) ps rows = fold (mutation_effect dc sq rts t) ms (pending_effect dc sq t upserts deletes rows)"
  using assms(2-6)
proof (induction ms arbitrary: upserts deletes ps rows)
  case Nil
  then show ?case by (auto simp: flush_effect [OF ok] pending_effect_def)
next
  case (Cons m ms)
  have m: "m \<in> set all" and ms: "set ms \<subseteq> set all" using Cons.prems(1) by simp_all
  note flush = flush_effect(1) [OF ok Cons.prems(4)] flush_effect(2) [OF ok Cons.prems(5)]
  have row: "staged_rows sq t (prepare_rows dc [row]) = [stored_row dc sq t row]" if "row \<in> set (mutation_rows m)" for row
    using staged_prepared [OF ok, of "[row]"] that m by auto
  have gen: "p \<in> generated_predicates dc rts all"
    if "delete_predicate_from_row dc rts old = Inr p" "old \<in> set (mutation_old_rows m)" for old p
    using that m by (auto simp: generated_predicates_def)
  have del: "prepared_effect sq t (PDelete [p] origin) rows = filter (\<lambda>r. \<not> dq_holds sq t p r) rows"
    if "delete_predicate_from_row dc rts old = Inr p" "old \<in> set (mutation_old_rows m)" for old p origin rows
    using delete_prepared [OF ok, of "[p]" origin rows] gen [OF that] by simp
  have split: ?case
    if "prepare_loop dc rts [] [] ms = Inr rest" "ps = flush_upserts dc upserts @ flush_deletes deletes @ qs @ rest"
      "\<And>rows. fold (prepared_effect sq t) qs rows = mutation_effect dc sq rts t m rows" for qs rest
  proof -
    have "fold (prepared_effect sq t) (flush_upserts dc upserts @ flush_deletes deletes) rows = pending_effect dc sq t upserts deletes rows"
      using Cons.prems(3) by (auto simp: flush pending_effect_def)
    then show ?thesis using Cons.IH [OF ms that(1), of "mutation_effect dc sq rts t m (pending_effect dc sq t upserts deletes rows)"] that(2,3)
      by (simp add: pending_effect_def)
  qed
  show ?case
  proof (cases m)
    case (MInsert row)
    then obtain qs where qs: "prepare_loop dc rts (upserts @ [row]) [] ms = Inr qs" "ps = flush_deletes deletes @ qs"
      using Cons.prems(2) by (auto simp: res_bind_def split: sum.splits)
    have "set (upserts @ [row]) \<subseteq> (\<Union>m \<in> set all. set (mutation_rows m))" using Cons.prems(4) m MInsert by force
    then show ?thesis using Cons.IH [OF ms qs(1)] qs(2) MInsert Cons.prems(3) by (auto simp: flush pending_effect_def)
  next
    case (MDelete old)
    then obtain p qs where qs: "delete_predicate_from_row dc rts old = Inr p" "prepare_loop dc rts [] (deletes @ [p]) ms = Inr qs"
        "ps = flush_upserts dc upserts @ qs"
      using Cons.prems(2) by (auto simp: res_bind_def split: sum.splits)
    have "set (deletes @ [p]) \<subseteq> generated_predicates dc rts all" using Cons.prems(5) gen [OF qs(1)] MDelete by simp
    then show ?thesis using Cons.IH [OF ms qs(2)] qs(1,3) MDelete Cons.prems(3)
      by (auto simp: flush pending_effect_def delete_old_def delete_where_def intro!: arg_cong [of _ _ "fold _ ms"] filter_cong)
  next
    case (MUpdate old new)
    then obtain qs rest where "prepare_loop dc rts [] [] ms = Inr rest" "ps = flush_upserts dc upserts @ flush_deletes deletes @ qs @ rest"
      "\<And>rows. fold (prepared_effect sq t) qs rows = mutation_effect dc sq rts t m rows"
      using Cons.prems(2) row del
      by (cases new) (auto simp: res_bind_def delete_old_def delete_where_def simp del: prepared_effect.simps(2) split: sum.splits)
    then show ?thesis by (rule split)
  next
    case (MReplace row)
    then obtain p rest where r: "delete_predicate_from_row dc rts (OldFull row) = Inr p" "prepare_loop dc rts [] [] ms = Inr rest"
        "ps = flush_upserts dc upserts @ flush_deletes deletes @ [PDelete [p] ''replace'', PUpsert (prepare_rows dc [row])] @ rest"
      using Cons.prems(2) by (auto simp: res_bind_def split: sum.splits)
    show ?thesis by (rule split [OF r(2,3)])
      (use row del MReplace r(1) in \<open>auto simp: delete_old_def delete_where_def simp del: prepared_effect.simps(2)\<close>)
  qed
qed

lemma prepare_table_mutations_effect:
  assumes "duck_sql_ok dc sq rts t ms" "prepare_table_mutations dc rts ms = Inr ps"
  shows "fold (prepared_effect sq t) ps rows = fold (mutation_effect dc sq rts t) ms rows"
  using prepare_loop_effect [OF assms(1) subset_refl, of "[]" "[]" ps rows] assms(2)
  by (simp add: prepare_table_mutations_def pending_effect_def)

section \<open>Identities\<close>

datatype batch_kind = CopyBatch | MutationBatch | TruncateBatch

fun kind_text :: "batch_kind \<Rightarrow> string" where
  "kind_text CopyBatch = ''copy''"
| "kind_text MutationBatch = ''mutation''"
| "kind_text TruncateBatch = ''truncate''"

text \<open>The hasher, and what the standard library feeds it for a text and for a number.\<close>

definition hasher_new :: "64 word" where "hasher_new = 0xcbf29ce484222325"

definition hasher_write :: "8 word list \<Rightarrow> 64 word \<Rightarrow> 64 word" where
  "hasher_write bytes h = fold (\<lambda>b h. (h XOR ucast b) * 0x100000001b3) bytes h"

definition hash_text :: "string \<Rightarrow> 64 word \<Rightarrow> 64 word" where
  "hash_text s h = hasher_write [0xff] (hasher_write (map of_char s) h)"

definition hash_u64 :: "64 word \<Rightarrow> 64 word \<Rightarrow> 64 word" where
  "hash_u64 w h = hasher_write (map (\<lambda>i. ucast (drop_bit (8 * i) w)) [0..<8]) h"

definition hash_i8 :: "int \<Rightarrow> 64 word \<Rightarrow> 64 word" where
  "hash_i8 i h = hasher_write [of_int i] h"

fun hash_partial_loop ::
    "duck_codec \<Rightarrow> nat list \<Rightarrow> nat list \<Rightarrow> cell list \<Rightarrow> 64 word \<Rightarrow> 64 word etl_result" where
  "hash_partial_loop dc [] missing present h =
     (if present \<noteq> [] then Inl (invalid_state ''DuckLake partial row shape is inconsistent'') else Inr h)"
| "hash_partial_loop dc (i # is) missing present h =
     (if missing \<noteq> [] \<and> hd missing = i then hash_partial_loop dc is (tl missing) present h
      else case present of
          [] \<Rightarrow> Inl (invalid_state ''DuckLake partial row shape is inconsistent'')
        | v # vs \<Rightarrow> hash_partial_loop dc is missing vs (hash_text (cell_to_sql_literal dc v) (hash_u64 (of_nat i) h)))"

definition hash_partial_table_row :: "duck_codec \<Rightarrow> nat \<Rightarrow> cell list \<Rightarrow> nat list \<Rightarrow> 64 word \<Rightarrow> 64 word etl_result" where
  "hash_partial_table_row dc columns_total present missing h =
     hash_partial_loop dc [0..<columns_total] missing present (hash_u64 (of_nat columns_total) h)"

fun hash_mutation :: "duck_codec \<Rightarrow> replicated_table_schema \<Rightarrow> table_mutation \<Rightarrow> 64 word \<Rightarrow> 64 word etl_result" where
  "hash_mutation dc rts (MInsert row) h = Inr (hash_text (table_row_to_sql_literal dc row) (hash_text ''insert'' h))"
| "hash_mutation dc rts (MDelete old) h =
     res_bind (delete_predicate_from_row dc rts old) (\<lambda>p. Inr (hash_text p (hash_text ''delete'' h)))"
| "hash_mutation dc rts (MUpdate old new) h =
     res_bind (delete_predicate_from_row dc rts old) (\<lambda>p.
       let h' = hash_text p (hash_text ''update'' h) in
       case new of
         UpdatedFull row \<Rightarrow> Inr (hash_text (table_row_to_sql_literal dc row) h')
       | UpdatedPartial n present missing \<Rightarrow> hash_partial_table_row dc n present missing h')"
| "hash_mutation dc rts (MReplace row) h =
     res_bind (delete_predicate_from_row dc rts (OldFull row)) (\<lambda>p.
       Inr (hash_text (table_row_to_sql_literal dc row) (hash_text p (hash_text ''replace'' h))))"

fun hash_all :: "('a \<Rightarrow> 64 word \<Rightarrow> 64 word etl_result) \<Rightarrow> 'a list \<Rightarrow> 64 word \<Rightarrow> 64 word etl_result" where
  "hash_all f [] h = Inr h"
| "hash_all f (x # xs) h = res_bind (f x h) (hash_all f xs)"

definition hex16 :: "64 word \<Rightarrow> string" where
  "hex16 w = map (\<lambda>i. hex_char (unat w div 16 ^ (15 - i) mod 16)) [0..<16]"

record batch_identity =
  bi_batch_id :: string
  bi_first_start :: "lsn option"
  bi_last_commit :: "lsn option"

definition build_batch_identity :: "batch_kind \<Rightarrow> lsn option \<Rightarrow> lsn option \<Rightarrow> 64 word \<Rightarrow> batch_identity" where
  "build_batch_identity k first_start last_commit fingerprint =
     \<lparr> bi_batch_id = kind_text k @ '':'' @ hex16 (case_option 0 id first_start) @ '':'' @
         hex16 (case_option 0 id last_commit) @ '':'' @ hex16 fingerprint,
       bi_first_start = first_start, bi_last_commit = last_commit \<rparr>"

definition opt_hd :: "'a list \<Rightarrow> 'a option" where
  "opt_hd xs = (case xs of [] \<Rightarrow> None | x # _ \<Rightarrow> Some x)"

definition opt_last :: "'a list \<Rightarrow> 'a option" where
  "opt_last xs = (if xs = [] then None else Some (last xs))"

definition build_mutation_batch_identity ::
    "duck_codec \<Rightarrow> string \<Rightarrow> replicated_table_schema \<Rightarrow> tracked_table_mutation list \<Rightarrow> batch_identity etl_result" where
  "build_mutation_batch_identity dc t rts ms =
     res_bind (hash_all (\<lambda>m h. hash_mutation dc rts (tm_mutation m) (hash_u64 (tm_commit m) (hash_u64 (tm_start m) h))) ms
         (hash_text t (hash_text ''mutation'' hasher_new)))
       (\<lambda>h. Inr (build_batch_identity MutationBatch (map_option tm_start (opt_hd ms)) (map_option tm_commit (opt_last ms)) h))"

definition build_copy_batch_identity ::
    "duck_codec \<Rightarrow> string \<Rightarrow> replicated_table_schema \<Rightarrow> table_row list \<Rightarrow> batch_identity etl_result" where
  "build_copy_batch_identity dc t rts rows =
     res_bind (hash_all (\<lambda>row h. res_bind (delete_predicate_from_copy_row dc rts row) (\<lambda>p.
           Inr (hash_text (table_row_to_sql_literal dc row) (hash_text p h)))) rows
         (hash_text t (hash_text ''copy'' hasher_new)))
       (\<lambda>h. Inr (build_batch_identity CopyBatch None None h))"

definition build_truncate_batch_identity :: "string \<Rightarrow> tracked_truncate_event list \<Rightarrow> batch_identity" where
  "build_truncate_batch_identity t ts =
     build_batch_identity TruncateBatch (map_option tt_start (opt_hd ts)) (map_option tt_commit (opt_last ts))
       (fold (\<lambda>x h. hash_i8 (tt_options x) (hash_u64 (tt_commit x) (hash_u64 (tt_start x) h))) ts
         (hash_text t (hash_text ''truncate'' hasher_new)))"

section \<open>Batches\<close>

datatype batch_action = BatchMutations "prepared_table_mutation list" | BatchTruncate

record prepared_batch = batch_identity +
  pb_table :: string
  pb_kind :: batch_kind
  pb_first_key :: "event_sequence_key option"
  pb_last_key :: "event_sequence_key option"
  pb_action :: batch_action

definition prepared_of ::
    "batch_identity \<Rightarrow> string \<Rightarrow> batch_kind \<Rightarrow> event_sequence_key option \<Rightarrow> event_sequence_key option \<Rightarrow> batch_action
     \<Rightarrow> prepared_batch" where
  "prepared_of i t k first_key last_key a =
     \<lparr> bi_batch_id = bi_batch_id i, bi_first_start = bi_first_start i, bi_last_commit = bi_last_commit i,
       pb_table = t, pb_kind = k, pb_first_key = first_key, pb_last_key = last_key, pb_action = a \<rparr>"

definition push_prepared_mutation_batch ::
    "duck_codec \<Rightarrow> replicated_table_schema \<Rightarrow> string \<Rightarrow> tracked_table_mutation list \<Rightarrow> prepared_batch list etl_result" where
  "push_prepared_mutation_batch dc rts t ms =
     (if ms = [] then Inr []
      else res_bind (build_mutation_batch_identity dc t rts ms) (\<lambda>i.
        res_bind (prepare_table_mutations dc rts (map tm_mutation ms)) (\<lambda>ps.
          Inr [prepared_of i t MutationBatch (map_option mutation_key (opt_hd ms)) (map_option mutation_key (opt_last ms))
                 (BatchMutations ps)])))"

fun mutation_batches_loop ::
    "duck_codec \<Rightarrow> replicated_table_schema \<Rightarrow> string \<Rightarrow> tracked_table_mutation list \<Rightarrow> tracked_table_mutation list
     \<Rightarrow> prepared_batch list etl_result" where
  "mutation_batches_loop dc rts t pending [] = push_prepared_mutation_batch dc rts t pending"
| "mutation_batches_loop dc rts t pending (m # ms) =
     (if length (pending @ [m]) \<ge> cdc_mutation_batch_size
      then res_bind (push_prepared_mutation_batch dc rts t (pending @ [m])) (\<lambda>bs.
        res_bind (mutation_batches_loop dc rts t [] ms) (\<lambda>bs'. Inr (bs @ bs')))
      else mutation_batches_loop dc rts t (pending @ [m]) ms)"

definition prepare_mutation_table_batches ::
    "duck_codec \<Rightarrow> replicated_table_schema \<Rightarrow> string \<Rightarrow> tracked_table_mutation list \<Rightarrow> prepared_batch list etl_result" where
  "prepare_mutation_table_batches dc rts t ms = mutation_batches_loop dc rts t [] ms"

definition prepare_copy_table_batch ::
    "duck_codec \<Rightarrow> replicated_table_schema \<Rightarrow> string \<Rightarrow> table_row list \<Rightarrow> prepared_batch etl_result" where
  "prepare_copy_table_batch dc rts t rows =
     res_bind (build_copy_batch_identity dc t rts rows) (\<lambda>i.
       Inr (prepared_of i t CopyBatch None None (BatchMutations [PUpsert (prepare_rows dc rows)])))"

definition prepare_truncate_table_batch :: "string \<Rightarrow> tracked_truncate_event list \<Rightarrow> prepared_batch" where
  "prepare_truncate_table_batch t ts =
     prepared_of (build_truncate_batch_identity t ts) t TruncateBatch
       (map_option truncate_key (opt_hd ts)) (map_option truncate_key (opt_last ts)) BatchTruncate"

end
