(* ===== verification/Destination_Retry.thy ===== *)
theory Destination_Retry
  imports Etl_Error
begin

text \<open>
  The retry helper of the destinations, \<open>etl-destinations/src/retry.rs\<close>. A duration is a
  number of nanoseconds up to \<open>Duration::MAX\<close>. The operation, the classification of its errors
  and the shaping of the delays are the caller's: \<open>attempt i\<close> is the \<open>i\<close>-th attempt with its
  effect on the state, \<open>shape i\<close> the \<open>i\<close>-th call of the delay function. The retry records
  handed to the caller's callback are returned as a list.
\<close>

type_synonym duration = nat

definition duration_max :: duration where
  "duration_max = (2 ^ 64 - 1) * 10 ^ 9 + 999999999"

record backoff_policy =
  pol_max_retries :: "32 word"
  pol_initial_delay :: duration
  pol_max_delay :: duration

datatype retry_decision = Retry | Stop

record 'e retry_attempt =
  ra_retry_index :: "32 word"
  ra_max_retries :: "32 word"
  ra_base_delay :: duration
  ra_sleep_delay :: duration
  ra_error :: 'e

record 'e retry_failure =
  rf_total_attempts :: "32 word"
  rf_last_error :: 'e

definition next_base_delay :: "backoff_policy \<Rightarrow> duration \<Rightarrow> duration" where
  "next_base_delay policy base = min (if base * 2 \<le> duration_max then base * 2 else duration_max) (pol_max_delay policy)"

fun retry_loop ::
    "backoff_policy \<Rightarrow> ('e \<Rightarrow> retry_decision) \<Rightarrow> (nat \<Rightarrow> duration \<Rightarrow> duration) \<Rightarrow> (nat \<Rightarrow> 's \<Rightarrow> ('e, 'a) result \<times> 's)
     \<Rightarrow> nat \<Rightarrow> nat \<Rightarrow> 32 word \<Rightarrow> duration \<Rightarrow> 's
     \<Rightarrow> (('e retry_failure, 'a) result \<times> 'e retry_attempt list \<times> 's) option" where
  "retry_loop policy classify shape attempt 0 i tried base s = None"
| "retry_loop policy classify shape attempt (Suc fuel) i tried base s =
     (let tried' = saturating_add tried 1 in
      case attempt i s of
        (Inr v, s') \<Rightarrow> Some (Inr v, [], s')
      | (Inl e, s') \<Rightarrow>
          if pol_max_retries policy < tried' \<or> classify e = Stop
          then Some (Inl \<lparr> rf_total_attempts = tried', rf_last_error = e \<rparr>, [], s')
          else map_option (\<lambda>(r, retries, s''). (r,
                 \<lparr> ra_retry_index = tried', ra_max_retries = pol_max_retries policy, ra_base_delay = base,
                   ra_sleep_delay = shape i base, ra_error = e \<rparr> # retries, s''))
               (retry_loop policy classify shape attempt fuel (Suc i) tried' (next_base_delay policy base) s'))"

definition retry_with_backoff ::
    "backoff_policy \<Rightarrow> ('e \<Rightarrow> retry_decision) \<Rightarrow> (nat \<Rightarrow> duration \<Rightarrow> duration) \<Rightarrow> (nat \<Rightarrow> 's \<Rightarrow> ('e, 'a) result \<times> 's)
     \<Rightarrow> nat \<Rightarrow> 's \<Rightarrow> (('e retry_failure, 'a) result \<times> 'e retry_attempt list \<times> 's) option" where
  "retry_with_backoff policy classify shape attempt fuel s =
     retry_loop policy classify shape attempt fuel 0 0 (min (pol_initial_delay policy) (pol_max_delay policy)) s"

section \<open>The loop ends\<close>

text \<open>\<open>backoff policy k\<close> is the delay before retry \<open>k + 1\<close>: doubled each time and capped.\<close>

definition backoff :: "backoff_policy \<Rightarrow> nat \<Rightarrow> duration" where
  "backoff policy k = min (pol_initial_delay policy * 2 ^ k) (pol_max_delay policy)"

lemma next_base_delay_backoff:
  assumes "pol_max_delay policy \<le> duration_max"
  shows "next_base_delay policy (backoff policy k) = backoff policy (Suc k)"
  using assms by (auto simp: next_base_delay_def backoff_def min_def algebra_simps)

lemma saturating_count:
  assumes "unat (n :: 32 word) \<le> unat (m :: 32 word)" "m \<noteq> - 1"
  shows "unat (saturating_add n 1) = Suc (unat n)"
proof -
  have "m < - 1" using assms(2) by (simp add: order.not_eq_order_implies_strict)
  then have "unat m < 2 ^ 32 - 1" by (simp add: word_less_nat_alt unsigned_minus_1_eq_mask mask_eq_exp_minus_1)
  then show ?thesis using assms(1) by (simp add: unat_saturating_add)
qed

text \<open>
  What a finished loop has done, started as attempt \<open>i\<close> with \<open>tried\<close> attempts behind it: its
  retries are numbered and carry the backoff delays, and its result is the one of the attempt
  after the last note.
\<close>

definition retried ::
    "backoff_policy \<Rightarrow> (nat \<Rightarrow> 's \<Rightarrow> ('e, 'a) result \<times> 's) \<Rightarrow> nat
     \<Rightarrow> ('e retry_failure, 'a) result \<times> 'e retry_attempt list \<times> 's \<Rightarrow> bool" where
  "retried policy attempt i = (\<lambda>(r, retries, s').
     length retries + i \<le> unat (pol_max_retries policy) \<and>
     (\<forall>k < length retries. ra_base_delay (retries ! k) = backoff policy (i + k) \<and>
        unat (ra_retry_index (retries ! k)) = Suc (i + k)) \<and>
     (\<exists>x. attempt (i + length retries) x = (case r of Inl f \<Rightarrow> Inl (rf_last_error f) | Inr v \<Rightarrow> Inr v, s')) \<and>
     (\<forall>f. r = Inl f \<longrightarrow> unat (rf_total_attempts f) = Suc (i + length retries)))"

lemma retried_note:
  assumes "retried policy attempt (Suc i) (r, retries, s')" "ra_base_delay a = backoff policy i" "unat (ra_retry_index a) = Suc i"
  shows "retried policy attempt i (r, a # retries, s')"
  using assms by (auto simp: retried_def nth_Cons split: nat.splits)

lemma retry_loop_ends:
  assumes "unat (pol_max_retries policy) < unat tried + fuel" "unat tried \<le> unat (pol_max_retries policy)"
    "pol_max_retries policy \<noteq> - 1" "pol_max_delay policy \<le> duration_max"
  shows "\<exists>x. retry_loop policy classify shape attempt fuel (unat tried) tried (backoff policy (unat tried)) s = Some x \<and>
     retried policy attempt (unat tried) x"
  using assms(1,2)
proof (induction fuel arbitrary: tried s)
  case (Suc fuel)
  obtain r s' where run: "attempt (unat tried) s = (r, s')" by fastforce
  have count: "unat (saturating_add tried 1) = Suc (unat tried)" by (rule saturating_count [OF Suc.prems(2) assms(3)])
  show ?case
  proof (cases r)
    case (Inr v)
    then show ?thesis using run Suc.prems(2) by (auto simp: retried_def Let_def)
  next
    case (Inl e)
    note failed = this
    show ?thesis
    proof (cases "pol_max_retries policy < saturating_add tried 1 \<or> classify e = Stop")
      case True
      then show ?thesis using run failed count Suc.prems(2) by (auto simp: retried_def Let_def)
    next
      case False
      then have "\<exists>x. retry_loop policy classify shape attempt fuel (Suc (unat tried)) (saturating_add tried 1)
          (next_base_delay policy (backoff policy (unat tried))) s' = Some x \<and> retried policy attempt (Suc (unat tried)) x"
        using Suc.IH [of "saturating_add tried 1" s'] Suc.prems(1) count
        by (simp add: next_base_delay_backoff [OF assms(4)] word_less_nat_alt not_less)
      then show ?thesis using False run failed count by (auto simp: Let_def intro!: retried_note)
    qed
  qed
qed auto

text \<open>What every attempt keeps, the loop keeps; and what a successful attempt establishes holds after a successful loop.\<close>

lemma retry_loop_invariant:
  assumes "\<And>i s r s'. I s \<Longrightarrow> attempt i s = (r, s') \<Longrightarrow> I s' \<and> (is_ok r \<longrightarrow> Q s')" "I s"
    and "retry_loop policy classify shape attempt fuel i tried base s = Some (r, retries, s')"
  shows "I s' \<and> (is_ok r \<longrightarrow> Q s')"
  using assms(2,3)
proof (induction fuel arbitrary: i tried base s retries)
  case (Suc fuel)
  obtain r1 s1 where run: "attempt i s = (r1, s1)" by fastforce
  note step = assms(1) [OF Suc.prems(1) run]
  show ?case
    using Suc.prems(2) run step Suc.IH [of s1] by (cases r1) (auto simp: Let_def is_ok_def split: if_splits)
qed simp

text \<open>
  C40. The retry helper of the destinations ends. Unless the number of retries is the largest
  machine number, it makes at most one attempt more than that number, the delay before each
  retry is the initial delay doubled each time and capped, and its result is the one of its last
  attempt.
\<close>

theorem retry_with_backoff_ends:
  assumes "pol_max_retries policy \<noteq> - 1" "pol_max_delay policy \<le> duration_max"
  shows "\<exists>x. retry_with_backoff policy classify shape attempt (Suc (unat (pol_max_retries policy))) s = Some x \<and>
     retried policy attempt 0 x"
  using retry_loop_ends [of policy 0 "Suc (unat (pol_max_retries policy))"] assms by (simp add: retry_with_backoff_def backoff_def del: retry_loop.simps)

theorem retry_with_backoff_ends_witness:
  "\<exists>x. retry_with_backoff \<lparr> pol_max_retries = 3, pol_initial_delay = 5, pol_max_delay = 8 \<rparr> (\<lambda>_. Retry) (\<lambda>_ d. d)
      (\<lambda>i s. if i < 2 then (Inl ''busy'', s) else (Inr i, s)) 4 () = Some x \<and>
     map ra_base_delay (fst (snd x)) = [5, 8] \<and> fst x = Inr 2"
proof -
  let ?policy = "\<lparr> pol_max_retries = 3, pol_initial_delay = 5, pol_max_delay = 8 \<rparr>"
  let ?attempt = "\<lambda>i s. if i < (2::nat) then (Inl ''busy'', s :: unit) else (Inr i, s)"
  have "\<exists>x. retry_with_backoff ?policy (\<lambda>_. Retry) (\<lambda>_ d. d) ?attempt (Suc (unat (pol_max_retries ?policy))) () = Some x \<and>
      retried ?policy ?attempt 0 x"
    by (rule retry_with_backoff_ends) (simp_all add: duration_max_def)
  then obtain x where x: "retry_with_backoff ?policy (\<lambda>_. Retry) (\<lambda>_ d. d) ?attempt 4 () = Some x"
    by auto
  moreover have "retry_with_backoff ?policy (\<lambda>_. Retry) (\<lambda>_ d. d) ?attempt (Suc (Suc (Suc (Suc 0)))) () =
      Some (Inr 2, [\<lparr> ra_retry_index = 1, ra_max_retries = 3, ra_base_delay = 5, ra_sleep_delay = 5, ra_error = ''busy'' \<rparr>,
        \<lparr> ra_retry_index = 2, ra_max_retries = 3, ra_base_delay = 8, ra_sleep_delay = 8, ra_error = ''busy'' \<rparr>], ())"
    by (simp add: retry_with_backoff_def Let_def saturating_add_def next_base_delay_def duration_max_def)
  moreover have "Suc (Suc (Suc (Suc 0))) = 4" by simp
  ultimately show ?thesis by auto
qed

end
