(* ===== verification/Ducklake_Apply.thy ===== *)
theory Ducklake_Apply
  imports Ducklake_Batches Destination_Retry Effects
begin

text \<open>
  Execution of the table batches of the DuckLake destination, second half of
  \<open>etl-destinations/src/ducklake/batches.rs\<close>: one transaction per batch, a marker for each
  applied copy batch, a watermark for the streamed batches of a table, and the retries.

  The database is the committed data and, on the connection, the data of an open transaction.
  A statement has its effect or fails without one; a commit may also fail after it took
  effect. Which statements fail is a script of faults that each attempt is given, together with
  the connection it gets from the pool.
\<close>

section \<open>The database\<close>

record applied_marker =
  am_table :: string
  am_batch_id :: string
  am_kind :: batch_kind
  am_first_start :: "lsn option"
  am_last_commit :: "lsn option"

record table_streaming_progress =
  sp_table :: string
  sp_commit :: lsn
  sp_ordinal :: "64 word"

record lake_data =
  lk_tables :: "string \<Rightarrow> duck_rows option"
  lk_markers :: "applied_marker list"
  lk_progress :: "table_streaming_progress list"

datatype fault = Succeeds | Breaks | Breaks_late

record lake =
  lk_data :: lake_data
  lk_tx :: "lake_data option"
  lk_staging :: "duck_rows option"
  lk_faults :: "fault list"

definition query_failed :: "string \<Rightarrow> etl_error" where
  "query_failed d = etl_err DestinationQueryFailed d"

definition next_fault :: "lake \<Rightarrow> fault \<times> lake" where
  "next_fault s = (case lk_faults s of [] \<Rightarrow> (Succeeds, s) | f # fs \<Rightarrow> (f, s \<lparr> lk_faults := fs \<rparr>))"

definition lake_view :: "lake \<Rightarrow> lake_data" where
  "lake_view s = (case lk_tx s of None \<Rightarrow> lk_data s | Some d \<Rightarrow> d)"

definition set_view :: "lake_data \<Rightarrow> lake \<Rightarrow> lake" where
  "set_view d s = (case lk_tx s of None \<Rightarrow> s \<lparr> lk_data := d \<rparr> | Some _ \<Rightarrow> s \<lparr> lk_tx := Some d \<rparr>)"

text \<open>A statement that changes the database, \<open>None\<close> when the database rejects it.\<close>

definition lake_exec :: "string \<Rightarrow> (lake_data \<Rightarrow> lake_data option) \<Rightarrow> (lake, unit) action" where
  "lake_exec d f s = (case next_fault s of (fault, s') \<Rightarrow>
     if fault \<noteq> Succeeds then (Inl (Failed (query_failed d)), s')
     else case f (lake_view s') of
         None \<Rightarrow> (Inl (Failed (query_failed d)), s')
       | Some x \<Rightarrow> (Inr (), set_view x s'))"

definition lake_query :: "string \<Rightarrow> (lake_data \<Rightarrow> 'a) \<Rightarrow> (lake, 'a) action" where
  "lake_query d g s = (case next_fault s of (fault, s') \<Rightarrow>
     if fault \<noteq> Succeeds then (Inl (Failed (query_failed d)), s') else (Inr (g (lake_view s')), s'))"

definition staging_exec :: "string \<Rightarrow> (duck_rows option \<Rightarrow> duck_rows option) \<Rightarrow> (lake, unit) action" where
  "staging_exec d f s = (case next_fault s of (fault, s') \<Rightarrow>
     if fault \<noteq> Succeeds then (Inl (Failed (query_failed d)), s') else (Inr (), s' \<lparr> lk_staging := f (lk_staging s') \<rparr>))"

definition lake_begin :: "(lake, unit) action" where
  "lake_begin s = (case next_fault s of (fault, s') \<Rightarrow>
     if fault \<noteq> Succeeds \<or> lk_tx s' \<noteq> None then (Inl (Failed (query_failed ''DuckLake BEGIN TRANSACTION failed'')), s')
     else (Inr (), s' \<lparr> lk_tx := Some (lk_data s') \<rparr>))"

definition lake_commit :: "(lake, unit) action" where
  "lake_commit s = (case next_fault s of (fault, s') \<Rightarrow>
     let done' = s' \<lparr> lk_data := lake_view s', lk_tx := None \<rparr> in
     case fault of
       Succeeds \<Rightarrow> (Inr (), done')
     | Breaks \<Rightarrow> (Inl (Failed (query_failed ''DuckLake COMMIT failed'')), s' \<lparr> lk_tx := None \<rparr>)
     | Breaks_late \<Rightarrow> (Inl (Failed (query_failed ''DuckLake COMMIT failed'')), done'))"

definition lake_rollback :: "(lake, unit) action" where
  "lake_rollback s = (case next_fault s of (fault, s') \<Rightarrow>
     if fault \<noteq> Succeeds then (Inl (Failed (query_failed ''DuckLake ROLLBACK failed'')), s')
     else (Inr (), s' \<lparr> lk_tx := None \<rparr>))"

text \<open>A call whose error is only logged.\<close>

definition ignore_result :: "('s, unit) action \<Rightarrow> ('s, unit) action" where
  "ignore_result m s = (Inr (), snd (m s))"

section \<open>Markers and the watermark\<close>

definition applied_batch_marker_exists :: "prepared_batch \<Rightarrow> (lake, bool) action" where
  "applied_batch_marker_exists b = lake_query ''DuckLake marker query failed''
     (\<lambda>d. list_ex (\<lambda>m. am_table m = pb_table b \<and> am_batch_id m = bi_batch_id b) (lk_markers d))"

definition insert_applied_batch_marker :: "prepared_batch \<Rightarrow> (lake, unit) action" where
  "insert_applied_batch_marker b = lake_exec ''DuckLake batch marker insert failed''
     (\<lambda>d. Some (d \<lparr> lk_markers := lk_markers d @ [\<lparr> am_table = pb_table b, am_batch_id = bi_batch_id b, am_kind = pb_kind b,
        am_first_start = bi_first_start b, am_last_commit = bi_last_commit b \<rparr>] \<rparr>))"

definition clear_applied_batch_markers_for_kind :: "string \<Rightarrow> batch_kind \<Rightarrow> (lake, unit) action" where
  "clear_applied_batch_markers_for_kind t k = lake_exec ''DuckLake batch marker delete failed''
     (\<lambda>d. Some (d \<lparr> lk_markers := filter (\<lambda>m. \<not> (am_table m = t \<and> am_kind m = k)) (lk_markers d) \<rparr>))"

definition delete_progress :: "string \<Rightarrow> lake_data \<Rightarrow> lake_data" where
  "delete_progress t d = d \<lparr> lk_progress := filter (\<lambda>r. sp_table r \<noteq> t) (lk_progress d) \<rparr>"

definition clear_table_streaming_progress :: "string \<Rightarrow> (lake, unit) action" where
  "clear_table_streaming_progress t = lake_exec ''DuckLake streaming progress delete failed'' (\<lambda>d. Some (delete_progress t d))"

definition progress_of :: "string \<Rightarrow> lake_data \<Rightarrow> event_sequence_key option" where
  "progress_of t d = map_option (\<lambda>r. \<lparr> sk_commit = sp_commit r, sk_ordinal = sp_ordinal r \<rparr>)
     (List.find (\<lambda>r. sp_table r = t) (lk_progress d))"

definition read_table_streaming_progress :: "string \<Rightarrow> (lake, event_sequence_key option) action" where
  "read_table_streaming_progress t = lake_query ''DuckLake streaming progress query failed'' (progress_of t)"

text \<open>Two statements of one batch: the first keeps its effect in the transaction if the second fails.\<close>

definition update_table_streaming_progress :: "prepared_batch \<Rightarrow> (lake, unit) action" where
  "update_table_streaming_progress b = (case pb_last_key b of
       None \<Rightarrow> act_fail (invalid_state ''DuckLake streaming batch is missing its last sequence key'')
     | Some k \<Rightarrow>
         act_bind (lake_exec ''DuckLake streaming progress update failed'' (\<lambda>d. Some (delete_progress (pb_table b) d))) (\<lambda>_.
         lake_exec ''DuckLake streaming progress update failed''
           (\<lambda>d. Some (d \<lparr> lk_progress := lk_progress d @ [\<lparr> sp_table = pb_table b, sp_commit = sk_commit k, sp_ordinal = sk_ordinal k \<rparr>] \<rparr>))))"

section \<open>Replay decisions\<close>

datatype key_order = KeyLess | KeyEqual | KeyGreater

definition compare_sequence_keys :: "event_sequence_key \<Rightarrow> event_sequence_key \<Rightarrow> key_order" where
  "compare_sequence_keys a b =
     (if sk_commit a < sk_commit b \<or> sk_commit a = sk_commit b \<and> sk_ordinal a < sk_ordinal b then KeyLess
      else if sk_commit a = sk_commit b \<and> sk_ordinal a = sk_ordinal b then KeyEqual else KeyGreater)"

definition retain_mutations_after_sequence_key ::
    "event_sequence_key option \<Rightarrow> tracked_table_mutation list \<Rightarrow> tracked_table_mutation list" where
  "retain_mutations_after_sequence_key last_key ms = (case last_key of
       None \<Rightarrow> ms | Some k \<Rightarrow> filter (\<lambda>m. compare_sequence_keys (mutation_key m) k = KeyGreater) ms)"

definition retain_truncates_after_sequence_key ::
    "event_sequence_key option \<Rightarrow> tracked_truncate_event list \<Rightarrow> tracked_truncate_event list" where
  "retain_truncates_after_sequence_key last_key ts = (case last_key of
       None \<Rightarrow> ts | Some k \<Rightarrow> filter (\<lambda>t. compare_sequence_keys (truncate_key t) k = KeyGreater) ts)"

datatype replay_decision = ReplaySkip | ReplayApply

definition streaming_replay_decision :: "event_sequence_key \<Rightarrow> prepared_batch \<Rightarrow> replay_decision etl_result" where
  "streaming_replay_decision progress b =
     res_bind (ok_or (invalid_state ''DuckLake streaming batch is missing its first sequence key'') (pb_first_key b)) (\<lambda>first_key.
     res_bind (ok_or (invalid_state ''DuckLake streaming batch is missing its last sequence key'') (pb_last_key b)) (\<lambda>last_key.
       if compare_sequence_keys progress first_key \<noteq> KeyLess
       then (if compare_sequence_keys progress last_key = KeyLess
             then Inl (invalid_state ''DuckLake streaming progress landed inside an atomic batch'')
             else Inr ReplaySkip)
       else Inr ReplayApply))"

section \<open>Application of a batch\<close>

definition change_table :: "string \<Rightarrow> (duck_rows \<Rightarrow> duck_rows) \<Rightarrow> lake_data \<Rightarrow> lake_data option" where
  "change_table t f d = map_option (\<lambda>rows. d \<lparr> lk_tables := (lk_tables d)(t \<mapsto> f rows) \<rparr>) (lk_tables d t)"

definition load_rows :: "duck_sql \<Rightarrow> string \<Rightarrow> prepared_rows \<Rightarrow> (lake, unit) action" where
  "load_rows sq t rs = (case rs of
       Appender vs \<Rightarrow>
         act_bind (staging_exec ''DuckLake staging appender creation failed'' id) (\<lambda>_.
         act_bind (act_each (\<lambda>v. staging_exec ''DuckLake staging append_row failed'' (map_option (\<lambda>x. x @ [dq_cast sq t v]))) vs) (\<lambda>_.
         staging_exec ''DuckLake staging appender flush failed'' id))
     | SqlLiterals ls \<Rightarrow>
         act_each (\<lambda>c. staging_exec ''DuckLake staging row insert failed'' (map_option (\<lambda>x. x @ map (dq_row sq t) c)))
           (chunks sql_insert_batch_size ls))"

text \<open>The staging table is created on its first use and emptied before each further one.\<close>

definition stage_and_insert :: "duck_sql \<Rightarrow> string \<Rightarrow> prepared_rows \<Rightarrow> (lake, unit) action" where
  "stage_and_insert sq t rs =
     act_bind (act_get lk_staging) (\<lambda>created.
     act_bind (if created \<noteq> None then staging_exec ''DuckLake staging table clear failed'' (\<lambda>_. Some [])
               else staging_exec ''DuckLake staging table creation failed'' (\<lambda>_. Some [])) (\<lambda>_.
     act_bind (load_rows sq t rs) (\<lambda>_.
     act_bind (act_get lk_staging) (\<lambda>staged.
     lake_exec ''DuckLake INSERT SELECT failed'' (change_table t (\<lambda>rows. rows @ (case staged of None \<Rightarrow> [] | Some x \<Rightarrow> x)))))))"

definition prepared_rows_count :: "prepared_rows \<Rightarrow> nat" where
  "prepared_rows_count rs = (case rs of Appender vs \<Rightarrow> length vs | SqlLiterals ls \<Rightarrow> length ls)"

definition apply_delete_mutation :: "duck_sql \<Rightarrow> string \<Rightarrow> string list \<Rightarrow> (lake, unit) action" where
  "apply_delete_mutation sq t ps =
     (if ps = [] then act_return ()
      else act_each (\<lambda>c. lake_exec ''DuckLake DELETE failed'' (change_table t (delete_where sq t (or_clause c))))
        (chunks sql_delete_batch_size ps))"

fun apply_table_mutation :: "duck_sql \<Rightarrow> string \<Rightarrow> prepared_table_mutation \<Rightarrow> (lake, unit) action" where
  "apply_table_mutation sq t (PUpsert rs) = (if prepared_rows_count rs = 0 then act_return () else stage_and_insert sq t rs)"
| "apply_table_mutation sq t (PDelete ps origin) = apply_delete_mutation sq t ps"
| "apply_table_mutation sq t (PUpdate as p) =
     (if as = [] then act_return () else lake_exec ''DuckLake UPDATE failed'' (change_table t (update_where sq t as p)))"

definition uses_streaming_progress :: "prepared_batch \<Rightarrow> bool" where
  "uses_streaming_progress b \<longleftrightarrow> pb_kind b = MutationBatch \<or> pb_kind b = TruncateBatch"

definition batch_body :: "duck_sql \<Rightarrow> prepared_batch \<Rightarrow> (lake, unit) action" where
  "batch_body sq b =
     act_bind (case pb_action b of
         BatchMutations ps \<Rightarrow> act_each (apply_table_mutation sq (pb_table b)) ps
       | BatchTruncate \<Rightarrow> lake_exec ''DuckLake TRUNCATE TABLE failed'' (change_table (pb_table b) (\<lambda>_. []))) (\<lambda>_.
     if uses_streaming_progress b then update_table_streaming_progress b else insert_applied_batch_marker b)"

definition staging_cleanup :: "(lake, unit) action" where
  "staging_cleanup = act_bind (act_get lk_staging) (\<lambda>created.
     if created = None then act_return () else ignore_result (staging_exec ''DROP TABLE failed'' (\<lambda>_. None)))"

definition apply_table_batch :: "duck_sql \<Rightarrow> prepared_batch \<Rightarrow> (lake, unit) action" where
  "apply_table_batch sq b =
     act_bind lake_begin (\<lambda>_.
     act_bind (act_modify (\<lambda>s. s \<lparr> lk_staging := None \<rparr>)) (\<lambda>_ s.
       case batch_body sq b s of
         (Inr _, s') \<Rightarrow> (case lake_commit s' of (r, s'') \<Rightarrow> act_bind staging_cleanup (\<lambda>_ s3. (r, s3)) s'')
       | (Inl e, s') \<Rightarrow> act_bind (ignore_result lake_rollback) (\<lambda>_. act_bind staging_cleanup (\<lambda>_ s3. (Inl e, s3))) s'))"

section \<open>Application of the batches of a table\<close>

text \<open>An error of a batch is wrapped; the watermark is carried from batch to batch.\<close>

definition wrap_error :: "('s, 'a) action \<Rightarrow> ('s, 'a) action" where
  "wrap_error m s = (case m s of
       (Inl (Failed e), s') \<Rightarrow> (Inl (Failed (query_failed ''DuckLake atomic table batch failed'')), s') | x \<Rightarrow> x)"

fun batches_loop :: "duck_sql \<Rightarrow> event_sequence_key option \<Rightarrow> prepared_batch list \<Rightarrow> (lake, unit) action" where
  "batches_loop sq progress [] = act_return ()"
| "batches_loop sq progress (b # bs) =
     (if \<not> uses_streaming_progress b then
        act_bind (applied_batch_marker_exists b) (\<lambda>exists.
          if exists then batches_loop sq progress bs
          else act_bind (wrap_error (apply_table_batch sq b)) (\<lambda>_. batches_loop sq progress bs))
      else
        act_bind (act_try (case progress of None \<Rightarrow> Inr ReplayApply | Some k \<Rightarrow> streaming_replay_decision k b)) (\<lambda>decision.
          if decision = ReplaySkip then batches_loop sq progress bs
          else act_bind (wrap_error (apply_table_batch sq b)) (\<lambda>_. batches_loop sq (pb_last_key b) bs)))"

definition apply_table_batches :: "duck_sql \<Rightarrow> prepared_batch list \<Rightarrow> (lake, unit) action" where
  "apply_table_batches sq bs = (case bs of
       [] \<Rightarrow> act_return ()
     | b # _ \<Rightarrow> act_bind (if uses_streaming_progress b then read_table_streaming_progress (pb_table b) else act_return None)
         (\<lambda>progress. batches_loop sq progress bs))"

section \<open>Retries\<close>

text \<open>
  What an attempt meets: the connection it gets from the pool, the one of the attempt before
  or another one, or none in time, and the script of its statements.
\<close>

datatype checkout = SameConnection | OtherConnection | NoConnection

record attempt_env =
  ae_checkout :: checkout
  ae_faults :: "fault list"

definition run_duckdb_blocking :: "attempt_env \<Rightarrow> (lake, 'a) action \<Rightarrow> (lake, 'a) action" where
  "run_duckdb_blocking env operation s = (case ae_checkout env of
       NoConnection \<Rightarrow> (Inl (Failed (query_failed ''DuckLake blocking operation timed out'')), s)
     | SameConnection \<Rightarrow> operation (s \<lparr> lk_faults := ae_faults env \<rparr>)
     | OtherConnection \<Rightarrow> operation (s \<lparr> lk_faults := ae_faults env, lk_tx := None \<rparr>))"

definition commit_policy :: "duration \<Rightarrow> backoff_policy" where
  "commit_policy max_delay = \<lparr> pol_max_retries = 10, pol_initial_delay = 50000000, pol_max_delay = max_delay \<rparr>"

definition retried_write ::
    "string \<Rightarrow> backoff_policy \<Rightarrow> (nat \<Rightarrow> duration \<Rightarrow> duration) \<Rightarrow> (nat \<Rightarrow> (lake, unit) action) \<Rightarrow> (lake, unit) action" where
  "retried_write d policy jitter attempt s =
     (case retry_with_backoff policy (\<lambda>_. Retry) jitter attempt (Suc (unat (pol_max_retries policy))) s of
        None \<Rightarrow> (Inl Blocked, s)
      | Some (Inr _, _, s') \<Rightarrow> (Inr (), s')
      | Some (Inl failure, _, s') \<Rightarrow> (Inl (Failed (etl_err DestinationAtomicBatchRetryable d)), s'))"

definition apply_table_batches_with_retry ::
    "duck_sql \<Rightarrow> (nat \<Rightarrow> duration \<Rightarrow> duration) \<Rightarrow> (nat \<Rightarrow> attempt_env) \<Rightarrow> prepared_batch list \<Rightarrow> (lake, unit) action" where
  "apply_table_batches_with_retry sq jitter envs bs =
     (if bs = [] then act_return ()
      else retried_write ''DuckLake atomic table batch sequence failed after retries'' (commit_policy 2000000000) jitter
        (\<lambda>i. run_duckdb_blocking (envs i) (apply_table_batches sq bs)))"

definition apply_table_batch_with_retry ::
    "duck_sql \<Rightarrow> (nat \<Rightarrow> duration \<Rightarrow> duration) \<Rightarrow> (nat \<Rightarrow> attempt_env) \<Rightarrow> prepared_batch \<Rightarrow> (lake, unit) action" where
  "apply_table_batch_with_retry sq jitter envs b =
     retried_write ''DuckLake atomic table batch failed after retries'' (commit_policy 5000000000) jitter
       (\<lambda>i. run_duckdb_blocking (envs i)
          (if pb_kind b = CopyBatch
           then act_bind (applied_batch_marker_exists b) (\<lambda>exists. if exists then act_return () else apply_table_batch sq b)
           else apply_table_batches sq [b]))"

section \<open>What a transaction leaves\<close>

lemma next_fault_keeps:
  assumes "next_fault s = (f, s')"
  shows "lk_data s' = lk_data s \<and> lk_tx s' = lk_tx s \<and> lk_staging s' = lk_staging s"
  using assms by (auto simp: next_fault_def split: list.splits)

text \<open>A connection with an open transaction, over the committed data \<open>d\<close>.\<close>

definition tx_at :: "lake_data \<Rightarrow> lake_data \<Rightarrow> lake \<Rightarrow> bool" where
  "tx_at d x s \<longleftrightarrow> lk_data s = d \<and> lk_tx s = Some x"

lemma lake_exec_tx: "hoare (tx_at d x) (lake_exec e f) (\<lambda>_ s. \<exists>y. f x = Some y \<and> tx_at d y s) (tx_at d x)"
  by (auto simp: hoare_def lake_exec_def tx_at_def set_view_def lake_view_def split: prod.splits if_splits option.splits
      dest!: next_fault_keeps)

lemma staging_exec_tx:
  "hoare (\<lambda>s. tx_at d x s \<and> lk_staging s = g) (staging_exec e f) (\<lambda>_ s. tx_at d x s \<and> lk_staging s = f g) (tx_at d x)"
  by (auto simp: hoare_def staging_exec_def tx_at_def split: prod.splits if_splits dest!: next_fault_keeps)

lemma hoare_each_fold:
  assumes "\<And>x y. hoare (P y) (f x) (\<lambda>_. P (g x y)) E"
  shows "hoare (P y) (act_each f xs) (\<lambda>_. P (fold g xs y)) E"
  by (induction xs arbitrary: y) (auto intro!: hoare_return hoare_bind [OF assms])

definition with_rows :: "string \<Rightarrow> lake_data \<Rightarrow> duck_rows \<Rightarrow> lake_data" where
  "with_rows t d rows = d \<lparr> lk_tables := (lk_tables d)(t \<mapsto> rows) \<rparr>"

lemma with_rows_simps [simp]:
  "lk_tables (with_rows t d rows) t = Some rows" "with_rows t (with_rows t d rows) rows' = with_rows t d rows'"
  "progress_of u (with_rows t d rows) = progress_of u d" "lk_markers (with_rows t d rows) = lk_markers d"
  "lk_tables d t = Some rows \<Longrightarrow> with_rows t d rows = d"
  by (auto simp: with_rows_def progress_of_def fun_upd_idem)

lemma change_table_with_rows [simp]: "change_table t f (with_rows t d rows) = Some (with_rows t d (f rows))"
  by (simp add: change_table_def) (simp add: with_rows_def)

abbreviation rows_at :: "string \<Rightarrow> lake_data \<Rightarrow> lake_data \<Rightarrow> duck_rows \<Rightarrow> lake \<Rightarrow> bool" where
  "rows_at t d x rows \<equiv> tx_at d (with_rows t x rows)"

definition rows_broken :: "string \<Rightarrow> lake_data \<Rightarrow> lake_data \<Rightarrow> lake \<Rightarrow> bool" where
  "rows_broken t d x s \<longleftrightarrow> (\<exists>rows. rows_at t d x rows s)"

lemma rows_brokenI: "rows_at t d x rows s \<Longrightarrow> rows_broken t d x s"
  by (auto simp: rows_broken_def)

lemma change_table_tx:
  "hoare (rows_at t d x rows) (lake_exec e (change_table t f)) (\<lambda>_. rows_at t d x (f rows)) (rows_broken t d x)"
  by (rule hoare_weaken [OF lake_exec_tx [of d "with_rows t x rows"]]) (auto intro: rows_brokenI)

lemma load_rows_tx:
  "hoare (\<lambda>s. tx_at d x s \<and> lk_staging s = Some []) (load_rows sq t rs)
     (\<lambda>_ s. tx_at d x s \<and> lk_staging s = Some (staged_rows sq t rs)) (tx_at d x)"
proof -
  let ?P = "\<lambda>st s. tx_at d x s \<and> lk_staging s = Some st"
  have add: "hoare (?P st) (staging_exec e (map_option (\<lambda>y. y @ ys))) (\<lambda>_. ?P (st @ ys)) (tx_at d x)" for e ys st
    by (rule hoare_weaken [OF staging_exec_tx [of d x "Some st"]]) auto
  have same: "hoare (?P st) (staging_exec e id) (\<lambda>_. ?P st) (tx_at d x)" for e st
    by (rule hoare_weaken [OF staging_exec_tx [of d x "Some st"]]) auto
  show ?thesis
  proof (cases rs)
    case (Appender vs)
    have "fold (\<lambda>v st. st @ [dq_cast sq t v]) vs st = st @ map (dq_cast sq t) vs" for st by (induction vs arbitrary: st) auto
    then have "hoare (?P []) (act_each (\<lambda>v. staging_exec ''DuckLake staging append_row failed'' (map_option (\<lambda>x. x @ [dq_cast sq t v]))) vs)
        (\<lambda>_. ?P (map (dq_cast sq t) vs)) (tx_at d x)"
      using hoare_each_fold [of ?P "\<lambda>v. staging_exec ''DuckLake staging append_row failed'' (map_option (\<lambda>x. x @ [dq_cast sq t v]))"
          "\<lambda>v st. st @ [dq_cast sq t v]" "tx_at d x" "[]" vs] add by simp
    then show ?thesis using Appender by (auto simp: load_rows_def intro!: hoare_bind [OF same] hoare_bind [OF _ same])
  next
    case (SqlLiterals ls)
    have "fold (\<lambda>c st. st @ map (dq_row sq t) c) cs st = st @ map (dq_row sq t) (concat cs)" for cs st
      by (induction cs arbitrary: st) auto
    then show ?thesis
      using SqlLiterals hoare_each_fold [of ?P "\<lambda>c. staging_exec ''DuckLake staging row insert failed'' (map_option (\<lambda>x. x @ map (dq_row sq t) c))"
          "\<lambda>c st. st @ map (dq_row sq t) c" "tx_at d x" "[]" "chunks sql_insert_batch_size ls"] add
      by (simp add: load_rows_def concat_chunks sql_insert_batch_size_def)
  qed
qed

lemma stage_and_insert_tx:
  "hoare (rows_at t d x rows) (stage_and_insert sq t rs) (\<lambda>_. rows_at t d x (rows @ staged_rows sq t rs)) (rows_broken t d x)"
proof -
  let ?at = "rows_at t d x rows"
  have fresh: "hoare (\<lambda>s. ?at s \<and> lk_staging s = g) (staging_exec e (\<lambda>_. Some [])) (\<lambda>_ s. ?at s \<and> lk_staging s = Some []) ?at" for e g
    by (rule staging_exec_tx)
  have insert: "hoare (\<lambda>s. ?at s \<and> lk_staging s = Some (staged_rows sq t rs))
      (act_bind (act_get lk_staging) (\<lambda>staged. lake_exec e (change_table t (\<lambda>rows. rows @ (case staged of None \<Rightarrow> [] | Some x \<Rightarrow> x)))))
      (\<lambda>_. rows_at t d x (rows @ staged_rows sq t rs)) (rows_broken t d x)" for e
  proof (rule hoare_bind_get)
    fix staged
    show "hoare (\<lambda>s. (?at s \<and> lk_staging s = Some (staged_rows sq t rs)) \<and> lk_staging s = staged)
        (lake_exec e (change_table t (\<lambda>rows. rows @ (case staged of None \<Rightarrow> [] | Some x \<Rightarrow> x))))
        (\<lambda>_. rows_at t d x (rows @ staged_rows sq t rs)) (rows_broken t d x)"
    proof (cases "staged = Some (staged_rows sq t rs)")
      case True
      then show ?thesis by (intro hoare_weaken [OF change_table_tx [where t = t and d = d and x = x and rows = rows]]) auto
    qed (auto simp: hoare_def)
  qed
  have load: "hoare (\<lambda>s. ?at s \<and> lk_staging s = Some []) (load_rows sq t rs)
      (\<lambda>_ s. ?at s \<and> lk_staging s = Some (staged_rows sq t rs)) (rows_broken t d x)"
    by (rule hoare_weaken [OF load_rows_tx]) (auto intro: rows_brokenI)
  have clear: "hoare (\<lambda>s. ?at s \<and> lk_staging s = g) (if b then staging_exec e (\<lambda>_. Some []) else staging_exec e' (\<lambda>_. Some []))
      (\<lambda>_ s. ?at s \<and> lk_staging s = Some []) (rows_broken t d x)" for b e e' g
    by (cases b) (auto intro!: hoare_weaken [OF fresh [where g = g]] intro: rows_brokenI)
  show ?thesis unfolding stage_and_insert_def
    by (rule hoare_bind_get, rule hoare_bind [OF clear], rule hoare_bind [OF load], rule insert)
qed

lemma apply_table_mutation_tx:
  "hoare (rows_at t d x rows) (apply_table_mutation sq t p) (\<lambda>_. rows_at t d x (prepared_effect sq t p rows)) (rows_broken t d x)"
proof (cases p)
  case (PUpsert rs)
  have "staged_rows sq t rs = []" if "prepared_rows_count rs = 0" using that by (cases rs) (auto simp: prepared_rows_count_def)
  then show ?thesis using PUpsert stage_and_insert_tx by (auto intro: hoare_return)
next
  case (PDelete ps origin)
  have "hoare (rows_at t d x rows) (apply_delete_mutation sq t ps)
      (\<lambda>_. rows_at t d x (fold (\<lambda>c. delete_where sq t (or_clause c)) (chunks sql_delete_batch_size ps) rows)) (rows_broken t d x)"
    unfolding apply_delete_mutation_def
    by (auto intro!: hoare_each_fold [where P = "rows_at t d x"] change_table_tx hoare_return simp: chunks_Nil)
  then show ?thesis using PDelete by simp
next
  case (PUpdate as p)
  then show ?thesis by (auto intro!: hoare_return hoare_weaken [OF change_table_tx] simp: update_where_def)
qed

definition batch_effect :: "duck_sql \<Rightarrow> prepared_batch \<Rightarrow> duck_rows \<Rightarrow> duck_rows" where
  "batch_effect sq b rows = (case pb_action b of
       BatchMutations ps \<Rightarrow> fold (prepared_effect sq (pb_table b)) ps rows | BatchTruncate \<Rightarrow> [])"

lemma batch_action_tx:
  "hoare (rows_at (pb_table b) d x rows) (case pb_action b of
       BatchMutations ps \<Rightarrow> act_each (apply_table_mutation sq (pb_table b)) ps
     | BatchTruncate \<Rightarrow> lake_exec e (change_table (pb_table b) (\<lambda>_. [])))
     (\<lambda>_. rows_at (pb_table b) d x (batch_effect sq b rows)) (rows_broken (pb_table b) d x)"
proof (cases "pb_action b")
  case (BatchMutations ps)
  then show ?thesis
    using hoare_each_fold [of "rows_at (pb_table b) d x" "apply_table_mutation sq (pb_table b)" "prepared_effect sq (pb_table b)"
        "rows_broken (pb_table b) d x" rows ps] apply_table_mutation_tx by (simp add: batch_effect_def)
next
  case BatchTruncate
  then show ?thesis by (simp add: batch_effect_def) (rule hoare_weaken [OF change_table_tx], auto)
qed

definition with_progress :: "string \<Rightarrow> event_sequence_key \<Rightarrow> lake_data \<Rightarrow> lake_data" where
  "with_progress t k d = (let d' = delete_progress t d in
     d' \<lparr> lk_progress := lk_progress d' @ [\<lparr> sp_table = t, sp_commit = sk_commit k, sp_ordinal = sk_ordinal k \<rparr>] \<rparr>)"

lemma find_deleted: "List.find P (filter (\<lambda>x. \<not> P x) xs) = None"
  by (induction xs) auto

lemma find_other: "(\<And>x. P x \<Longrightarrow> Q x) \<Longrightarrow> List.find P (filter Q xs) = List.find P xs"
  by (induction xs) auto

lemma progress_of_delete: "progress_of t (delete_progress t d) = None" "u \<noteq> t \<Longrightarrow> progress_of u (delete_progress t d) = progress_of u d"
  by (simp add: progress_of_def delete_progress_def find_deleted) (simp add: progress_of_def delete_progress_def, subst find_other, auto)

lemma with_progress_simps [simp]:
  "progress_of t (with_progress t k d) = Some k" "u \<noteq> t \<Longrightarrow> progress_of u (with_progress t k d) = progress_of u d"
  "lk_tables (with_progress t k d) = lk_tables d" "lk_markers (with_progress t k d) = lk_markers d"
  using progress_of_delete(1) [of t d] progress_of_delete(2) [of u t d]
  by (auto simp: with_progress_def Let_def progress_of_def find_append delete_progress_def split: option.splits)

section \<open>One batch\<close>

text \<open>The committed data after a streamed batch, and after a copy batch.\<close>

definition batch_result :: "duck_sql \<Rightarrow> prepared_batch \<Rightarrow> duck_rows \<Rightarrow> lake_data \<Rightarrow> lake_data" where
  "batch_result sq b rows d = (let d' = with_rows (pb_table b) d (batch_effect sq b rows) in
     if uses_streaming_progress b then (case pb_last_key b of None \<Rightarrow> d' | Some k \<Rightarrow> with_progress (pb_table b) k d')
     else d' \<lparr> lk_markers := lk_markers d' @ [\<lparr> am_table = pb_table b, am_batch_id = bi_batch_id b, am_kind = pb_kind b,
        am_first_start = bi_first_start b, am_last_commit = bi_last_commit b \<rparr>] \<rparr>)"

text \<open>An open transaction whose watermark is missing or the one it began with.\<close>

definition tx_leftover :: "string \<Rightarrow> lake_data \<Rightarrow> lake \<Rightarrow> bool" where
  "tx_leftover t d s \<longleftrightarrow> lk_data s = d \<and> (\<exists>x. lk_tx s = Some x \<and> (progress_of t x = None \<or> progress_of t x = progress_of t d))"

lemma tx_leftoverI: "tx_at d x s \<Longrightarrow> progress_of t x = None \<or> progress_of t x = progress_of t d \<Longrightarrow> tx_leftover t d s"
  by (auto simp: tx_leftover_def tx_at_def)

lemma batch_body_tx:
  assumes "lk_tables d (pb_table b) = Some rows" "uses_streaming_progress b \<Longrightarrow> pb_last_key b \<noteq> None"
  shows "hoare (tx_at d d) (batch_body sq b) (\<lambda>_. tx_at d (batch_result sq b rows d)) (tx_leftover (pb_table b) d)"
proof -
  let ?t = "pb_table b" and ?d = "with_rows (pb_table b) d (batch_effect sq b rows)"
  have changes: "hoare (tx_at d d) (case pb_action b of
       BatchMutations ps \<Rightarrow> act_each (apply_table_mutation sq ?t) ps
     | BatchTruncate \<Rightarrow> lake_exec ''DuckLake TRUNCATE TABLE failed'' (change_table ?t (\<lambda>_. []))) (\<lambda>_. tx_at d ?d) (tx_leftover ?t d)"
    by (rule hoare_weaken [OF batch_action_tx [where rows = rows and x = d]])
      (use assms(1) in \<open>auto simp: rows_broken_def intro: tx_leftoverI\<close>)
  have "hoare (tx_at d ?d) (if uses_streaming_progress b then update_table_streaming_progress b else insert_applied_batch_marker b)
      (\<lambda>_. tx_at d (batch_result sq b rows d)) (tx_leftover ?t d)"
  proof (cases "uses_streaming_progress b")
    case True
    then obtain k where k: "pb_last_key b = Some k" using assms(2) by auto
    have "hoare (tx_at d ?d) (lake_exec e (\<lambda>d. Some (delete_progress ?t d))) (\<lambda>_. tx_at d (delete_progress ?t ?d)) (tx_leftover ?t d)" for e
      by (rule hoare_weaken [OF lake_exec_tx]) (auto intro: tx_leftoverI)
    moreover have "hoare (tx_at d (delete_progress ?t ?d)) (lake_exec e (\<lambda>d. Some (d \<lparr> lk_progress := lk_progress d @
        [\<lparr> sp_table = ?t, sp_commit = sk_commit k, sp_ordinal = sk_ordinal k \<rparr>] \<rparr>)))
        (\<lambda>_. tx_at d (with_progress ?t k ?d)) (tx_leftover ?t d)" for e
      by (rule hoare_weaken [OF lake_exec_tx]) (auto simp: with_progress_def Let_def progress_of_delete intro: tx_leftoverI)
    ultimately show ?thesis
      using True k by (auto simp: update_table_streaming_progress_def batch_result_def Let_def intro!: hoare_bind)
  next
    case False
    then show ?thesis unfolding insert_applied_batch_marker_def
      by simp (rule hoare_weaken [OF lake_exec_tx], auto simp: batch_result_def Let_def intro: tx_leftoverI)
  qed
  then show ?thesis unfolding batch_body_def by (rule hoare_bind [OF changes])
qed

lemma staging_cleanup_keeps:
  "staging_cleanup s = (r, s') \<Longrightarrow> r = Inr () \<and> lk_data s' = lk_data s \<and> lk_tx s' = lk_tx s"
  by (auto simp: staging_cleanup_def ignore_result_def staging_exec_def act_stop split: if_splits prod.splits dest!: next_fault_keeps)

lemma lake_commit_cases:
  assumes "lake_commit s = (r, s')" "tx_at d x s"
  shows "lk_tx s' = None \<and> (if r = Inr () then lk_data s' = x else lk_data s' \<in> {d, x})"
  using assms by (auto simp: lake_commit_def tx_at_def lake_view_def Let_def split: prod.splits fault.splits dest!: next_fault_keeps)

lemma lake_rollback_cases:
  "lake_rollback s = (r, s') \<Longrightarrow> lk_data s' = lk_data s \<and> lk_tx s' \<in> {None, lk_tx s}"
  by (auto simp: lake_rollback_def split: prod.splits if_splits dest!: next_fault_keeps)

text \<open>
  A batch is applied as a whole or not at all: when it succeeds, the new rows and the new
  watermark are committed together; when it fails, the committed data are the old ones or, after
  a commit that was not confirmed, the new ones.
\<close>

lemma apply_table_batch_atomic:
  assumes "apply_table_batch sq b s = (r, s')" "lk_tx s = None"
    and "lk_tables (lk_data s) (pb_table b) = Some rows" "uses_streaming_progress b \<Longrightarrow> pb_last_key b \<noteq> None"
  shows "(r = Inr () \<longrightarrow> lk_data s' = batch_result sq b rows (lk_data s) \<and> lk_tx s' = None) \<and>
     (r \<noteq> Inr () \<longrightarrow> (lk_data s' = batch_result sq b rows (lk_data s) \<and> lk_tx s' = None \<or>
        lk_data s' = lk_data s \<and> (lk_tx s' = None \<or> tx_leftover (pb_table b) (lk_data s) s')))"
proof -
  obtain fault s1 where n: "next_fault s = (fault, s1)" by fastforce
  note keep = next_fault_keeps [OF n]
  show ?thesis
  proof (cases "fault = Succeeds")
    case False
    then show ?thesis using assms(1,2) keep by (auto simp: apply_table_batch_def act_bind_def lake_begin_def n)
  next
    case True
    let ?s = "s1 \<lparr> lk_tx := Some (lk_data s1), lk_staging := None \<rparr>"
    obtain r2 s2 where body: "batch_body sq b ?s = (r2, s2)" by fastforce
    have start: "tx_at (lk_data s) (lk_data s) ?s" using keep by (simp add: tx_at_def)
    note h = hoareD [OF batch_body_tx [OF assms(3,4)] start]
    show ?thesis
    proof (cases r2)
      case (Inr u)
      obtain r3 s3 where commit: "lake_commit s2 = (r3, s3)" by fastforce
      obtain r4 s4 where clean: "staging_cleanup s3 = (r4, s4)" by fastforce
      have "r = r3" "s' = s4"
        using assms(1,2) keep True body Inr commit clean staging_cleanup_keeps [OF clean]
        by (auto simp: apply_table_batch_def act_bind_def lake_begin_def n)
      then show ?thesis
        using lake_commit_cases [OF commit h(1)] body Inr staging_cleanup_keeps [OF clean] by (auto split: if_splits)
    next
      case (Inl e)
      obtain r3 s3 where roll: "lake_rollback s2 = (r3, s3)" by fastforce
      obtain r4 s4 where clean: "staging_cleanup s3 = (r4, s4)" by fastforce
      have "r = Inl e" "s' = s4"
        using assms(1,2) keep True body Inl roll clean staging_cleanup_keeps [OF clean]
        by (auto simp: apply_table_batch_def act_bind_def lake_begin_def ignore_result_def n)
      then show ?thesis
        using h(2) body Inl lake_rollback_cases [OF roll] staging_cleanup_keeps [OF clean] by (auto simp: tx_leftover_def)
    qed
  qed
qed

end
