(* ===== verification/Ducklake_Replay.thy ===== *)
theory Ducklake_Replay
  imports Ducklake_Apply
begin

text \<open>
  Writing the changes of one table of the DuckLake destination moves it along the log of the
  table exactly once, although changes are written again after failures: the tasks of
  \<open>write_events_inner\<close> in \<open>etl-destinations/src/ducklake/core.rs\<close> skip what the watermark of the table covers, and
  the watermark moves in the same transaction as the rows.
\<close>

section \<open>The tasks of a table\<close>

record task_env =
  te_read :: attempt_env
  te_attempts :: "nat \<Rightarrow> attempt_env"
  te_jitter :: "nat \<Rightarrow> duration \<Rightarrow> duration"

definition write_table_mutations ::
    "duck_codec \<Rightarrow> duck_sql \<Rightarrow> task_env \<Rightarrow> replicated_table_schema \<Rightarrow> string \<Rightarrow> tracked_table_mutation list \<Rightarrow> (lake, unit) action" where
  "write_table_mutations dc sq env rts t ms =
     act_bind (run_duckdb_blocking (te_read env) (read_table_streaming_progress t)) (\<lambda>last_key.
     let pending = retain_mutations_after_sequence_key last_key ms in
     if pending = [] then act_return ()
     else act_bind (act_try (prepare_mutation_table_batches dc rts t pending)) (\<lambda>bs.
       apply_table_batches_with_retry sq (te_jitter env) (te_attempts env) bs))"

definition write_table_truncates ::
    "duck_sql \<Rightarrow> task_env \<Rightarrow> string \<Rightarrow> tracked_truncate_event list \<Rightarrow> (lake, unit) action" where
  "write_table_truncates sq env t ts =
     act_bind (run_duckdb_blocking (te_read env) (read_table_streaming_progress t)) (\<lambda>last_key.
     let pending = retain_truncates_after_sequence_key last_key ts in
     if pending = [] then act_return ()
     else apply_table_batch_with_retry sq (te_jitter env) (te_attempts env) (prepare_truncate_table_batch t pending))"

section \<open>The log of a table\<close>

text \<open>
  The changes of a table in the order of the source, each with its key and its effect on
  the rows. A database has caught up with the first \<open>n\<close> of them when its rows are the result
  of exactly these, and its watermark is the key of the last of them.
\<close>

type_synonym table_log = "(event_sequence_key \<times> (duck_rows \<Rightarrow> duck_rows)) list"

definition ordered_log :: "table_log \<Rightarrow> bool" where
  "ordered_log hist \<longleftrightarrow> sorted_wrt (\<lambda>a b. compare_sequence_keys (fst a) (fst b) = KeyLess) hist"

definition mark :: "table_log \<Rightarrow> nat \<Rightarrow> event_sequence_key option" where
  "mark hist n = (if n = 0 then None else Some (fst (hist ! (n - 1))))"

definition caught_up :: "table_log \<Rightarrow> duck_rows \<Rightarrow> string \<Rightarrow> nat \<Rightarrow> lake_data \<Rightarrow> bool" where
  "caught_up hist rows t n d \<longleftrightarrow> n \<le> length hist \<and>
     lk_tables d t = Some (fold snd (take n hist) rows) \<and> progress_of t d = mark hist n"

text \<open>A transaction left open on the connection may show an earlier watermark, or none.\<close>

definition lake_at :: "table_log \<Rightarrow> duck_rows \<Rightarrow> string \<Rightarrow> nat \<Rightarrow> lake \<Rightarrow> bool" where
  "lake_at hist rows t n s \<longleftrightarrow> caught_up hist rows t n (lk_data s) \<and>
     (\<forall>x. lk_tx s = Some x \<longrightarrow> (\<exists>k \<le> n. progress_of t x = mark hist k))"

lemma lake_at_keeps:
  assumes "lake_at hist rows t n s" "lk_data s' = lk_data s" "lk_tx s' = None \<or> lk_tx s' = lk_tx s"
  shows "lake_at hist rows t n s'"
  using assms by (auto simp: lake_at_def)

text \<open>\<open>b\<close> is the batch for \<open>m\<close> changes from position \<open>a\<close> on.\<close>

definition batch_for :: "duck_sql \<Rightarrow> table_log \<Rightarrow> string \<Rightarrow> nat \<Rightarrow> nat \<Rightarrow> prepared_batch \<Rightarrow> bool" where
  "batch_for sq hist t a m b \<longleftrightarrow> 0 < m \<and> a + m \<le> length hist \<and> pb_table b = t \<and> uses_streaming_progress b \<and>
     pb_first_key b = Some (fst (hist ! a)) \<and> pb_last_key b = Some (fst (hist ! (a + m - 1))) \<and>
     batch_effect sq b = fold snd (take m (drop a hist))"

fun batches_for :: "duck_sql \<Rightarrow> table_log \<Rightarrow> string \<Rightarrow> nat \<Rightarrow> nat \<Rightarrow> prepared_batch list \<Rightarrow> bool" where
  "batches_for sq hist t a e [] \<longleftrightarrow> a = e"
| "batches_for sq hist t a e (b # bs) \<longleftrightarrow> (\<exists>m. batch_for sq hist t a m b \<and> batches_for sq hist t (a + m) e bs)"

lemma compare_log:
  assumes "ordered_log hist" "i < length hist" "j < length hist"
  shows "compare_sequence_keys (fst (hist ! i)) (fst (hist ! j)) = (if i < j then KeyLess else if i = j then KeyEqual else KeyGreater)"
proof -
  have "compare_sequence_keys (fst (hist ! i)) (fst (hist ! j)) = KeyLess" if "i < j" "j < length hist" for i j
    using assms(1) that by (auto simp: ordered_log_def sorted_wrt_iff_nth_less)
  note less = this
  have anti: "compare_sequence_keys x y = KeyLess \<Longrightarrow> compare_sequence_keys y x = KeyGreater" for x y
    by (auto simp: compare_sequence_keys_def split: if_splits)
  have "compare_sequence_keys x x = KeyEqual" for x by (simp add: compare_sequence_keys_def)
  then show ?thesis using less [of i j] less [of j i, THEN anti] assms(2,3) by (cases i j rule: linorder_cases) simp_all
qed

section \<open>Batches on the log\<close>

lemma batch_result_caught_up:
  assumes "batch_for sq hist t n m b" "caught_up hist rows t n d"
  shows "caught_up hist rows t (n + m) (batch_result sq b (fold snd (take n hist) rows) d)"
  using assms by (auto simp: batch_for_def caught_up_def batch_result_def Let_def mark_def take_add)

lemma apply_batch_next:
  assumes "batch_for sq hist t n m b" "lake_at hist rows t n s" "lk_tx s = None" "apply_table_batch sq b s = (r, s')"
  shows "is_ok r \<Longrightarrow> lake_at hist rows t (n + m) s' \<and> lk_tx s' = None"
    and "lake_at hist rows t n s' \<or> lake_at hist rows t (n + m) s'"
proof -
  let ?rows = "fold snd (take n hist) rows"
  have at: "caught_up hist rows t n (lk_data s)" "lk_tables (lk_data s) (pb_table b) = Some ?rows" "pb_table b = t"
    using assms(1,2) by (auto simp: lake_at_def caught_up_def batch_for_def)
  have key: "uses_streaming_progress b \<Longrightarrow> pb_last_key b \<noteq> None" using assms(1) by (simp add: batch_for_def)
  note atomic = apply_table_batch_atomic [OF assms(4,3) at(2) key]
  have new: "lake_at hist rows t (n + m) s'" if "lk_data s' = batch_result sq b ?rows (lk_data s)" "lk_tx s' = None"
    using batch_result_caught_up [OF assms(1) at(1)] that by (simp add: lake_at_def)
  have old: "lake_at hist rows t n s'" if "lk_data s' = lk_data s" "lk_tx s' = None \<or> tx_leftover t (lk_data s) s'"
  proof -
    have "\<exists>k \<le> n. progress_of t x = mark hist k" if "lk_tx s' = Some x" for x
    proof -
      have "progress_of t x = mark hist 0 \<or> progress_of t x = mark hist n"
        using that at(1) \<open>lk_tx s' = None \<or> tx_leftover t (lk_data s) s'\<close> by (auto simp: tx_leftover_def caught_up_def mark_def)
      then show ?thesis by blast
    qed
    then show ?thesis using at(1) \<open>lk_data s' = lk_data s\<close> by (simp add: lake_at_def)
  qed
  show "lake_at hist rows t (n + m) s' \<and> lk_tx s' = None" if "is_ok r"
    using that atomic new by (cases r) (auto simp: is_ok_def)
  show "lake_at hist rows t n s' \<or> lake_at hist rows t (n + m) s'" using atomic new old at(3) by (cases "r = Inr ()") auto
qed

lemma apply_batch_open:
  assumes "lk_tx s \<noteq> None" "apply_table_batch sq b s = (r, s')"
  shows "\<not> is_ok r \<and> lk_data s' = lk_data s \<and> lk_tx s' = lk_tx s"
  using assms by (auto simp: apply_table_batch_def act_bind_def lake_begin_def is_ok_def split: prod.splits sum.splits if_splits
      dest!: next_fault_keeps)

section \<open>The batches of an attempt\<close>

definition reaches :: "table_log \<Rightarrow> duck_rows \<Rightarrow> string \<Rightarrow> nat \<Rightarrow> lake \<Rightarrow> bool" where
  "reaches hist rows t n s \<longleftrightarrow> (\<exists>n' \<ge> n. lake_at hist rows t n' s)"

lemma reaches_trans: "reaches hist rows t n s \<Longrightarrow> m \<le> n \<Longrightarrow> reaches hist rows t m s"
  by (auto simp: reaches_def intro: order_trans)

text \<open>The watermark a loop carries: that of the table, or an older one while a transaction is open.\<close>

definition carried :: "table_log \<Rightarrow> nat \<Rightarrow> lake \<Rightarrow> event_sequence_key option \<Rightarrow> bool" where
  "carried hist n s p \<longleftrightarrow> (if lk_tx s = None then p = mark hist n else \<exists>k \<le> n. p = mark hist k)"

lemma replay_decision_log:
  assumes "ordered_log hist" "batch_for sq hist t a m b" "k \<le> length hist"
  shows "(case mark hist k of None \<Rightarrow> Inr ReplayApply | Some key \<Rightarrow> streaming_replay_decision key b) =
    (if k \<le> a then Inr ReplayApply else if a + m \<le> k then Inr ReplaySkip
     else Inl (invalid_state ''DuckLake streaming progress landed inside an atomic batch''))"
proof (cases k)
  case (Suc j)
  have b: "pb_first_key b = Some (fst (hist ! a))" "pb_last_key b = Some (fst (hist ! (a + m - 1)))" "0 < m" "a + m \<le> length hist"
    using assms(2) by (simp_all add: batch_for_def)
  have "compare_sequence_keys (fst (hist ! j)) (fst (hist ! i)) = KeyLess \<longleftrightarrow> j < i" if "i < length hist" for i
    using compare_log [OF assms(1), of j i] that Suc assms(3) by simp
  from this [of a] this [of "a + m - 1"] show ?thesis
    using b Suc by (simp add: mark_def streaming_replay_decision_def ok_or_def res_bind_def) linarith
qed (simp add: mark_def)

lemma wrap_error_result:
  assumes "m s = (r, s')"
  shows "\<exists>r'. wrap_error m s = (r', s') \<and> is_ok r' = is_ok r"
  using assms by (auto simp: wrap_error_def is_ok_def split: sum.splits stop.splits)

lemma batches_loop_log:
  assumes "ordered_log hist" "batches_for sq hist t a e bs" "lake_at hist rows t n s" "a \<le> n" "carried hist n s p"
    and "batches_loop sq p bs s = (r, s')"
  shows "reaches hist rows t n s' \<and> (is_ok r \<longrightarrow> reaches hist rows t e s')"
  using assms(2-)
proof (induction bs arbitrary: a n s p)
  case Nil
  then show ?case by (auto simp: act_stop reaches_def)
next
  case (Cons b bs)
  obtain m where b: "batch_for sq hist t a m b" and rest: "batches_for sq hist t (a + m) e bs" using Cons.prems(1) by auto
  obtain k where k: "k \<le> n" "p = mark hist k" "lk_tx s = None \<longrightarrow> k = n" using Cons.prems(4) by (auto simp: carried_def split: if_splits)
  have len: "k \<le> length hist" using Cons.prems(2) k(1) by (simp add: lake_at_def caught_up_def)
  note decision = replay_decision_log [OF assms(1) b len, folded k(2)]
  have stream: "uses_streaming_progress b" "pb_last_key b = mark hist (a + m)" using b by (auto simp: batch_for_def mark_def)
  obtain r1 s1 where one: "apply_table_batch sq b s = (r1, s1)" by fastforce
  obtain r2 where wrapped: "wrap_error (apply_table_batch sq b) s = (r2, s1)" "is_ok r2 = is_ok r1"
    using wrap_error_result [of "apply_table_batch sq b", OF one] by blast
  consider (fresh) "k \<le> a" | (skip) "\<not> k \<le> a" "a + m \<le> k" | (inside) "\<not> k \<le> a" "\<not> a + m \<le> k" by blast
  then show ?case
  proof cases
    case fresh
    have run: "act_bind (wrap_error (apply_table_batch sq b)) (\<lambda>_. batches_loop sq (pb_last_key b) bs) s = (r, s')"
      using Cons.prems(5) decision fresh stream(1) by (simp add: act_bind_def act_try_def)
    show ?thesis
    proof (cases "lk_tx s = None")
      case False
      note open_tx = apply_batch_open [OF False one]
      then have "r = r2" "s' = s1" using run wrapped by (auto simp: act_bind_def is_ok_def split: sum.splits)
      then show ?thesis using open_tx wrapped(2) lake_at_keeps [OF Cons.prems(2)] by (auto simp: reaches_def)
    next
      case True
      then have n: "n = a" using k(3) fresh Cons.prems(3) by simp
      note step = apply_batch_next [OF b [folded n] Cons.prems(2) True one]
      show ?thesis
      proof (cases "is_ok r1")
        case False
        then have "r = r2" "s' = s1" using run wrapped by (auto simp: act_bind_def is_ok_def split: sum.splits)
        then show ?thesis using step(2) False wrapped(2) by (auto simp: reaches_def intro: le_add1)
      next
        case True
        then have next_run: "batches_loop sq (pb_last_key b) bs s1 = (r, s')"
          using run wrapped by (auto simp: act_bind_def is_ok_def split: sum.splits)
        have "carried hist (n + m) s1 (pb_last_key b)" using step(1) [OF True] stream(2) n by (simp add: carried_def)
        then show ?thesis using Cons.IH [OF rest conjunct1 [OF step(1) [OF True]] _ _ next_run] n by (auto intro: reaches_trans [OF _ le_add1])
      qed
    qed
  next
    case skip
    then have "batches_loop sq p bs s = (r, s')" "a + m \<le> n"
      using Cons.prems(5) decision k(1) stream(1) by (auto simp: act_bind_def act_try_def)
    then show ?thesis using Cons.IH [OF rest Cons.prems(2) _ Cons.prems(4)] by blast
  next
    case inside
    then have "\<not> is_ok r" "s' = s" using Cons.prems(5) decision stream(1) by (auto simp: act_bind_def act_try_def is_ok_def)
    then show ?thesis using Cons.prems(2) by (auto simp: reaches_def)
  qed
qed

lemma query_log:
  assumes "lake_query e (progress_of t) s = (r, s')" "lake_at hist rows t n s"
  shows "lake_at hist rows t n s' \<and> (\<forall>p. r = Inr p \<longrightarrow> carried hist n s' p)"
proof -
  have keep: "lk_data s' = lk_data s \<and> lk_tx s' = lk_tx s"
    using assms(1) by (auto simp: lake_query_def split: prod.splits if_splits dest!: next_fault_keeps)
  have "r = Inr p \<Longrightarrow> p = progress_of t (lake_view s')" for p
    using assms(1) by (auto simp: lake_query_def split: prod.splits if_splits)
  then show ?thesis
    using assms(2) keep lake_at_keeps [OF assms(2)]
    by (cases "lk_tx s") (auto simp: carried_def lake_at_def caught_up_def lake_view_def)
qed

lemma apply_batches_log:
  assumes "ordered_log hist" "batches_for sq hist t a e bs" "bs \<noteq> []" "reaches hist rows t c s" "a \<le> c"
    and "apply_table_batches sq bs s = (r, s')"
  shows "reaches hist rows t c s' \<and> (is_ok r \<longrightarrow> reaches hist rows t e s')"
proof -
  obtain n where n: "lake_at hist rows t n s" "c \<le> n" using assms(4) by (auto simp: reaches_def)
  obtain b bs' where bs: "bs = b # bs'" using assms(3) by (cases bs) auto
  have b: "uses_streaming_progress b" "pb_table b = t" using assms(2) bs by (auto simp: batch_for_def)
  obtain r1 s1 where read: "read_table_streaming_progress t s = (r1, s1)" by fastforce
  note q = query_log [OF read [unfolded read_table_streaming_progress_def] n(1)]
  show ?thesis
  proof (cases r1)
    case (Inl x)
    then have "\<not> is_ok r" "s' = s1"
      using assms(6) bs b read by (auto simp: apply_table_batches_def act_bind_def is_ok_def split: prod.splits)
    then show ?thesis using q n(2) by (auto simp: reaches_def)
  next
    case (Inr p)
    then have "batches_loop sq p bs s1 = (r, s')"
      using assms(6) bs b read by (auto simp: apply_table_batches_def act_bind_def)
    from batches_loop_log [OF assms(1,2) conjunct1 [OF q] order_trans [OF assms(5) n(2)] _ this] show ?thesis
      using q Inr n(2) by (auto intro: reaches_trans)
  qed
qed

lemma run_blocking_log:
  assumes "\<And>s r s'. reaches hist rows t a s \<Longrightarrow> operation s = (r, s') \<Longrightarrow> reaches hist rows t a s' \<and> (is_ok r \<longrightarrow> Q s')"
    and "reaches hist rows t a s" "run_duckdb_blocking env operation s = (r, s')"
  shows "reaches hist rows t a s' \<and> (is_ok r \<longrightarrow> Q s')"
proof -
  have same: "reaches hist rows t a s1" if "lk_data s1 = lk_data s" "lk_tx s1 = None \<or> lk_tx s1 = lk_tx s" for s1
    using assms(2) lake_at_keeps that unfolding reaches_def by blast
  show ?thesis
  proof (cases "ae_checkout env")
    case NoConnection
    then show ?thesis using assms(2,3) by (auto simp: run_duckdb_blocking_def is_ok_def)
  next
    case SameConnection
    then show ?thesis using assms(1) [OF same, of "s \<lparr> lk_faults := ae_faults env \<rparr>"] assms(3) by (simp add: run_duckdb_blocking_def)
  next
    case OtherConnection
    then show ?thesis using assms(1) [OF same, of "s \<lparr> lk_faults := ae_faults env, lk_tx := None \<rparr>"] assms(3)
      by (simp add: run_duckdb_blocking_def)
  qed
qed

text \<open>The retries of a write end, keep what their attempts keep, and succeed with their last attempt.\<close>

lemma retried_write_log:
  assumes "\<And>i s r s'. I s \<Longrightarrow> attempt i s = (r, s') \<Longrightarrow> I s' \<and> (is_ok r \<longrightarrow> Q s')" "I s"
    and "pol_max_retries policy \<noteq> - 1" "pol_max_delay policy \<le> duration_max"
    and "retried_write d policy jitter attempt s = (r, s')"
  shows "I s' \<and> (is_ok r \<longrightarrow> Q s') \<and> r \<noteq> Inl Blocked"
proof -
  obtain r1 retries s1 where loop: "retry_with_backoff policy (\<lambda>_. Retry) jitter attempt (Suc (unat (pol_max_retries policy))) s = Some (r1, retries, s1)"
    using retry_loop_ends [of policy 0 "Suc (unat (pol_max_retries policy))" "\<lambda>_. Retry" jitter attempt s] assms(3,4)
    by (auto simp: retry_with_backoff_def backoff_def simp del: retry_loop.simps)
  then have "I s1 \<and> (is_ok r1 \<longrightarrow> Q s1)"
    unfolding retry_with_backoff_def by (rule retry_loop_invariant [where attempt = attempt, rotated 2]) (use assms(1,2) in auto)
  then show ?thesis using assms(5) loop by (cases r1) (auto simp: retried_write_def is_ok_def)
qed

lemma commit_policy_ok:
  "pol_max_retries (commit_policy x) \<noteq> - 1" "x \<le> 5000000000 \<Longrightarrow> pol_max_delay (commit_policy x) \<le> duration_max"
  by (simp_all add: commit_policy_def duration_max_def)

section \<open>The changes of a task\<close>

definition mutation_log :: "duck_codec \<Rightarrow> duck_sql \<Rightarrow> replicated_table_schema \<Rightarrow> string \<Rightarrow> tracked_table_mutation list \<Rightarrow> table_log" where
  "mutation_log dc sq rts t ms = map (\<lambda>m. (mutation_key m, mutation_effect dc sq rts t (tm_mutation m))) ms"

definition truncate_log :: "tracked_truncate_event list \<Rightarrow> table_log" where
  "truncate_log ts = map (\<lambda>x. (truncate_key x, \<lambda>_. [])) ts"

text \<open>\<open>part\<close> is what the log holds from position \<open>i\<close> on.\<close>

definition segment :: "table_log \<Rightarrow> nat \<Rightarrow> table_log \<Rightarrow> bool" where
  "segment hist i part \<longleftrightarrow> i + length part \<le> length hist \<and> part = take (length part) (drop i hist)"

lemma segment_iff: "segment hist i part \<longleftrightarrow> i + length part \<le> length hist \<and> (\<exists>zs. drop i hist = part @ zs)"
  unfolding segment_def by (metis append_eq_conv_conj)

lemma segment_append:
  "segment hist i (xs @ ys) \<longleftrightarrow> segment hist i xs \<and> segment hist (i + length xs) ys"
proof -
  have "(\<exists>zs. drop i hist = xs @ ys @ zs) \<longleftrightarrow> (\<exists>zs. drop i hist = xs @ zs) \<and> (\<exists>zs. drop (i + length xs) hist = ys @ zs)"
    by (auto simp: add.commute [of i] simp flip: drop_drop)
  then show ?thesis by (auto simp: segment_iff)
qed

lemma segment_nth:
  assumes "segment hist i part" "l < length part"
  shows "hist ! (i + l) = part ! l"
proof -
  obtain zs where "drop i hist = part @ zs" "i \<le> length hist" using assms(1) by (auto simp: segment_iff)
  then have "hist ! (i + l) = (part @ zs) ! l" by (metis nth_drop)
  then show ?thesis using assms(2) by (simp add: nth_append)
qed

lemma segment_drop: "segment hist i part \<Longrightarrow> c \<le> length part \<Longrightarrow> segment hist (i + c) (drop c part)"
  using segment_append [of hist i "take c part" "drop c part"] by simp

lemma push_batch_for:
  assumes "duck_sql_ok dc sq rts t (map tm_mutation ms)" "push_prepared_mutation_batch dc rts t ms = Inr bs" "segment hist a (mutation_log dc sq rts t ms)"
  shows "batches_for sq hist t a (a + length ms) bs"
proof (cases "ms = []")
  case True
  then show ?thesis using assms(2) by (simp add: push_prepared_mutation_batch_def)
next
  case False
  then obtain i ps where bs: "prepare_table_mutations dc rts (map tm_mutation ms) = Inr ps"
      "bs = [prepared_of i t MutationBatch (map_option mutation_key (opt_hd ms)) (map_option mutation_key (opt_last ms)) (BatchMutations ps)]"
    using assms(2) by (auto simp: push_prepared_mutation_batch_def res_bind_def split: sum.splits)
  have len: "length (mutation_log dc sq rts t ms) = length ms" by (simp add: mutation_log_def)
  have nth: "l < length ms \<Longrightarrow> fst (hist ! (a + l)) = mutation_key (ms ! l)" for l
    using segment_nth [OF assms(3), of l] len by (simp add: mutation_log_def)
  have seg: "take (length ms) (drop a hist) = mutation_log dc sq rts t ms" using assms(3) len by (metis segment_def)
  have "fold (prepared_effect sq t) ps rows = fold snd (take (length ms) (drop a hist)) rows" for rows
    using prepare_table_mutations_effect [OF assms(1) bs(1)] unfolding seg by (simp add: mutation_log_def fold_map comp_def)
  then have "batch_effect sq (hd bs) = fold snd (take (length ms) (drop a hist))"
    using bs(2) by (simp add: batch_effect_def prepared_of_def fun_eq_iff)
  then have "batch_for sq hist t a (length ms) (hd bs)"
    using False bs(2) nth [of 0] nth [of "length ms - 1"] assms(3) len
    by (auto simp: batch_for_def prepared_of_def uses_streaming_progress_def opt_hd_def opt_last_def segment_def last_conv_nth
        split: list.splits)
  then show ?thesis using bs(2) by auto
qed

lemma batches_for_append:
  "batches_for sq hist t a m bs \<Longrightarrow> batches_for sq hist t m e bs' \<Longrightarrow> batches_for sq hist t a e (bs @ bs')"
  by (induction bs arbitrary: a) auto

lemma mutation_batches_for:
  assumes "duck_sql_ok dc sq rts t (map tm_mutation (pending @ ms))" "mutation_batches_loop dc rts t pending ms = Inr bs"
    "segment hist a (mutation_log dc sq rts t (pending @ ms))"
  shows "batches_for sq hist t a (a + length (pending @ ms)) bs"
  using assms
proof (induction ms arbitrary: pending a bs)
  case Nil
  then show ?case using push_batch_for by simp
next
  case (Cons m ms)
  show ?case
  proof (cases "length (pending @ [m]) \<ge> cdc_mutation_batch_size")
    case False
    then show ?thesis using Cons.IH [of "pending @ [m]" bs a] Cons.prems by simp
  next
    case True
    then obtain bs1 bs2 where bs: "push_prepared_mutation_batch dc rts t (pending @ [m]) = Inr bs1"
        "mutation_batches_loop dc rts t [] ms = Inr bs2" "bs = bs1 @ bs2"
      using Cons.prems(2) by (auto simp: res_bind_def split: sum.splits)
    have ok: "duck_sql_ok dc sq rts t (map tm_mutation (pending @ [m]))" "duck_sql_ok dc sq rts t (map tm_mutation ([] @ ms))"
      by (rule duck_sql_ok_mono [OF Cons.prems(1)], force)+
    have split: "segment hist a (mutation_log dc sq rts t (pending @ [m]))"
        "segment hist (a + length (pending @ [m])) (mutation_log dc sq rts t ms)"
      using Cons.prems(3) segment_append [of hist a "mutation_log dc sq rts t (pending @ [m])" "mutation_log dc sq rts t ms"]
      by (simp_all add: mutation_log_def)
    show ?thesis
      using batches_for_append [OF push_batch_for [OF ok(1) bs(1) split(1)]] Cons.IH [OF ok(2) bs(2), of "a + length (pending @ [m])"] split(2) bs(3)
      by (simp add: add.assoc)
  qed
qed

text \<open>The watermark cuts a prefix off a segment.\<close>

lemma filter_suffix:
  assumes "\<And>l. l < length xs \<Longrightarrow> P (xs ! l) \<longleftrightarrow> c \<le> l"
  shows "filter P xs = drop c xs"
  using assms
proof (induction xs arbitrary: c)
  case (Cons x xs)
  have "P (xs ! l) \<longleftrightarrow> c - 1 \<le> l" if "l < length xs" for l using Cons.prems [of "Suc l"] that by auto
  then have "filter P xs = drop (c - 1) xs" by (rule Cons.IH)
  then show ?case using Cons.prems [of 0] by (cases c) auto
qed simp

lemma after_mark:
  assumes "ordered_log hist" "segment hist i (map f xs)" "k \<le> length hist" "\<And>x. key x = fst (f x)"
  shows "(case mark hist k of None \<Rightarrow> xs | Some p \<Rightarrow> filter (\<lambda>x. compare_sequence_keys (key x) p = KeyGreater) xs) = drop (k - i) xs"
proof (cases k)
  case (Suc j)
  have "compare_sequence_keys (key (xs ! l)) (fst (hist ! j)) = KeyGreater \<longleftrightarrow> k - i \<le> l" if "l < length xs" for l
  proof -
    have "key (xs ! l) = fst (hist ! (i + l))" "i + l < length hist"
      using segment_nth [OF assms(2), of l] assms(2,4) that by (auto simp: segment_def)
    then show ?thesis using compare_log [OF assms(1), of "i + l" j] Suc assms(3) by auto
  qed
  then have "filter (\<lambda>x. compare_sequence_keys (key x) (fst (hist ! j)) = KeyGreater) xs = drop (k - i) xs" by (rule filter_suffix)
  then show ?thesis using Suc by (simp add: mark_def)
qed (simp add: mark_def)

text \<open>Reading the watermark finds one that the table had, now or earlier.\<close>

lemma read_mark:
  assumes "run_duckdb_blocking env (read_table_streaming_progress t) s = (r, s')" "lake_at hist rows t n s"
  shows "lake_at hist rows t n s' \<and> (\<forall>p. r = Inr p \<longrightarrow> (\<exists>k \<le> n. p = mark hist k))"
proof -
  have keep: "lake_at hist rows t n s1" if "lk_data s1 = lk_data s" "lk_tx s1 = None \<or> lk_tx s1 = lk_tx s" for s1
    using lake_at_keeps [OF assms(2) that] .
  have "lake_at hist rows t n s' \<and> (\<forall>p. r = Inr p \<longrightarrow> carried hist n s' p)"
    using assms(1) query_log [OF _ keep, of _ "s \<lparr> lk_faults := ae_faults env \<rparr>"] assms(2)
      query_log [OF _ keep, of _ "s \<lparr> lk_faults := ae_faults env, lk_tx := None \<rparr>"]
    by (auto simp: run_duckdb_blocking_def read_table_streaming_progress_def split: checkout.splits)
  then show ?thesis by (auto simp: carried_def split: if_splits)
qed

lemma retried_batches_log:
  assumes "ordered_log hist" "batches_for sq hist t a e bs" "bs \<noteq> []" "reaches hist rows t c s" "a \<le> c" "x \<le> 5000000000"
    and "retried_write d (commit_policy x) jitter (\<lambda>i. run_duckdb_blocking (envs i) (apply_table_batches sq bs)) s = (r, s')"
  shows "reaches hist rows t c s' \<and> (is_ok r \<longrightarrow> reaches hist rows t e s') \<and> r \<noteq> Inl Blocked"
proof (rule retried_write_log [where I = "reaches hist rows t c" and Q = "reaches hist rows t e",
      OF _ assms(4) commit_policy_ok(1) commit_policy_ok(2) [OF assms(6)] assms(7)])
  fix i s r s'
  assume at: "reaches hist rows t c s" "run_duckdb_blocking (envs i) (apply_table_batches sq bs) s = (r, s')"
  show "reaches hist rows t c s' \<and> (is_ok r \<longrightarrow> reaches hist rows t e s')"
    by (rule run_blocking_log [where Q = "reaches hist rows t e", OF _ at])
      (rule apply_batches_log [OF assms(1-3) _ assms(5)])
qed

lemma write_mutations_log:
  assumes "ordered_log hist" "duck_sql_ok dc sq rts t (map tm_mutation ms)" "segment hist i (mutation_log dc sq rts t ms)" "lake_at hist rows t n s" "i \<le> n"
    and "write_table_mutations dc sq env rts t ms s = (r, s')"
  shows "reaches hist rows t n s' \<and> (is_ok r \<longrightarrow> reaches hist rows t (i + length ms) s')"
proof -
  obtain r1 s1 where read: "run_duckdb_blocking (te_read env) (read_table_streaming_progress t) s = (r1, s1)" by fastforce
  note mark = read_mark [OF read assms(4)]
  have start: "reaches hist rows t m s1" if "m \<le> n" for m using mark that by (auto simp: reaches_def)
  show ?thesis
  proof (cases r1)
    case (Inl e)
    then show ?thesis using assms(6) read start [OF order_refl] by (auto simp: write_table_mutations_def act_bind_def is_ok_def)
  next
    case (Inr p)
    obtain k where k: "k \<le> n" "p = mark hist k" using mark Inr by blast
    have len: "k \<le> length hist" using k(1) assms(4) by (simp add: lake_at_def caught_up_def)
    let ?pending = "drop (k - i) ms"
    have pending: "retain_mutations_after_sequence_key p ms = ?pending"
      using after_mark [OF assms(1) _ len, of i "\<lambda>m. (mutation_key m, mutation_effect dc sq rts t (tm_mutation m))" ms mutation_key] assms(3) k(2)
      by (simp add: retain_mutations_after_sequence_key_def mutation_log_def)
    show ?thesis
    proof (cases "?pending = []")
      case True
      then have "r = Inr ()" "s' = s1" "i + length ms \<le> n"
        using assms(5,6) read Inr pending k(1) by (auto simp: write_table_mutations_def act_bind_def act_stop)
      then show ?thesis using start by simp
    next
      case False
      let ?a = "i + (k - i)"
      have seg: "segment hist ?a (mutation_log dc sq rts t ?pending)"
        using segment_drop [OF assms(3), of "k - i"] False by (simp add: mutation_log_def drop_map)
      have a: "?a \<le> n" "?a + length ?pending = i + length ms" "i \<le> ?a" using k(1) assms(5) False by auto
      show ?thesis
      proof (cases "prepare_mutation_table_batches dc rts t ?pending")
        case (Inl e)
        then show ?thesis using assms(6) read \<open>r1 = Inr p\<close> pending False start [OF order_refl]
          by (auto simp: write_table_mutations_def act_bind_def act_try_def is_ok_def)
      next
        case (Inr bs)
        have "duck_sql_ok dc sq rts t (map tm_mutation ([] @ ?pending))"
          by (rule duck_sql_ok_mono [OF assms(2)]) (auto dest: in_set_dropD)
        then have cover: "batches_for sq hist t ?a (i + length ms) bs"
          using mutation_batches_for [of dc sq rts t "[]" ?pending bs hist ?a] Inr seg a(2)
          by (simp add: prepare_mutation_table_batches_def)
        then have "bs \<noteq> []" using a False by (cases bs) auto
        then have run: "retried_write ''DuckLake atomic table batch sequence failed after retries'' (commit_policy 2000000000) (te_jitter env)
            (\<lambda>i. run_duckdb_blocking (te_attempts env i) (apply_table_batches sq bs)) s1 = (r, s')"
          using assms(6) read \<open>r1 = Inr p\<close> pending False Inr
          by (simp add: write_table_mutations_def act_bind_def act_try_def apply_table_batches_with_retry_def)
        show ?thesis using retried_batches_log [OF assms(1) cover \<open>bs \<noteq> []\<close> start [OF order_refl] a(1) _ run] by simp
      qed
    qed
  qed
qed

lemma fold_truncates: "xs \<noteq> [] \<Longrightarrow> fold snd (truncate_log xs) rows = []"
  by (induction xs arbitrary: rows) (auto simp: truncate_log_def, metis fold.simps(1) id_apply list.simps(8))

lemma truncate_batch_for:
  assumes "segment hist a (truncate_log ts)" "ts \<noteq> []"
  shows "batches_for sq hist t a (a + length ts) [prepare_truncate_table_batch t ts]"
proof -
  have len: "length (truncate_log ts) = length ts" by (simp add: truncate_log_def)
  have nth: "l < length ts \<Longrightarrow> fst (hist ! (a + l)) = truncate_key (ts ! l)" for l
    using segment_nth [OF assms(1), of l] by (simp add: truncate_log_def)
  have "take (length ts) (drop a hist) = truncate_log ts" using assms(1) len by (metis segment_def)
  then have "batch_for sq hist t a (length ts) (prepare_truncate_table_batch t ts)"
    using assms nth [of 0] nth [of "length ts - 1"] len fold_truncates [OF assms(2)]
    by (auto simp: batch_for_def prepare_truncate_table_batch_def prepared_of_def uses_streaming_progress_def opt_hd_def opt_last_def
        segment_def batch_effect_def last_conv_nth fun_eq_iff split: list.splits)
  then show ?thesis by auto
qed

lemma write_truncates_log:
  assumes "ordered_log hist" "segment hist i (truncate_log ts)" "lake_at hist rows t n s" "i \<le> n"
    and "write_table_truncates sq env t ts s = (r, s')"
  shows "reaches hist rows t n s' \<and> (is_ok r \<longrightarrow> reaches hist rows t (i + length ts) s')"
proof -
  obtain r1 s1 where read: "run_duckdb_blocking (te_read env) (read_table_streaming_progress t) s = (r1, s1)" by fastforce
  note mark = read_mark [OF read assms(3)]
  have start: "reaches hist rows t m s1" if "m \<le> n" for m using mark that by (auto simp: reaches_def)
  show ?thesis
  proof (cases r1)
    case (Inl e)
    then show ?thesis using assms(5) read start [OF order_refl] by (auto simp: write_table_truncates_def act_bind_def is_ok_def)
  next
    case (Inr p)
    obtain k where k: "k \<le> n" "p = mark hist k" using mark Inr by blast
    have len: "k \<le> length hist" using k(1) assms(3) by (simp add: lake_at_def caught_up_def)
    let ?pending = "drop (k - i) ts" and ?a = "i + (k - i)"
    have pending: "retain_truncates_after_sequence_key p ts = ?pending"
      using after_mark [OF assms(1) _ len, of i "\<lambda>x. (truncate_key x, \<lambda>_. [])" ts truncate_key] assms(2) k(2)
      by (simp add: retain_truncates_after_sequence_key_def truncate_log_def)
    show ?thesis
    proof (cases "?pending = []")
      case True
      then have "r = Inr ()" "s' = s1" "i + length ts \<le> n"
        using assms(4,5) read Inr pending k(1) by (auto simp: write_table_truncates_def act_bind_def act_stop)
      then show ?thesis using start by simp
    next
      case False
      have "segment hist ?a (truncate_log ?pending)"
        using segment_drop [OF assms(2), of "k - i"] False by (simp add: truncate_log_def drop_map)
      note cover = truncate_batch_for [OF this False, of sq t]
      have a: "?a \<le> n" "?a + length ?pending = i + length ts" using k(1) assms(4) False by auto
      have run: "retried_write ''DuckLake atomic table batch failed after retries'' (commit_policy 5000000000) (te_jitter env)
          (\<lambda>i. run_duckdb_blocking (te_attempts env i) (apply_table_batches sq [prepare_truncate_table_batch t ?pending])) s1 = (r, s')"
        using assms(5) read Inr pending False
        by (simp add: write_table_truncates_def act_bind_def apply_table_batch_with_retry_def prepare_truncate_table_batch_def prepared_of_def)
      show ?thesis using retried_batches_log [OF assms(1) cover _ start [OF order_refl] a(1) _ run] a(2) by simp
    qed
  qed
qed

end
