(* ===== verification/Table_Names.thy ===== *)
theory Table_Names
  imports Schema
begin

text \<open>
  Names of destination tables, \<open>etl-destinations/src/table_name.rs\<close>: schema and table are
  joined by an underscore, and underscores inside them are doubled. The destinations key their
  tables and replay records by this name, so two source tables must never share one.
\<close>

definition validate_table_name_component_for_underscore_encoding :: "string \<Rightarrow> unit etl_result" where
  "validate_table_name_component_for_underscore_encoding v =
     (if v \<noteq> [] \<and> (hd v = CHR ''_'' \<or> last v = CHR ''_'')
      then Inl (etl_err ValidationError ''Destination table name cannot use leading or trailing underscores'')
      else if v = [] then Inl (etl_err ValidationError ''Destination table name component cannot be empty'')
      else Inr ())"

definition escape_underscore :: "char \<Rightarrow> string" where
  "escape_underscore c = (if c = CHR ''_'' then ''__'' else [c])"

definition stringify_table_name_component :: "string \<Rightarrow> string etl_result" where
  "stringify_table_name_component v =
     res_bind (validate_table_name_component_for_underscore_encoding v) (\<lambda>_.
       Inr (concat (map escape_underscore v)))"

definition try_stringify_table_name :: "table_name \<Rightarrow> string etl_result" where
  "try_stringify_table_name n =
     res_bind (stringify_table_name_component (tn_schema n)) (\<lambda>escaped_schema.
     res_bind (stringify_table_name_component (tn_name n)) (\<lambda>escaped_table.
       Inr (escaped_schema @ ''_'' @ escaped_table)))"

lemma stringify_component_Inr:
  "stringify_table_name_component v = Inr e \<longleftrightarrow>
     v \<noteq> [] \<and> hd v \<noteq> CHR ''_'' \<and> last v \<noteq> CHR ''_'' \<and> e = concat (map escape_underscore v)"
  by (auto simp: stringify_table_name_component_def validate_table_name_component_for_underscore_encoding_def res_bind_def)

lemma escape_inject: "concat (map escape_underscore v) = concat (map escape_underscore w) \<Longrightarrow> v = w"
proof (induction v arbitrary: w)
  case Nil
  then show ?case by (cases w) (auto simp: escape_underscore_def split: if_splits)
next
  case (Cons c v)
  then show ?case by (cases w) (auto simp: escape_underscore_def split: if_splits)
qed

text \<open>A single underscore ends the schema, because no table name begins with one.\<close>

lemma escape_split:
  assumes "concat (map escape_underscore s) @ CHR ''_'' # concat (map escape_underscore t) =
      concat (map escape_underscore s') @ CHR ''_'' # concat (map escape_underscore t')"
    and "t \<noteq> []" "hd t \<noteq> CHR ''_''" "t' \<noteq> []" "hd t' \<noteq> CHR ''_''"
  shows "s = s' \<and> t = t'"
  using assms(1)
proof (induction s arbitrary: s')
  case Nil
  show ?case
  proof (cases s')
    case Nil
    then show ?thesis using \<open>concat (map escape_underscore []) @ _ = _\<close> by (auto intro: escape_inject)
  next
    case (Cons c v)
    then show ?thesis using Nil.prems assms(2,3) by (cases t) (auto simp: escape_underscore_def split: if_splits)
  qed
next
  case (Cons c s)
  then show ?case using assms(2-)
    by (cases s'; cases t') (auto simp: escape_underscore_def split: if_splits)
qed

text \<open>
  C39. Different source tables get different destination tables: when two qualified names are
  encoded to the same destination name, they are the same name.
\<close>

theorem table_names_distinct:
  assumes "try_stringify_table_name n = Inr d" "try_stringify_table_name n' = Inr d"
  shows "tn_schema n = tn_schema n' \<and> tn_name n = tn_name n'"
  using assms by (auto simp: try_stringify_table_name_def res_bind_def stringify_component_Inr split: sum.splits
      dest!: escape_split)

theorem table_names_distinct_witness:
  "try_stringify_table_name \<lparr> tn_schema = ''a_b'', tn_name = ''c'' \<rparr> = Inr ''a__b_c'' \<and>
   \<not> (try_stringify_table_name \<lparr> tn_schema = ''a'', tn_name = ''b_c'' \<rparr> = Inr ''a__b_c'')"
  using table_names_distinct [of "\<lparr> tn_schema = ''a_b'', tn_name = ''c'' \<rparr>" "''a__b_c''" "\<lparr> tn_schema = ''a'', tn_name = ''b_c'' \<rparr>"]
  by (auto simp: try_stringify_table_name_def stringify_table_name_component_def res_bind_def escape_underscore_def
      validate_table_name_component_for_underscore_encoding_def)

end
