(* ===== verification/Ducklake_Core.thy ===== *)
theory Ducklake_Core
  imports Ducklake_Replay Table_Names Postgres_Store Memory_Store
begin

text \<open>
  The DuckLake destination (\<open>etl-destinations/src/ducklake/core.rs\<close>): names and creation of
  tables, the copy of rows, the clean-up before a copy, and the writing of a batch of events.
  The store of the pipeline is reached through its operations. Waiting for permits and for
  the maintenance gate is not visible in the state. Tasks of different tables run one after
  the other, in the order in which the hash map gives the tables.
\<close>

section \<open>State\<close>

record 's ducklake =
  dl_store :: 's
  dl_created :: "string list"
  dl_batches_created :: bool
  dl_progress_created :: bool
  dl_lake :: lake

definition on_lake :: "(lake, 'a) action \<Rightarrow> ('s ducklake, 'a) action" where
  "on_lake = act_on dl_lake (\<lambda>l w. w \<lparr> dl_lake := l \<rparr>)"

definition on_metadata :: "('s \<Rightarrow> 'a etl_result \<times> 's) \<Rightarrow> ('s ducklake, 'a) action" where
  "on_metadata f = act_on dl_store (\<lambda>s w. w \<lparr> dl_store := s \<rparr>) (act_call f)"

section \<open>Tables\<close>

definition resolve_destination_table_name :: "'s store_ops \<Rightarrow> replicated_table_schema \<Rightarrow> ('s ducklake, string) action" where
  "resolve_destination_table_name ops rts w =
     (case so_get_metadata ops (dl_store w) (rts_id rts) of
        Inl e \<Rightarrow> (Inl (Failed e), w)
      | Inr (Some existing) \<Rightarrow> (Inr (dtm_destination_table_id existing), w)
      | Inr None \<Rightarrow> (failable (try_stringify_table_name (ts_name (rts_schema rts))), w))"

text \<open>
  \<open>CREATE TABLE IF NOT EXISTS\<close>. The environment says what the attempt meets, and whether a
  failing statement reports that another transaction has created the table.
\<close>

record create_env =
  cn_attempt :: attempt_env
  cn_conflict :: bool

definition create_table :: "string \<Rightarrow> lake_data \<Rightarrow> lake_data" where
  "create_table t d = (case lk_tables d t of
       None \<Rightarrow> d \<lparr> lk_tables := (lk_tables d)(t \<mapsto> []) \<rparr> | Some _ \<Rightarrow> d)"

definition execute_create :: "create_env \<Rightarrow> (lake_data \<Rightarrow> lake_data) \<Rightarrow> (lake, unit) action" where
  "execute_create env f s = (case lake_exec ''DuckLake CREATE TABLE failed'' (\<lambda>d. Some (f d)) s of
       (Inl e, s') \<Rightarrow> if cn_conflict env then (Inr (), s' \<lparr> lk_data := f (lk_data s') \<rparr>) else (Inl e, s')
     | (Inr _, s') \<Rightarrow> (Inr (), s'))"

definition ensure_table_exists :: "'s store_ops \<Rightarrow> create_env \<Rightarrow> replicated_table_schema \<Rightarrow> ('s ducklake, string) action" where
  "ensure_table_exists ops env rts =
     act_bind (resolve_destination_table_name ops rts) (\<lambda>t.
     act_bind (act_get (\<lambda>w. t \<in> set (dl_created w))) (\<lambda>known.
     if known then act_return t
     else let metadata = new_applying t (ts_snapshot (rts_schema rts)) (rts_mask rts) in
       act_bind (on_metadata (so_store_metadata ops (rts_id rts) metadata)) (\<lambda>_.
       act_bind (on_lake (run_duckdb_blocking (cn_attempt env) (execute_create env (create_table t)))) (\<lambda>_.
       act_bind (act_modify (\<lambda>w. w \<lparr> dl_created := t # dl_created w \<rparr>)) (\<lambda>_.
       act_bind (on_metadata (so_store_metadata ops (rts_id rts) (to_applied metadata))) (\<lambda>_.
       act_return t))))))"

text \<open>The two bookkeeping tables; their creation changes nothing that the model keeps of the lake.\<close>

definition create_bookkeeping_table :: "create_env \<Rightarrow> (lake, unit) action" where
  "create_bookkeeping_table env = run_duckdb_blocking (cn_attempt env)
     (act_bind (execute_create env id) (\<lambda>_. lake_exec ''DuckLake set_option failed'' Some))"

definition ensure_applied_batches_table_exists :: "create_env \<Rightarrow> ('s ducklake, unit) action" where
  "ensure_applied_batches_table_exists env =
     act_bind (act_get dl_batches_created) (\<lambda>created.
     if created then act_return ()
     else act_bind (on_lake (create_bookkeeping_table env)) (\<lambda>_.
       act_modify (\<lambda>w. w \<lparr> dl_batches_created := True \<rparr>)))"

definition ensure_streaming_progress_table_exists :: "create_env \<Rightarrow> ('s ducklake, unit) action" where
  "ensure_streaming_progress_table_exists env =
     act_bind (act_get dl_progress_created) (\<lambda>created.
     if created then act_return ()
     else act_bind (on_lake (create_bookkeeping_table env)) (\<lambda>_.
       act_modify (\<lambda>w. w \<lparr> dl_progress_created := True \<rparr>)))"

section \<open>Copy\<close>

record write_env =
  we_create :: create_env
  we_batches :: create_env
  we_progress :: create_env
  we_task :: task_env

text \<open>A transaction whose failed roll-back is only logged.\<close>

definition in_transaction :: "(lake, unit) action \<Rightarrow> (lake, unit) action" where
  "in_transaction m = act_bind lake_begin (\<lambda>_ s. case m s of
       (Inr _, s') \<Rightarrow> lake_commit s'
     | (Inl e, s') \<Rightarrow> (Inl e, snd (lake_rollback s')))"

definition clear_table_markers :: "string \<Rightarrow> (lake, unit) action" where
  "clear_table_markers t =
     act_bind (clear_applied_batch_markers_for_kind t CopyBatch) (\<lambda>_.
     act_bind (clear_applied_batch_markers_for_kind t MutationBatch) (\<lambda>_.
     act_bind (clear_applied_batch_markers_for_kind t TruncateBatch) (\<lambda>_.
     clear_table_streaming_progress t)))"

definition truncate_table_inner :: "'s store_ops \<Rightarrow> write_env \<Rightarrow> replicated_table_schema \<Rightarrow> ('s ducklake, unit) action" where
  "truncate_table_inner ops env rts =
     act_bind (ensure_table_exists ops (we_create env) rts) (\<lambda>t.
     act_bind (ensure_applied_batches_table_exists (we_batches env)) (\<lambda>_.
     act_bind (ensure_streaming_progress_table_exists (we_progress env)) (\<lambda>_.
     on_lake (run_duckdb_blocking (te_read (we_task env)) (in_transaction
       (act_bind (lake_exec ''DuckLake TRUNCATE TABLE failed'' (change_table t (\<lambda>_. []))) (\<lambda>_.
        clear_table_markers t)))))))"

definition drop_table_for_copy_inner :: "'s store_ops \<Rightarrow> write_env \<Rightarrow> replicated_table_schema \<Rightarrow> ('s ducklake, unit) action" where
  "drop_table_for_copy_inner ops env rts =
     act_bind (resolve_destination_table_name ops rts) (\<lambda>t.
     act_bind (ensure_applied_batches_table_exists (we_batches env)) (\<lambda>_.
     act_bind (ensure_streaming_progress_table_exists (we_progress env)) (\<lambda>_.
     act_bind (on_lake (run_duckdb_blocking (te_read (we_task env)) (in_transaction
       (act_bind (lake_exec ''DuckLake DROP TABLE failed'' (\<lambda>d. Some (d \<lparr> lk_tables := (lk_tables d)(t := None) \<rparr>))) (\<lambda>_.
        clear_table_markers t))))) (\<lambda>_.
     act_modify (\<lambda>w. w \<lparr> dl_created := removeAll t (dl_created w) \<rparr>)))))"

definition write_table_rows_inner ::
    "'s store_ops \<Rightarrow> duck_codec \<Rightarrow> duck_sql \<Rightarrow> write_env \<Rightarrow> replicated_table_schema \<Rightarrow> table_row list \<Rightarrow> ('s ducklake, unit) action" where
  "write_table_rows_inner ops dc sq env rts rows =
     act_bind (ensure_table_exists ops (we_create env) rts) (\<lambda>t.
     if rows = [] then act_return ()
     else act_bind (ensure_applied_batches_table_exists (we_batches env)) (\<lambda>_.
       act_bind (act_try (prepare_copy_table_batch dc rts t rows)) (\<lambda>b.
       on_lake (apply_table_batch_with_retry sq (te_jitter (we_task env)) (te_attempts (we_task env)) b))))"

section \<open>Events\<close>

definition validate_ducklake_replica_identity :: "replicated_table_schema \<Rightarrow> string \<Rightarrow> unit etl_result" where
  "validate_ducklake_replica_identity rts operation =
     (if si_len (identity_column_schemas rts) = 0
      then Inl (invalid_state (if operation = ''update'' then ''DuckLake update requires a replica identity''
        else if operation = ''delete'' then ''DuckLake delete requires a replica identity''
        else ''DuckLake mutation requires a replica identity''))
      else Inr ())"

fun key_row_loop ::
    "nat \<Rightarrow> column_schema list \<Rightarrow> column_schema list \<Rightarrow> nat list \<Rightarrow> cell list \<Rightarrow> cell list etl_result" where
  "key_row_loop i [] ids missing present =
     (if missing \<noteq> [] \<or> present \<noteq> [] then Inl (invalid_state ''DuckLake partial update row shape is inconsistent'')
      else Inr [])"
| "key_row_loop i (c # cs) ids missing present =
     (let is_identity = (ids \<noteq> [] \<and> cs_ordinal (hd ids) = cs_ordinal c) in
      if missing \<noteq> [] \<and> hd missing = i
      then (if is_identity then Inl (invalid_state ''DuckLake partial update is missing replica-identity columns'')
            else key_row_loop (Suc i) cs ids (tl missing) present)
      else case present of
          [] \<Rightarrow> Inl (invalid_state ''DuckLake partial update row ended early'')
        | v # vs \<Rightarrow> if is_identity then res_bind (key_row_loop (Suc i) cs (tl ids) missing vs) (\<lambda>ks. Inr (v # ks))
            else key_row_loop (Suc i) cs ids missing vs)"

definition key_row_from_updated_partial_row ::
    "replicated_table_schema \<Rightarrow> nat \<Rightarrow> cell list \<Rightarrow> nat list \<Rightarrow> table_row etl_result" where
  "key_row_from_updated_partial_row rts columns_total present missing =
     (if columns_total \<noteq> si_len (column_schemas rts) then Inl (invalid_state ''DuckLake partial update row does not match schema'')
      else if length present + length missing \<noteq> columns_total
      then Inl (invalid_state ''DuckLake partial update row shape is inconsistent'')
      else res_bind (validate_ducklake_replica_identity rts ''update'') (\<lambda>_.
        key_row_loop 0 (si_inner (column_schemas rts)) (si_inner (identity_column_schemas rts)) missing present))"

definition tracked_at :: "'e event_position_scheme \<Rightarrow> table_mutation \<Rightarrow> tracked_table_mutation" where
  "tracked_at e m = \<lparr> tm_start = ep_start e, tm_commit = ep_commit e, tm_ordinal = ep_ordinal e, tm_mutation = m \<rparr>"

text \<open>What one event adds to the mutations of its table; other events are skipped.\<close>

fun event_mutation :: "event \<Rightarrow> (replicated_table_schema \<times> tracked_table_mutation) option etl_result" where
  "event_mutation (EvInsert e) = Inr (Some (ie_schema e, tracked_at e (MInsert (ie_row e))))"
| "event_mutation (EvUpdate e) =
     res_bind (validate_ducklake_replica_identity (ue_schema e) ''update'') (\<lambda>_.
     case ue_old e of
       Some old \<Rightarrow> Inr (Some (ue_schema e, tracked_at e (MUpdate old (ue_row e))))
     | None \<Rightarrow> (case ue_row e of
           UpdatedFull row \<Rightarrow> Inr (Some (ue_schema e, tracked_at e (MReplace row)))
         | UpdatedPartial n present missing \<Rightarrow>
             res_bind (key_row_from_updated_partial_row (ue_schema e) n present missing) (\<lambda>key_row.
             Inr (Some (ue_schema e, tracked_at e (MUpdate (OldKey key_row) (UpdatedPartial n present missing)))))))"
| "event_mutation (EvDelete e) =
     res_bind (validate_ducklake_replica_identity (de_schema e) ''delete'') (\<lambda>_.
     res_bind (ok_or (invalid_state ''DuckLake delete requires an old row image'') (de_old e)) (\<lambda>old.
     Inr (Some (de_schema e, tracked_at e (MDelete old)))))"
| "event_mutation _ = Inr None"

text \<open>The entries per table: the last schema and what was collected, in order.\<close>

type_synonym 'm table_groups = "(table_id \<times> replicated_table_schema \<times> 'm list) list"

fun add_to_group :: "replicated_table_schema \<Rightarrow> 'm \<Rightarrow> 'm table_groups \<Rightarrow> 'm table_groups" where
  "add_to_group rts x [] = [(rts_id rts, rts, [x])]"
| "add_to_group rts x ((t, r, xs) # g) =
     (if t = rts_id rts then (t, rts, xs @ [x]) # g else (t, r, xs) # add_to_group rts x g)"

fun collect_mutations :: "event list \<Rightarrow> tracked_table_mutation table_groups \<Rightarrow> tracked_table_mutation table_groups etl_result" where
  "collect_mutations [] g = Inr g"
| "collect_mutations (e # es) g = res_bind (event_mutation e) (\<lambda>r. case r of
       None \<Rightarrow> collect_mutations es g
     | Some (rts, m) \<Rightarrow> collect_mutations es (add_to_group rts m g))"

fun event_truncates :: "event \<Rightarrow> (replicated_table_schema \<times> tracked_truncate_event) list" where
  "event_truncates (EvTruncate e) = map (\<lambda>rts. (rts, \<lparr> tt_start = ep_start e, tt_commit = ep_commit e,
       tt_ordinal = ep_ordinal e, tt_options = te_options e \<rparr>)) (te_tables e)"
| "event_truncates _ = []"

definition collect_truncates :: "event list \<Rightarrow> tracked_truncate_event table_groups" where
  "collect_truncates es = fold (\<lambda>(rts, x). add_to_group rts x) (concat (map event_truncates es)) []"

fun is_truncate :: "event \<Rightarrow> bool" where
  "is_truncate (EvTruncate _) = True"
| "is_truncate _ = False"

text \<open>One round of the outer loop takes the events up to the next truncate, then the truncates in a row.\<close>

function stages :: "event list \<Rightarrow> (event list \<times> event list) list" where
  "stages [] = []"
| "stages (e # es) =
     (let rest = dropWhile (Not \<circ> is_truncate) (e # es) in
      (takeWhile (Not \<circ> is_truncate) (e # es), takeWhile is_truncate rest) # stages (dropWhile is_truncate rest))"
  by pat_completeness auto
termination
proof (relation "measure length")
  fix e :: event and es :: "event list" and rest
  assume "rest = dropWhile (Not \<circ> is_truncate) (e # es)"
  then show "(dropWhile is_truncate rest, e # es) \<in> measure length"
    using length_dropWhile_le [of is_truncate es] length_dropWhile_le [of is_truncate "dropWhile (Not \<circ> is_truncate) es"]
      length_dropWhile_le [of "Not \<circ> is_truncate" es] by (auto simp: less_Suc_eq_le)
qed simp

text \<open>
  The tasks of one round. Preparing a table may fail, which ends the round; otherwise the
  results of the tasks are joined and the first error is returned.
\<close>

fun run_tasks ::
    "'s store_ops \<Rightarrow> (table_id \<Rightarrow> create_env) \<Rightarrow> (table_id \<Rightarrow> replicated_table_schema \<Rightarrow> string \<Rightarrow> 'm list \<Rightarrow> (lake, unit) action)
     \<Rightarrow> 'm table_groups \<Rightarrow> ('s ducklake, (stop, unit) result list) action" where
  "run_tasks ops env task [] = act_return []"
| "run_tasks ops env task ((tid, rts, xs) # g) =
     act_bind (ensure_table_exists ops (env tid) rts) (\<lambda>t w.
       case on_lake (task tid rts t xs) w of (r, w') \<Rightarrow>
         act_bind (run_tasks ops env task g) (\<lambda>rs. act_return (r # rs)) w')"

definition join_all :: "(stop, unit) result list \<Rightarrow> ('s, unit) action" where
  "join_all rs s = (case List.find (\<lambda>r. \<not> is_ok r) rs of Some (Inl e) \<Rightarrow> (Inl e, s) | _ \<Rightarrow> (Inr (), s))"

record stage_env =
  sn_batches :: create_env
  sn_progress :: create_env
  sn_create :: "table_id \<Rightarrow> create_env"
  sn_task :: "table_id \<Rightarrow> task_env"
  sn_order :: "table_id list \<Rightarrow> table_id list"

text \<open>The hash map gives its entries in an order of its own.\<close>

definition arranged :: "(table_id list \<Rightarrow> table_id list) \<Rightarrow> 'm table_groups \<Rightarrow> 'm table_groups" where
  "arranged order g = filter_map (\<lambda>t. map_option (\<lambda>x. (t, x)) (map_of g t)) (order (map fst g))"

definition write_groups ::
    "'s store_ops \<Rightarrow> stage_env \<Rightarrow> (table_id \<Rightarrow> replicated_table_schema \<Rightarrow> string \<Rightarrow> 'm list \<Rightarrow> (lake, unit) action)
     \<Rightarrow> 'm table_groups \<Rightarrow> ('s ducklake, unit) action" where
  "write_groups ops env task g = act_when (g \<noteq> [])
     (act_bind (ensure_applied_batches_table_exists (sn_batches env)) (\<lambda>_.
      act_bind (ensure_streaming_progress_table_exists (sn_progress env)) (\<lambda>_.
      act_bind (run_tasks ops (sn_create env) task (arranged (sn_order env) g)) join_all)))"

definition write_stage ::
    "'s store_ops \<Rightarrow> duck_codec \<Rightarrow> duck_sql \<Rightarrow> stage_env \<Rightarrow> stage_env \<Rightarrow> event list \<times> event list \<Rightarrow> ('s ducklake, unit) action" where
  "write_stage ops dc sq env tenv = (\<lambda>(ms, ts).
     act_bind (act_try (collect_mutations ms [])) (\<lambda>g.
     act_bind (write_groups ops env (\<lambda>tid rts t xs. write_table_mutations dc sq (sn_task env tid) rts t xs) g) (\<lambda>_.
     write_groups ops tenv (\<lambda>tid rts t xs. write_table_truncates sq (sn_task tenv tid) t xs) (collect_truncates ts))))"

definition write_events_inner ::
    "'s store_ops \<Rightarrow> duck_codec \<Rightarrow> duck_sql \<Rightarrow> (nat \<Rightarrow> stage_env) \<Rightarrow> event list \<Rightarrow> ('s ducklake, unit) action" where
  "write_events_inner ops dc sq env events =
     act_each (\<lambda>(i, stage). write_stage ops dc sq (env (2 * i)) (env (2 * i + 1)) stage) (enumerate 0 (stages events))"

end
