(* ===== verification/Ducklake_Delivery.thy ===== *)
theory Ducklake_Delivery
  imports Ducklake_Core Apply_Invariant "HOL-Library.Multiset"
begin

text \<open>
  A whole batch of events at the DuckLake destination: the tables are written independently,
  so every table of the lake follows its own part of the event stream exactly once, although
  batches are sent again after failures and restarts.
\<close>

lemma keepsI: "(\<And>s r s'. P s \<Longrightarrow> m s = (r, s') \<Longrightarrow> Q s') \<Longrightarrow> hoare P m (\<lambda>_. Q) Q"
  by (auto simp: hoare_def split: sum.split)

lemma keepsD: "hoare P m (\<lambda>_. Q) Q \<Longrightarrow> P s \<Longrightarrow> m s = (r, s') \<Longrightarrow> Q s'"
  by (cases r) (auto simp: hoare_def)

lemma hoare_bind_eq:
  assumes "hoare P m (\<lambda>x s. x = c \<and> R s) E" "hoare R (f c) Q E"
  shows "hoare P (act_bind m f) Q E"
  by (rule hoare_bind [OF assms(1)]) (use assms(2) in \<open>auto simp: hoare_def\<close>)

section \<open>What writes to one table leave of another\<close>

text \<open>The rows and the watermark of a table, and what an open transaction may show of them.\<close>

definition part_of :: "string \<Rightarrow> lake_data \<Rightarrow> duck_rows option \<times> event_sequence_key option" where
  "part_of t d = (lk_tables d t, progress_of t d)"

definition seen :: "string \<Rightarrow> duck_rows option \<times> event_sequence_key option
    \<Rightarrow> (duck_rows option \<times> event_sequence_key option \<Rightarrow> bool) \<Rightarrow> lake \<Rightarrow> bool" where
  "seen t p A s \<longleftrightarrow> part_of t (lk_data s) = p \<and> (\<forall>x. lk_tx s = Some x \<longrightarrow> A (part_of t x))"

lemma seen_next:
  assumes "seen t p A s" "lk_data s' = lk_data s" "lk_tx s' = None \<or> lk_tx s' = lk_tx s"
  shows "seen t p A s'"
  using assms by (auto simp: seen_def)

lemma seen_exec:
  assumes "\<And>d d'. f d = Some d' \<Longrightarrow> part_of t d' = part_of t d"
  shows "keeps (seen t p A) (lake_exec e f)"
  using assms by (fastforce simp: hoare_def lake_exec_def lake_view_def set_view_def seen_def
      split: prod.splits if_splits option.splits dest!: next_fault_keeps)

lemma seen_query: "keeps (seen t p A) (lake_query e g)"
  by (auto simp: hoare_def lake_query_def seen_def split: prod.splits if_splits dest!: next_fault_keeps)

lemma seen_staging: "keeps (seen t p A) (staging_exec e f)"
  by (auto simp: hoare_def staging_exec_def seen_def split: prod.splits if_splits dest!: next_fault_keeps)

lemma part_of_change: "u \<noteq> t \<Longrightarrow> change_table u f d = Some d' \<Longrightarrow> part_of t d' = part_of t d"
  by (auto simp: change_table_def part_of_def progress_of_def)

lemma part_of_simps [simp]:
  "part_of t (d \<lparr> lk_markers := m \<rparr>) = part_of t d"
  "u \<noteq> t \<Longrightarrow> part_of t (delete_progress u d) = part_of t d"
  "u \<noteq> t \<Longrightarrow> part_of t (d \<lparr> lk_progress := lk_progress d @ [\<lparr> sp_table = u, sp_commit = c, sp_ordinal = k \<rparr>] \<rparr>) = part_of t d"
  "u \<noteq> t \<Longrightarrow> part_of t (d \<lparr> lk_tables := (lk_tables d)(u := x) \<rparr>) = part_of t d"
  using progress_of_delete(2) [of t u d]
  by (auto simp: part_of_def progress_of_def delete_progress_def find_append split: option.splits)

lemma seen_mutation: "u \<noteq> t \<Longrightarrow> keeps (seen t p A) (apply_table_mutation sq u m)"
  by (cases m) (auto simp: stage_and_insert_def load_rows_def apply_delete_mutation_def split: prepared_rows.split
      intro!: keeps_rules seen_staging seen_exec intro: part_of_change)

lemma seen_body: "pb_table b \<noteq> t \<Longrightarrow> keeps (seen t p A) (batch_body sq b)"
  by (auto simp: batch_body_def update_table_streaming_progress_def insert_applied_batch_marker_def act_try_def
      split: batch_action.split option.split
      intro!: keeps_rules seen_mutation seen_exec hoare_fail intro: part_of_change)

lemma seen_begin: "A p \<Longrightarrow> hoare (seen t p A) lake_begin (\<lambda>_. seen t p ((=) p)) (seen t p A)"
  by (auto simp: hoare_def lake_begin_def seen_def split: prod.splits if_splits dest!: next_fault_keeps)

lemma seen_commit: "seen t p ((=) p) s \<Longrightarrow> lake_commit s = (r, s') \<Longrightarrow> seen t p A s'"
  by (auto simp: lake_commit_def seen_def lake_view_def Let_def split: prod.splits fault.splits option.splits dest!: next_fault_keeps)

lemma seen_rollback: "A p \<Longrightarrow> seen t p ((=) p) s \<Longrightarrow> lake_rollback s = (r, s') \<Longrightarrow> seen t p A s'"
  by (fastforce simp: seen_def dest!: lake_rollback_cases)

lemma seen_cleanup: "seen t p A s \<Longrightarrow> staging_cleanup s = (r, s') \<Longrightarrow> seen t p A s'"
  by (auto simp: seen_def dest!: staging_cleanup_keeps)

lemma seen_batch:
  assumes "pb_table b \<noteq> t" "A p"
  shows "keeps (seen t p A) (apply_table_batch sq b)"
  unfolding apply_table_batch_def
proof (rule hoare_bind [OF seen_begin [of A p t, OF assms(2)]], rule hoare_bind)
  show "hoare (seen t p ((=) p)) (act_modify (\<lambda>s. s \<lparr> lk_staging := None \<rparr>)) (\<lambda>_. seen t p ((=) p)) (seen t p A)"
    by (auto simp: hoare_def seen_def)
  show "hoare (seen t p ((=) p)) (\<lambda>s. case batch_body sq b s of
         (Inr _, s') \<Rightarrow> (case lake_commit s' of (r, s'') \<Rightarrow> act_bind staging_cleanup (\<lambda>_ s3. (r, s3)) s'')
       | (Inl e, s') \<Rightarrow> act_bind (ignore_result lake_rollback) (\<lambda>_. act_bind staging_cleanup (\<lambda>_ s3. (Inl e, s3))) s')
      (\<lambda>_. seen t p A) (seen t p A)"
  proof (rule keepsI)
    fix s r s'
    assume start: "seen t p ((=) p) s" and run: "(case batch_body sq b s of
         (Inr _, s') \<Rightarrow> (case lake_commit s' of (r, s'') \<Rightarrow> act_bind staging_cleanup (\<lambda>_ s3. (r, s3)) s'')
       | (Inl e, s') \<Rightarrow> act_bind (ignore_result lake_rollback) (\<lambda>_. act_bind staging_cleanup (\<lambda>_ s3. (Inl e, s3))) s') = (r, s')"
    obtain r1 s1 where body: "batch_body sq b s = (r1, s1)" by fastforce
    have s1: "seen t p ((=) p) s1" by (rule keepsD [OF seen_body [OF assms(1)] start body])
    obtain r2 s2 where commit: "lake_commit s1 = (r2, s2)" by fastforce
    obtain r3 s3 where clean: "staging_cleanup s2 = (r3, s3)" by fastforce
    obtain r4 s4 where clean2: "staging_cleanup (snd (lake_rollback s1)) = (r4, s4)" by fastforce
    have "s' = s3 \<or> s' = s4"
      using run body commit clean clean2 staging_cleanup_keeps [OF clean] staging_cleanup_keeps [OF clean2]
      by (cases r1) (auto simp: act_bind_def ignore_result_def)
    moreover have "seen t p A s3" using seen_cleanup [OF seen_commit [OF s1 commit] clean] .
    moreover have "seen t p A s4"
      using seen_cleanup [OF seen_rollback [of A, OF assms(2) s1 prod.collapse [symmetric]] clean2] .
    ultimately show "seen t p A s'" by blast
  qed
qed

lemma seen_blocking:
  assumes "keeps (seen t p A) m"
  shows "keeps (seen t p A) (run_duckdb_blocking env m)"
proof (rule keepsI)
  fix s r s'
  assume start: "seen t p A s" and run: "run_duckdb_blocking env m s = (r, s')"
  show "seen t p A s'"
  proof (cases "ae_checkout env")
    case SameConnection
    then show ?thesis
      using keepsD [OF assms seen_next [OF start, of "s \<lparr> lk_faults := ae_faults env \<rparr>"]] run by (simp add: run_duckdb_blocking_def)
  next
    case OtherConnection
    then show ?thesis
      using keepsD [OF assms seen_next [OF start, of "s \<lparr> lk_faults := ae_faults env, lk_tx := None \<rparr>"]] run
      by (simp add: run_duckdb_blocking_def)
  qed (use start run in \<open>simp add: run_duckdb_blocking_def\<close>)
qed

lemma keeps_wrap_error:
  assumes "keeps P m"
  shows "keeps P (wrap_error m)"
proof (rule keepsI)
  fix s r s'
  assume "P s" "wrap_error m s = (r, s')"
  then show "P s'" using wrap_error_result [of m s] keepsD [OF assms] by (metis prod.exhaust prod.inject)
qed

lemma keeps_try: "keeps P (act_try r)"
  by (rule hoare_try)

lemma seen_loop:
  assumes "\<And>b. b \<in> set bs \<Longrightarrow> pb_table b \<noteq> t" "A p"
  shows "keeps (seen t p A) (batches_loop sq progress bs)"
  using assms(1)
proof (induction bs arbitrary: progress)
  case (Cons b bs)
  have rest: "keeps (seen t p A) (batches_loop sq q bs)" for q using Cons by simp
  have one: "keeps (seen t p A) (wrap_error (apply_table_batch sq b))"
    using Cons.prems assms(2) by (simp add: keeps_wrap_error seen_batch)
  show ?case unfolding batches_loop.simps applied_batch_marker_exists_def
    by (cases "uses_streaming_progress b") (simp_all, (intro keeps_bind seen_query keeps_try; auto intro!: keeps_bind rest one)+)
qed (simp add: keeps_return)

lemma seen_batches:
  assumes "\<And>b. b \<in> set bs \<Longrightarrow> pb_table b \<noteq> t" "A p"
  shows "keeps (seen t p A) (apply_table_batches sq bs)"
  unfolding apply_table_batches_def
proof (cases bs)
  case (Cons b bs')
  have "keeps (seen t p A) (batches_loop sq progress bs)" for progress by (rule seen_loop) (use assms in auto)
  then have "keeps (seen t p A) (act_bind (if uses_streaming_progress b then read_table_streaming_progress (pb_table b) else act_return None)
      (\<lambda>progress. batches_loop sq progress bs))"
    by (intro keeps_bind) (auto simp: read_table_streaming_progress_def intro: seen_query keeps_return)
  then show "keeps (seen t p A) (case bs of [] \<Rightarrow> act_return () | b # _ \<Rightarrow>
      act_bind (if uses_streaming_progress b then read_table_streaming_progress (pb_table b) else act_return None)
      (\<lambda>progress. batches_loop sq progress bs))" using Cons by simp
qed (simp add: keeps_return)

lemma seen_retried:
  assumes "\<And>i. keeps (seen t p A) (attempt i)" "x \<le> 5000000000"
  shows "keeps (seen t p A) (retried_write d (commit_policy x) jitter attempt)"
proof (rule keepsI)
  fix s r s'
  assume "seen t p A s" "retried_write d (commit_policy x) jitter attempt s = (r, s')"
  then show "seen t p A s'"
    using retried_write_log [where I = "seen t p A" and Q = "\<lambda>_. True" and attempt = attempt, OF _ _ commit_policy_ok(1) commit_policy_ok(2) [OF assms(2)]]
      keepsD [OF assms(1)] by blast
qed

lemma mutation_batches_table:
  "mutation_batches_loop dc rts u pending ms = Inr bs \<Longrightarrow> b \<in> set bs \<Longrightarrow> pb_table b = u"
proof (induction ms arbitrary: pending bs)
  case Nil
  then show ?case by (auto simp: push_prepared_mutation_batch_def prepared_of_def res_bind_def split: sum.splits if_splits)
next
  case (Cons m ms)
  have push: "push_prepared_mutation_batch dc rts u xs = Inr bs1 \<Longrightarrow> b \<in> set bs1 \<Longrightarrow> pb_table b = u" for xs bs1
    by (auto simp: push_prepared_mutation_batch_def prepared_of_def res_bind_def split: sum.splits if_splits)
  show ?case using Cons by (auto simp: res_bind_def split: sum.splits if_splits dest: push)
qed

lemma seen_mutations_task: "u \<noteq> t \<Longrightarrow> A p \<Longrightarrow> keeps (seen t p A) (write_table_mutations dc sq env rts u ms)"
  unfolding write_table_mutations_def read_table_streaming_progress_def Let_def
proof (intro keeps_bind seen_blocking seen_query)
  fix last
  assume u: "u \<noteq> t" "A p"
  let ?pending = "retain_mutations_after_sequence_key last ms"
  have "keeps (seen t p A) (apply_table_batches_with_retry sq (te_jitter env) (te_attempts env) bs)"
    if "prepare_mutation_table_batches dc rts u ?pending = Inr bs" for bs
    using that mutation_batches_table [of dc rts u "[]" ?pending bs] u
    unfolding apply_table_batches_with_retry_def prepare_mutation_table_batches_def
    by (auto intro!: keeps_return seen_retried seen_blocking seen_batches)
  then have "keeps (seen t p A) (act_bind (act_try (prepare_mutation_table_batches dc rts u ?pending))
      (\<lambda>bs. apply_table_batches_with_retry sq (te_jitter env) (te_attempts env) bs))"
    by (cases "prepare_mutation_table_batches dc rts u ?pending") (auto simp: hoare_def act_bind_def act_try_def split: prod.splits)
  then show "keeps (seen t p A) (if ?pending = [] then act_return () else act_bind (act_try (prepare_mutation_table_batches dc rts u ?pending))
      (\<lambda>bs. apply_table_batches_with_retry sq (te_jitter env) (te_attempts env) bs))"
    by (auto intro: keeps_return)
qed

lemma seen_truncates_task: "u \<noteq> t \<Longrightarrow> A p \<Longrightarrow> keeps (seen t p A) (write_table_truncates sq env u ts)"
  unfolding write_table_truncates_def read_table_streaming_progress_def Let_def apply_table_batch_with_retry_def
  by (intro keeps_bind seen_blocking seen_query)
    (auto intro!: keeps_return seen_retried seen_blocking seen_batches simp: prepare_truncate_table_batch_def prepared_of_def)

lemma lake_at_seen:
  "lake_at hist rows t n s \<longleftrightarrow> n \<le> length hist \<and> seen t (Some (fold snd (take n hist) rows), mark hist n) (\<lambda>q. \<exists>k \<le> n. snd q = mark hist k) s"
  by (auto simp: lake_at_def caught_up_def seen_def part_of_def)

lemma other_task:
  assumes "u \<noteq> t" "reaches hist rows t n s"
  shows "write_table_mutations dc sq env rts u ms s = (r, s') \<Longrightarrow> reaches hist rows t n s'"
    and "write_table_truncates sq env u ts s = (r', s'') \<Longrightarrow> reaches hist rows t n s''"
proof -
  obtain m where m: "n \<le> m" "lake_at hist rows t m s" using assms(2) by (auto simp: reaches_def)
  let ?p = "(Some (fold snd (take m hist) rows), mark hist m)" and ?A = "\<lambda>q. \<exists>k \<le> m. snd q = mark hist k"
  have start: "m \<le> length hist" "seen t ?p ?A s" using m(2) by (simp_all add: lake_at_seen)
  have A: "?A ?p" by auto
  show "reaches hist rows t n s'" if "write_table_mutations dc sq env rts u ms s = (r, s')"
    using keepsD [OF seen_mutations_task [of u t ?A ?p, OF assms(1) A] start(2) that] start(1) m(1)
    by (auto simp: reaches_def lake_at_seen)
  show "reaches hist rows t n s''" if "write_table_truncates sq env u ts s = (r', s'')"
    using keepsD [OF seen_truncates_task [of u t ?A ?p, OF assms(1) A] start(2) that] start(1) m(1)
    by (auto simp: reaches_def lake_at_seen)
qed

section \<open>Tables and their names\<close>

text \<open>What the destination relies on: a stored name is the one that is found later.\<close>

locale metadata_store =
  fixes ops :: "'s store_ops" and minv :: "'s \<Rightarrow> bool"
  assumes store_metadata_inv: "minv s \<Longrightarrow> so_store_metadata ops t d s = (r, s') \<Longrightarrow> minv s'"
    and store_metadata_get: "minv s \<Longrightarrow> so_store_metadata ops t d s = (r, s') \<Longrightarrow>
      so_get_metadata ops s' u = (if is_ok r \<and> u = t then Inr (Some d) else so_get_metadata ops s u)"

definition names_known :: "'s store_ops \<Rightarrow> (table_id \<Rightarrow> string) \<Rightarrow> 's \<Rightarrow> bool" where
  "names_known ops nm s \<longleftrightarrow> (\<forall>t m. so_get_metadata ops s t = Inr (Some m) \<longrightarrow> dtm_destination_table_id m = nm t)"

definition named_by :: "(table_id \<Rightarrow> string) \<Rightarrow> replicated_table_schema \<Rightarrow> bool" where
  "named_by nm rts \<longleftrightarrow> (case try_stringify_table_name (ts_name (rts_schema rts)) of Inl _ \<Rightarrow> True | Inr t \<Rightarrow> t = nm (rts_id rts))"

lemma create_reaches:
  assumes "f = id \<or> (\<exists>u. f = create_table u)"
  shows "keeps (reaches hist rows t n) (execute_create env f)"
proof (rule keepsI)
  fix s r s'
  assume start: "reaches hist rows t n s" and run: "execute_create env f s = (r, s')"
  have progress: "progress_of t (f d) = progress_of t d" for d
    using assms by (auto simp: create_table_def progress_of_def split: option.split)
  have same: "lk_tables d t = Some x \<Longrightarrow> lk_tables (f d) t = Some x" for d x
    using assms by (auto simp: create_table_def split: option.split)
  have keep: "lake_at hist rows t m s1" if "lake_at hist rows t m s" "lk_data s1 \<in> {lk_data s, f (lk_data s)}"
      "\<And>y. lk_tx s1 = Some y \<Longrightarrow> \<exists>x. lk_tx s = Some x \<and> progress_of t y = progress_of t x" for m s1
    using that progress same by (fastforce simp: lake_at_def caught_up_def)
  have "lk_data s' \<in> {lk_data s, f (lk_data s)} \<and> (\<forall>y. lk_tx s' = Some y \<longrightarrow> (\<exists>x. lk_tx s = Some x \<and> progress_of t y = progress_of t x))"
    using run progress by (auto simp: execute_create_def lake_exec_def lake_view_def set_view_def
        split: prod.splits sum.splits if_splits option.splits dest!: next_fault_keeps) metis
  then show "reaches hist rows t n s'" using start keep unfolding reaches_def by blast
qed

lemma blocking_reaches:
  assumes "keeps (reaches hist rows t n) m"
  shows "keeps (reaches hist rows t n) (run_duckdb_blocking env m)"
proof (rule keepsI)
  fix s r s'
  assume "reaches hist rows t n s" "run_duckdb_blocking env m s = (r, s')"
  then show "reaches hist rows t n s'"
    using run_blocking_log [where Q = "\<lambda>_. True" and operation = m and a = n] keepsD [OF assms] by blast
qed

lemma exec_same_reaches: "keeps (reaches hist rows t n) (lake_exec e Some)"
proof (rule keepsI)
  fix s r s'
  assume start: "reaches hist rows t n s" and "lake_exec e Some s = (r, s')"
  then have "lk_data s' = lk_data s" "lk_tx s' = lk_tx s"
    by (auto simp: lake_exec_def lake_view_def set_view_def split: prod.splits if_splits option.splits dest!: next_fault_keeps)
  then show "reaches hist rows t n s'" using start lake_at_keeps unfolding reaches_def by metis
qed

lemma bookkeeping_reaches: "keeps (reaches hist rows t n) (create_bookkeeping_table env)"
  unfolding create_bookkeeping_table_def
  by (intro blocking_reaches keeps_bind create_reaches exec_same_reaches) simp

lemma keeps_on_lake:
  assumes "hoare P m (\<lambda>x. Q x) E"
  shows "hoare (\<lambda>w. P (dl_lake w) \<and> S (dl_store w)) (on_lake m) (\<lambda>x w. Q x (dl_lake w) \<and> S (dl_store w)) (\<lambda>w. E (dl_lake w) \<and> S (dl_store w))"
  using assms by (fastforce simp: hoare_def on_lake_def act_on_def split: prod.splits sum.splits)

section \<open>The entries of a round\<close>

lemma map_of_add_to_group:
  "map_of (add_to_group rts x g) = (map_of g)(rts_id rts \<mapsto> (rts, (case map_of g (rts_id rts) of None \<Rightarrow> [] | Some (_, xs) \<Rightarrow> xs) @ [x]))"
  by (induction g) (auto simp: fun_eq_iff split: option.splits)

lemma fst_add_to_group: "fst ` set (add_to_group rts x g) = insert (rts_id rts) (fst ` set g)"
  by (induction rts x g rule: add_to_group.induct) (simp_all add: insert_commute)

lemma distinct_add_to_group: "distinct (map fst g) \<Longrightarrow> distinct (map fst (add_to_group rts x g))"
proof (induction g)
  case (Cons e g)
  then show ?case using fst_add_to_group [of rts x g] by (cases e) (auto simp: image_iff)
qed simp

definition groups_of :: "(replicated_table_schema \<times> 'm) list \<Rightarrow> 'm table_groups" where
  "groups_of ps = fold (\<lambda>(rts, x). add_to_group rts x) ps []"

definition entries_for :: "table_id \<Rightarrow> (replicated_table_schema \<times> 'm) list \<Rightarrow> 'm list" where
  "entries_for tid ps = map snd (filter (\<lambda>p. rts_id (fst p) = tid) ps)"

lemma groups_of_snoc: "groups_of (ps @ [(rts, x)]) = add_to_group rts x (groups_of ps)"
  by (simp add: groups_of_def)

lemma groups_of_props:
  "distinct (map fst (groups_of ps))"
  "map_of (groups_of ps) tid = (if entries_for tid ps = [] then None
     else Some (fst (last (filter (\<lambda>p. rts_id (fst p) = tid) ps)), entries_for tid ps))"
proof (induction ps rule: rev_induct)
  case Nil
  { case 1 show ?case by (simp add: groups_of_def) next case 2 show ?case by (simp add: groups_of_def entries_for_def) }
next
  case (snoc p ps)
  obtain rts x where p: "p = (rts, x)" by (cases p)
  { case 1 show ?case using snoc.IH(1) by (simp add: p groups_of_snoc distinct_add_to_group)
  next case 2 show ?case using snoc.IH(2) by (auto simp: p groups_of_snoc map_of_add_to_group entries_for_def split: option.splits if_splits) }
qed

lemma groups_of_entry:
  assumes "(tid, rts, xs) \<in> set (groups_of ps)"
  shows "rts_id rts = tid \<and> (\<exists>x. (rts, x) \<in> set ps) \<and> xs = entries_for tid ps \<and> xs \<noteq> []"
proof -
  let ?f = "filter (\<lambda>p. rts_id (fst p) = tid) ps"
  have "map_of (groups_of ps) tid = Some (rts, xs)" using assms by (intro map_of_is_SomeI groups_of_props(1))
  then have e: "entries_for tid ps \<noteq> []" "xs = entries_for tid ps" "rts = fst (last ?f)"
    by (auto simp: groups_of_props(2) split: if_splits)
  then obtain p where "p = last ?f" "p \<in> set ?f" using last_in_set [of ?f] by (auto simp: entries_for_def)
  then have "rts = fst p" "rts_id (fst p) = tid" "p \<in> set ps" using e(3) by auto
  then show ?thesis using e(1,2) by (cases p) auto
qed

lemma collect_mutations_pairs:
  "collect_mutations es g = Inr g' \<Longrightarrow> \<exists>ps. g' = fold (\<lambda>(rts, x). add_to_group rts x) ps g \<and>
     ps = concat (map (\<lambda>e. case event_mutation e of Inr (Some p) \<Rightarrow> [p] | _ \<Rightarrow> []) es) \<and> (\<forall>e \<in> set es. is_ok (event_mutation e))"
proof (induction es arbitrary: g)
  case (Cons e es)
  then show ?case by (cases "event_mutation e") (fastforce simp: is_ok_def split: option.splits prod.splits)+
qed simp

lemma arranged_props:
  assumes "distinct (map fst g)" "mset (order (map fst g)) = mset (map fst g)"
  shows "set (arranged order g) = set g" "distinct (map fst (arranged order g))"
proof -
  have ids: "set (order (map fst g)) = fst ` set g" "distinct (order (map fst g))"
    using assms mset_eq_setD [OF assms(2)] mset_eq_imp_distinct_iff [OF assms(2)] by auto
  show "set (arranged order g) = set g"
    using assms(1) ids(1) by (force simp: arranged_def filter_map_def List.map_filter_def map_of_eq_Some_iff image_iff)
  have "map fst (filter_map (\<lambda>t. map_option (\<lambda>x. (t, x)) (map_of g t)) ts) = filter (\<lambda>t. map_of g t \<noteq> None) ts" for ts
    by (induction ts) (auto simp: filter_map_def List.map_filter_def)
  then show "distinct (map fst (arranged order g))" using ids(2) by (simp add: arranged_def)
qed

section \<open>The tasks of a round\<close>

definition at_log :: "'s store_ops \<Rightarrow> ('s \<Rightarrow> bool) \<Rightarrow> (table_id \<Rightarrow> string) \<Rightarrow> table_log \<Rightarrow> duck_rows \<Rightarrow> table_id \<Rightarrow> nat \<Rightarrow> 's ducklake \<Rightarrow> bool" where
  "at_log ops minv nm hist rows tid n w \<longleftrightarrow> reaches hist rows (nm tid) n (dl_lake w) \<and> (minv (dl_store w) \<and> names_known ops nm (dl_store w))"

text \<open>A hash map gives each of its entries once, in some order.\<close>

definition order_ok :: "stage_env \<Rightarrow> bool" where
  "order_ok env \<longleftrightarrow> (\<forall>ids. mset (sn_order env ids) = mset ids)"

lemma join_all_ok:
  assumes "join_all rs s = (Inr x, s')"
  shows "list_all is_ok rs"
proof (cases "List.find (\<lambda>r. \<not> is_ok r) rs")
  case None
  then show ?thesis by (simp add: find_None_iff list_all_iff)
next
  case (Some r)
  then have "\<not> is_ok r" by (auto simp: find_Some_iff)
  then show ?thesis using assms Some by (cases r) (auto simp: join_all_def is_ok_def)
qed

lemma join_all_state: "join_all rs s = (r, s') \<Longrightarrow> s' = s"
  by (auto simp: join_all_def split: option.splits sum.splits)

section \<open>The part of a table in the stream of events\<close>

fun event_schemas :: "event \<Rightarrow> replicated_table_schema list" where
  "event_schemas (EvInsert e) = [ie_schema e]"
| "event_schemas (EvUpdate e) = [ue_schema e]"
| "event_schemas (EvDelete e) = [de_schema e]"
| "event_schemas (EvTruncate e) = te_tables e"
| "event_schemas _ = []"

definition mutation_pairs :: "event list \<Rightarrow> (replicated_table_schema \<times> tracked_table_mutation) list" where
  "mutation_pairs es = concat (map (\<lambda>e. case event_mutation e of Inr (Some p) \<Rightarrow> [p] | _ \<Rightarrow> []) es)"

definition truncate_pairs :: "event list \<Rightarrow> (replicated_table_schema \<times> tracked_truncate_event) list" where
  "truncate_pairs es = concat (map event_truncates es)"

text \<open>The changes of a table in a stream of events, in order, each with its key and its effect.\<close>

definition stream_log ::
    "duck_codec \<Rightarrow> duck_sql \<Rightarrow> replicated_table_schema \<Rightarrow> string \<Rightarrow> event list \<Rightarrow> table_log" where
  "stream_log dc sq rts t es = concat (map (\<lambda>e. mutation_log dc sq rts t (entries_for (rts_id rts) (mutation_pairs [e])) @
     truncate_log (entries_for (rts_id rts) (truncate_pairs [e]))) es)"

text \<open>The table keeps its schema, and the names of tables are told apart by their ids.\<close>

definition stream_named :: "(table_id \<Rightarrow> string) \<Rightarrow> replicated_table_schema \<Rightarrow> event list \<Rightarrow> bool" where
  "stream_named nm rts es \<longleftrightarrow> (\<forall>e \<in> set es. \<forall>r \<in> set (event_schemas e). named_by nm r \<and>
     (if rts_id r = rts_id rts then r = rts else nm (rts_id r) \<noteq> nm (rts_id rts)))"

lemma stream_named_append [simp]: "stream_named nm rts (xs @ ys) \<longleftrightarrow> stream_named nm rts xs \<and> stream_named nm rts ys"
  unfolding stream_named_def by (simp only: set_append ball_Un)

lemma stream_log_append [simp]: "stream_log dc sq rts t (xs @ ys) = stream_log dc sq rts t xs @ stream_log dc sq rts t ys"
  by (simp add: stream_log_def)

text \<open>The database evaluates what is generated for the changes of the table.\<close>

definition stream_sql_ok :: "duck_codec \<Rightarrow> duck_sql \<Rightarrow> replicated_table_schema \<Rightarrow> string \<Rightarrow> event list \<Rightarrow> bool" where
  "stream_sql_ok dc sq rts t es = duck_sql_ok dc sq rts t (map tm_mutation (entries_for (rts_id rts) (mutation_pairs es)))"

lemma stream_sql_ok_mono: "stream_sql_ok dc sq rts t es \<Longrightarrow> set es' \<subseteq> set es \<Longrightarrow> stream_sql_ok dc sq rts t es'"
  unfolding stream_sql_ok_def by (erule duck_sql_ok_mono) (auto simp: entries_for_def mutation_pairs_def)

lemma event_mutation_schema: "event_mutation e = Inr (Some (r, m)) \<Longrightarrow> r \<in> set (event_schemas e)"
  by (cases e) (auto simp: res_bind_def ok_or_def split: sum.splits option.splits updated_table_row.splits)

lemma mutation_pairs_schema: "(r, m) \<in> set (mutation_pairs es) \<Longrightarrow> \<exists>e \<in> set es. r \<in> set (event_schemas e)"
  by (auto simp: mutation_pairs_def split: sum.splits option.splits) (metis event_mutation_schema)

lemma truncate_pairs_schema: "(r, x) \<in> set (truncate_pairs es) \<Longrightarrow> \<exists>e \<in> set es. r \<in> set (event_schemas e)"
proof -
  have "(r, x) \<in> set (event_truncates e) \<Longrightarrow> r \<in> set (event_schemas e)" for e by (cases e) auto
  then show "(r, x) \<in> set (truncate_pairs es) \<Longrightarrow> \<exists>e \<in> set es. r \<in> set (event_schemas e)" by (fastforce simp: truncate_pairs_def)
qed

lemma pairs_append:
  "mutation_pairs (e # es) = mutation_pairs [e] @ mutation_pairs es" "truncate_pairs (e # es) = truncate_pairs [e] @ truncate_pairs es"
  "entries_for tid (ps @ qs) = entries_for tid ps @ entries_for tid qs"
  by (simp_all add: mutation_pairs_def truncate_pairs_def entries_for_def)

lemma stream_log_mutations:
  assumes "\<And>e. e \<in> set es \<Longrightarrow> \<not> is_truncate e"
  shows "stream_log dc sq rts t es = mutation_log dc sq rts t (entries_for (rts_id rts) (mutation_pairs es))"
  using assms
proof (induction es)
  case (Cons e es)
  have "truncate_pairs [e] = []" using Cons.prems [of e] by (cases e) (auto simp: truncate_pairs_def)
  then show ?case using Cons pairs_append(1) [of e es] pairs_append(3)
    by (simp add: stream_log_def mutation_log_def truncate_log_def entries_for_def)
qed (simp add: stream_log_def mutation_log_def mutation_pairs_def entries_for_def)

lemma stream_log_truncates:
  assumes "\<And>e. e \<in> set es \<Longrightarrow> is_truncate e"
  shows "stream_log dc sq rts t es = truncate_log (entries_for (rts_id rts) (truncate_pairs es))"
  using assms
proof (induction es)
  case (Cons e es)
  have "mutation_pairs [e] = []" using Cons.prems [of e] by (cases e) (auto simp: mutation_pairs_def)
  then show ?case using Cons pairs_append(2) [of e es] pairs_append(3)
    by (simp add: stream_log_def mutation_log_def truncate_log_def entries_for_def)
qed (simp add: stream_log_def truncate_log_def truncate_pairs_def entries_for_def)

lemma stages_step:
  assumes "es \<noteq> []"
  obtains ms ts rest where "stages es = (ms, ts) # stages rest" "es = ms @ ts @ rest"
    "\<forall>e \<in> set ms. \<not> is_truncate e" "\<forall>e \<in> set ts. is_truncate e" "length rest < length es"
proof -
  obtain e es' where es: "es = e # es'" using assms by (cases es) auto
  let ?ms = "takeWhile (Not \<circ> is_truncate) es" and ?r = "dropWhile (Not \<circ> is_truncate) es"
  have eq: "stages es = (?ms, takeWhile is_truncate ?r) # stages (dropWhile is_truncate ?r)"
    unfolding es stages.simps(2) Let_def ..
  have all: "es = ?ms @ takeWhile is_truncate ?r @ dropWhile is_truncate ?r" by simp
  have kinds: "\<forall>e \<in> set ?ms. \<not> is_truncate e" "\<forall>e \<in> set (takeWhile is_truncate ?r). is_truncate e"
    by (auto dest: set_takeWhileD)
  have "?ms \<noteq> [] \<or> takeWhile is_truncate ?r \<noteq> []" using es by (cases "is_truncate e") auto
  then have "length (dropWhile is_truncate ?r) < length es"
    using arg_cong [OF all, of length] by (simp only: length_append) auto
  then show thesis using that eq all kinds by blast
qed

lemma stages_cover:
  "concat (map (\<lambda>(ms, ts). ms @ ts) (stages es)) = es \<and>
   (\<forall>(ms, ts) \<in> set (stages es). (\<forall>e \<in> set ms. \<not> is_truncate e) \<and> (\<forall>e \<in> set ts. is_truncate e))"
proof (induction es rule: length_induct)
  case (1 es)
  show ?case
  proof (cases "es = []")
    case False
    then obtain ms ts rest where s: "stages es = (ms, ts) # stages rest" "es = ms @ ts @ rest"
      "\<forall>e \<in> set ms. \<not> is_truncate e" "\<forall>e \<in> set ts. is_truncate e" "length rest < length es" by (rule stages_step)
    from 1 [rule_format, OF s(5)] show ?thesis using s(1-4) by auto
  qed simp
qed

lemma own_mutations:
  assumes "ordered_log hist" "duck_sql_ok dc sq rts t (map tm_mutation ms)" "segment hist i (mutation_log dc sq rts t ms)" "i \<le> n"
  shows "hoare (reaches hist rows t n) (write_table_mutations dc sq env rts t ms)
    (\<lambda>_. reaches hist rows t (max n (i + length ms))) (reaches hist rows t n)"
proof (unfold hoare_def, intro allI impI)
  fix s r s'
  assume "reaches hist rows t n s" and run: "write_table_mutations dc sq env rts t ms s = (r, s')"
  then obtain m where m: "lake_at hist rows t m s" "n \<le> m" by (auto simp: reaches_def)
  have "reaches hist rows t m s' \<and> (is_ok r \<longrightarrow> reaches hist rows t (i + length ms) s')"
    using write_mutations_log [OF assms(1-3) m(1) order_trans [OF assms(4) m(2)] run] .
  then show "case r of Inl _ \<Rightarrow> reaches hist rows t n s' | Inr _ \<Rightarrow> reaches hist rows t (max n (i + length ms)) s'"
    using m(2) by (cases r) (auto simp: is_ok_def max_def dest: reaches_trans)
qed

lemma own_truncates:
  assumes "ordered_log hist" "segment hist i (truncate_log ts)" "i \<le> n"
  shows "hoare (reaches hist rows t n) (write_table_truncates sq env t ts)
    (\<lambda>_. reaches hist rows t (max n (i + length ts))) (reaches hist rows t n)"
proof (unfold hoare_def, intro allI impI)
  fix s r s'
  assume "reaches hist rows t n s" and run: "write_table_truncates sq env t ts s = (r, s')"
  then obtain m where m: "lake_at hist rows t m s" "n \<le> m" by (auto simp: reaches_def)
  have "reaches hist rows t m s' \<and> (is_ok r \<longrightarrow> reaches hist rows t (i + length ts) s')"
    using write_truncates_log [OF assms(1,2) m(1) order_trans [OF assms(3) m(2)] run] .
  then show "case r of Inl _ \<Rightarrow> reaches hist rows t n s' | Inr _ \<Rightarrow> reaches hist rows t (max n (i + length ts)) s'"
    using m(2) by (cases r) (auto simp: is_ok_def max_def dest: reaches_trans)
qed

context metadata_store
begin

text \<open>The names stay known, and the lake has reached position \<open>n\<close> of the log of a table.\<close>

lemma store_names:
  assumes "minv s" "names_known ops nm s" "so_store_metadata ops t d s = (r, s')" "dtm_destination_table_id d = nm t"
  shows "minv s' \<and> names_known ops nm s'"
  using store_metadata_inv [OF assms(1,3)] store_metadata_get [OF assms(1,3)] assms(2,4) by (auto simp: names_known_def)

lemma ensure_table:
  assumes "named_by nm rts" "keeps R (run_duckdb_blocking (cn_attempt env) (execute_create env (create_table (nm (rts_id rts)))))"
  defines "P \<equiv> \<lambda>w. R (dl_lake w) \<and> (minv (dl_store w) \<and> names_known ops nm (dl_store w))"
  shows "hoare P (ensure_table_exists ops env rts) (\<lambda>t w. t = nm (rts_id rts) \<and> P w) P"
proof -
  let ?t = "nm (rts_id rts)"
  have resolve: "hoare P (resolve_destination_table_name ops rts) (\<lambda>t w. t = ?t \<and> P w) P"
    using assms(1) by (auto simp: hoare_def resolve_destination_table_name_def P_def names_known_def named_by_def failable_def
        split: sum.splits option.splits)
  have store: "keeps P (on_metadata (so_store_metadata ops (rts_id rts) d))" if "dtm_destination_table_id d = ?t" for d
    using store_names [where nm = nm and t = "rts_id rts" and d = d] that
    by (auto simp: hoare_def P_def on_metadata_def act_on_def act_call_def split: prod.splits sum.splits)
  have create: "keeps P (on_lake (run_duckdb_blocking (cn_attempt env) (execute_create env (create_table ?t))))"
    unfolding P_def by (rule keeps_on_lake [OF assms(2)])
  have known: "keeps P (act_modify (\<lambda>w. w \<lparr> dl_created := ?t # dl_created w \<rparr>))" by (auto simp: hoare_def P_def)
  have rest: "hoare P (act_bind (on_metadata (so_store_metadata ops (rts_id rts) m)) (\<lambda>_.
       act_bind (on_lake (run_duckdb_blocking (cn_attempt env) (execute_create env (create_table ?t)))) (\<lambda>_.
       act_bind (act_modify (\<lambda>w. w \<lparr> dl_created := ?t # dl_created w \<rparr>)) (\<lambda>_.
       act_bind (on_metadata (so_store_metadata ops (rts_id rts) (to_applied m))) (\<lambda>_.
       act_return ?t))))) (\<lambda>t w. t = ?t \<and> P w) P" if "dtm_destination_table_id m = ?t" for m
    by (rule hoare_bind [OF store [OF that]], rule hoare_bind [OF create], rule hoare_bind [OF known], rule hoare_bind [OF store])
      (use that in \<open>auto simp: to_applied_def intro: hoare_return\<close>)
  show ?thesis
    unfolding ensure_table_exists_def
    by (rule hoare_bind_eq [OF resolve], rule hoare_bind [OF keeps_get])
      (use rest in \<open>auto simp: Let_def new_applying_def intro: hoare_return\<close>)
qed

lemma bookkeeping_log:
  "keeps (at_log ops minv nm hist rows tid n) (ensure_applied_batches_table_exists env)"
  "keeps (at_log ops minv nm hist rows tid n) (ensure_streaming_progress_table_exists env)"
proof -
  have create: "keeps (at_log ops minv nm hist rows tid n) (on_lake (create_bookkeeping_table env))"
    using keeps_on_lake [OF bookkeeping_reaches] unfolding at_log_def .
  show "keeps (at_log ops minv nm hist rows tid n) (ensure_applied_batches_table_exists env)"
      "keeps (at_log ops minv nm hist rows tid n) (ensure_streaming_progress_table_exists env)"
    unfolding ensure_applied_batches_table_exists_def ensure_streaming_progress_table_exists_def
    by (intro keeps_bind keeps_get; auto intro!: keeps_return keeps_bind create hoare_modify simp: at_log_def)+
qed

lemma ensure_log:
  assumes "named_by nm rts"
  shows "hoare (at_log ops minv nm hist rows tid n) (ensure_table_exists ops env rts)
    (\<lambda>t w. t = nm (rts_id rts) \<and> at_log ops minv nm hist rows tid n w) (at_log ops minv nm hist rows tid n)"
  unfolding at_log_def by (rule ensure_table [OF assms blocking_reaches [OF create_reaches]]) auto

lemma task_log:
  assumes "at_log ops minv nm hist rows tid n w" "on_lake (task (nm u)) w = (r, w')"
    and "\<And>s r s'. reaches hist rows (nm tid) n s \<Longrightarrow> task (nm u) s = (r, s') \<Longrightarrow> reaches hist rows (nm tid) (f r) s'"
  shows "at_log ops minv nm hist rows tid (f r) w'"
  using assms by (auto simp: at_log_def on_lake_def act_on_def split: prod.splits)

text \<open>Tasks of other tables leave the table where it is; its own task moves it to \<open>e\<close>.\<close>

lemma run_tasks_others:
  assumes "\<And>u rts xs. (u, rts, xs) \<in> set g \<Longrightarrow> named_by nm rts \<and> rts_id rts = u"
    and "\<And>u rts xs. (u, rts, xs) \<in> set g \<Longrightarrow> keeps (reaches hist rows (nm tid) n) (task u rts (nm u) xs)"
  shows "keeps (at_log ops minv nm hist rows tid n) (run_tasks ops env task g)"
  using assms
proof (induction g)
  case (Cons e g)
  obtain u rts xs where e: "e = (u, rts, xs)" by (cases e)
  have name: "named_by nm rts" "rts_id rts = u" using Cons.prems(1) e by auto
  have rest: "keeps (at_log ops minv nm hist rows tid n) (run_tasks ops env task g)"
    by (rule Cons.IH) (use Cons.prems in auto)
  show ?case
    unfolding e run_tasks.simps
  proof (rule hoare_bind_eq [OF ensure_log [OF name(1)]], unfold name(2), rule keepsI)
    fix w r w'
    assume at: "at_log ops minv nm hist rows tid n w" and run: "(case on_lake (task u rts (nm u) xs) w of (r, w') \<Rightarrow>
      act_bind (run_tasks ops env task g) (\<lambda>rs. act_return (r # rs)) w') = (r, w')"
    obtain r1 w1 where one: "on_lake (task u rts (nm u) xs) w = (r1, w1)" by fastforce
    have "at_log ops minv nm hist rows tid n w1"
      using task_log [of nm hist rows tid n w "\<lambda>t. task u rts t xs" u r1 w1 "\<lambda>_. n", OF at one] keepsD [OF Cons.prems(2) [of u rts xs]] e by auto
    then show "at_log ops minv nm hist rows tid n w'"
      using keepsD [OF keeps_bind [OF rest keeps_return]] run one by auto
  qed
qed (simp add: keeps_return)

lemma run_tasks_log:
  assumes "\<And>u rts xs. (u, rts, xs) \<in> set g \<Longrightarrow> named_by nm rts \<and> rts_id rts = u" "distinct (map fst g)"
    and "\<And>m u rts xs. (u, rts, xs) \<in> set g \<Longrightarrow> u \<noteq> tid \<Longrightarrow> keeps (reaches hist rows (nm tid) m) (task u rts (nm u) xs)"
    and "\<And>rts xs. (tid, rts, xs) \<in> set g \<Longrightarrow> hoare (reaches hist rows (nm tid) n) (task tid rts (nm tid) xs)
      (\<lambda>_. reaches hist rows (nm tid) e) (reaches hist rows (nm tid) n)" "n \<le> e"
  shows "hoare (at_log ops minv nm hist rows tid n) (run_tasks ops env task g)
    (\<lambda>rs w. at_log ops minv nm hist rows tid (if list_all is_ok rs \<and> tid \<in> fst ` set g then e else n) w) (at_log ops minv nm hist rows tid n)"
  using assms(1-4)
proof (induction g)
  case (Cons x g)
  let ?at = "at_log ops minv nm hist rows tid"
  obtain u rts xs where x: "x = (u, rts, xs)" by (cases x)
  have name: "named_by nm rts" "rts_id rts = u" using Cons.prems(1) x by auto
  have down: "?at e w \<Longrightarrow> ?at n w" for w using assms(5) by (auto simp: at_log_def dest: reaches_trans)
  have own: "?at (if is_ok r1 then e else n) w1" if "u = tid" "?at n w" "on_lake (task u rts (nm u) xs) w = (r1, w1)" for r1 w w1
    using that Cons.prems(4) [of rts xs] x by (cases r1) (auto simp: at_log_def on_lake_def act_on_def is_ok_def hoare_def split: prod.splits)
  have other: "?at m w1" if "u \<noteq> tid" "?at m w" "on_lake (task u rts (nm u) xs) w = (r1, w1)" for m r1 w w1
    using that keepsD [OF Cons.prems(3) [of u rts xs m]] x by (auto simp: at_log_def on_lake_def act_on_def split: prod.splits)
  have rest: "hoare (?at n) (run_tasks ops env task g)
      (\<lambda>rs w. ?at (if list_all is_ok rs \<and> tid \<in> fst ` set g then e else n) w) (?at n)"
    by (rule Cons.IH) (use Cons.prems in auto)
  have others: "keeps (?at m) (run_tasks ops env task g)" if "u = tid" for m
  proof (rule run_tasks_others)
    fix v rts' ys
    assume v: "(v, rts', ys) \<in> set g"
    then show "named_by nm rts' \<and> rts_id rts' = v" using Cons.prems(1) [of v rts' ys] by simp
    have "v \<noteq> tid" using Cons.prems(2) v that x by force
    then show "keeps (reaches hist rows (nm tid) m) (task v rts' (nm v) ys)" using Cons.prems(3) [of v rts' ys m] v by simp
  qed
  show ?case
    unfolding x run_tasks.simps
  proof (rule hoare_bind_eq [OF ensure_log [OF name(1)]], unfold name(2), unfold hoare_def, intro allI impI)
    fix w r w'
    assume at: "?at n w" and run: "(case on_lake (task u rts (nm u) xs) w of (r, w') \<Rightarrow>
      act_bind (run_tasks ops env task g) (\<lambda>rs. act_return (r # rs)) w') = (r, w')"
    obtain r1 w1 where one: "on_lake (task u rts (nm u) xs) w = (r1, w1)" by fastforce
    obtain r2 w2 where two: "run_tasks ops env task g w1 = (r2, w2)" by fastforce
    have end_state: "w' = w2" "r = (case r2 of Inl x \<Rightarrow> Inl x | Inr rs \<Rightarrow> Inr (r1 # rs))"
      using run one two by (auto simp: act_bind_def act_stop split: sum.splits)
    show "case r of Inl _ \<Rightarrow> ?at n w'
        | Inr rs \<Rightarrow> ?at (if list_all is_ok rs \<and> tid \<in> fst ` set ((u, rts, xs) # g) then e else n) w'"
    proof (cases "u = tid")
      case True
      have w1: "?at (if is_ok r1 then e else n) w1" using own [OF True at one] .
      then have "?at (if is_ok r1 then e else n) w2" by (rule keepsD [OF others [OF True] _ two])
      then show ?thesis using end_state down by (cases r2) (auto split: if_splits)
    next
      case False
      note w1 = other [OF False at one]
      show ?thesis using hoareD [OF rest w1] two end_state down False by (cases r2) (auto split: if_splits)
    qed
  qed
qed (simp add: hoare_return)

lemma write_groups_log:
  assumes "order_ok env" "\<And>rts x. (rts, x) \<in> set ps \<Longrightarrow> named_by nm rts"
    and "\<And>m rts x xs. (rts, x) \<in> set ps \<Longrightarrow> rts_id rts \<noteq> tid \<Longrightarrow> keeps (reaches hist rows (nm tid) m) (task (rts_id rts) rts (nm (rts_id rts)) xs)"
    and "\<And>rts x. (rts, x) \<in> set ps \<Longrightarrow> rts_id rts = tid \<Longrightarrow> hoare (reaches hist rows (nm tid) n)
      (task tid rts (nm tid) (entries_for tid ps)) (\<lambda>_. reaches hist rows (nm tid) e) (reaches hist rows (nm tid) n)" "n \<le> e"
  shows "hoare (at_log ops minv nm hist rows tid n) (write_groups ops env task (groups_of ps))
    (\<lambda>_. at_log ops minv nm hist rows tid (if entries_for tid ps = [] then n else e)) (at_log ops minv nm hist rows tid n)"
proof -
  let ?at = "at_log ops minv nm hist rows tid" and ?g = "groups_of ps" and ?h = "arranged (sn_order env) (groups_of ps)"
  have h: "set ?h = set ?g" "distinct (map fst ?h)"
    using arranged_props [OF groups_of_props(1), of "sn_order env" ps] assms(1) by (auto simp: order_ok_def)
  have own: "tid \<in> fst ` set ?h \<longleftrightarrow> entries_for tid ps \<noteq> []"
    using groups_of_props(2) [of ps tid] map_of_eq_None_iff [of ?g tid] h(1) by (auto split: if_splits)
  have tasks: "hoare (?at n) (run_tasks ops (sn_create env) task ?h)
      (\<lambda>rs. ?at (if list_all is_ok rs \<and> tid \<in> fst ` set ?h then e else n)) (?at n)"
  proof (rule run_tasks_log [OF _ h(2) _ _ assms(5)])
    fix u rts xs
    assume "(u, rts, xs) \<in> set ?h"
    then obtain x where x: "rts_id rts = u" "(rts, x) \<in> set ps" "xs = entries_for u ps" using groups_of_entry h(1) by blast
    then show "named_by nm rts \<and> rts_id rts = u" using assms(2) by blast
    show "keeps (reaches hist rows (nm tid) m) (task u rts (nm u) xs)" if "u \<noteq> tid" for m using assms(3) [OF x(2), of m xs] x(1) that by simp
  next
    fix rts xs
    assume "(tid, rts, xs) \<in> set ?h"
    then obtain x where x: "rts_id rts = tid" "(rts, x) \<in> set ps" "xs = entries_for tid ps" using groups_of_entry h(1) by blast
    then show "hoare (reaches hist rows (nm tid) n) (task tid rts (nm tid) xs) (\<lambda>_. reaches hist rows (nm tid) e) (reaches hist rows (nm tid) n)"
      using assms(4) [OF x(2,1)] by simp
  qed
  have join: "hoare (?at (if list_all is_ok rs \<and> tid \<in> fst ` set ?h then e else n)) (join_all rs)
      (\<lambda>_. ?at (if entries_for tid ps = [] then n else e)) (?at n)" for rs
  proof (unfold hoare_def, intro allI impI)
    fix w r w'
    assume at: "?at (if list_all is_ok rs \<and> tid \<in> fst ` set ?h then e else n) w" and run: "join_all rs w = (r, w')"
    have w': "w' = w" using join_all_state [OF run] .
    show "case r of Inl _ \<Rightarrow> ?at n w' | Inr _ \<Rightarrow> ?at (if entries_for tid ps = [] then n else e) w'"
    proof (cases r)
      case (Inl x)
      then show ?thesis using at w' assms(5) reaches_trans [of hist rows "nm tid" e "dl_lake w" n] by (auto simp: at_log_def split: if_splits)
    next
      case (Inr x)
      then show ?thesis using at w' join_all_ok [of rs w x w'] run own by (simp split: if_splits)
    qed
  qed
  have "entries_for tid ps = []" if "?g = []" using that groups_of_props(2) [of ps tid] by (simp split: if_splits)
  then show ?thesis unfolding write_groups_def
    by (intro hoare_when hoare_bind [OF bookkeeping_log(1)] hoare_bind [OF bookkeeping_log(2)] hoare_bind [OF tasks] join) auto
qed

lemma stream_namedD:
  assumes "stream_named nm rts es" "e \<in> set es" "r \<in> set (event_schemas e)"
  shows "named_by nm r" "rts_id r = rts_id rts \<Longrightarrow> r = rts" "rts_id r \<noteq> rts_id rts \<Longrightarrow> nm (rts_id r) \<noteq> nm (rts_id rts)"
  using assms by (auto simp: stream_named_def split: if_splits)

lemma mutation_groups_log:
  assumes "ordered_log hist" "stream_sql_ok dc sq rts (nm (rts_id rts)) ms" "order_ok env" "stream_named nm rts ms" "i \<le> n"
    and "segment hist i (mutation_log dc sq rts (nm (rts_id rts)) (entries_for (rts_id rts) (mutation_pairs ms)))"
  shows "hoare (at_log ops minv nm hist rows (rts_id rts) n)
    (write_groups ops env (\<lambda>tid rts t xs. write_table_mutations dc sq (sn_task env tid) rts t xs) (groups_of (mutation_pairs ms)))
    (\<lambda>_. at_log ops minv nm hist rows (rts_id rts) (max n (i + length (entries_for (rts_id rts) (mutation_pairs ms)))))
    (at_log ops minv nm hist rows (rts_id rts) n)"
proof -
  let ?tid = "rts_id rts" and ?xs = "entries_for (rts_id rts) (mutation_pairs ms)"
  have "hoare (at_log ops minv nm hist rows ?tid n)
      (write_groups ops env (\<lambda>tid rts t xs. write_table_mutations dc sq (sn_task env tid) rts t xs) (groups_of (mutation_pairs ms)))
      (\<lambda>_. at_log ops minv nm hist rows ?tid (if ?xs = [] then n else max n (i + length ?xs))) (at_log ops minv nm hist rows ?tid n)"
  proof (rule write_groups_log [OF assms(3)])
    fix r x
    assume "(r, x) \<in> set (mutation_pairs ms)"
    then obtain e where e: "e \<in> set ms" "r \<in> set (event_schemas e)" using mutation_pairs_schema by fastforce
    note named = stream_namedD [OF assms(4) e]
    show "named_by nm r" by (rule named(1))
    show "keeps (reaches hist rows (nm ?tid) m) (write_table_mutations dc sq (sn_task env (rts_id r)) r (nm (rts_id r)) xs)"
      if "rts_id r \<noteq> ?tid" for m xs
      by (rule keepsI) (rule other_task(1) [OF named(3) [OF that]])
    show "hoare (reaches hist rows (nm ?tid) n) (write_table_mutations dc sq (sn_task env ?tid) r (nm ?tid) ?xs)
      (\<lambda>_. reaches hist rows (nm ?tid) (max n (i + length ?xs))) (reaches hist rows (nm ?tid) n)" if "rts_id r = ?tid"
      using own_mutations [OF assms(1) assms(2) [unfolded stream_sql_ok_def] assms(6,5)] named(2) [OF that] by simp
  qed simp
  then show ?thesis by (rule hoare_weaken) (use assms(5) in \<open>auto split: if_splits\<close>)
qed

lemma truncate_groups_log:
  assumes "ordered_log hist" "order_ok env" "stream_named nm rts ts" "i \<le> n"
    and "segment hist i (truncate_log (entries_for (rts_id rts) (truncate_pairs ts)))"
  shows "hoare (at_log ops minv nm hist rows (rts_id rts) n)
    (write_groups ops env (\<lambda>tid rts t xs. write_table_truncates sq (sn_task env tid) t xs) (groups_of (truncate_pairs ts)))
    (\<lambda>_. at_log ops minv nm hist rows (rts_id rts) (max n (i + length (entries_for (rts_id rts) (truncate_pairs ts)))))
    (at_log ops minv nm hist rows (rts_id rts) n)"
proof -
  let ?tid = "rts_id rts" and ?ys = "entries_for (rts_id rts) (truncate_pairs ts)"
  have "hoare (at_log ops minv nm hist rows ?tid n)
      (write_groups ops env (\<lambda>tid rts t xs. write_table_truncates sq (sn_task env tid) t xs) (groups_of (truncate_pairs ts)))
      (\<lambda>_. at_log ops minv nm hist rows ?tid (if ?ys = [] then n else max n (i + length ?ys))) (at_log ops minv nm hist rows ?tid n)"
  proof (rule write_groups_log [OF assms(2)])
    fix r x
    assume "(r, x) \<in> set (truncate_pairs ts)"
    then obtain e where e: "e \<in> set ts" "r \<in> set (event_schemas e)" using truncate_pairs_schema by fastforce
    note named = stream_namedD [OF assms(3) e]
    show "named_by nm r" by (rule named(1))
    show "keeps (reaches hist rows (nm ?tid) m) (write_table_truncates sq (sn_task env (rts_id r)) (nm (rts_id r)) xs)"
      if "rts_id r \<noteq> ?tid" for m xs
      by (rule keepsI) (rule other_task(2) [OF named(3) [OF that]])
    show "hoare (reaches hist rows (nm ?tid) n) (write_table_truncates sq (sn_task env ?tid) (nm ?tid) ?ys)
      (\<lambda>_. reaches hist rows (nm ?tid) (max n (i + length ?ys))) (reaches hist rows (nm ?tid) n)"
      by (rule own_truncates [OF assms(1,5,4)])
  qed simp
  then show ?thesis by (rule hoare_weaken) (use assms(4) in \<open>auto split: if_splits\<close>)
qed

lemma write_stage_log:
  assumes "ordered_log hist" "stream_sql_ok dc sq rts (nm (rts_id rts)) (ms @ ts)" "order_ok env" "order_ok tenv" "stream_named nm rts (ms @ ts)"
    and "\<forall>e \<in> set ms. \<not> is_truncate e" "\<forall>e \<in> set ts. is_truncate e"
    and "segment hist i (stream_log dc sq rts (nm (rts_id rts)) (ms @ ts))" "i \<le> n"
  shows "hoare (at_log ops minv nm hist rows (rts_id rts) n) (write_stage ops dc sq env tenv (ms, ts))
    (\<lambda>_. at_log ops minv nm hist rows (rts_id rts) (max n (i + length (stream_log dc sq rts (nm (rts_id rts)) (ms @ ts)))))
    (at_log ops minv nm hist rows (rts_id rts) n)"
proof -
  let ?tid = "rts_id rts" and ?at = "at_log ops minv nm hist rows (rts_id rts)"
  let ?xs = "entries_for ?tid (mutation_pairs ms)" and ?ys = "entries_for ?tid (truncate_pairs ts)"
  have logs: "stream_log dc sq rts (nm ?tid) ms = mutation_log dc sq rts (nm ?tid) ?xs"
      "stream_log dc sq rts (nm ?tid) ts = truncate_log ?ys"
    using stream_log_mutations [of ms] stream_log_truncates [of ts] assms(6,7) by auto
  have len: "length (stream_log dc sq rts (nm ?tid) (ms @ ts)) = length ?xs + length ?ys"
    using logs by (simp add: mutation_log_def truncate_log_def)
  have seg: "segment hist i (mutation_log dc sq rts (nm ?tid) ?xs)" "segment hist (i + length ?xs) (truncate_log ?ys)"
    using assms(8) logs by (simp_all add: segment_append mutation_log_def)
  have named: "stream_named nm rts ms" "stream_named nm rts ts" using assms(5) by simp_all
  have "stream_sql_ok dc sq rts (nm ?tid) ms" by (rule stream_sql_ok_mono [OF assms(2)]) simp
  note mut = mutation_groups_log [OF assms(1) this assms(3) named(1) assms(9) seg(1)]
  have "i + length ?xs \<le> max n (i + length ?xs)" by simp
  note trunc = truncate_groups_log [OF assms(1,4) named(2) this seg(2)]
  have second: "hoare (?at (max n (i + length ?xs))) (write_groups ops tenv (\<lambda>tid rts t xs. write_table_truncates sq (sn_task tenv tid) t xs)
      (groups_of (truncate_pairs ts))) (\<lambda>_. ?at (max n (i + length (stream_log dc sq rts (nm ?tid) (ms @ ts))))) (?at n)"
    by (rule hoare_weaken [OF trunc]) (use len in \<open>auto simp: at_log_def add.assoc elim!: reaches_trans\<close>)
  show ?thesis
  proof (cases "collect_mutations ms []")
    case (Inl e)
    then show ?thesis by (auto simp: hoare_def write_stage_def act_bind_def act_try_def)
  next
    case (Inr g)
    then have "g = groups_of (mutation_pairs ms)" using collect_mutations_pairs [OF Inr] by (auto simp: groups_of_def mutation_pairs_def)
    then show ?thesis
      using hoare_bind [OF mut second] Inr by (simp add: write_stage_def hoare_def act_bind_try collect_truncates_def groups_of_def truncate_pairs_def)
  qed
qed

text \<open>A batch of events that is a part of the stream moves the table along its log.\<close>

lemma stages_log:
  assumes "ordered_log hist" "stream_sql_ok dc sq rts (nm (rts_id rts)) (concat (map (\<lambda>(ms, ts). ms @ ts) sts))" "\<And>k. order_ok (env k)"
    and "\<And>ms ts. (ms, ts) \<in> set sts \<Longrightarrow> stream_named nm rts (ms @ ts) \<and> (\<forall>e \<in> set ms. \<not> is_truncate e) \<and> (\<forall>e \<in> set ts. is_truncate e)"
    and "segment hist i (stream_log dc sq rts (nm (rts_id rts)) (concat (map (\<lambda>(ms, ts). ms @ ts) sts)))" "i \<le> n"
  shows "hoare (at_log ops minv nm hist rows (rts_id rts) n)
    (act_each (\<lambda>(k, stage). write_stage ops dc sq (env (2 * k)) (env (2 * k + 1)) stage) (enumerate j sts))
    (\<lambda>_. at_log ops minv nm hist rows (rts_id rts)
       (max n (i + length (stream_log dc sq rts (nm (rts_id rts)) (concat (map (\<lambda>(ms, ts). ms @ ts) sts)))))
    ) (at_log ops minv nm hist rows (rts_id rts) n)"
  using assms(2,4-6)
proof (induction sts arbitrary: i n j)
  case Nil
  then show ?case by (auto simp: stream_log_def at_log_def max_def intro!: hoare_return)
next
  case (Cons st sts)
  obtain ms ts where st: "st = (ms, ts)" by (cases st)
  let ?log = "stream_log dc sq rts (nm (rts_id rts))" and ?rest = "concat (map (\<lambda>(ms, ts). ms @ ts) sts)"
  have kinds: "stream_named nm rts (ms @ ts)" "\<forall>e \<in> set ms. \<not> is_truncate e" "\<forall>e \<in> set ts. is_truncate e"
    using Cons.prems(2) [of ms ts] st by auto
  have seg: "segment hist i (?log (ms @ ts))" "segment hist (i + length (?log (ms @ ts))) (?log ?rest)"
    using Cons.prems(3) segment_append [of hist i "?log (ms @ ts)" "?log ?rest"] st by simp_all
  have ok: "stream_sql_ok dc sq rts (nm (rts_id rts)) (ms @ ts)" "stream_sql_ok dc sq rts (nm (rts_id rts)) ?rest"
    by (rule stream_sql_ok_mono [OF Cons.prems(1)], force simp: st)+
  note first = write_stage_log [OF assms(1) ok(1) assms(3) [of "2 * j"] assms(3) [of "2 * j + 1"] kinds seg(1) Cons.prems(4), of rows]
  have "hoare (at_log ops minv nm hist rows (rts_id rts) (max n (i + length (?log (ms @ ts)))))
      (act_each (\<lambda>(k, stage). write_stage ops dc sq (env (2 * k)) (env (2 * k + 1)) stage) (enumerate (Suc j) sts))
      (\<lambda>_. at_log ops minv nm hist rows (rts_id rts) (max (max n (i + length (?log (ms @ ts)))) (i + length (?log (ms @ ts)) + length (?log ?rest))))
      (at_log ops minv nm hist rows (rts_id rts) (max n (i + length (?log (ms @ ts)))))"
    by (rule Cons.IH [OF ok(2) _ seg(2)]) (use Cons.prems(2) in auto)
  then have rest: "hoare (at_log ops minv nm hist rows (rts_id rts) (max n (i + length (?log (ms @ ts)))))
      (act_each (\<lambda>(k, stage). write_stage ops dc sq (env (2 * k)) (env (2 * k + 1)) stage) (enumerate (Suc j) sts))
      (\<lambda>_. at_log ops minv nm hist rows (rts_id rts) (max n (i + length (?log (concat (map (\<lambda>(ms, ts). ms @ ts) (st # sts)))))))
      (at_log ops minv nm hist rows (rts_id rts) n)"
    by (rule hoare_weaken) (use st in \<open>auto simp: at_log_def elim!: reaches_trans\<close>)
  show ?case unfolding enumerate_simps act_each.simps prod.case st by (rule hoare_bind [OF first]) (use rest st in simp)
qed

lemma write_events_log:
  assumes "ordered_log hist" "stream_sql_ok dc sq rts (nm (rts_id rts)) es" "\<And>k. order_ok (env k)" "stream_named nm rts es"
    and "segment hist i (stream_log dc sq rts (nm (rts_id rts)) es)" "i \<le> n"
  shows "hoare (at_log ops minv nm hist rows (rts_id rts) n) (write_events_inner ops dc sq env es)
    (\<lambda>_. at_log ops minv nm hist rows (rts_id rts) (max n (i + length (stream_log dc sq rts (nm (rts_id rts)) es))))
    (at_log ops minv nm hist rows (rts_id rts) n)"
proof -
  have cover: "concat (map (\<lambda>(ms, ts). ms @ ts) (stages es)) = es" using stages_cover [of es] by blast
  have kinds: "stream_named nm rts (ms @ ts) \<and> (\<forall>e \<in> set ms. \<not> is_truncate e) \<and> (\<forall>e \<in> set ts. is_truncate e)"
    if "(ms, ts) \<in> set (stages es)" for ms ts
  proof -
    have "set es = (\<Union>st \<in> set (stages es). set (fst st @ snd st))" by (subst cover [symmetric]) (auto split: prod.splits)
    then have "set (ms @ ts) \<subseteq> set es" using that by force
    then have "stream_named nm rts (ms @ ts)" using assms(4) unfolding stream_named_def by blast
    then show ?thesis using that stages_cover [of es] by blast
  qed
  show ?thesis
    unfolding write_events_inner_def
    by (rule stages_log [where env = env and sts = "stages es" and j = 0, unfolded cover]) (use assms kinds in auto)
qed

end

section \<open>Deliveries\<close>

text \<open>
  The batches the destination receives from a stream of events, and the number of events it has
  acknowledged. A batch begins at or before that position; it may fail at any statement, after
  any of its tables. A restart closes the connections, empties the caches of the destination
  and may reload the store.
\<close>

inductive events_delivered ::
    "'s store_ops \<Rightarrow> ('s \<Rightarrow> bool) \<Rightarrow> duck_codec \<Rightarrow> duck_sql \<Rightarrow> (table_id \<Rightarrow> string) \<Rightarrow> event list \<Rightarrow> 's ducklake \<Rightarrow> nat \<Rightarrow> 's ducklake \<Rightarrow> bool"
    for ops minv dc sq nm events w0 where
  events_start: "events_delivered ops minv dc sq nm events w0 0 w0"
| events_batch: "events_delivered ops minv dc sq nm events w0 a w \<Longrightarrow> i \<le> a \<Longrightarrow> i + m \<le> length events \<Longrightarrow> (\<forall>k. order_ok (env k)) \<Longrightarrow>
    write_events_inner ops dc sq env (take m (drop i events)) w = (r, w') \<Longrightarrow>
    events_delivered ops minv dc sq nm events w0 (if is_ok r then max a (i + m) else a) w'"
| events_restart: "events_delivered ops minv dc sq nm events w0 a w \<Longrightarrow> minv s' \<Longrightarrow> names_known ops nm s' \<Longrightarrow>
    events_delivered ops minv dc sq nm events w0 a \<lparr> dl_store = s', dl_created = [], dl_batches_created = False,
      dl_progress_created = False, dl_lake = (dl_lake w) \<lparr> lk_tx := None \<rparr> \<rparr>"

lemma stream_log_take_mono: "i \<le> j \<Longrightarrow> length (stream_log dc sq rts t (take i es)) \<le> length (stream_log dc sq rts t (take j es))"
  using stream_log_append [of dc sq rts t "take i es" "take (j - i) (drop i es)"] take_add [of i "j - i" es] by simp

lemma stream_log_take_add:
  "length (stream_log dc sq rts t (take i es)) + length (stream_log dc sq rts t (take m (drop i es))) = length (stream_log dc sq rts t (take (i + m) es))"
  by (simp add: take_add)

lemma stream_log_segment:
  "segment (stream_log dc sq rts t es) (length (stream_log dc sq rts t (take i es))) (stream_log dc sq rts t (take m (drop i es)))"
proof -
  let ?log = "stream_log dc sq rts t"
  have "es = take i es @ take m (drop i es) @ drop m (drop i es)" by (simp only: append_take_drop_id)
  then have "?log es = ?log (take i es) @ ?log (take m (drop i es)) @ ?log (drop m (drop i es))" by (metis stream_log_append)
  then show ?thesis by (simp add: segment_def)
qed

context metadata_store
begin

lemma delivered_log:
  assumes "events_delivered ops minv dc sq nm events w0 a w" "ordered_log (stream_log dc sq rts (nm (rts_id rts)) events)"
    and "stream_sql_ok dc sq rts (nm (rts_id rts)) events" "stream_named nm rts events"
    and "at_log ops minv nm (stream_log dc sq rts (nm (rts_id rts)) events) rows (rts_id rts) 0 w0"
  shows "at_log ops minv nm (stream_log dc sq rts (nm (rts_id rts)) events) rows (rts_id rts)
    (length (stream_log dc sq rts (nm (rts_id rts)) (take a events))) w"
  using assms(1)
proof (induction rule: events_delivered.induct)
  case events_start
  then show ?case using assms(5) by (simp add: stream_log_def)
next
  case (events_batch a w i m env r w')
  let ?log = "stream_log dc sq rts (nm (rts_id rts))"
  let ?a = "length (?log (take a events))" and ?i = "length (?log (take i events))"
  have "set (take m (drop i events)) \<subseteq> set events" by (meson in_set_dropD in_set_takeD subsetI)
  note sub = this
  then have named: "stream_named nm rts (take m (drop i events))" using assms(4) unfolding stream_named_def by blast
  have le: "?i \<le> ?a" by (rule stream_log_take_mono [OF events_batch.hyps(2)])
  have order: "order_ok (env k)" for k using events_batch.hyps(4) by blast
  have ok: "stream_sql_ok dc sq rts (nm (rts_id rts)) (take m (drop i events))"
    by (rule stream_sql_ok_mono [OF assms(3) sub])
  note step = write_events_log [where env = env, OF assms(2) ok order named stream_log_segment le, of rows]
  have "max ?a (length (?log (take (i + m) events))) = length (?log (take (max a (i + m)) events))"
    using stream_log_take_mono [of a "i + m" dc sq rts "nm (rts_id rts)" events] stream_log_take_mono [of "i + m" a dc sq rts "nm (rts_id rts)" events]
    by (cases "a \<le> i + m") (auto simp: max_def)
  then show ?case
    using hoareD [OF step events_batch.IH] events_batch.hyps(5) unfolding stream_log_take_add by (cases r) (simp_all add: is_ok_def)
next
  case (events_restart a w s')
  then obtain n where n: "length (stream_log dc sq rts (nm (rts_id rts)) (take a events)) \<le> n"
      "lake_at (stream_log dc sq rts (nm (rts_id rts)) events) rows (nm (rts_id rts)) n (dl_lake w)"
    by (auto simp: at_log_def reaches_def)
  have "lake_at (stream_log dc sq rts (nm (rts_id rts)) events) rows (nm (rts_id rts)) n ((dl_lake w) \<lparr> lk_tx := None \<rparr>)"
    by (rule lake_at_keeps [OF n(2)]) simp_all
  then show ?case using n(1) events_restart.hyps(2,3) by (auto simp: at_log_def reaches_def)
qed

end

interpretation mem_metadata: metadata_store memory_store_ops "\<lambda>s. bt_ok (mem_metadata s)"
  by unfold_locales (auto simp: memory_store_ops_def mem_store_metadata_def mem_get_metadata_def bt_get_insert is_ok_def)


section \<open>Order\<close>





























end
