(* ===== verification/Spec2Isabelle.thy ===== *)
theory Spec2Isabelle
  imports Apply_Start Apply_Runs Worker_Runs Store_Agreement Table_Handover Schema_Cleanup Numeric
    Table_Sync Pipeline Ducklake_Delivery
begin

text \<open>
  Verification of the Supabase ETL replication pipeline, the Rust workspace under
  \<open>src/crates\<close>. The pipeline copies the tables of a Postgres publication to a destination and
  then follows the logical replication stream. All paths below are relative to \<open>src/crates\<close>.

  \<^bold>\<open>The program.\<close> A pipeline (\<open>etl/src/pipeline.rs\<close>) brings the stored table states in line with
  the publication and starts the apply worker. The apply worker (\<open>etl/src/workers/apply.rs\<close>)
  finds the position to start from and runs the apply loop (\<open>etl/src/replication/apply.rs\<close>): it
  decodes protocol messages into events, collects them in batches, hands a batch to the
  destination, and confirms a position to Postgres and to the store only when the destination has
  acknowledged the batch. For every table that is not ready, the loop starts a table sync worker
  (\<open>etl/src/workers/table_sync.rs\<close>, \<open>etl/src/replication/table_sync.rs\<close>), which copies the table in
  the snapshot of a slot of its own, catches up with the apply loop, and hands the table over.
  Phases, progress, schema versions and destination metadata live in a store, in memory or in
  tables of the source database. The DuckLake destination (\<open>etl-destinations/src/ducklake\<close>) is
  the one destination that is modelled.

  \<^bold>\<open>Foundations.\<close>
  \<^item> \<open>Etl_Prelude\<close>: machine types, results, checked and saturating arithmetic, shared lemmas.
  \<^item> \<open>BTree_Map\<close>, \<open>Decimal_Text\<close>: ordered maps and decimal text of the Rust standard library.
  \<^item> \<open>Etl_Error\<close>: \<open>etl/src/error.rs\<close> and \<open>workers/policy.rs\<close>.
  \<^item> \<open>Effects\<close>: asynchronous fallible code as state transformers, with triples that have one
    postcondition for a value and one for an error; most invariants are proved by its rules.

  \<^bold>\<open>Schemas, phases and stores.\<close>
  \<^item> \<open>Schema\<close>, \<open>Schema_Snapshots\<close>: \<open>etl-postgres/src/types/schema.rs\<close> and the index of schema
    versions \<open>etl/src/store/schema/table.rs\<close>; the lookup contract is the locale \<open>version_lookup\<close>.
  \<^item> \<open>Table_Phase\<close>: \<open>etl/src/state/table.rs\<close>, with the round trip of stored phases.
  \<^item> \<open>Store_Interface\<close>: the store traits as the record \<open>store_ops\<close>, their contract as the locales
    \<open>state_store\<close> and \<open>pipeline_store\<close>. \<open>Memory_Store\<close> and \<open>Postgres_Store\<close> (over the SQL tables of
    \<open>Postgres_Tables\<close>) model every method and interpret the contract; \<open>Store_Agreement\<close> shows that
    both refine one abstract store.

  \<^bold>\<open>Values and events.\<close>
  \<^item> \<open>Cells\<close>, \<open>Numeric\<close>, \<open>Numeric_Text\<close>, \<open>Copy_Rows\<close>, \<open>Typed_Rows\<close>: the parsers of
    \<open>etl/src/conversions\<close>, printing and binary form of numerics, round trips, and the typing of
    decoded rows.
  \<^item> \<open>Events\<close>, \<open>Event_Decoding\<close>: events, protocol messages, and their decoding.

  \<^bold>\<open>Workers.\<close>
  \<^item> \<open>Apply_State\<close>, \<open>Apply_Sync\<close>, \<open>Apply_Loop\<close> with \<open>Table_Cache\<close>, \<open>Async_Result\<close> and
    \<open>Status_Updates\<close>: the apply loop, one action per method. \<open>Apply_Invariant\<close>, \<open>Apply_Safety\<close> and
    \<open>Apply_Iterations\<close> prove its invariants for every store that fulfils the contract, and
    \<open>Apply_Runs\<close> lifts them to runs with any interleaving of the destination, the other workers
    and the cleanup task.
  \<^item> \<open>Worker_State\<close>, \<open>Worker_Pool\<close>, \<open>Worker_Runs\<close>: table sync workers, their retries, their pool.
  \<^item> \<open>Slots\<close>, \<open>Source_Client\<close>, \<open>Copy_Partitions\<close>: slot names and the client of the source database.
  \<^item> \<open>Batch_Stream\<close>, \<open>Table_Copy\<close>, \<open>Parallel_Copy\<close>, \<open>Table_Sync\<close>: batching under memory pressure
    and the copy of a table, serial or parallel, up to the catch-up.
  \<^item> \<open>Catchup_Loop\<close>, \<open>Table_Handover\<close>: the apply loop run by a table sync worker until its catch-up
    ends, with an invariant beside those of \<open>Apply_Invariant\<close>; the \<open>SyncDone\<close> position the loop
    stores divides the transactions between the two workers, none twice and none left out.
  \<^item> \<open>Apply_Start\<close>, \<open>Pipeline\<close>, \<open>Schema_Cleanup\<close>: the start position, the start of a pipeline, and
    the removal of schema versions.

  \<^bold>\<open>Destinations.\<close>
  \<^item> \<open>Table_Names\<close>, \<open>Destination_Retry\<close>: \<open>etl-destinations/src/table_name.rs\<close> and \<open>retry.rs\<close>.
  \<^item> \<open>Ducklake_Values\<close>, \<open>Ducklake_Batches\<close>, \<open>Ducklake_Apply\<close>, \<open>Ducklake_Core\<close>: \<open>encoding.rs\<close>,
    \<open>batches.rs\<close> and \<open>core.rs\<close> of the DuckLake destination, down to the statements of a
    transaction, any of which may fail.
  \<^item> \<open>Ducklake_Replay\<close>, \<open>Ducklake_Delivery\<close>: delivery is exactly once per table. The destination
    relies on the store through the locale \<open>metadata_store\<close>, which both stores interpret.

  This theory composes the apply loop, the store and the start position: a restart after a crash
  loses no transaction.

  \<^bold>\<open>How to read the theorems.\<close> Choices of the environment (clock, scheduling, failing calls, the
  order of a hash map) are arguments, so a theorem holds for all of them. Code of other crates and
  the servers are parameters; what is assumed of them is a named predicate among the hypotheses,
  for example \<open>stream_sql_ok\<close> for DuckDB and \<open>slot_confirms\<close> for the confirmed position of a slot.
  Every property with hypotheses is followed by an instance in which they hold.

  \<^bold>\<open>Bounds.\<close> The loops of the retry helpers take fuel; \<open>retry_loop_returns\<close>, \<open>apply_retries_end\<close>
  and \<open>retry_with_backoff_ends\<close> prove that one more than the configured number of attempts is
  enough. All other recursion is structural or has a termination proof. Positions, table ids and
  ordinals are words of their width; integers inside cells are shown to be in range.

  \<^bold>\<open>Not modelled.\<close> The destinations BigQuery, ClickHouse, Iceberg and Snowflake: their logic is the
  encoding for generated or third-party clients and calls of remote services whose behaviour the
  sources do not define. Of DuckLake: connection pools, the query watchdog, set-up statements,
  configuration, metrics and maintenance. The maintenance service, the HTTP API, the replicator
  binary, configuration loading, telemetry, database pools, developer tools and tests: request
  handling, process start and wiring of libraries around the pipeline. Metrics, logging and
  details of error messages are left out everywhere, as no branch reads them.
\<close>

section \<open>A restart after a crash\<close>

text \<open>
  What Postgres may hold as the confirmed position of a slot that one run of the apply loop
  has used: the position the run started from, or a position the run reported, or less.
\<close>

definition slot_confirms :: "lsn \<Rightarrow> 's apply_loop \<Rightarrow> lsn \<Rightarrow> bool" where
  "slot_confirms start_lsn lp x \<longleftrightarrow> x \<le> start_lsn \<or> list_ex (\<lambda>u. x \<le> su_flush u) (es_sent (al_stream lp))"

text \<open>Postgres sends only transactions that end after the position the stream was started at.\<close>

definition streams_after :: "lsn \<Rightarrow> 's apply_loop \<Rightarrow> bool" where
  "streams_after start_lsn lp \<longleftrightarrow> list_all (\<lambda>x. start_lsn < x) (ends (al_produced lp))"

lemma unacknowledged_end:
  assumes "e \<in> set rest" "commit_end_of e = Some x"
  shows "x \<in> set (ends (acked @ rest))"
  using assms by (induction rest) (auto simp: ends_def split: option.splits)

text \<open>
  C2. A crash loses nothing. Let the apply loop on the Postgres store stop at any point of
  any run, and let a new process look for its start position in the same database. Then
  either a fresh slot was made, with every table in phase Init, so that all tables are copied
  again; or the position lies below the end of every commit the destination had not
  acknowledged, so that Postgres sends those transactions again. The slot is assumed to hold
  a confirmed position as Postgres keeps it, and the first stream to hold only transactions
  after its start.
\<close>

theorem restart_loses_nothing:
  assumes run: "loop_state cfg (pg_inv c) (\<lambda>s. pg_progress_of s Apply) (start_loop cfg now start_lsn slot sh) lp"
    and cfg: "lc_ops cfg = postgres_store_ops c known" "lc_worker cfg = Apply"
    and first: "pg_inv c (sh_store sh)" "\<And>d. pg_progress_of (sh_store sh) Apply = Some d \<Longrightarrow> d \<le> start_lsn"
    and stream: "streams_after start_lsn lp"
    and slot: "\<And>name y. get_slot src name (pw_source p) = Inr y \<Longrightarrow> slot_confirms start_lsn lp (gsr_confirmed_flush_lsn y)"
    and store: "pg_inv c (pw_store p)" "pg_progress_of (pw_store p) Apply = pg_progress_of (sh_store (al_shared lp)) Apply"
    and restart: "get_start_lsn (postgres_store_ops c known') src pid b p = (Inr l, p')"
  shows "(\<exists>name. fresh_start (pg_inv c) pg_phase_of pg_progress_of src name l p') \<or>
     (\<exists>rest. al_produced lp = al_acked lp @ rest \<and>
        (\<forall>e x. e \<in> set rest \<longrightarrow> commit_end_of e = Some x \<longrightarrow> l < x))"
proof -
  obtain rest where rest: "al_produced lp = al_acked lp @ rest" and
      above: "\<And>e x. e \<in> set rest \<Longrightarrow> commit_end_of e = Some x \<Longrightarrow>
        (\<forall>d. pg_progress_of (sh_store (al_shared lp)) Apply = Some d \<longrightarrow> d < x) \<and>
        (\<forall>u \<in> set (es_sent (al_stream lp)). su_flush u < x)"
    using confirmed_only_acknowledged [OF pg_store.run_started [OF run cfg first]] by blast
  have confirmed: "y < x" if "e \<in> set rest" "commit_end_of e = Some x" "slot_confirms start_lsn lp y" for e x y
    using that(3) above [OF that(1,2)] unacknowledged_end [OF that(1,2), of "al_acked lp"] stream rest
    by (auto simp: slot_confirms_def streams_after_def list_ex_iff list_all_iff intro: le_less_trans)
  show ?thesis
    using pg_reset.start_effect [OF store(1) restart] above confirmed slot store(2) rest
    by (fastforce split: option.splits)
qed

definition early_slot_source :: "unit source" where
  "early_slot_source = one_slot_source \<lparr> src_parse_lsn := \<lambda>_. Some 10 \<rparr>"

lemma example_committed_simps:
  "al_produced (example_committed ops sh) = example_events" "al_acked (example_committed ops sh) = []"
  "al_shared (example_committed ops sh) = sh"
  by (simp_all add: example_committed_def start_loop_def Let_def)

lemma example_restart:
  "get_start_lsn (postgres_store_ops unary_codec []) early_slot_source 1 BehaviorError
     \<lparr> pw_store = example_pg, pw_source = () \<rparr> = (Inr 10, \<lparr> pw_store = example_pg, pw_source = () \<rparr>)"
  by (simp add: get_start_lsn_def slot_name_result_def for_apply_worker_def name_of_slot_simps act_bind_def act_try_def
      on_source_def act_on_def act_call_def get_or_create_slot_def get_slot_def early_slot_source_def one_slot_source_def
      source_reply_def get_row_value_def ask_source_def get_slot_state_def ask_store_def postgres_store_ops_def
      pg_get_progress_def example_pg_def pg_new_def sql_get_progress_def act_stop)

text \<open>A crash between the commit and the flush of its batch: the restart streams from position 10, below the commit at 30.\<close>

theorem restart_loses_nothing_witness:
  "\<exists>(lp :: postgres_store apply_loop) rest. length rest = 2 \<and> al_produced lp = al_acked lp @ rest \<and>
     (\<forall>e x. e \<in> set rest \<longrightarrow> commit_end_of e = Some x \<longrightarrow> 10 < x)"
proof -
  let ?ops = "postgres_store_ops unary_codec []"
  let ?lp = "example_committed ?ops (example_shared example_pg)"
  let ?p = "\<lparr> pw_store = example_pg, pw_source = () \<rparr>"
  have "loop_state (example_config ?ops) (pg_inv unary_codec) (\<lambda>s. pg_progress_of s Apply)
      (start_loop (example_config ?ops) 0 10 [] (example_shared example_pg)) ?lp"
    unfolding loop_state_def
    by (rule disjI1, rule example_committed_reach) (simp add: postgres_store_ops_def example_shared_def example_pg_def pg_new_def pg_get_states_def)
  moreover have "streams_after 10 ?lp" by (simp add: streams_after_def example_committed_simps example_events_def ends_def word_less_nat_alt)
  moreover have "slot_confirms 10 ?lp (gsr_confirmed_flush_lsn y)" if "get_slot early_slot_source name () = Inr y" for name y
    using that by (auto simp: slot_confirms_def get_slot_def early_slot_source_def one_slot_source_def source_reply_def
        get_row_value_def)
  ultimately show ?thesis
    using restart_loses_nothing [of "example_config ?ops" unary_codec 0 10 "[]" "example_shared example_pg" ?lp "[]"
        early_slot_source ?p "[]" 1 BehaviorError 10 ?p] example_restart example_pg_start
    by (auto simp: example_config_def [of ?ops] example_committed_simps example_shared_def example_events_def fresh_start_def
        intro!: exI [of _ ?lp])
qed

end
